(* ===== verification/Prelude.thy ===== *)
theory Prelude
  imports Main "HOL-Library.Word"
begin

text \<open>
  Shared vocabulary of the development.

  \<^item> Machine integers of the C++ sources as words of their width.
  \<^item> The ways a simulation can stop abnormally (\<open>sim_error\<close>) and the result type
    \<open>'a res\<close> of an operation that may do so.
  \<^item> Named theorem collections: \<open>smap_simps\<close> (rewriting of ordered maps), \<open>inv_intros\<close>
    (invariant preservation).
  \<^item> Generic facts on lists and on unsigned machine arithmetic.
\<close>

unbundle bit_operations_syntax

section \<open>Machine integers\<close>

type_synonym u8 = "8 word"
type_synonym u16 = "16 word"
type_synonym u32 = "32 word"
type_synonym u64 = "64 word"

abbreviation UINT32_MAX :: u32 where
  "UINT32_MAX \<equiv> - 1"

abbreviation UINT64_MAX :: u64 where
  "UINT64_MAX \<equiv> - 1"

section \<open>Abnormal ends of an operation\<close>

text \<open>
  \<open>Fatal\<close> is \<^verbatim>\<open>SCP_FATAL\<close>, \<open>Report_error\<close> is \<^verbatim>\<open>SC_REPORT_ERROR\<close>,
  \<open>Assert_failed\<close> a failing \<^verbatim>\<open>assert\<close> or \<^verbatim>\<open>sc_assert\<close>,
  \<open>Out_of_bounds\<close> an access outside an array, \<open>Null_pointer\<close> an access through a null pointer and
  \<open>Div_by_zero\<close> a division by zero, \<open>Bad_shift\<close> a shift by the width of the type or more
  (all four undefined behaviour in C++), \<open>Bad_argument\<close> the exception of a library function that
  cannot convert its argument, and \<open>No_return\<close> a loop that has not finished within the fuel it was given.
\<close>

datatype sim_error =
    Fatal | Report_error | Assert_failed | Out_of_bounds | Null_pointer | Div_by_zero | Bad_shift
  | Bad_argument | No_return

type_synonym 'a res = "sim_error + 'a"

definition bind_res :: "'a res \<Rightarrow> ('a \<Rightarrow> 'b res) \<Rightarrow> 'b res" where
  "bind_res r f = (case r of Inl e \<Rightarrow> Inl e | Inr x \<Rightarrow> f x)"

definition assert_res :: "bool \<Rightarrow> 'a res \<Rightarrow> 'a res" where
  "assert_res b r = (if b then r else Inl Assert_failed)"

named_theorems smap_simps
named_theorems inv_intros

lemma bind_res_simps [simp]:
  "bind_res (Inl e) f = Inl e"
  "bind_res (Inr x) f = f x"
  by (simp_all add: bind_res_def)

lemma bind_res_eq_Inr [simp]:
  "bind_res r f = Inr y \<longleftrightarrow> (\<exists>x. r = Inr x \<and> f x = Inr y)"
  by (cases r) simp_all

lemma assert_res_eq_Inr [simp]:
  "assert_res b r = Inr y \<longleftrightarrow> b \<and> r = Inr y"
  by (simp add: assert_res_def)

lemma assert_res_True [simp]: "assert_res True r = r"
  by (simp add: assert_res_def)

fun mapM_res :: "('a \<Rightarrow> 'b res) \<Rightarrow> 'a list \<Rightarrow> 'b list res" where
  "mapM_res f [] = Inr []"
| "mapM_res f (x # xs) = bind_res (f x) (\<lambda>y. bind_res (mapM_res f xs) (\<lambda>ys. Inr (y # ys)))"

lemma mapM_res_length: "mapM_res f xs = Inr ys \<Longrightarrow> length ys = length xs"
  by (induction xs arbitrary: ys) auto

lemma mapM_res_nth: "mapM_res f xs = Inr ys \<Longrightarrow> i < length xs \<Longrightarrow> f (xs ! i) = Inr (ys ! i)"
  by (induction xs arbitrary: ys i) (auto simp: nth_Cons split: nat.splits)

lemma bind_res_assoc: "bind_res (bind_res x f) g = bind_res x (\<lambda>y. bind_res (f y) g)"
  by (cases x) auto

lemma mapM_res_set: "mapM_res f xs = Inr ys \<Longrightarrow> y \<in> set ys \<Longrightarrow> \<exists>x \<in> set xs. f x = Inr y"
  by (induction xs arbitrary: ys) auto

section \<open>Lists\<close>

lemma takeWhile_last_prop:
  assumes "takeWhile P xs \<noteq> []"
  shows "P (last (takeWhile P xs))"
  using assms by (meson last_in_set set_takeWhileD)

lemma sorted_wrt_filter_fst:
  "sorted_wrt R (map f xs) \<Longrightarrow> sorted_wrt R (map f (filter P xs))"
  by (induction xs) auto

section \<open>Unsigned arithmetic\<close>

lemma word_diff_mono_le:
  fixes a b c :: "'a::len word"
  assumes "a \<le> b" "b \<le> c"
  shows "b - a \<le> c - a"
  using assms by (simp add: word_le_nat_alt unat_sub_if' )

lemma word_less_end_le:
  fixes a e :: "'a::len word"
  assumes "s < e"
  shows "a < e \<longleftrightarrow> a \<le> e - 1"
  using assms by unat_arith

lemma word_less_imp_less_max: "(x :: 'a::len word) < y \<Longrightarrow> x < - 1"
  by (rule less_le_trans[of x y]) simp_all

lemma filter_unique:
  assumes "distinct xs" "x \<in> set xs" "P x" "\<And>y. y \<in> set xs \<Longrightarrow> P y \<Longrightarrow> y = x"
  shows "filter P xs = [x]"
proof -
  have "filter P xs = filter (\<lambda>y. y = x) xs" using assms(3,4) by (intro filter_cong) blast+
  also have "\<dots> = [x]" using assms(1,2) by (induction xs) (auto simp: filter_empty_conv)
  finally show ?thesis .
qed

lemma fold_guarded: "fold (\<lambda>x s. if P x then f x s else s) xs s = fold f (filter P xs) s"
  by (induction xs arbitrary: s) auto

lemma find_SomeD: "find P xs = Some x \<Longrightarrow> x \<in> set xs \<and> P x"
  by (auto simp: find_Some_iff)

lemma unat_plus_nowrap:
  assumes "(b :: 'a::len word) \<le> b + e" "s \<le> e"
  shows "unat (b + s) = unat b + unat s"
proof -
  have "unat b + unat e < 2 ^ LENGTH('a)" using assms(1) by (simp add: no_olen_add_nat)
  then have "unat b + unat s < 2 ^ LENGTH('a)" using assms(2) unfolding word_le_nat_alt by linarith
  then show ?thesis by (rule unat_add_lem[THEN iffD1])
qed

lemma word_rebase:
  assumes "(b :: 'a::len word) \<le> b + e" "s \<le> e"
  shows "b + s \<le> a \<Longrightarrow> a \<le> b + e \<Longrightarrow> s \<le> a - b \<and> a - b \<le> e"
    and "b \<le> a \<Longrightarrow> s \<le> a - b \<Longrightarrow> a - b \<le> e \<Longrightarrow> b + s \<le> a \<and> a \<le> b + e"
proof -
  note u = unat_plus_nowrap[OF assms] unat_plus_nowrap[OF assms(1) order_refl]
  have sub: "unat (a - b) = unat a - unat b" if "b \<le> a" using that by (rule unat_sub)
  show "s \<le> a - b \<and> a - b \<le> e" if "b + s \<le> a" "a \<le> b + e"
  proof -
    have "b \<le> a" using that(1) u(1) unfolding word_le_nat_alt by linarith
    then show ?thesis using that u sub unfolding word_le_nat_alt by linarith
  qed
  show "b + s \<le> a \<and> a \<le> b + e" if "b \<le> a" "s \<le> a - b" "a - b \<le> e"
    using that u sub unfolding word_le_nat_alt by linarith
qed

lemma find_append_None: "find P xs = None \<Longrightarrow> find P (xs @ ys) = find P ys"
  by (induction xs) (auto split: if_splits)

lemma find_None_ball: "find P xs = None \<longleftrightarrow> (\<forall>x \<in> set xs. \<not> P x)"
  by (auto simp: find_None_iff)

lemma word_succ_le: "(x :: 'a::len word) < a \<Longrightarrow> x < x + 1 \<and> x + 1 \<le> a"
  by unat_arith

lemma unat_ucast_32_64: "unat (ucast (n :: u32) :: u64) = unat n"
proof -
  have "unat n < 2 ^ 32" using unsigned_less[of n] by simp
  then show ?thesis by (simp add: unsigned_ucast_eq take_bit_nat_eq_self_iff)
qed

lemma u64_less: "unat (x :: u64) < 2 ^ 64"
  using unsigned_less[of x, where ?'a = nat] by simp

lemma uint_take_bit_u32: "uint (take_bit k (x :: u32)) = uint x mod 2 ^ min k 32"
proof -
  have self: "take_bit 32 (uint x) = uint x"
    using uint_bounded[of x] by (simp add: take_bit_int_eq_self_iff)
  have "uint (take_bit k x) = take_bit k (take_bit 32 (uint x))"
    by (simp only: unsigned_take_bit_eq self)
  also have "\<dots> = take_bit (min k 32) (uint x)" by (simp only: take_bit_take_bit)
  finally show ?thesis by (simp only: take_bit_eq_mod)
qed

lemma take_bit_distance_Suc:
  fixes prodv cns :: u32
  assumes "take_bit k prodv \<noteq> take_bit k cns"
  shows "unat (take_bit k (prodv - cns)) = Suc (unat (take_bit k (prodv - take_bit k (cns + 1))))"
proof -
  let ?m = "2 ^ min k 32 :: int"
  let ?p = "uint prodv" and ?c = "uint cns"
  have dvd: "?m dvd 2 ^ 32" by (rule le_imp_power_dvd) simp
  have sub: "uint (take_bit k (a - b)) = (uint a - uint b) mod ?m" for a b :: u32
    using dvd by (simp add: uint_take_bit_u32 uint_word_ariths mod_mod_cancel)
  have inc: "uint (take_bit k (cns + 1)) = (?c + 1) mod ?m"
    using dvd by (simp add: uint_take_bit_u32 uint_word_ariths mod_mod_cancel)
  have ne: "(?p - ?c) mod ?m \<noteq> 0"
  proof
    assume "(?p - ?c) mod ?m = 0"
    then have "?p mod ?m = ?c mod ?m" by (simp add: mod_eq_dvd_iff dvd_eq_mod_eq_0)
    then have "uint (take_bit k prodv) = uint (take_bit k cns)" by (simp only: uint_take_bit_u32)
    then show False using assms by (simp add: word_uint_eq_iff)
  qed
  have "uint (take_bit k (prodv - take_bit k (cns + 1))) = (?p - ?c - 1) mod ?m"
    by (simp add: sub inc mod_diff_right_eq diff_diff_eq)
  also have "\<dots> = (?p - ?c) mod ?m - 1"
  proof -
    have "0 < ?m" by simp
    then have b: "0 \<le> (?p - ?c) mod ?m" "(?p - ?c) mod ?m < ?m" by simp_all
    have "(?p - ?c - 1) mod ?m = ((?p - ?c) mod ?m - 1) mod ?m" by (simp add: mod_diff_left_eq)
    also have "\<dots> = (?p - ?c) mod ?m - 1"
      using b ne by (intro mod_pos_pos_trivial) linarith+
    finally show ?thesis .
  qed
  finally have "int (unat (take_bit k (prodv - cns)))
      = int (Suc (unat (take_bit k (prodv - take_bit k (cns + 1)))))"
    by (simp add: sub)
  then show ?thesis by (simp only: of_nat_eq_iff)
qed

lemma take_bit_distance_falls:
  fixes prodv cns :: u32
  assumes "take_bit k prodv \<noteq> take_bit k cns"
  shows "unat (take_bit k (prodv - take_bit k (cns + 1))) < unat (take_bit k (prodv - cns))"
  using take_bit_distance_Suc[OF assms] by simp

lemma take_bit_distance_0:
  fixes prodv cns :: u32
  assumes "take_bit k prodv = take_bit k cns"
  shows "take_bit k (prodv - cns) = 0"
proof -
  have dvd: "(2 :: int) ^ min k 32 dvd 2 ^ 32" by (rule le_imp_power_dvd) simp
  have "uint prodv mod 2 ^ min k 32 = uint cns mod 2 ^ min k 32"
    using assms by (metis uint_take_bit_u32)
  then have "(uint prodv - uint cns) mod 2 ^ min k 32 = 0"
    by (simp add: mod_eq_dvd_iff dvd_eq_mod_eq_0)
  then have "uint (take_bit k (prodv - cns)) = 0"
    using dvd by (simp add: uint_take_bit_u32 uint_word_ariths mod_mod_cancel)
  then show ?thesis by (simp only: uint_0_iff)
qed

lemma and_exp_minus_one: "(x :: 'a::len word) AND (push_bit n 1 - 1) = take_bit n x"
  by (simp add: take_bit_eq_mask mask_eq_exp_minus_1 push_bit_eq_mult)

end
