(* ===== verification/Tlm.thy ===== *)
theory Tlm
  imports Prelude
begin

text \<open>
  The transaction vocabulary all components exchange.

  \<open>gp\<close> is \<^verbatim>\<open>tlm::tlm_generic_payload\<close> restricted to the attributes the sources
  read or write, together with the extensions of \<^verbatim>\<open>common/include/tlm-extensions\<close>
  that travel in it; \<open>tlm_dmi\<close> is the direct memory descriptor. Both are the data of the
  IEEE 1666 transaction library, not code of the repository. Host pointers are 64-bit numbers.
  Calls through a socket are parameters of the operations that make them; their type is one of
  the \<open>_call\<close> synonyms, over a type \<open>'s\<close> for the state of everything behind the
  socket.

  The extensions themselves are code of the repository and are modelled here:
  \<^verbatim>\<open>pathid_extension.h\<close> (a vector of initiator numbers), \<^verbatim>\<open>exclusive-access.h\<close>
  (the store status and the ordering of initiator identifiers) and
  \<^verbatim>\<open>underlying-dmi.h\<close> (the trail of decoded windows).
\<close>

section \<open>Payloads\<close>

datatype tlm_command = Read_command | Write_command | Ignore_command

datatype tlm_response =
    Ok_response | Incomplete_response | Generic_error_response | Address_error_response
  | Command_error_response | Burst_error_response | Byte_enable_error_response

text \<open>The numeric values the standard gives the enumeration; the routers compare them.\<close>

fun status_val :: "tlm_response \<Rightarrow> int" where
  "status_val Ok_response = 1"
| "status_val Incomplete_response = 0"
| "status_val Generic_error_response = -1"
| "status_val Address_error_response = -2"
| "status_val Command_error_response = -3"
| "status_val Burst_error_response = -4"
| "status_val Byte_enable_error_response = -5"

record tlm_dmi =
  dmi_ptr :: u64
  dmi_start :: u64
  dmi_end :: u64
  dmi_read :: bool
  dmi_write :: bool
  dmi_read_latency :: u64
  dmi_write_latency :: u64

definition dmi_init :: tlm_dmi where
  "dmi_init = \<lparr>dmi_ptr = 0, dmi_start = 0, dmi_end = UINT64_MAX, dmi_read = False,
     dmi_write = False, dmi_read_latency = 0, dmi_write_latency = 0\<rparr>"

section \<open>Extensions\<close>

type_synonym path_id = "int list"

datatype store_status = EXCLUSIVE_STORE_NA | EXCLUSIVE_STORE_SUCCESS | EXCLUSIVE_STORE_FAILURE

record exclusive_ext =
  m_id :: "int list"
  m_store_sta :: store_status

definition set_exclusive_store_success :: "exclusive_ext \<Rightarrow> exclusive_ext" where
  "set_exclusive_store_success x = x\<lparr>m_store_sta := EXCLUSIVE_STORE_SUCCESS\<rparr>"

definition set_exclusive_store_failure :: "exclusive_ext \<Rightarrow> exclusive_ext" where
  "set_exclusive_store_failure x = x\<lparr>m_store_sta := EXCLUSIVE_STORE_FAILURE\<rparr>"

definition add_hop :: "int \<Rightarrow> exclusive_ext \<Rightarrow> exclusive_ext" where
  "add_hop i x = x\<lparr>m_id := m_id x @ [i]\<rparr>"

text \<open>\<^verbatim>\<open>InitiatorId::operator<\<close>: by length, then at the first difference.\<close>

fun id_less_loop :: "int list \<Rightarrow> int list \<Rightarrow> bool" where
  "id_less_loop (a # as) (b # bs) = (if a \<noteq> b then a < b else id_less_loop as bs)"
| "id_less_loop _ _ = False"

definition initiator_id_less :: "int list \<Rightarrow> int list \<Rightarrow> bool" where
  "initiator_id_less x y =
     (if length x \<noteq> length y then length x < length y else id_less_loop x y)"

fun id_eq_loop :: "int list \<Rightarrow> int list \<Rightarrow> bool" where
  "id_eq_loop (a # as) (b # bs) = (if a \<noteq> b then False else id_eq_loop as bs)"
| "id_eq_loop _ _ = True"

definition initiator_id_eq :: "int list \<Rightarrow> int list \<Rightarrow> bool" where
  "initiator_id_eq x y = (if length x \<noteq> length y then False else id_eq_loop x y)"

datatype dmi_type = dmi_mapped | dmi_nomap | dmi_valid | dmi_iommu

record tlm_dmi_ex = tlm_dmi +
  ex_type :: dmi_type
  ex_module :: string

definition add_dmi :: "string \<Rightarrow> tlm_dmi \<Rightarrow> dmi_type \<Rightarrow> tlm_dmi_ex list \<Rightarrow> tlm_dmi_ex list" where
  "add_dmi m d t xs = xs @ [tlm_dmi.extend d \<lparr>ex_type = t, ex_module = m\<rparr>]"

definition has_dmi :: "dmi_type \<Rightarrow> tlm_dmi_ex list \<Rightarrow> bool" where
  "has_dmi t xs = list_ex (\<lambda>d. ex_type d = t) xs"

definition get_first :: "dmi_type \<Rightarrow> tlm_dmi_ex list \<Rightarrow> tlm_dmi_ex res" where
  "get_first t xs = (case find (\<lambda>d. ex_type d = t) xs of Some d \<Rightarrow> Inr d | None \<Rightarrow> Inl Fatal)"

definition get_last :: "dmi_type \<Rightarrow> tlm_dmi_ex list \<Rightarrow> tlm_dmi_ex res" where
  "get_last t xs = (case find (\<lambda>d. ex_type d = t) (rev xs) of Some d \<Rightarrow> Inr d | None \<Rightarrow> Inl Fatal)"

record gp =
  gp_command :: tlm_command
  gp_address :: u64
  gp_data :: "u8 list"
  gp_length :: u32
  gp_streaming_width :: u32
  gp_byte_enable :: "u8 list option"
  gp_byte_enable_length :: u32
  gp_response :: tlm_response
  gp_dmi_allowed :: bool
  gp_path :: "path_id option"
  gp_exclusive :: "exclusive_ext option"
  gp_underlying :: "tlm_dmi_ex list option"

text \<open>
  Calls through a socket, over the state \<open>'s\<close> behind it. A target may invalidate direct memory
  pointers while it serves a call; the ranges it invalidates are part of the result, in order. The
  components here touch their own state in reaction to such a callback only in ways the rest of the
  interrupted operation does not read, so that handling the callbacks when the call returns is the
  same as handling them during the call.
\<close>

type_synonym inval = "u64 \<times> u64"
type_synonym 's b_transport_call = "gp \<Rightarrow> u64 \<Rightarrow> 's \<Rightarrow> gp \<times> u64 \<times> inval list \<times> 's"
type_synonym 's dbg_call = "gp \<Rightarrow> 's \<Rightarrow> u32 \<times> gp \<times> 's"
type_synonym 's dmi_call = "gp \<Rightarrow> tlm_dmi \<Rightarrow> 's \<Rightarrow> bool \<times> gp \<times> tlm_dmi \<times> inval list \<times> 's"

text \<open>The payload a default-constructed transaction carries.\<close>

definition gp_init :: gp where
  "gp_init = \<lparr>gp_command = Ignore_command, gp_address = 0, gp_data = [], gp_length = 0,
     gp_streaming_width = 0, gp_byte_enable = None, gp_byte_enable_length = 0,
     gp_response = Incomplete_response, gp_dmi_allowed = False, gp_path = None,
     gp_exclusive = None, gp_underlying = None\<rparr>"

section \<open>Properties of the extensions\<close>

lemma id_eq_loop_iff: "length x = length y \<Longrightarrow> id_eq_loop x y \<longleftrightarrow> x = y"
  by (induction x y rule: list_induct2) auto

lemma initiator_id_eq_iff [simp]: "initiator_id_eq x y \<longleftrightarrow> x = y"
  by (auto simp: initiator_id_eq_def id_eq_loop_iff)

lemma id_less_loop_irrefl: "\<not> id_less_loop x x"
  by (induction x) auto

lemma id_less_loop_total:
  "length x = length y \<Longrightarrow> x \<noteq> y \<Longrightarrow> id_less_loop x y \<or> id_less_loop y x"
  by (induction x y rule: list_induct2) auto

lemma id_less_loop_trans:
  "length x = length y \<Longrightarrow> length y = length z \<Longrightarrow>
   id_less_loop x y \<Longrightarrow> id_less_loop y z \<Longrightarrow> id_less_loop x z"
  by (induction x y z rule: list_induct3) (auto split: if_splits)

lemma initiator_id_less_irrefl: "\<not> initiator_id_less x x"
  by (simp add: initiator_id_less_def id_less_loop_irrefl)

lemma initiator_id_less_trans:
  "initiator_id_less x y \<Longrightarrow> initiator_id_less y z \<Longrightarrow> initiator_id_less x z"
  using id_less_loop_trans[of x y z] by (auto simp: initiator_id_less_def split: if_splits)

lemma initiator_id_less_total: "x \<noteq> y \<Longrightarrow> initiator_id_less x y \<or> initiator_id_less y x"
  using id_less_loop_total[of x y] by (auto simp: initiator_id_less_def)

lemma has_dmi_get_first: "has_dmi t xs \<longleftrightarrow> (\<exists>d. get_first t xs = Inr d)"
  by (induction xs) (auto simp: has_dmi_def get_first_def split: option.splits)

end
