(* ===== verification/RouterIf.thy ===== *)
theory RouterIf
  imports Tlm
begin

text \<open>
  \<^verbatim>\<open>common/include/router_if.h\<close>: the description of a bound target that the address
  router and the register router share, and the test whether a target claims an address. A target
  is a plain range, a one-dimensional bank (elements of \<open>ti_elem_size\<close> bytes every
  \<open>ti_stride\<close> bytes) or a bank with several dimensions, outer dimension first.

  Targets are compared by pointer in the sources. Two different target objects of a router differ
  in their index (bound targets) or in their name (aliases), so that equality of the records is
  equality of the pointers.
\<close>

record target_info =
  ti_index :: nat
  ti_name :: string
  ti_address :: u64
  ti_size :: u64
  ti_priority :: u32
  ti_use_offset :: bool
  ti_is_callback :: bool
  ti_chained :: bool
  ti_shortname :: string
  ti_stride :: u64
  ti_elem_size :: u64
  ti_dim_strides :: "u64 list"
  ti_dim_counts :: "u64 list"

text \<open>A new record, and the length of the common prefix that the short name leaves out.\<close>

text \<open>\<^verbatim>\<open>s[i]\<close> past the end of a string is the terminating zero, which no name contains.\<close>

fun common_prefix :: "string \<Rightarrow> string \<Rightarrow> nat" where
  "common_prefix (a # as) (b # bs) = (if a \<noteq> b then 0 else Suc (common_prefix as bs))"
| "common_prefix _ _ = 0"

definition target_init :: target_info where
  "target_init = \<lparr>ti_index = 0, ti_name = [], ti_address = 0, ti_size = 0, ti_priority = 0,
     ti_use_offset = False, ti_is_callback = False, ti_chained = False, ti_shortname = [],
     ti_stride = 0, ti_elem_size = 0, ti_dim_strides = [], ti_dim_counts = []\<rparr>"

text \<open>A plain target, for the examples.\<close>

definition plain_target :: "nat \<Rightarrow> u64 \<Rightarrow> u64 \<Rightarrow> u32 \<Rightarrow> target_info" where
  "plain_target i a s p = \<lparr>ti_index = i, ti_name = [], ti_address = a, ti_size = s, ti_priority = p,
     ti_use_offset = True, ti_is_callback = False, ti_chained = False, ti_shortname = [],
     ti_stride = 0, ti_elem_size = 0, ti_dim_strides = [], ti_dim_counts = []\<rparr>"

text \<open>
  The loop over the dimensions: the remainder \<open>r\<close> is split by each stride in turn, and every
  index must be below its count.
\<close>

fun claims_dims :: "u64 list \<Rightarrow> u64 list \<Rightarrow> u64 \<Rightarrow> u64 \<Rightarrow> bool res" where
  "claims_dims [] cs r elem = Inr (r < elem)"
| "claims_dims (s # ss) [] r elem = Inl Out_of_bounds"
| "claims_dims (s # ss) (c # cs) r elem =
     (if s = 0 then Inl Div_by_zero
      else if r div s \<ge> c then Inr False
      else claims_dims ss cs (r mod s) elem)"

definition claims :: "target_info \<Rightarrow> u64 \<Rightarrow> bool res" where
  "claims t addr =
     (if addr < ti_address t \<or> addr - ti_address t \<ge> ti_size t then Inr False
      else if ti_dim_strides t \<noteq> [] then
        claims_dims (ti_dim_strides t) (ti_dim_counts t) (addr - ti_address t) (ti_elem_size t)
      else if ti_stride t = 0 then Inr True
      else Inr ((addr - ti_address t) mod ti_stride t < ti_elem_size t))"

text \<open>The address of a target's local offset, and whether a plain target covers an address.\<close>

definition covers :: "target_info \<Rightarrow> u64 \<Rightarrow> bool" where
  "covers t a \<longleftrightarrow> ti_address t \<le> a \<and> a < ti_address t + ti_size t"

text \<open>
  A multi-dimensional bank with one count per dimension, non-zero strides and each inner extent
  within the stride outside it: its element grid is laid out without aliasing.
\<close>

fun grid_ok :: "u64 list \<Rightarrow> u64 list \<Rightarrow> u64 \<Rightarrow> bool" where
  "grid_ok [] [] elem = True"
| "grid_ok (s # ss) (c # cs) elem = (s \<noteq> 0 \<and> grid_ok ss cs elem)"
| "grid_ok _ _ _ = False"

text \<open>\<open>in_grid\<close> is the declarative reading: some index tuple below the counts.\<close>

fun in_grid :: "nat list \<Rightarrow> nat list \<Rightarrow> nat \<Rightarrow> nat \<Rightarrow> bool" where
  "in_grid [] [] elem off = (off < elem)"
| "in_grid (s # ss) (c # cs) elem off =
     (\<exists>i < c. i * s \<le> off \<and> off < (i + 1) * s \<and> in_grid ss cs elem (off - i * s))"
| "in_grid _ _ _ _ = False"

lemma claims_dims_in_grid:
  "grid_ok ss cs elem \<Longrightarrow>
   claims_dims ss cs r elem = Inr (in_grid (map unat ss) (map unat cs) (unat elem) (unat r))"
proof (induction ss cs elem arbitrary: r rule: grid_ok.induct)
  case (1 elem)
  then show ?case by (simp add: word_less_nat_alt)
next
  case (2 s ss c cs elem)
  let ?i = "unat r div unat s"
  have s: "0 < unat s" using 2 by (simp add: unat_gt_0)
  have dm: "unat r - ?i * unat s = unat (r mod s)"
    by (simp add: unat_mod minus_div_mult_eq_mod)
  have uniq: "i = ?i" if "i * unat s \<le> unat r" "unat r < (i + 1) * unat s" for i
    using that s by (metis Suc_eq_plus1 div_nat_eqI mult.commute)
  have here: "?i * unat s \<le> unat r" "unat r < (?i + 1) * unat s"
    using dividend_less_div_times[OF s, of "unat r"] by (simp_all add: algebra_simps)
  have "in_grid (map unat (s # ss)) (map unat (c # cs)) (unat elem) (unat r) \<longleftrightarrow>
      ?i < unat c \<and> in_grid (map unat ss) (map unat cs) (unat elem) (unat r - ?i * unat s)"
    using uniq here by auto
  also have "\<dots> \<longleftrightarrow> r div s < c \<and> in_grid (map unat ss) (map unat cs) (unat elem) (unat (r mod s))"
    by (simp add: dm word_less_nat_alt unat_div)
  finally show ?case using 2 by (simp add: not_le) (meson not_le)
qed simp_all

end
