(* ===== verification/StdMap.thy ===== *)
theory StdMap
  imports Prelude
begin

text \<open>
  The C++ standard library's \<^verbatim>\<open>std::map\<close>, as the sources use it: a list of
  key/value pairs in strictly increasing key order, so that iteration, \<^verbatim>\<open>upper_bound\<close>
  and stepping an iterator back are the list operations they look like.

  The second half is the theory shared by every map of the program that is keyed by the start of
  an address range (the router's segments and DMI records, the DMI converter's cache, the
  exclusive monitor's regions). For such a map whose ranges do not intersect
  (\<open>interval_map_ok\<close>), one step back from \<^verbatim>\<open>upper_bound\<close> finds the
  entry holding an address, and the walk the code uses to invalidate a range removes exactly the
  intersecting entries.
\<close>

section \<open>Ordered maps\<close>

type_synonym ('k, 'v) smap = "('k \<times> 'v) list"

definition smap_ok :: "('k::linorder, 'v) smap \<Rightarrow> bool" where
  "smap_ok m \<longleftrightarrow> sorted_wrt (<) (map fst m)"

text \<open>\<^verbatim>\<open>emplace\<close> keeps the entry that is already there.\<close>

fun smap_emplace :: "'k::linorder \<Rightarrow> 'v \<Rightarrow> ('k, 'v) smap \<Rightarrow> ('k, 'v) smap" where
  "smap_emplace k v [] = [(k, v)]"
| "smap_emplace k v ((k', v') # m) =
     (if k < k' then (k, v) # (k', v') # m
      else if k = k' then (k', v') # m
      else (k', v') # smap_emplace k v m)"

text \<open>\<^verbatim>\<open>m[k] = v\<close> overwrites it.\<close>

fun smap_assign :: "'k::linorder \<Rightarrow> 'v \<Rightarrow> ('k, 'v) smap \<Rightarrow> ('k, 'v) smap" where
  "smap_assign k v [] = [(k, v)]"
| "smap_assign k v ((k', v') # m) =
     (if k < k' then (k, v) # (k', v') # m
      else if k = k' then (k, v) # m
      else (k', v') # smap_assign k v m)"

definition smap_erase :: "'k \<Rightarrow> ('k, 'v) smap \<Rightarrow> ('k, 'v) smap" where
  "smap_erase k m = filter (\<lambda>p. fst p \<noteq> k) m"

text \<open>
  The entries before \<^verbatim>\<open>upper_bound(k)\<close>, those from it on, and the entry one step
  back from it (\<open>None\<close> when \<^verbatim>\<open>upper_bound(k) == begin()\<close>).
\<close>

definition smap_upto :: "'k::linorder \<Rightarrow> ('k, 'v) smap \<Rightarrow> ('k, 'v) smap" where
  "smap_upto k m = takeWhile (\<lambda>p. fst p \<le> k) m"

definition smap_above :: "'k::linorder \<Rightarrow> ('k, 'v) smap \<Rightarrow> ('k, 'v) smap" where
  "smap_above k m = dropWhile (\<lambda>p. fst p \<le> k) m"

definition smap_pred :: "'k::linorder \<Rightarrow> ('k, 'v) smap \<Rightarrow> ('k \<times> 'v) option" where
  "smap_pred k m = (case smap_upto k m of [] \<Rightarrow> None | xs \<Rightarrow> Some (last xs))"

text \<open>
  The walks start at \<^verbatim>\<open>upper_bound(k)\<close> (or \<^verbatim>\<open>lower_bound(k)\<close>) stepped back
  once unless it is \<^verbatim>\<open>begin()\<close>: \<open>smap_before\<close> is what they leave untouched,
  \<open>smap_from\<close> what they iterate over. The boolean says whether the bound is strict, as for
  \<^verbatim>\<open>lower_bound\<close>.
\<close>

definition below_bound :: "bool \<Rightarrow> 'k::linorder \<Rightarrow> 'k \<times> 'v \<Rightarrow> bool" where
  "below_bound strict k p \<longleftrightarrow> (if strict then fst p < k else fst p \<le> k)"

definition smap_before :: "bool \<Rightarrow> 'k::linorder \<Rightarrow> ('k, 'v) smap \<Rightarrow> ('k, 'v) smap" where
  "smap_before strict k m = butlast (takeWhile (below_bound strict k) m)"

definition smap_from :: "bool \<Rightarrow> 'k::linorder \<Rightarrow> ('k, 'v) smap \<Rightarrow> ('k, 'v) smap" where
  "smap_from strict k m =
     (case takeWhile (below_bound strict k) m of
        [] \<Rightarrow> m
      | xs \<Rightarrow> last xs # dropWhile (below_bound strict k) m)"

text \<open>\<^verbatim>\<open>std::set\<close>: a strictly increasing list.\<close>

fun sset_insert :: "'k::linorder \<Rightarrow> 'k list \<Rightarrow> 'k list" where
  "sset_insert k [] = [k]"
| "sset_insert k (x # xs) =
     (if k < x then k # x # xs else if k = x then x # xs else x # sset_insert k xs)"

lemma set_sset_insert [simp, smap_simps]: "set (sset_insert k xs) = insert k (set xs)"
  by (induction xs) auto

lemma sorted_sset_insert [inv_intros]:
  "sorted_wrt (<) xs \<Longrightarrow> sorted_wrt (<) (sset_insert k xs)"
  by (induction xs) auto

subsection \<open>Lookup laws\<close>

lemma smap_ok_Nil [simp, smap_simps]: "smap_ok []"
  by (simp add: smap_ok_def)

lemma smap_ok_Cons [smap_simps]:
  "smap_ok ((k, v) # m) \<longleftrightarrow> (\<forall>k' \<in> fst ` set m. k < k') \<and> smap_ok m"
  by (auto simp: smap_ok_def)

lemma smap_ok_tl: "smap_ok (p # m) \<Longrightarrow> smap_ok m"
  by (simp add: smap_ok_def)

lemma smap_ok_append:
  "smap_ok (m @ n) \<longleftrightarrow> smap_ok m \<and> smap_ok n \<and> (\<forall>p \<in> set m. \<forall>q \<in> set n. fst p < fst q)"
  by (auto simp: smap_ok_def sorted_wrt_append)

lemma smap_ok_filter [inv_intros]: "smap_ok m \<Longrightarrow> smap_ok (filter P m)"
  by (simp add: smap_ok_def sorted_wrt_filter_fst)

lemma smap_ok_erase [inv_intros]: "smap_ok m \<Longrightarrow> smap_ok (smap_erase k m)"
  by (simp add: smap_erase_def smap_ok_filter)

lemma smap_ok_distinct: "smap_ok m \<Longrightarrow> distinct (map fst m)"
  by (simp add: smap_ok_def strict_sorted_iff)

lemma smap_ok_inj:
  "smap_ok m \<Longrightarrow> (k, v) \<in> set m \<Longrightarrow> (k, w) \<in> set m \<Longrightarrow> v = w"
  by (metis map_of_eq_Some_iff option.inject smap_ok_distinct)

lemma set_smap_erase [simp, smap_simps]:
  "set (smap_erase k m) = {p \<in> set m. fst p \<noteq> k}"
  by (simp add: smap_erase_def)

lemma map_of_smap_erase [smap_simps]:
  "map_of (smap_erase k m) = (map_of m)(k := None)"
  by (induction m) (auto simp: smap_erase_def fun_eq_iff)

lemma set_smap_emplace_fresh:
  "k \<notin> fst ` set m \<Longrightarrow> set (smap_emplace k v m) = insert (k, v) (set m)"
  by (induction k v m rule: smap_emplace.induct) auto

lemma set_smap_emplace_present:
  "smap_ok m \<Longrightarrow> k \<in> fst ` set m \<Longrightarrow> smap_emplace k v m = m"
  by (induction k v m rule: smap_emplace.induct) (auto simp: smap_ok_Cons)

lemma fst_smap_emplace [simp]:
  "fst ` set (smap_emplace k v m) = insert k (fst ` set m)"
  by (induction k v m rule: smap_emplace.induct) auto

lemma smap_ok_emplace [inv_intros]: "smap_ok m \<Longrightarrow> smap_ok (smap_emplace k v m)"
  by (induction k v m rule: smap_emplace.induct) (auto simp: smap_ok_Cons)

lemma fst_smap_assign [simp]:
  "fst ` set (smap_assign k v m) = insert k (fst ` set m)"
  by (induction k v m rule: smap_assign.induct) auto

lemma smap_ok_assign [inv_intros]: "smap_ok m \<Longrightarrow> smap_ok (smap_assign k v m)"
  by (induction k v m rule: smap_assign.induct) (auto simp: smap_ok_Cons)

lemma set_smap_assign [smap_simps]:
  "smap_ok m \<Longrightarrow> set (smap_assign k v m) = insert (k, v) {p \<in> set m. fst p \<noteq> k}"
  by (induction k v m rule: smap_assign.induct) (force simp: smap_ok_Cons)+

lemma map_of_smap_assign [smap_simps]:
  "smap_ok m \<Longrightarrow> map_of (smap_assign k v m) = (map_of m)(k \<mapsto> v)"
  by (induction k v m rule: smap_assign.induct) (auto simp: smap_ok_Cons fun_eq_iff)

lemma map_of_smap_emplace [smap_simps]:
  "smap_ok m \<Longrightarrow>
   map_of (smap_emplace k v m) = (if k \<in> fst ` set m then map_of m else (map_of m)(k \<mapsto> v))"
proof (induction k v m rule: smap_emplace.induct)
  case (2 k v k' v' m)
  then show ?case
    by (auto simp: smap_ok_Cons fun_eq_iff set_smap_emplace_present)
qed (simp add: fun_eq_iff)

lemma fold_smap_erase:
  "fold smap_erase ks m = filter (\<lambda>p. fst p \<notin> set ks) m"
  by (induction ks arbitrary: m) (auto simp: smap_erase_def intro: filter_cong)

lemma smap_key_in_filter:
  assumes "smap_ok m" "p \<in> set m"
  shows "fst p \<in> fst ` set (filter P m) \<longleftrightarrow> P p"
proof
  assume "fst p \<in> fst ` set (filter P m)"
  then obtain q where q: "q \<in> set m" "P q" "fst p = fst q" by auto
  then have "snd q = snd p"
    using assms smap_ok_inj[OF assms(1)] by (metis prod.collapse)
  with q show "P p" by (metis prod.collapse)
qed (use assms in auto)

subsection \<open>Iterators\<close>

lemma smap_upto_append_above: "m = smap_upto k m @ smap_above k m"
  by (simp add: smap_upto_def smap_above_def)

lemma set_smap_upto:
  "smap_ok m \<Longrightarrow> set (smap_upto k m) = {p \<in> set m. fst p \<le> k}"
  unfolding smap_upto_def smap_ok_def
  by (induction m) (auto dest: set_takeWhileD)

lemma set_smap_above:
  "smap_ok m \<Longrightarrow> set (smap_above k m) = {p \<in> set m. k < fst p}"
  unfolding smap_above_def smap_ok_def
  by (induction m) (auto)

lemma smap_ok_last_max:
  "smap_ok m \<Longrightarrow> m \<noteq> [] \<Longrightarrow> q \<in> set m \<Longrightarrow> fst q \<le> fst (last m)"
  by (induction m rule: rev_induct) (auto simp: smap_ok_append less_imp_le)

lemma smap_ok_hd_min:
  "smap_ok (p # m) \<Longrightarrow> q \<in> set m \<Longrightarrow> fst p < fst q"
  by (cases p) (auto simp: smap_ok_Cons)

lemma smap_pred_SomeD:
  assumes "smap_ok m" "smap_pred k m = Some p"
  shows "p \<in> set m" "fst p \<le> k" "q \<in> set m \<Longrightarrow> fst q \<le> k \<Longrightarrow> fst q \<le> fst p"
proof -
  from assms(2) have ne: "smap_upto k m \<noteq> []" and p: "p = last (smap_upto k m)"
    by (auto simp: smap_pred_def split: list.splits)
  have "p \<in> set (smap_upto k m)" using ne p by simp
  then show "p \<in> set m" "fst p \<le> k" by (simp_all add: set_smap_upto[OF assms(1)])
  have "smap_ok (smap_upto k m)"
    using assms(1) smap_upto_append_above[of m k] smap_ok_append by metis
  then show "fst q \<le> fst p" if "q \<in> set m" "fst q \<le> k"
    using smap_ok_last_max[OF _ ne] that p by (simp add: set_smap_upto[OF assms(1)])
qed

lemma smap_pred_None:
  "smap_ok m \<Longrightarrow> smap_pred k m = None \<longleftrightarrow> (\<forall>q \<in> set m. k < fst q)"
proof -
  assume ok: "smap_ok m"
  have "smap_pred k m = None \<longleftrightarrow> set (smap_upto k m) = {}"
    by (auto simp: smap_pred_def split: list.splits)
  then show ?thesis by (auto simp: set_smap_upto[OF ok] not_le)
qed

lemma smap_pred_eq_Some:
  assumes "smap_ok m"
  shows "smap_pred k m = Some p \<longleftrightarrow>
    p \<in> set m \<and> fst p \<le> k \<and> (\<forall>q \<in> set m. fst q \<le> k \<longrightarrow> fst q \<le> fst p)" (is "_ \<longleftrightarrow> ?R")
proof
  assume "smap_pred k m = Some p"
  then show ?R using smap_pred_SomeD[OF assms] by blast
next
  assume R: ?R
  then have "smap_pred k m \<noteq> None" using smap_pred_None[OF assms] by (auto simp: not_less)
  then obtain q where q: "smap_pred k m = Some q" by blast
  then have "fst q = fst p" using R smap_pred_SomeD[OF assms q] by (meson order_antisym)
  moreover have "q \<in> set m" using smap_pred_SomeD(1)[OF assms q] .
  ultimately have "q = p" using R smap_ok_inj[OF assms] by (metis prod.collapse)
  then show "smap_pred k m = Some p" using q by simp
qed

lemma smap_before_append_from: "smap_before strict k m @ smap_from strict k m = m"
proof (cases "takeWhile (below_bound strict k) m")
  case Nil
  then show ?thesis by (simp add: smap_before_def smap_from_def)
next
  case (Cons p ps)
  then have "butlast (p # ps) @ [last (p # ps)] = takeWhile (below_bound strict k) m"
    by (metis append_butlast_last_id list.distinct(1))
  with Cons show ?thesis
    by (metis (no_types, lifting) append.assoc append_Cons append_Nil list.simps(5)
        smap_before_def smap_from_def takeWhile_dropWhile_id)
qed

lemma smap_before_bound:
  assumes "smap_ok m" "p \<in> set (smap_before strict k m)"
  shows "\<exists>q \<in> set (smap_from strict k m). fst p < fst q \<and> below_bound strict k q"
proof -
  let ?t = "takeWhile (below_bound strict k) m"
  have ne: "?t \<noteq> []" using assms(2) by (auto simp: smap_before_def)
  have b: "below_bound strict k (last ?t)" using ne by (rule takeWhile_last_prop)
  have mem: "last ?t \<in> set (smap_from strict k m)"
    using ne by (auto simp: smap_from_def split: list.splits)
  have "fst p < fst (last ?t)"
    using assms mem smap_before_append_from[of strict k m] smap_ok_append by metis
  with b mem show ?thesis by blast
qed

section \<open>Maps from range starts to ranges\<close>

definition meets :: "'k::linorder \<Rightarrow> 'k \<Rightarrow> 'k \<Rightarrow> 'k \<Rightarrow> bool" where
  "meets s e s' e' \<longleftrightarrow> s' \<le> e \<and> s \<le> e'"

definition interval_map_ok ::
    "('v \<Rightarrow> 'k::linorder) \<Rightarrow> ('v \<Rightarrow> 'k) \<Rightarrow> ('k, 'v) smap \<Rightarrow> bool" where
  "interval_map_ok lo hi m \<longleftrightarrow>
     smap_ok m \<and>
     (\<forall>p \<in> set m. fst p = lo (snd p) \<and> lo (snd p) \<le> hi (snd p)) \<and>
     (\<forall>p \<in> set m. \<forall>q \<in> set m. fst p < fst q \<longrightarrow> hi (snd p) < fst q)"

text \<open>
  The invalidation loop: entries that end before the range are stepped over, entries that meet it
  are erased, and the first entry that starts behind the range ends the loop. The result is what
  stays and what was erased.
\<close>

fun overlap_walk :: "('v \<Rightarrow> 'k::linorder) \<Rightarrow> ('v \<Rightarrow> 'k) \<Rightarrow> 'k \<Rightarrow> 'k \<Rightarrow> ('k, 'v) smap \<Rightarrow>
    ('k, 'v) smap \<times> ('k, 'v) smap" where
  "overlap_walk lo hi s e [] = ([], [])"
| "overlap_walk lo hi s e (p # m) =
     (if lo (snd p) > e then (p # m, [])
      else let (kept, erased) = overlap_walk lo hi s e m
           in if hi (snd p) < s then (p # kept, erased) else (kept, p # erased))"

definition smap_invalidate :: "('v \<Rightarrow> 'k::linorder) \<Rightarrow> ('v \<Rightarrow> 'k) \<Rightarrow> 'k \<Rightarrow> 'k \<Rightarrow> ('k, 'v) smap \<Rightarrow>
    ('k, 'v) smap \<times> ('k, 'v) smap" where
  "smap_invalidate lo hi s e m =
     (let (kept, erased) = overlap_walk lo hi s e (smap_from False s m)
      in (smap_before False s m @ kept, erased))"

lemma interval_map_ok_smap [dest]: "interval_map_ok lo hi m \<Longrightarrow> smap_ok m"
  by (simp add: interval_map_ok_def)

lemma interval_map_okD:
  assumes "interval_map_ok lo hi m" "p \<in> set m"
  shows "fst p = lo (snd p)" "lo (snd p) \<le> hi (snd p)"
    and "q \<in> set m \<Longrightarrow> fst p < fst q \<Longrightarrow> hi (snd p) < fst q"
  using assms by (auto simp: interval_map_ok_def)

lemma interval_map_ok_subset:
  "interval_map_ok lo hi m \<Longrightarrow> smap_ok n \<Longrightarrow> set n \<subseteq> set m \<Longrightarrow> interval_map_ok lo hi n"
  unfolding interval_map_ok_def by blast

lemma interval_map_ok_filter [inv_intros]:
  "interval_map_ok lo hi m \<Longrightarrow> interval_map_ok lo hi (filter P m)"
  by (rule interval_map_ok_subset) (auto simp: smap_ok_filter)

lemma interval_map_ok_erase [inv_intros]:
  "interval_map_ok lo hi m \<Longrightarrow> interval_map_ok lo hi (smap_erase k m)"
  unfolding smap_erase_def by (rule interval_map_ok_filter)

lemma interval_map_ok_append:
  assumes "interval_map_ok lo hi (m @ n)"
  shows "interval_map_ok lo hi m \<and> interval_map_ok lo hi n"
  using interval_map_ok_subset[OF assms, of m] interval_map_ok_subset[OF assms, of n]
    interval_map_ok_smap[OF assms] by (simp add: smap_ok_append)

lemma interval_map_unique:
  assumes "interval_map_ok lo hi m" "p \<in> set m" "q \<in> set m"
    and "lo (snd p) \<le> a" "a \<le> hi (snd p)" "lo (snd q) \<le> a" "a \<le> hi (snd q)"
  shows "p = q"
proof -
  have "\<not> fst p < fst q" "\<not> fst q < fst p"
    using assms interval_map_okD(1,3)[OF assms(1)] by (metis leD order_trans order.strict_trans1)+
  then have "fst p = fst q" by simp
  then show ?thesis
    using smap_ok_inj[of m] assms(1-3) interval_map_ok_smap by (metis prod.collapse)
qed

text \<open>One step back from \<^verbatim>\<open>upper_bound\<close> is the only candidate for a lookup.\<close>

lemma smap_pred_containing:
  assumes ok: "interval_map_ok lo hi m" and p: "p \<in> set m"
    and a: "lo (snd p) \<le> a" "a \<le> hi (snd p)"
  shows "smap_pred a m = Some p"
proof -
  have "fst q \<le> fst p" if "q \<in> set m" "fst q \<le> a" for q
    using interval_map_okD(3)[OF ok p that(1)] that(2) a(2) by (meson leD leI order_trans)
  then show ?thesis
    using p a interval_map_okD(1)[OF ok p] smap_pred_eq_Some[OF interval_map_ok_smap[OF ok]] by simp
qed

text \<open>The walk started one step back erases exactly the entries that meet the range.\<close>

lemma overlap_walk_filter:
  "interval_map_ok lo hi m \<Longrightarrow>
   overlap_walk lo hi s e m =
     (filter (\<lambda>p. \<not> meets s e (lo (snd p)) (hi (snd p))) m,
      filter (\<lambda>p. meets s e (lo (snd p)) (hi (snd p))) m)"
proof (induction m)
  case (Cons p m)
  have ok: "interval_map_ok lo hi m"
    using Cons.prems by (metis append_Cons append_Nil interval_map_ok_append)
  show ?case
  proof (cases "lo (snd p) > e")
    case True
    have "\<not> meets s e (lo (snd q)) (hi (snd q))" if "q \<in> set (p # m)" for q
    proof -
      have "fst p \<le> fst q"
        using that Cons.prems interval_map_ok_smap smap_ok_hd_min
        by (metis less_imp_le order_refl set_ConsD)
      then show ?thesis
        using True interval_map_okD(1)[OF Cons.prems] that
        by (auto simp: meets_def not_le intro: less_le_trans)
    qed
    then have "filter (\<lambda>p. \<not> meets s e (lo (snd p)) (hi (snd p))) (p # m) = p # m"
      "filter (\<lambda>p. meets s e (lo (snd p)) (hi (snd p))) (p # m) = []"
      by (simp_all add: filter_empty_conv)
    with True show ?thesis by simp
  next
    case False
    then show ?thesis using Cons.IH[OF ok] by (auto simp: meets_def)
  qed
qed simp

lemma smap_invalidate_filter:
  assumes "interval_map_ok lo hi m"
  shows "smap_invalidate lo hi s e m =
     (filter (\<lambda>p. \<not> meets s e (lo (snd p)) (hi (snd p))) m,
      filter (\<lambda>p. meets s e (lo (snd p)) (hi (snd p))) m)"
proof -
  let ?b = "smap_before False s m" and ?f = "smap_from False s m"
  have m: "m = ?b @ ?f" by (simp add: smap_before_append_from)
  then have okf: "interval_map_ok lo hi ?f" using assms interval_map_ok_append by metis
  have "\<not> meets s e (lo (snd p)) (hi (snd p))" if "p \<in> set ?b" for p
  proof -
    from smap_before_bound[OF interval_map_ok_smap[OF assms] that]
    obtain q where q: "q \<in> set ?f" "fst p < fst q" "fst q \<le> s"
      by (auto simp: below_bound_def)
    have "p \<in> set m" "q \<in> set m" using m q(1) that by (metis Un_iff set_append)+
    then have "hi (snd p) < fst q" using interval_map_okD(3)[OF assms] q(2) by blast
    then have "hi (snd p) < s" using q(3) by (rule less_le_trans)
    then show ?thesis by (simp add: meets_def not_le)
  qed
  then have "filter (\<lambda>p. \<not> meets s e (lo (snd p)) (hi (snd p))) ?b = ?b"
    "filter (\<lambda>p. meets s e (lo (snd p)) (hi (snd p))) ?b = []"
    by (simp_all add: filter_empty_conv)
  then have "smap_invalidate lo hi s e m =
     (filter (\<lambda>p. \<not> meets s e (lo (snd p)) (hi (snd p))) (?b @ ?f),
      filter (\<lambda>p. meets s e (lo (snd p)) (hi (snd p))) (?b @ ?f))"
    by (simp add: smap_invalidate_def overlap_walk_filter[OF okf])
  then show ?thesis by (simp add: smap_before_append_from)
qed

end
