(* ===== verification/AddressMap.thy ===== *)
theory AddressMap
  imports RouterIf StdMap
begin

text \<open>
  The router's \<^verbatim>\<open>addressMap\<close> (\<^verbatim>\<open>router/include/router.h\<close>): a map of
  non-overlapping segments keyed by their start, which \<^verbatim>\<open>split_and_resolve\<close> rebuilds
  whenever a target is added. The abstract specification is \<open>resolve\<close>: of the targets that
  cover an address, the one with the numerically lowest priority, and the latest added among
  equals. The main result is that the map built by any sequence of \<^verbatim>\<open>add\<close> calls answers
  every address as \<open>resolve\<close> does.
\<close>

section \<open>Segments\<close>

record region =
  r_start :: u64
  r_end :: u64
  r_target :: target_info

record interval =
  i_start :: u64
  i_end :: u64
  i_target :: target_info
  i_priority :: u32

type_synonym regions = "(u64, region) smap"

definition mk_region :: "u64 \<Rightarrow> u64 \<Rightarrow> target_info \<Rightarrow> region" where
  "mk_region s e t = \<lparr>r_start = s, r_end = e, r_target = t\<rparr>"

definition mk_interval :: "u64 \<Rightarrow> u64 \<Rightarrow> target_info \<Rightarrow> interval" where
  "mk_interval s e t = \<lparr>i_start = s, i_end = e, i_target = t, i_priority = ti_priority t\<rparr>"

section \<open>split\_and\_resolve\<close>

text \<open>Step 1: the existing regions that overlap the new one.\<close>

definition overlapping_regions :: "u64 \<Rightarrow> u64 \<Rightarrow> regions \<Rightarrow> regions" where
  "overlapping_regions new_start new_end m =
     filter (\<lambda>p. r_start (snd p) < new_end \<and> r_end (snd p) > new_start) m"

text \<open>Step 3: the intervals to resolve, the new one first.\<close>

definition mk_intervals :: "u64 \<Rightarrow> u64 \<Rightarrow> target_info \<Rightarrow> regions \<Rightarrow> interval list" where
  "mk_intervals new_start new_end new_target ovl =
     mk_interval new_start new_end new_target #
     map (\<lambda>p. mk_interval (r_start (snd p)) (r_end (snd p)) (r_target (snd p))) ovl"

text \<open>Step 4: all boundary points, in order and without repetition.\<close>

definition boundaries :: "interval list \<Rightarrow> u64 list" where
  "boundaries is = fold (\<lambda>i bs. sset_insert (i_end i) (sset_insert (i_start i) bs)) is []"

text \<open>
  Step 5: the strictly best priority among the intervals that cover a segment; the search starts
  from \<^verbatim>\<open>UINT32_MAX\<close> with no target.
\<close>

definition better :: "u64 \<Rightarrow> u64 \<Rightarrow> interval \<Rightarrow> target_info option \<times> u32 \<Rightarrow>
    target_info option \<times> u32" where
  "better seg_start seg_end i best =
     (if i_start i \<le> seg_start \<and> i_end i \<ge> seg_end then
        if i_priority i < snd best then (Some (i_target i), i_priority i) else best
      else best)"

definition best_target :: "interval list \<Rightarrow> u64 \<Rightarrow> u64 \<Rightarrow> target_info option" where
  "best_target is seg_start seg_end = fst (fold (better seg_start seg_end) is (None, UINT32_MAX))"

fun resolve_segments :: "interval list \<Rightarrow> u64 list \<Rightarrow> regions \<Rightarrow> regions" where
  "resolve_segments is (seg_start # seg_end # bs) m =
     resolve_segments is (seg_end # bs)
       (case best_target is seg_start seg_end of
          None \<Rightarrow> m
        | Some t \<Rightarrow> smap_emplace seg_start (mk_region seg_start seg_end t) m)"
| "resolve_segments is _ m = m"

text \<open>Step 6: the intervals that own no segment any more, for which a warning is issued.\<close>

definition completely_shadowed :: "regions \<Rightarrow> interval \<Rightarrow> bool" where
  "completely_shadowed m i \<longleftrightarrow>
     \<not> list_ex (\<lambda>p. r_target (snd p) = i_target i \<and> r_start (snd p) < i_end i \<and>
         r_end (snd p) > i_start i) m"

definition shadow_warnings ::
    "u64 \<Rightarrow> u64 \<Rightarrow> target_info \<Rightarrow> interval list \<Rightarrow> regions \<Rightarrow> interval list" where
  "shadow_warnings new_start new_end new_target is m =
     filter (\<lambda>i. \<not> (i_start i = new_start \<and> i_end i = new_end \<and> i_target i = new_target) \<and>
       completely_shadowed m i) is"

definition split_and_resolve ::
    "u64 \<Rightarrow> u64 \<Rightarrow> target_info \<Rightarrow> regions \<Rightarrow> regions \<times> interval list" where
  "split_and_resolve new_start new_end new_target m =
     (let ovl = overlapping_regions new_start new_end m;
          m1 = fold smap_erase (map fst ovl) m;
          is = mk_intervals new_start new_end new_target ovl;
          m2 = resolve_segments is (boundaries is) m1
      in (m2, shadow_warnings new_start new_end new_target is m2))"

section \<open>add, find and find\_region\<close>

text \<open>
  The map with its lookup cache. The cache is the template parameter \<^verbatim>\<open>CacheType\<close>:
  its operations are arguments.
\<close>

record 'c address_map =
  m_regions :: regions
  m_cache :: 'c

definition am_add :: "('c \<Rightarrow> 'c) \<Rightarrow> target_info \<Rightarrow> 'c address_map \<Rightarrow>
    'c address_map \<times> interval list" where
  "am_add cache_clear t am =
     (let (m, warnings) =
        split_and_resolve (ti_address t) (ti_address t + ti_size t) t (m_regions am)
      in (am\<lparr>m_regions := m, m_cache := cache_clear (m_cache am)\<rparr>, warnings))"

text \<open>The slow path of \<^verbatim>\<open>find\<close>.\<close>

definition region_find :: "regions \<Rightarrow> u64 \<Rightarrow> target_info option" where
  "region_find m address =
     (case smap_pred address m of
        None \<Rightarrow> None
      | Some (_, r) \<Rightarrow>
          if address \<ge> r_start r \<and> address < r_end r then Some (r_target r) else None)"

definition am_find ::
    "(u64 \<Rightarrow> 'c \<Rightarrow> target_info option option \<times> 'c) \<Rightarrow>
     (u64 \<Rightarrow> target_info option \<Rightarrow> u64 \<Rightarrow> 'c \<Rightarrow> 'c) \<Rightarrow>
     u64 \<Rightarrow> u64 \<Rightarrow> 'c address_map \<Rightarrow> target_info option \<times> 'c address_map" where
  "am_find cache_get cache_put address sz am =
     (case cache_get address (m_cache am) of
        (Some cached, c) \<Rightarrow> (cached, am\<lparr>m_cache := c\<rparr>)
      | (None, c) \<Rightarrow>
          (let t = region_find (m_regions am) address
           in (t, am\<lparr>m_cache := cache_put address t sz c\<rparr>)))"

text \<open>
  \<^verbatim>\<open>find_region\<close>: the bounds of the segment, or of the hole between the neighbouring
  segments.
\<close>

definition hole_start :: "u64 \<Rightarrow> regions \<Rightarrow> u64" where
  "hole_start addr m =
     (case smap_pred addr m of
        None \<Rightarrow> 0
      | Some (_, r) \<Rightarrow> if r_end r \<le> addr then r_end r else 0)"

definition hole_end :: "u64 \<Rightarrow> regions \<Rightarrow> u64" where
  "hole_end addr m =
     (case smap_above addr m of [] \<Rightarrow> UINT64_MAX | (_, r) # _ \<Rightarrow> r_start r)"

definition am_find_region :: "u64 \<Rightarrow> regions \<Rightarrow> tlm_dmi \<Rightarrow> target_info option \<times> tlm_dmi" where
  "am_find_region addr m dmi =
     (case smap_pred addr m of
        Some (_, r) \<Rightarrow>
          if addr \<ge> r_start r \<and> addr < r_end r
          then (Some (r_target r), dmi\<lparr>dmi_start := r_start r, dmi_end := r_end r - 1\<rparr>)
          else (None, dmi\<lparr>dmi_start := hole_start addr m,
                 dmi_end := (if hole_end addr m = 0 then 0 else hole_end addr m - 1)\<rparr>)
      | None \<Rightarrow> (None, dmi\<lparr>dmi_start := hole_start addr m,
                 dmi_end := (if hole_end addr m = 0 then 0 else hole_end addr m - 1)\<rparr>))"

section \<open>Specification\<close>

definition prefer_target :: "u64 \<Rightarrow> target_info \<Rightarrow> target_info option \<Rightarrow> target_info option" where
  "prefer_target a t best =
     (if covers t a \<and> ti_priority t < UINT32_MAX \<and>
         (case best of None \<Rightarrow> True | Some b \<Rightarrow> ti_priority t \<le> ti_priority b)
      then Some t else best)"

definition resolve :: "target_info list \<Rightarrow> u64 \<Rightarrow> target_info option" where
  "resolve ts a = fold (prefer_target a) ts None"

definition add_all :: "target_info list \<Rightarrow> regions" where
  "add_all ts = fold (\<lambda>t m. fst (split_and_resolve (ti_address t) (ti_address t + ti_size t) t m)) ts []"

text \<open>
  The invariant: keys are starts, ranges are non-empty and do not intersect, and no stored target
  has the priority that can never win.
\<close>

definition in_region :: "u64 \<Rightarrow> u64 \<times> region \<Rightarrow> bool" where
  "in_region a p \<longleftrightarrow> r_start (snd p) \<le> a \<and> a < r_end (snd p)"

definition regions_ok :: "regions \<Rightarrow> bool" where
  "regions_ok m \<longleftrightarrow>
     smap_ok m \<and>
     (\<forall>p \<in> set m. fst p = r_start (snd p) \<and> r_start (snd p) < r_end (snd p) \<and>
        ti_priority (r_target (snd p)) < UINT32_MAX) \<and>
     (\<forall>p \<in> set m. \<forall>q \<in> set m. \<forall>a. in_region a p \<longrightarrow> in_region a q \<longrightarrow> p = q)"

section \<open>One step of split\_and\_resolve\<close>

lemma erase_overlapping:
  assumes "smap_ok m"
  shows "fold smap_erase (map fst (overlapping_regions s e m)) m =
    filter (\<lambda>p. \<not> (r_start (snd p) < e \<and> r_end (snd p) > s)) m"
  unfolding fold_smap_erase overlapping_regions_def set_map
  by (rule filter_cong) (simp_all only: smap_key_in_filter[OF assms])

lemma boundaries_fold:
  "sorted_wrt (<) bs \<Longrightarrow>
   (let r = fold (\<lambda>i bs. sset_insert (i_end i) (sset_insert (i_start i) bs)) is bs
    in sorted_wrt (<) r \<and> set r = set bs \<union> i_start ` set is \<union> i_end ` set is)"
  by (induction "is" arbitrary: bs) (auto simp: sorted_sset_insert Let_def)

lemma boundaries_sorted: "sorted_wrt (<) (boundaries is)"
  and set_boundaries: "set (boundaries is) = i_start ` set is \<union> i_end ` set is"
  using boundaries_fold[of "[]" "is"] by (simp_all add: boundaries_def Let_def)

text \<open>Consecutive boundaries.\<close>

definition segments :: "u64 list \<Rightarrow> (u64 \<times> u64) list" where
  "segments bs = zip bs (tl bs)"

lemma segments_simps [simp]:
  "segments [] = []" "segments [b] = []"
  "segments (b # c # bs) = (b, c) # segments (c # bs)"
  by (simp_all add: segments_def)

lemma segments_between:
  assumes "sorted_wrt (<) bs" "(b, c) \<in> set (segments bs)"
  shows "b \<in> set bs" "c \<in> set bs" "b < c" "x \<in> set bs \<Longrightarrow> x \<le> b \<or> c \<le> x"
  using assms by (induction bs rule: induct_list012) (auto simp: less_imp_le)

lemma segments_unique:
  assumes "sorted_wrt (<) bs" "(b, c) \<in> set (segments bs)" "(b', c') \<in> set (segments bs)"
    and "b \<le> a" "a < c" "b' \<le> a" "a < c'"
  shows "b = b' \<and> c = c'"
  using segments_between[OF assms(1,2)] segments_between[OF assms(1,3)] assms(4-)
  by (meson leD le_less_trans order_antisym order_trans)

lemma segments_cover:
  assumes "sorted_wrt (<) bs" "x \<in> set bs" "y \<in> set bs" "x \<le> a" "a < y"
  shows "\<exists>b c. (b, c) \<in> set (segments bs) \<and> b \<le> a \<and> a < c"
  using assms
proof (induction bs arbitrary: x rule: induct_list012)
  case (3 b c bs)
  show ?case
  proof (cases "a < c")
    case True
    then show ?thesis using 3 by (auto intro: order_trans)
  next
    case False
    then have "\<exists>b' c'. (b', c') \<in> set (segments (c # bs)) \<and> b' \<le> a \<and> a < c'"
      using "3.prems" by (intro "3.IH"(2)[of c]) (auto simp: not_less)
    then show ?thesis by auto
  qed
qed auto

lemma resolve_segments_set:
  assumes "sorted_wrt (<) bs"
    and "\<And>b c. (b, c) \<in> set (segments bs) \<Longrightarrow> best_target is b c \<noteq> None \<Longrightarrow> b \<notin> fst ` set m"
  shows "set (resolve_segments is bs m) = set m \<union>
    {(b, mk_region b c t) | b c t. (b, c) \<in> set (segments bs) \<and> best_target is b c = Some t}"
  using assms
proof (induction "is" bs m rule: resolve_segments.induct)
  case (1 "is" b c bs m)
  let ?m = "case best_target is b c of None \<Rightarrow> m | Some t \<Rightarrow> smap_emplace b (mk_region b c t) m"
  have "b' \<notin> fst ` set ?m" if "(b', c') \<in> set (segments (c # bs))" "best_target is b' c' \<noteq> None" for b' c'
  proof -
    have "b < b'" using segments_between(1)[OF _ that(1)] "1.prems"(1) by auto
    then show ?thesis using "1.prems"(2)[of b' c'] that by (auto split: option.splits)
  qed
  then have IH: "set (resolve_segments is (c # bs) ?m) = set ?m \<union>
    {(b, mk_region b c' t) | b c' t. (b, c') \<in> set (segments (c # bs)) \<and> best_target is b c' = Some t}"
    using "1.IH" "1.prems"(1) by simp
  have "set ?m = set m \<union> {(b, mk_region b c t) | t. best_target is b c = Some t}"
    using "1.prems"(2)[of b c] by (auto simp: set_smap_emplace_fresh split: option.splits)
  with IH show ?case by auto
qed auto

lemma resolve_segments_ok: "smap_ok m \<Longrightarrow> smap_ok (resolve_segments is bs m)"
  by (induction "is" bs m rule: resolve_segments.induct) (auto simp: smap_ok_emplace split: option.splits)

definition covers_at :: "u64 \<Rightarrow> interval \<Rightarrow> bool" where
  "covers_at a i \<longleftrightarrow> i_start i \<le> a \<and> a < i_end i"

definition pick :: "interval \<Rightarrow> target_info option \<times> u32 \<Rightarrow> target_info option \<times> u32" where
  "pick i best = (if i_priority i < snd best then (Some (i_target i), i_priority i) else best)"

lemma segment_covered_iff:
  assumes "sorted_wrt (<) bs" "(b, c) \<in> set (segments bs)" "b \<le> a" "a < c"
    and "i_start i \<in> set bs" "i_end i \<in> set bs"
  shows "i_start i \<le> b \<and> i_end i \<ge> c \<longleftrightarrow> covers_at a i"
proof -
  have "i_start i \<le> b \<longleftrightarrow> i_start i \<le> a"
    using segments_between(4)[OF assms(1,2,5)] assms(3,4) by (auto simp: not_le)
  moreover have "i_end i \<ge> c \<longleftrightarrow> a < i_end i"
    using segments_between(4)[OF assms(1,2,6)] assms(3,4) by auto
  ultimately show ?thesis by (simp add: covers_at_def)
qed

lemma best_target_at:
  assumes "(b, c) \<in> set (segments (boundaries is))" "b \<le> a" "a < c"
  shows "best_target is b c = fst (fold pick (filter (covers_at a) is) (None, UINT32_MAX))"
proof -
  have *: "better b c i best = (if covers_at a i then pick i best else best)" if "i \<in> set is" for i best
    using segment_covered_iff[OF boundaries_sorted assms, of i] that
    by (auto simp: better_def pick_def set_boundaries)
  have "fold (better b c) is x = fold (\<lambda>i best. if covers_at a i then pick i best else best) is x" for x
    by (rule fold_cong) (use * in auto)
  then show ?thesis by (simp add: best_target_def fold_guarded)
qed

lemma regions_ok_distinct: "regions_ok m \<Longrightarrow> distinct m"
  unfolding regions_ok_def by (metis distinct_map smap_ok_distinct)

text \<open>What the map answers at an address.\<close>

definition entry_at :: "regions \<Rightarrow> u64 \<Rightarrow> (u64 \<times> region) option" where
  "entry_at m a = find (in_region a) m"

lemma entry_at_Some:
  assumes "regions_ok m"
  shows "entry_at m a = Some p \<longleftrightarrow> p \<in> set m \<and> in_region a p"
proof
  assume "entry_at m a = Some p"
  then show "p \<in> set m \<and> in_region a p" by (auto simp: entry_at_def find_Some_iff)
next
  assume p: "p \<in> set m \<and> in_region a p"
  then obtain q where "entry_at m a = Some q" 
    by (metis entry_at_def find_None_iff not_None_eq)
  moreover from this have "q \<in> set m" "in_region a q" by (auto simp: entry_at_def find_Some_iff)
  ultimately show "entry_at m a = Some p" using p assms by (auto simp: regions_ok_def)
qed

lemma entry_at_None: "entry_at m a = None \<longleftrightarrow> (\<forall>p \<in> set m. \<not> in_region a p)"
  by (auto simp: entry_at_def find_None_iff)

lemma regions_ok_interval:
  assumes "regions_ok m"
  shows "interval_map_ok r_start (\<lambda>r. r_end r - 1) m"
proof -
  have "r_end (snd p) - 1 < fst q" if "p \<in> set m" "q \<in> set m" "fst p < fst q" for p q
  proof (rule ccontr)
    assume "\<not> r_end (snd p) - 1 < fst q"
    then have "in_region (fst q) p" "in_region (fst q) q"
      using assms that word_less_end_le[of "r_start (snd p)" "r_end (snd p)" "fst q"]
      by (auto simp: regions_ok_def in_region_def)
    then show False using assms that by (auto simp: regions_ok_def)
  qed
  moreover have "r_start (snd p) \<le> r_end (snd p) - 1" if "p \<in> set m" for p
    using assms that word_less_end_le[of "r_start (snd p)" "r_end (snd p)" "r_start (snd p)"]
    by (auto simp: regions_ok_def)
  ultimately show ?thesis using assms by (auto simp: interval_map_ok_def regions_ok_def)
qed

lemma region_find_entry:
  assumes ok: "regions_ok m"
  shows "region_find m a = map_option (\<lambda>p. r_target (snd p)) (entry_at m a)"
proof (cases "entry_at m a")
  case None
  then have "smap_pred a m = Some p \<Longrightarrow> \<not> in_region a p" for p
    using smap_pred_SomeD(1)[of m a p] ok unfolding entry_at_None regions_ok_def by blast
  with None show ?thesis
    by (auto simp: region_find_def in_region_def split: option.splits)
next
  case (Some p)
  then have p: "p \<in> set m" "in_region a p" using entry_at_Some[OF ok] by auto
  have "smap_pred a m = Some p"
    using smap_pred_containing[OF regions_ok_interval[OF ok] p(1)] p ok
      word_less_end_le[of "r_start (snd p)" "r_end (snd p)" a]
    by (auto simp: in_region_def regions_ok_def)
  with Some p show ?thesis by (auto simp: region_find_def in_region_def split: prod.splits)
qed

lemma fold_pick_priority:
  assumes "\<And>i. i \<in> set is \<Longrightarrow> i_priority i = ti_priority (i_target i)"
    and "case fst best of None \<Rightarrow> True | Some t \<Rightarrow> ti_priority t = snd best \<and> snd best < UINT32_MAX"
    and "fst (fold pick is best) = Some t"
  shows "ti_priority t < UINT32_MAX"
  using assms
proof (induction "is" arbitrary: best)
  case (Cons i "is")
  have "case fst (pick i best) of None \<Rightarrow> True
      | Some t \<Rightarrow> ti_priority t = snd (pick i best) \<and> snd (pick i best) < UINT32_MAX"
    using Cons.prems(1)[of i] Cons.prems(2)
    by (auto simp: pick_def intro: word_less_imp_less_max split: option.splits)
  then show ?case using Cons.IH[of "pick i best"] Cons.prems(1,3) by simp
qed auto

abbreviation split_intervals :: "u64 \<Rightarrow> u64 \<Rightarrow> target_info \<Rightarrow> regions \<Rightarrow> interval list" where
  "split_intervals s e t m \<equiv> mk_intervals s e t (overlapping_regions s e m)"

abbreviation kept_regions :: "u64 \<Rightarrow> u64 \<Rightarrow> regions \<Rightarrow> regions" where
  "kept_regions s e m \<equiv> filter (\<lambda>p. \<not> (r_start (snd p) < e \<and> r_end (snd p) > s)) m"

lemma split_interval_priority:
  "i \<in> set (split_intervals s e t m) \<Longrightarrow> i_priority i = ti_priority (i_target i)"
  by (auto simp: mk_intervals_def mk_interval_def)

lemma covered_not_kept:
  assumes "regions_ok m" "i \<in> set (split_intervals s e t m)" "covers_at a i"
    and "q \<in> set (kept_regions s e m)"
  shows "\<not> in_region a q"
proof
  assume a: "in_region a q"
  from assms(2) consider "i = mk_interval s e t"
    | p where "p \<in> set (overlapping_regions s e m)"
        "i = mk_interval (r_start (snd p)) (r_end (snd p)) (r_target (snd p))"
    by (auto simp: mk_intervals_def)
  then show False
  proof cases
    case 1
    then have "r_start (snd q) < e" "s < r_end (snd q)"
      using assms(3) a by (auto simp: covers_at_def mk_interval_def in_region_def)
    with assms(4) show False by simp
  next
    case 2
    then have "in_region a p" using assms(3) by (simp add: covers_at_def mk_interval_def in_region_def)
    then have "p = q" using a assms(1,4) 2(1) by (auto simp: regions_ok_def overlapping_regions_def)
    then show False using 2(1) assms(4) by (auto simp: overlapping_regions_def)
  qed
qed

text \<open>The regions that step 5 puts back, one per resolved segment.\<close>

definition new_regions :: "u64 \<Rightarrow> u64 \<Rightarrow> target_info \<Rightarrow> regions \<Rightarrow> (u64 \<times> region) set" where
  "new_regions s e t m =
     {(b, mk_region b c t') | b c t'. (b, c) \<in> set (segments (boundaries (split_intervals s e t m))) \<and>
        best_target (split_intervals s e t m) b c = Some t'}"

lemma new_regionE:
  assumes "p \<in> new_regions s e t m"
  obtains b c t' where "p = (b, mk_region b c t')"
    "(b, c) \<in> set (segments (boundaries (split_intervals s e t m)))"
    "best_target (split_intervals s e t m) b c = Some t'"
  using assms by (auto simp: new_regions_def)

lemma new_region_covered:
  assumes "p \<in> new_regions s e t m" "in_region a p"
  shows "\<exists>i \<in> set (split_intervals s e t m). covers_at a i"
proof -
  from assms(1) obtain b c t' where p: "p = (b, mk_region b c t')"
    "(b, c) \<in> set (segments (boundaries (split_intervals s e t m)))"
    "best_target (split_intervals s e t m) b c = Some t'" by (rule new_regionE)
  then have "filter (covers_at a) (split_intervals s e t m) \<noteq> []"
    using best_target_at[OF p(2), of a] assms(2) by (auto simp: in_region_def mk_region_def)
  then show ?thesis by (simp add: filter_empty_conv)
qed

lemma new_region_wf:
  assumes "p \<in> new_regions s e t m"
  shows "fst p = r_start (snd p) \<and> r_start (snd p) < r_end (snd p) \<and>
    ti_priority (r_target (snd p)) < UINT32_MAX"
proof -
  let ?is = "split_intervals s e t m"
  from assms obtain b c t' where p: "p = (b, mk_region b c t')"
    "(b, c) \<in> set (segments (boundaries ?is))" "best_target ?is b c = Some t'" by (rule new_regionE)
  have lt: "b < c" using segments_between(3)[OF boundaries_sorted p(2)] .
  have "fst (fold pick (filter (covers_at b) ?is) (None, UINT32_MAX)) = Some t'"
    using p(3) best_target_at[OF p(2), of b] lt by simp
  then have "ti_priority t' < UINT32_MAX"
    by (rule fold_pick_priority[rotated -1]) (auto dest: split_interval_priority)
  with p(1) lt show ?thesis by (simp add: mk_region_def)
qed

lemma new_region_unique:
  assumes "p \<in> new_regions s e t m" "q \<in> new_regions s e t m" "in_region a p" "in_region a q"
  shows "p = q"
proof -
  let ?is = "split_intervals s e t m"
  from assms(1) obtain b c t1 where p: "p = (b, mk_region b c t1)"
    "(b, c) \<in> set (segments (boundaries ?is))" "best_target ?is b c = Some t1" by (rule new_regionE)
  from assms(2) obtain b' c' t2 where q: "q = (b', mk_region b' c' t2)"
    "(b', c') \<in> set (segments (boundaries ?is))" "best_target ?is b' c' = Some t2" by (rule new_regionE)
  have "b = b' \<and> c = c'" using assms(3,4) p(1) q(1)
    by (intro segments_unique[OF boundaries_sorted p(2) q(2), of a]) (simp_all add: in_region_def mk_region_def)
  then show ?thesis using p q by simp
qed

lemma new_region_not_kept:
  assumes "regions_ok m" "p \<in> new_regions s e t m" "q \<in> set (kept_regions s e m)" "in_region a p"
  shows "\<not> in_region a q"
  using new_region_covered[OF assms(2,4)] covered_not_kept[OF assms(1) _ _ assms(3)] by blast

lemma split_and_resolve_set:
  assumes "regions_ok m"
  shows "set (fst (split_and_resolve s e t m)) = set (kept_regions s e m) \<union> new_regions s e t m"
proof -
  let ?is = "split_intervals s e t m"
  have sok: "smap_ok m" using assms by (simp add: regions_ok_def)
  have fresh: "b \<notin> fst ` set (kept_regions s e m)"
    if seg: "(b, c) \<in> set (segments (boundaries ?is))" and "best_target ?is b c \<noteq> None" for b c
  proof
    assume "b \<in> fst ` set (kept_regions s e m)"
    then obtain q where q: "q \<in> set (kept_regions s e m)" "fst q = b" by auto
    then have qb: "in_region b q" using assms by (auto simp: regions_ok_def in_region_def)
    from that obtain t' where "(b, mk_region b c t') \<in> new_regions s e t m"
      by (auto simp: new_regions_def)
    moreover have "in_region b (b, mk_region b c t')"
      using segments_between(3)[OF boundaries_sorted seg] by (simp add: in_region_def mk_region_def)
    ultimately show False using new_region_not_kept[OF assms _ q(1)] qb by blast
  qed
  show ?thesis
    unfolding split_and_resolve_def Let_def fst_conv erase_overlapping[OF sok] new_regions_def
    by (rule resolve_segments_set[OF boundaries_sorted fresh])
qed

lemma split_and_resolve_ok [inv_intros]:
  assumes "regions_ok m"
  shows "regions_ok (fst (split_and_resolve s e t m))"
proof -
  have sok: "smap_ok m" using assms by (simp add: regions_ok_def)
  have "smap_ok (fst (split_and_resolve s e t m))"
    unfolding split_and_resolve_def Let_def fst_conv erase_overlapping[OF sok]
    by (intro resolve_segments_ok smap_ok_filter sok)
  moreover have "p = q" if "p \<in> set (kept_regions s e m) \<union> new_regions s e t m"
    "q \<in> set (kept_regions s e m) \<union> new_regions s e t m" "in_region a p" "in_region a q" for a p q
  proof -
    have "p \<in> set m \<and> q \<in> set m \<or> p \<in> new_regions s e t m \<and> q \<in> new_regions s e t m"
      using that(1,2) new_region_not_kept[OF assms, of p s e t q a]
        new_region_not_kept[OF assms, of q s e t p a] that(3,4) by auto
    then show ?thesis
      using assms that(3,4) new_region_unique[of p s e t m q a] unfolding regions_ok_def by blast
  qed
  moreover have "fst p = r_start (snd p) \<and> r_start (snd p) < r_end (snd p) \<and>
      ti_priority (r_target (snd p)) < UINT32_MAX"
    if "p \<in> set (kept_regions s e m) \<union> new_regions s e t m" for p
    using that assms new_region_wf[of p s e t m] unfolding regions_ok_def by auto
  ultimately show ?thesis
    unfolding regions_ok_def split_and_resolve_set[OF assms] by blast
qed

lemma region_find_SomeI:
  "regions_ok m \<Longrightarrow> p \<in> set m \<Longrightarrow> in_region a p \<Longrightarrow> region_find m a = Some (r_target (snd p))"
  using region_find_entry[of m a] entry_at_Some[of m a p] by simp

lemma region_find_NoneI:
  "regions_ok m \<Longrightarrow> (\<And>p. p \<in> set m \<Longrightarrow> \<not> in_region a p) \<Longrightarrow> region_find m a = None"
  by (simp add: region_find_entry entry_at_None)

lemma region_find_SomeE:
  assumes "regions_ok m" "region_find m a = Some t"
  obtains p where "p \<in> set m" "in_region a p" "r_target (snd p) = t" "ti_priority t < UINT32_MAX"
proof -
  from assms obtain p where p: "entry_at m a = Some p" "r_target (snd p) = t"
    by (auto simp: region_find_entry)
  then have "p \<in> set m" "in_region a p" using entry_at_Some[OF assms(1)] by auto
  moreover from this have "ti_priority t < UINT32_MAX" using assms(1) p(2) by (auto simp: regions_ok_def)
  ultimately show ?thesis using p(2) that by blast
qed

lemma split_find_covered:
  assumes ok: "regions_ok m" and i: "i \<in> set (split_intervals s e t m)" "covers_at a i"
  shows "region_find (fst (split_and_resolve s e t m)) a =
    fst (fold pick (filter (covers_at a) (split_intervals s e t m)) (None, UINT32_MAX))"
proof -
  let ?is = "split_intervals s e t m"
  have rok: "regions_ok (fst (split_and_resolve s e t m))" by (rule split_and_resolve_ok[OF ok])
  have "i_start i \<in> set (boundaries ?is)" "i_end i \<in> set (boundaries ?is)"
    using i(1) by (auto simp: set_boundaries)
  then obtain b c where seg: "(b, c) \<in> set (segments (boundaries ?is))" "b \<le> a" "a < c"
    using segments_cover[OF boundaries_sorted] i(2) unfolding covers_at_def by blast
  have "region_find (fst (split_and_resolve s e t m)) a = best_target ?is b c"
  proof (cases "best_target ?is b c")
    case (Some t')
    then have "(b, mk_region b c t') \<in> new_regions s e t m" using seg by (auto simp: new_regions_def)
    then show ?thesis
      using region_find_SomeI[OF rok, of "(b, mk_region b c t')" a] seg Some
      by (simp add: in_region_def mk_region_def split_and_resolve_set[OF ok])
  next
    case None
    have "\<not> in_region a p" if "p \<in> new_regions s e t m" for p
      using that
    proof (rule new_regionE)
      fix b' c' t' assume p: "p = (b', mk_region b' c' t')"
        "(b', c') \<in> set (segments (boundaries ?is))" "best_target ?is b' c' = Some t'"
      then show ?thesis using segments_unique[OF boundaries_sorted seg(1) p(2), of a] seg(2,3) None
        by (auto simp: in_region_def mk_region_def)
    qed
    then show ?thesis
      using region_find_NoneI[OF rok, of a] covered_not_kept[OF ok i] None
      unfolding split_and_resolve_set[OF ok] by auto
  qed
  then show ?thesis using best_target_at[OF seg] by simp
qed

lemma split_find_uncovered:
  assumes ok: "regions_ok m" and i: "\<And>i. i \<in> set (split_intervals s e t m) \<Longrightarrow> \<not> covers_at a i"
  shows "region_find (fst (split_and_resolve s e t m)) a = region_find m a"
proof -
  let ?r = "fst (split_and_resolve s e t m)"
  have rok: "regions_ok ?r" by (rule split_and_resolve_ok[OF ok])
  have "p \<in> set ?r \<longleftrightarrow> p \<in> set m" if "in_region a p" for p
  proof
    assume "p \<in> set ?r"
    then show "p \<in> set m"
      using new_region_covered[OF _ that, of s e t m] i unfolding split_and_resolve_set[OF ok] by auto
  next
    assume p: "p \<in> set m"
    have "p \<notin> set (overlapping_regions s e m)"
      using i[of "mk_interval (r_start (snd p)) (r_end (snd p)) (r_target (snd p))"] that
      by (auto simp: mk_intervals_def covers_at_def in_region_def mk_interval_def)
    with p show "p \<in> set ?r" by (auto simp: split_and_resolve_set[OF ok] overlapping_regions_def)
  qed
  then have "entry_at ?r a = Some p \<longleftrightarrow> entry_at m a = Some p" for p
    unfolding entry_at_Some[OF ok] entry_at_Some[OF rok] by blast
  then have "entry_at ?r a = entry_at m a" by (cases "entry_at m a"; cases "entry_at ?r a") auto
  then show ?thesis by (simp add: region_find_entry ok rok)
qed

lemma covering_intervals:
  assumes ok: "regions_ok m"
  shows "filter (covers_at a) (split_intervals s e t m) =
    (if s \<le> a \<and> a < e then [mk_interval s e t] else []) @
    (case entry_at m a of
       None \<Rightarrow> []
     | Some p \<Rightarrow> if r_start (snd p) < e \<and> r_end (snd p) > s
         then [mk_interval (r_start (snd p)) (r_end (snd p)) (r_target (snd p))] else [])"
proof -
  let ?mk = "\<lambda>p. mk_interval (r_start (snd p)) (r_end (snd p)) (r_target (snd p))"
  let ?ov = "overlapping_regions s e m"
  have "filter (covers_at a) (map ?mk ?ov) = map ?mk (filter (in_region a) ?ov)"
    by (simp add: filter_map comp_def covers_at_def in_region_def[abs_def] mk_interval_def)
  moreover have "filter (in_region a) ?ov = (case entry_at m a of None \<Rightarrow> []
      | Some p \<Rightarrow> if r_start (snd p) < e \<and> r_end (snd p) > s then [p] else [])"
  proof (cases "entry_at m a")
    case None
    then have "filter (in_region a) ?ov = []" by (simp add: entry_at_None overlapping_regions_def filter_empty_conv)
    with None show ?thesis by simp
  next
    case (Some p)
    then have p: "p \<in> set m" "in_region a p" using entry_at_Some[OF ok] by auto
    have uniq: "q = p" if "q \<in> set ?ov" "in_region a q" for q
      using that p ok by (auto simp: regions_ok_def overlapping_regions_def)
    show ?thesis
    proof (cases "p \<in> set ?ov")
      case True
      then have "filter (in_region a) ?ov = [p]"
        using p(2) regions_ok_distinct[OF ok]
        by (intro filter_unique uniq) (simp_all add: overlapping_regions_def)
      with True Some show ?thesis by (auto simp: overlapping_regions_def)
    next
      case False
      then have "filter (in_region a) ?ov = []" using uniq unfolding filter_empty_conv by blast
      with False Some p show ?thesis by (auto simp: overlapping_regions_def)
    qed
  qed
  ultimately show ?thesis
    by (simp add: mk_intervals_def covers_at_def mk_interval_def split: option.splits)
qed

lemma split_and_resolve_find:
  assumes ok: "regions_ok m"
  shows "region_find (fst (split_and_resolve s e t m)) a =
    (if s \<le> a \<and> a < e \<and> ti_priority t < UINT32_MAX \<and>
        (case region_find m a of None \<Rightarrow> True | Some b \<Rightarrow> ti_priority t \<le> ti_priority b)
     then Some t else region_find m a)"
proof (cases "filter (covers_at a) (split_intervals s e t m) = []")
  case True
  then have "region_find (fst (split_and_resolve s e t m)) a = region_find m a"
    by (intro split_find_uncovered[OF ok]) (simp add: filter_empty_conv)
  moreover have "\<not> (s \<le> a \<and> a < e)" using True by (auto simp: covering_intervals[OF ok])
  ultimately show ?thesis by auto
next
  case False
  then obtain i where "i \<in> set (split_intervals s e t m)" "covers_at a i" 
    by (auto simp: filter_empty_conv)
  note * = split_find_covered[OF ok this]
  show ?thesis
  proof (cases "region_find m a")
    case None
    then have "entry_at m a = None" using ok by (simp add: region_find_entry)
    with None False * show ?thesis
      by (auto simp: covering_intervals[OF ok] pick_def mk_interval_def split: if_splits)
  next
    case (Some b)
    then obtain p where p: "entry_at m a = Some p" "r_target (snd p) = b" "ti_priority b < UINT32_MAX"
      using region_find_SomeE[OF ok] by (metis entry_at_Some[OF ok])
    have "in_region a p" using p(1) entry_at_Some[OF ok] by auto
    then have "s \<le> a \<Longrightarrow> a < e \<Longrightarrow> r_start (snd p) < e \<and> r_end (snd p) > s"
      by (auto simp: in_region_def)
    with Some p False * show ?thesis
      by (auto simp: covering_intervals[OF ok] pick_def mk_interval_def split: if_splits)
  qed
qed

section \<open>Correctness of the map\<close>

lemma regions_ok_Nil: "regions_ok []"
  by (simp add: regions_ok_def smap_ok_def)

lemma fold_add_ok:
  "regions_ok m \<Longrightarrow>
   regions_ok (fold (\<lambda>t m. fst (split_and_resolve (ti_address t) (ti_address t + ti_size t) t m)) ts m)"
  by (induction ts arbitrary: m) (auto intro: inv_intros)

lemma add_all_ok [simp, inv_intros]: "regions_ok (add_all ts)"
  by (simp add: add_all_def fold_add_ok regions_ok_Nil)

lemma fold_add_find:
  "regions_ok m \<Longrightarrow>
   region_find (fold (\<lambda>t m. fst (split_and_resolve (ti_address t) (ti_address t + ti_size t) t m)) ts m) a =
   fold (prefer_target a) ts (region_find m a)"
proof (induction ts arbitrary: m)
  case (Cons t ts)
  have "region_find (fst (split_and_resolve (ti_address t) (ti_address t + ti_size t) t m)) a =
      prefer_target a t (region_find m a)"
    using Cons.prems by (auto simp: split_and_resolve_find prefer_target_def covers_def)
  with Cons show ?case by (simp add: split_and_resolve_ok)
qed simp

lemma add_all_resolves: "region_find (add_all ts) a = resolve ts a"
proof -
  have "region_find [] a = None" by (simp add: region_find_def smap_pred_def smap_upto_def)
  then show ?thesis by (simp add: add_all_def fold_add_find regions_ok_Nil resolve_def)
qed

text \<open>What \<^verbatim>\<open>find_region\<close> reports.\<close>

lemma region_find_same_region:
  assumes "regions_ok m" "p \<in> set m" "in_region a p" "in_region b p"
  shows "region_find m a = region_find m b"
  using assms by (simp add: region_find_SomeI)

lemma smap_pred_region:
  assumes "regions_ok m" "smap_pred a m = Some (k, r)"
  shows "(k, r) \<in> set m" "r_start r = k" "k \<le> a" "k < r_end r"
    "\<And>p. p \<in> set m \<Longrightarrow> fst p \<le> a \<Longrightarrow> fst p \<le> k"
  using assms smap_pred_SomeD[of m a "(k, r)"] by (force simp: regions_ok_def)+

lemma below_hole:
  assumes ok: "regions_ok m" and none: "region_find m addr = None"
    and p: "p \<in> set m" "fst p \<le> addr"
  shows "r_end (snd p) \<le> hole_start addr m"
proof -
  have "smap_pred addr m \<noteq> None" using p smap_pred_None[of m addr] ok by (auto simp: regions_ok_def)
  then obtain k r where pr: "smap_pred addr m = Some (k, r)" by auto
  note q = smap_pred_region[OF ok pr]
  have "r_end r \<le> addr" using none q(2,3) pr by (auto simp: region_find_def split: if_splits)
  then have hs: "hole_start addr m = r_end r" using pr by (simp add: hole_start_def)
  show ?thesis
  proof (cases "fst p = k")
    case True
    then have "p = (k, r)" using q(1) p(1) ok smap_ok_inj[of m k] by (metis prod.collapse regions_ok_def)
    with hs show ?thesis by simp
  next
    case False
    then have "r_end (snd p) - 1 < k"
      using interval_map_okD(3)[OF regions_ok_interval[OF ok] p(1) q(1)] q(5)[OF p] by simp
    then have "r_end (snd p) \<le> k"
      using p(1) ok word_less_end_le[of "r_start (snd p)" "r_end (snd p)" k] by (auto simp: regions_ok_def not_le[symmetric])
    then show ?thesis using q(4) hs by simp
  qed
qed

lemma above_hole:
  assumes ok: "regions_ok m" and p: "p \<in> set m" "addr < fst p"
  shows "hole_end addr m \<le> r_start (snd p)"
proof -
  have sok: "smap_ok m" using ok by (simp add: regions_ok_def)
  have pa: "p \<in> set (smap_above addr m)" using p set_smap_above[OF sok] by simp
  then obtain q n where n: "smap_above addr m = q # n" by (cases "smap_above addr m") auto
  have "smap_ok (q # n)" using sok smap_upto_append_above[of m addr] n by (metis smap_ok_append)
  then have "fst q \<le> fst p" using pa n smap_ok_hd_min[of q n p] by auto
  moreover have "q \<in> set m" using n set_smap_above[OF sok, of addr] by auto
  ultimately show ?thesis using n ok p by (auto simp: hole_end_def regions_ok_def split: prod.splits)
qed

lemma hole_unmapped:
  assumes ok: "regions_ok m" and none: "region_find m addr = None"
    and a: "hole_start addr m \<le> a" "a < hole_end addr m"
  shows "region_find m a = None"
proof (rule region_find_NoneI[OF ok])
  fix p assume p: "p \<in> set m"
  show "\<not> in_region a p"
  proof (cases "fst p \<le> addr")
    case True
    then show ?thesis using below_hole[OF ok none p True] a(1) by (auto simp: in_region_def)
  next
    case False
    then show ?thesis using above_hole[OF ok p, of addr] a(2) by (auto simp: in_region_def not_le)
  qed
qed

lemma hole_around:
  assumes "regions_ok m" "region_find m addr = None"
  shows "hole_start addr m \<le> addr" "addr < hole_end addr m \<or> hole_end addr m = UINT64_MAX"
    "0 < hole_end addr m"
proof -
  show "hole_start addr m \<le> addr" by (auto simp: hole_start_def split: option.splits)
  have sok: "smap_ok m" using assms by (simp add: regions_ok_def)
  show *: "addr < hole_end addr m \<or> hole_end addr m = UINT64_MAX"
  proof (cases "smap_above addr m")
    case (Cons q n)
    then have "q \<in> set m" "addr < fst q" using set_smap_above[OF sok, of addr] by auto
    with Cons assms(1) show ?thesis by (auto simp: hole_end_def regions_ok_def case_prod_unfold)
  qed (simp add: hole_end_def)
  then show "0 < hole_end addr m" by (auto simp: word_gt_0)
qed

lemma am_find_region_cases:
  assumes "regions_ok m"
  obtains (mapped) k r where "(k, r) \<in> set m" "in_region addr (k, r)"
      "am_find_region addr m d = (Some (r_target r), d\<lparr>dmi_start := r_start r, dmi_end := r_end r - 1\<rparr>)"
  | (hole) "region_find m addr = None"
      "am_find_region addr m d = (None, d\<lparr>dmi_start := hole_start addr m, dmi_end := hole_end addr m - 1\<rparr>)"
proof (cases "region_find m addr")
  case None
  then show ?thesis using hole hole_around(3)[OF assms None]
    by (auto simp: region_find_def am_find_region_def split: option.splits if_splits)
next
  case (Some t)
  then obtain k r where "smap_pred addr m = Some (k, r)" "r_start r \<le> addr" "addr < r_end r"
    by (auto simp: region_find_def split: option.splits if_splits)
  then show ?thesis using mapped[of k r] smap_pred_region(1)[OF assms]
    by (auto simp: am_find_region_def in_region_def)
qed

lemma am_find_region_sound:
  assumes ok: "regions_ok m"
  shows "fst (am_find_region addr m d) = region_find m addr"
    and "dmi_start (snd (am_find_region addr m d)) \<le> a \<Longrightarrow> a \<le> dmi_end (snd (am_find_region addr m d)) \<Longrightarrow>
         region_find m a = region_find m addr"
    and "dmi_start (snd (am_find_region addr m d)) \<le> addr"
    and "addr \<le> dmi_end (snd (am_find_region addr m d)) \<or> addr = UINT64_MAX \<and> region_find m addr = None"
proof -
  let ?r = "am_find_region addr m d"
  have "fst ?r = region_find m addr \<and>
    (dmi_start (snd ?r) \<le> a \<longrightarrow> a \<le> dmi_end (snd ?r) \<longrightarrow> region_find m a = region_find m addr) \<and>
    dmi_start (snd ?r) \<le> addr \<and>
    (addr \<le> dmi_end (snd ?r) \<or> addr = UINT64_MAX \<and> region_find m addr = None)"
    using ok
  proof (cases rule: am_find_region_cases[where addr = addr and d = d])
    case (mapped k r)
    have ne: "r_start r < r_end r" using mapped(1) ok by (auto simp: regions_ok_def)
    have "region_find m b = Some (r_target r)" if "r_start r \<le> b" "b \<le> r_end r - 1" for b
      using that word_less_end_le[OF ne, of b]
      by (intro region_find_SomeI[OF ok mapped(1), simplified]) (simp add: in_region_def)
    with mapped ne show ?thesis by (auto simp: in_region_def word_less_end_le[OF ne])
  next
    case hole
    note h = hole_around[OF ok hole(1)]
    have le: "b \<le> hole_end addr m - 1 \<longleftrightarrow> b < hole_end addr m" for b
      using word_less_end_le[OF h(3)] by simp
    have "region_find m a = None" if "hole_start addr m \<le> a" "a \<le> hole_end addr m - 1"
      using hole_unmapped[OF ok hole(1)] that unfolding le by blast
    moreover have "addr < hole_end addr m \<or> addr = UINT64_MAX"
      using h(2) by (metis word_order.not_eq_extremum)
    ultimately show ?thesis using h(1) unfolding hole by (simp add: le)
  qed
  then show "fst ?r = region_find m addr"
    and "dmi_start (snd ?r) \<le> a \<Longrightarrow> a \<le> dmi_end (snd ?r) \<Longrightarrow> region_find m a = region_find m addr"
    and "dmi_start (snd ?r) \<le> addr"
    and "addr \<le> dmi_end (snd ?r) \<or> addr = UINT64_MAX \<and> region_find m addr = None"
    by blast+
qed

lemma resolve_snoc: "resolve (ts @ [t]) a = prefer_target a t (resolve ts a)"
  by (simp add: resolve_def)

lemma resolve_None_iff:
  "resolve ts a = None \<longleftrightarrow> (\<forall>u \<in> set ts. covers u a \<longrightarrow> ti_priority u = UINT32_MAX)"
proof (induction ts rule: rev_induct)
  case (snoc t ts)
  have "ti_priority t < UINT32_MAX \<longleftrightarrow> ti_priority t \<noteq> UINT32_MAX"
    by (metis word_order.not_eq_extremum)
  with snoc show ?case by (auto simp: resolve_snoc prefer_target_def)
qed (simp add: resolve_def)

definition wins :: "target_info list \<Rightarrow> u64 \<Rightarrow> target_info \<Rightarrow> bool" where
  "wins ts a t \<longleftrightarrow> (\<exists>xs ys. ts = xs @ t # ys \<and> covers t a \<and> ti_priority t < UINT32_MAX \<and>
     (\<forall>u \<in> set xs. covers u a \<longrightarrow> ti_priority t \<le> ti_priority u) \<and>
     (\<forall>u \<in> set ys. covers u a \<longrightarrow> ti_priority t < ti_priority u))"

lemma wins_min: "wins ts a t \<Longrightarrow> u \<in> set ts \<Longrightarrow> covers u a \<Longrightarrow> ti_priority t \<le> ti_priority u"
  unfolding wins_def by fastforce

lemma wins_snoc:
  "wins (ts @ [x]) a t \<longleftrightarrow>
     t = x \<and> covers x a \<and> ti_priority x < UINT32_MAX \<and>
       (\<forall>u \<in> set ts. covers u a \<longrightarrow> ti_priority x \<le> ti_priority u) \<or>
     wins ts a t \<and> (covers x a \<longrightarrow> ti_priority t < ti_priority x)"
  (is "?L \<longleftrightarrow> ?A \<or> ?B")
proof
  assume ?L
  then obtain xs ys where s: "ts @ [x] = xs @ t # ys" and r: "covers t a" "ti_priority t < UINT32_MAX"
     "\<forall>u \<in> set xs. covers u a \<longrightarrow> ti_priority t \<le> ti_priority u"
     "\<forall>u \<in> set ys. covers u a \<longrightarrow> ti_priority t < ti_priority u"
    unfolding wins_def by blast
  show "?A \<or> ?B"
  proof (cases ys rule: rev_cases)
    case Nil
    with s r show ?thesis by simp
  next
    case (snoc ys' y)
    with s have "ts = xs @ t # ys'" "y = x" by simp_all
    with r snoc have ?B unfolding wins_def by auto
    then show ?thesis ..
  qed
next
  assume "?A \<or> ?B"
  then show ?L
  proof
    assume ?A
    then show ?L unfolding wins_def by (intro exI[of _ ts] exI[of _ "[]"]) simp
  next
    assume ?B
    then obtain xs ys where "ts = xs @ t # ys" "covers t a" "ti_priority t < UINT32_MAX"
     "\<forall>u \<in> set xs. covers u a \<longrightarrow> ti_priority t \<le> ti_priority u"
     "\<forall>u \<in> set (ys @ [x]). covers u a \<longrightarrow> ti_priority t < ti_priority u"
      unfolding wins_def by auto
    then show ?L unfolding wins_def by (intro exI[of _ xs] exI[of _ "ys @ [x]"]) simp
  qed
qed

lemma resolve_Some_iff: "resolve ts a = Some t \<longleftrightarrow> wins ts a t"
proof (induction ts arbitrary: t rule: rev_induct)
  case Nil
  then show ?case by (simp add: resolve_def wins_def)
next
  case (snoc x ts)
  have max: "ti_priority u = UINT32_MAX \<longleftrightarrow> \<not> ti_priority u < UINT32_MAX" for u
    by (metis word_order.not_eq_extremum)
  show ?case
  proof (cases "resolve ts a")
    case None
    then have "\<not> wins ts a t" using snoc.IH by simp
    moreover have "\<forall>u \<in> set ts. covers u a \<longrightarrow> ti_priority x \<le> ti_priority u"
      using None by (auto simp: resolve_None_iff)
    ultimately show ?thesis using None by (auto simp: resolve_snoc wins_snoc prefer_target_def)
  next
    case (Some b)
    then have b: "wins ts a b" "b \<in> set ts" "covers b a" "ti_priority b < UINT32_MAX"
      using snoc.IH by (auto simp: wins_def)
    have "wins ts a t \<longleftrightarrow> t = b" using snoc.IH[of t, symmetric] Some by auto
    moreover have "(\<forall>u \<in> set ts. covers u a \<longrightarrow> ti_priority x \<le> ti_priority u) \<longleftrightarrow>
        ti_priority x \<le> ti_priority b"
      using b wins_min[OF b(1)] order_trans by blast
    ultimately show ?thesis using Some b(4)
      by (auto simp: resolve_snoc wins_snoc prefer_target_def dest: le_less_trans)
  qed
qed

lemma completely_shadowed_iff:
  assumes ok: "regions_ok m" and ne: "i_start i < i_end i"
  shows "completely_shadowed m i \<longleftrightarrow> (\<forall>a. covers_at a i \<longrightarrow> region_find m a \<noteq> Some (i_target i))"
proof
  assume "completely_shadowed m i"
  then have no: "\<not> (r_target (snd p) = i_target i \<and> r_start (snd p) < i_end i \<and> r_end (snd p) > i_start i)"
    if "p \<in> set m" for p using that by (auto simp: completely_shadowed_def list_ex_iff)
  show "\<forall>a. covers_at a i \<longrightarrow> region_find m a \<noteq> Some (i_target i)"
  proof (intro allI impI notI)
    fix a assume "covers_at a i" "region_find m a = Some (i_target i)"
    with no show False
      by (elim region_find_SomeE[OF ok]) (fastforce simp: covers_at_def in_region_def)
  qed
next
  assume R: "\<forall>a. covers_at a i \<longrightarrow> region_find m a \<noteq> Some (i_target i)"
  have "\<not> (r_target (snd p) = i_target i \<and> r_start (snd p) < i_end i \<and> r_end (snd p) > i_start i)"
    if p: "p \<in> set m" for p
  proof
    assume o: "r_target (snd p) = i_target i \<and> r_start (snd p) < i_end i \<and> r_end (snd p) > i_start i"
    let ?a = "max (r_start (snd p)) (i_start i)"
    have "in_region ?a p" "covers_at ?a i"
      using o p ok ne by (auto simp: in_region_def covers_at_def regions_ok_def)
    then show False using R region_find_SomeI[OF ok p] o by metis
  qed
  then show "completely_shadowed m i" by (auto simp: completely_shadowed_def list_ex_iff)
qed

section \<open>Properties\<close>




text \<open>
  Adding a target warns about exactly the intervals that lost everything: of the regions the
  new target overlaps, those whose target no longer owns a single address of the region's range.
\<close>

theorem shadow_warnings_exact:
  "i \<in> set (snd (split_and_resolve s e t (add_all ts))) \<longleftrightarrow>
     i \<in> set (split_intervals s e t (add_all ts)) \<and>
     \<not> (i_start i = s \<and> i_end i = e \<and> i_target i = t) \<and>
     (\<forall>a. covers_at a i \<longrightarrow>
        region_find (fst (split_and_resolve s e t (add_all ts))) a \<noteq> Some (i_target i))"
proof -
  let ?r = "fst (split_and_resolve s e t (add_all ts))" and ?is = "split_intervals s e t (add_all ts)"
  have *: "snd (split_and_resolve s e t (add_all ts)) = shadow_warnings s e t ?is ?r"
    by (simp add: split_and_resolve_def Let_def)
  have "completely_shadowed ?r i \<longleftrightarrow> (\<forall>a. covers_at a i \<longrightarrow> region_find ?r a \<noteq> Some (i_target i))"
    if "i \<in> set ?is" "\<not> (i_start i = s \<and> i_end i = e \<and> i_target i = t)"
  proof (rule completely_shadowed_iff)
    show "regions_ok ?r" by (intro inv_intros)
    have "regions_ok (add_all ts)" by simp
    with that show "i_start i < i_end i"
      by (auto simp: mk_intervals_def mk_interval_def overlapping_regions_def regions_ok_def)
  qed
  then show ?thesis unfolding * shadow_warnings_def by auto
qed

theorem shadow_warnings_exact_witness:
  "region_find (fst (split_and_resolve 0x80 0x300 (plain_target 1 0x80 0x280 0)
     (add_all [plain_target 0 0x100 0x100 1]))) 0x120 \<noteq> Some (plain_target 0 0x100 0x100 1)"
proof -
  have "mk_interval 0x100 0x200 (plain_target 0 0x100 0x100 1) \<in>
    set (snd (split_and_resolve 0x80 0x300 (plain_target 1 0x80 0x280 0)
      (add_all [plain_target 0 0x100 0x100 1])))"
    by code_simp
  then have "covers_at 0x120 (mk_interval 0x100 0x200 (plain_target 0 0x100 0x100 1)) \<longrightarrow> ?thesis"
    unfolding shadow_warnings_exact by (simp add: mk_interval_def)
  then show ?thesis by (simp add: covers_at_def mk_interval_def)
qed

text \<open>
  Two segments of one target that touch are reported as two ranges: a target whose middle was
  re-inserted by a weaker target is not merged again, and \<^verbatim>\<open>find_region\<close> at an address
  of the first part ends the DMI range inside the target, although its comment announces one
  continuous range.
\<close>

lemma find_region_not_merged:
  "\<exists>ts a d. resolve ts (dmi_end (snd (am_find_region a (add_all ts) d)) + 1) = resolve ts a \<and>
     resolve ts a \<noteq> None"
proof (intro exI conjI)
  let ?ts = "[plain_target 0 0 100 0, plain_target 1 50 10 10]"
  show "resolve ?ts (dmi_end (snd (am_find_region 0 (add_all ?ts) dmi_init)) + 1) = resolve ?ts 0"
    by code_simp
  show "resolve ?ts 0 \<noteq> None" by code_simp
qed

end
