(* ===== verification/AddrMapCache.thy ===== *)
theory AddrMapCache
  imports AddressMap
begin

text \<open>
  The lookup caches of the address map: \<^verbatim>\<open>AddrMapNoCache\<close> (\<^verbatim>\<open>router.h\<close>) and the three
  caches of \<^verbatim>\<open>addrmap_cache_examples.h\<close>. The locale \<open>addr_map_cache\<close> states what
  \<^verbatim>\<open>addressMap\<close> needs from its \<^verbatim>\<open>CacheType\<close>; inside it, every program of additions and
  lookups is shown to compute the priority resolution. The four caches are interpretations; for
  the region caches the contract asks that a stored target owns its whole range.
\<close>

section \<open>The cache implementations\<close>

text \<open>\<^verbatim>\<open>AddrMapNoCache\<close>: every lookup misses.\<close>

definition no_get :: "u64 \<Rightarrow> unit \<Rightarrow> target_info option option \<times> unit" where
  "no_get key c = (None, c)"

definition no_put :: "u64 \<Rightarrow> target_info option \<Rightarrow> u64 \<Rightarrow> unit \<Rightarrow> unit" where
  "no_put key v sz c = c"

definition no_clear :: "unit \<Rightarrow> unit" where
  "no_clear c = c"

text \<open>
  \<^verbatim>\<open>LRUCache\<close>: a \<^verbatim>\<open>std::list\<close> of nodes and a hash map from keys to list
  iterators. An iterator is the identity of a node: nodes are numbered in the order of their
  creation. That no iterator of the map dangles is part of the invariant \<open>lru_ok\<close> below; the
  branch for a dangling one is never taken.
\<close>

type_synonym lru_node = "nat \<times> u64 \<times> target_info option"

record lru_cache =
  lru_list :: "lru_node list"
  lru_map :: "u64 \<Rightarrow> nat option"
  lru_next :: nat
  lru_hits :: u64
  lru_misses :: u64

definition lru_capacity :: nat where
  "lru_capacity = 0x10000"

definition lru_init :: lru_cache where
  "lru_init = \<lparr>lru_list = [], lru_map = (\<lambda>_. None), lru_next = 0, lru_hits = 0, lru_misses = 0\<rparr>"

definition splice_front :: "nat \<Rightarrow> lru_node list \<Rightarrow> lru_node list" where
  "splice_front n xs = filter (\<lambda>x. fst x = n) xs @ filter (\<lambda>x. fst x \<noteq> n) xs"

definition lru_get :: "u64 \<Rightarrow> lru_cache \<Rightarrow> target_info option option \<times> lru_cache" where
  "lru_get key c =
     (case lru_map c key of
        None \<Rightarrow> (None, c\<lparr>lru_misses := lru_misses c + 1\<rparr>)
      | Some n \<Rightarrow>
          (map_option snd (map_of (lru_list c) n),
           c\<lparr>lru_list := splice_front n (lru_list c), lru_hits := lru_hits c + 1\<rparr>))"

definition lru_evict :: "lru_cache \<Rightarrow> lru_cache" where
  "lru_evict c =
     (if length (lru_list c) \<ge> lru_capacity
      then c\<lparr>lru_map := (lru_map c)(fst (snd (last (lru_list c))) := None),
             lru_list := butlast (lru_list c)\<rparr>
      else c)"

definition lru_put :: "u64 \<Rightarrow> target_info option \<Rightarrow> u64 \<Rightarrow> lru_cache \<Rightarrow> lru_cache" where
  "lru_put key v sz c =
     (let c1 = lru_evict c
      in c1\<lparr>lru_list := (lru_next c1, key, v) # lru_list c1,
            lru_map := (lru_map c1)(key \<mapsto> lru_next c1), lru_next := lru_next c1 + 1\<rparr>)"

definition lru_clear :: "lru_cache \<Rightarrow> lru_cache" where
  "lru_clear c = c\<lparr>lru_list := [], lru_map := (\<lambda>_. None)\<rparr>"

definition lru_reset_stats :: "lru_cache \<Rightarrow> lru_cache" where
  "lru_reset_stats c = c\<lparr>lru_hits := 0, lru_misses := 0\<rparr>"

text \<open>
  \<^verbatim>\<open>RegionFIFOCache\<close> and \<^verbatim>\<open>RegionLRUCache\<close>: one entry per target, which covers
  the whole range of the target.
\<close>

record region_entry =
  re_start :: u64
  re_end :: u64
  re_value :: target_info

record region_cache =
  rc_entries :: "region_entry list"
  rc_hits :: u64
  rc_misses :: u64

definition region_capacity :: nat where
  "region_capacity = 8"

definition region_init :: region_cache where
  "region_init = \<lparr>rc_entries = [], rc_hits = 0, rc_misses = 0\<rparr>"

definition entry_hit :: "u64 \<Rightarrow> region_entry \<Rightarrow> bool" where
  "entry_hit key e \<longleftrightarrow> key \<ge> re_start e \<and> key < re_end e"

definition fifo_get :: "u64 \<Rightarrow> region_cache \<Rightarrow> target_info option option \<times> region_cache" where
  "fifo_get key c =
     (case find (entry_hit key) (rc_entries c) of
        Some e \<Rightarrow> (Some (Some (re_value e)), c\<lparr>rc_hits := rc_hits c + 1\<rparr>)
      | None \<Rightarrow> (None, c\<lparr>rc_misses := rc_misses c + 1\<rparr>))"

definition fifo_put :: "u64 \<Rightarrow> target_info option \<Rightarrow> u64 \<Rightarrow> region_cache \<Rightarrow> region_cache" where
  "fifo_put key v sz c =
     (case v of
        None \<Rightarrow> c
      | Some t \<Rightarrow>
          (let es = (if length (rc_entries c) \<ge> region_capacity then tl (rc_entries c) else rc_entries c)
           in c\<lparr>rc_entries := es @ [\<lparr>re_start = ti_address t, re_end = ti_address t + ti_size t,
                re_value = t\<rparr>]\<rparr>))"

definition region_clear :: "region_cache \<Rightarrow> region_cache" where
  "region_clear c = c\<lparr>rc_entries := []\<rparr>"

text \<open>
  The reverse walk of \<^verbatim>\<open>RegionLRUCache\<close>: the last entry that hits, moved to the back
  unless it is there already.
\<close>

fun move_hit :: "u64 \<Rightarrow> region_entry list \<Rightarrow> region_entry list \<Rightarrow>
    (target_info \<times> region_entry list) option" where
  "move_hit key [] after = None"
| "move_hit key (e # before) after =
     (if entry_hit key e then Some (re_value e, rev before @ after @ [e])
      else move_hit key before (e # after))"

definition region_lru_get :: "u64 \<Rightarrow> region_cache \<Rightarrow> target_info option option \<times> region_cache" where
  "region_lru_get key c =
     (case move_hit key (rev (rc_entries c)) [] of
        Some (t, es) \<Rightarrow> (Some (Some t), c\<lparr>rc_entries := es, rc_hits := rc_hits c + 1\<rparr>)
      | None \<Rightarrow> (None, c\<lparr>rc_misses := rc_misses c + 1\<rparr>))"

definition region_lru_put :: "u64 \<Rightarrow> target_info option \<Rightarrow> u64 \<Rightarrow> region_cache \<Rightarrow> region_cache" where
  "region_lru_put key v sz c =
     (case v of
        None \<Rightarrow> c
      | Some t \<Rightarrow>
          (let es = (if length (rc_entries c) \<ge> region_capacity then tl (rc_entries c) else rc_entries c)
           in c\<lparr>rc_entries := es @ [\<lparr>re_start = ti_address t, re_end = ti_address t + ti_size t,
                re_value = t\<rparr>]\<rparr>))"

definition region_reset_stats :: "region_cache \<Rightarrow> region_cache" where
  "region_reset_stats c = c\<lparr>rc_hits := 0, rc_misses := 0\<rparr>"

section \<open>What the address map relies on\<close>

text \<open>
  A program over an address map: targets are added and addresses looked up in any order. The
  reference resolves every lookup among the targets added before it.
\<close>

datatype am_op = Add target_info | Find u64 u64

fun am_run :: "(u64 \<Rightarrow> 'c \<Rightarrow> target_info option option \<times> 'c) \<Rightarrow>
     (u64 \<Rightarrow> target_info option \<Rightarrow> u64 \<Rightarrow> 'c \<Rightarrow> 'c) \<Rightarrow> ('c \<Rightarrow> 'c) \<Rightarrow>
     am_op list \<Rightarrow> 'c address_map \<Rightarrow> target_info option list \<times> 'c address_map" where
  "am_run cget cput cclear [] am = ([], am)"
| "am_run cget cput cclear (Add t # ops) am = am_run cget cput cclear ops (fst (am_add cclear t am))"
| "am_run cget cput cclear (Find a sz # ops) am =
     (let (r, am1) = am_find cget cput a sz am; (rs, am2) = am_run cget cput cclear ops am1
      in (r # rs, am2))"

fun spec_run :: "target_info list \<Rightarrow> am_op list \<Rightarrow> target_info option list" where
  "spec_run ts [] = []"
| "spec_run ts (Add t # ops) = spec_run (ts @ [t]) ops"
| "spec_run ts (Find a sz # ops) = resolve ts a # spec_run ts ops"

text \<open>The targets of a program, and the lookups whose answer a cache may be asked to store.\<close>

fun storable_run :: "((u64 \<Rightarrow> target_info option) \<Rightarrow> target_info option \<Rightarrow> bool) \<Rightarrow>
    target_info list \<Rightarrow> am_op list \<Rightarrow> bool" where
  "storable_run storable ts [] = True"
| "storable_run storable ts (Add t # ops) = storable_run storable (ts @ [t]) ops"
| "storable_run storable ts (Find a sz # ops) =
     (storable (resolve ts) (resolve ts a) \<and> storable_run storable ts ops)"

text \<open>
  The contract of \<^verbatim>\<open>AddrMapCacheBase\<close>. \<open>coherent f c\<close>: the entries of \<open>c\<close> agree
  with the lookup function \<open>f\<close>; \<open>storable f v\<close>: the cache may be given the answer \<open>v\<close>
  of \<open>f\<close>.
\<close>

locale addr_map_cache =
  fixes cget :: "u64 \<Rightarrow> 'c \<Rightarrow> target_info option option \<times> 'c"
    and cput :: "u64 \<Rightarrow> target_info option \<Rightarrow> u64 \<Rightarrow> 'c \<Rightarrow> 'c"
    and cclear :: "'c \<Rightarrow> 'c"
    and coherent :: "(u64 \<Rightarrow> target_info option) \<Rightarrow> 'c \<Rightarrow> bool"
    and storable :: "(u64 \<Rightarrow> target_info option) \<Rightarrow> target_info option \<Rightarrow> bool"
  assumes clear_coherent: "coherent f c \<Longrightarrow> coherent g (cclear c)"
    and get_hit: "coherent f c \<Longrightarrow> fst (cget a c) = Some v \<Longrightarrow> v = f a"
    and get_coherent: "coherent f c \<Longrightarrow> coherent f (snd (cget a c))"
    and put_coherent: "coherent f c \<Longrightarrow> fst (cget a c) = None \<Longrightarrow> storable f (f a) \<Longrightarrow>
          coherent f (cput a (f a) sz (snd (cget a c)))"
begin

lemma am_find_correct:
  assumes "coherent (region_find (m_regions am)) (m_cache am)"
    and "storable (region_find (m_regions am)) (region_find (m_regions am) a)"
  shows "fst (am_find cget cput a sz am) = region_find (m_regions am) a"
    and "m_regions (snd (am_find cget cput a sz am)) = m_regions am"
    and "coherent (region_find (m_regions am)) (m_cache (snd (am_find cget cput a sz am)))"
  using get_hit[OF assms(1), of a] get_coherent[OF assms(1), of a] put_coherent[OF assms(1) _ assms(2), of sz]
  by (auto simp: am_find_def Let_def split: prod.splits option.splits)

lemma am_run_correct:
  assumes "m_regions am = add_all ts" "coherent (resolve ts) (m_cache am)"
    and "storable_run storable ts ops"
  shows "fst (am_run cget cput cclear ops am) = spec_run ts ops"
  using assms
proof (induction ops arbitrary: am ts)
  case (Cons op ops)
  have rf: "region_find (add_all us) = resolve us" for us by (simp add: fun_eq_iff add_all_resolves)
  show ?case
  proof (cases op)
    case (Add t)
    have "m_regions (fst (am_add cclear t am)) = add_all (ts @ [t])"
      using Cons.prems(1) by (simp add: am_add_def add_all_def split: prod.splits)
    moreover have "coherent (resolve (ts @ [t])) (m_cache (fst (am_add cclear t am)))"
      using clear_coherent[OF Cons.prems(2)] by (simp add: am_add_def split: prod.splits)
    ultimately show ?thesis using Add Cons.IH Cons.prems(3) by simp
  next
    case (Find a sz)
    note f = am_find_correct[of am a sz, unfolded Cons.prems(1) rf]
    obtain r am1 where am1: "am_find cget cput a sz am = (r, am1)" by force
    have "r = resolve ts a" "m_regions am1 = add_all ts" "coherent (resolve ts) (m_cache am1)"
      using f Cons.prems(2,3) Find am1 by auto
    then show ?thesis using Find Cons.IH[of am1 ts] Cons.prems(3) am1
      by (cases "am_run cget cput cclear ops am1") simp
  qed
qed simp

end

section \<open>The caches keep the contract\<close>

interpretation no_cache: addr_map_cache no_get no_put no_clear "\<lambda>_ _. True" "\<lambda>_ _. True"
  by unfold_locales (simp_all add: no_get_def)

text \<open>The invariant of the LRU cache: node identities are fresh and no iterator dangles.\<close>

definition lru_ok :: "lru_cache \<Rightarrow> bool" where
  "lru_ok c \<longleftrightarrow> distinct (map fst (lru_list c)) \<and> (\<forall>n \<in> fst ` set (lru_list c). n < lru_next c) \<and>
     (\<forall>k n. lru_map c k = Some n \<longrightarrow> (\<exists>v. (n, k, v) \<in> set (lru_list c))) \<and>
     length (lru_list c) \<le> lru_capacity"

definition lru_coherent :: "(u64 \<Rightarrow> target_info option) \<Rightarrow> lru_cache \<Rightarrow> bool" where
  "lru_coherent f c \<longleftrightarrow> lru_ok c \<and> (\<forall>x \<in> set (lru_list c). snd (snd x) = f (fst (snd x)))"

lemma set_splice_front [simp]: "set (splice_front n xs) = set xs"
  by (auto simp: splice_front_def)

lemma length_splice_front [simp]: "length (splice_front n xs) = length xs"
  by (simp add: splice_front_def sum_length_filter_compl)

lemma distinct_splice_front: "distinct (map fst xs) \<Longrightarrow> distinct (map fst (splice_front n xs))"
  by (auto simp: splice_front_def distinct_map_filter)

lemma lru_ok_get [inv_intros]: "lru_ok c \<Longrightarrow> lru_ok (snd (lru_get k c))"
  by (auto simp: lru_ok_def lru_get_def distinct_splice_front split: option.splits)

lemma lru_ok_evict [inv_intros]:
  assumes "lru_ok c"
  shows "lru_ok (lru_evict c)" "length (lru_list (lru_evict c)) < lru_capacity"
    "set (lru_list (lru_evict c)) \<subseteq> set (lru_list c)"
proof -
  have "\<exists>v. (n, k, v) \<in> set (butlast (lru_list c))"
    if "lru_map c k = Some n" "k \<noteq> fst (snd (last (lru_list c)))" for k n
  proof -
    from that(1) assms obtain v where "(n, k, v) \<in> set (lru_list c)" unfolding lru_ok_def by blast
    with that(2) show ?thesis
      by (cases "lru_list c" rule: rev_cases) auto
  qed
  with assms show "lru_ok (lru_evict c)"
    by (auto simp: lru_ok_def lru_evict_def map_butlast distinct_butlast dest: in_set_butlastD)
  show "length (lru_list (lru_evict c)) < lru_capacity"
    using assms by (auto simp: lru_ok_def lru_evict_def lru_capacity_def)
  show "set (lru_list (lru_evict c)) \<subseteq> set (lru_list c)"
    by (auto simp: lru_evict_def dest: in_set_butlastD)
qed

lemma lru_ok_put [inv_intros]: "lru_ok c \<Longrightarrow> lru_ok (lru_put k v sz c)"
  using lru_ok_evict[of c] by (fastforce simp: lru_ok_def lru_put_def Let_def)

lemma lru_ok_clear [inv_intros]: "lru_ok (lru_clear c)"
  by (simp add: lru_ok_def lru_clear_def)

lemma lru_get_value:
  assumes "lru_ok c" "fst (lru_get k c) = Some v"
  shows "\<exists>n. (n, k, v) \<in> set (lru_list c)"
proof -
  from assms(2) obtain n k' where n: "lru_map c k = Some n" "map_of (lru_list c) n = Some (k', v)"
    by (auto simp: lru_get_def split: option.splits)
  from assms(1) n(1) obtain w where "(n, k, w) \<in> set (lru_list c)" unfolding lru_ok_def by blast
  with n(2) assms(1) have "(k, w) = (k', v)" by (simp add: lru_ok_def)
  with \<open>(n, k, w) \<in> set (lru_list c)\<close> show ?thesis by auto
qed

text \<open>No lookup meets a dangling iterator.\<close>

lemma lru_get_no_dangling: "lru_ok c \<Longrightarrow> fst (lru_get k c) = None \<longleftrightarrow> lru_map c k = None"
  by (auto simp: lru_get_def lru_ok_def map_of_eq_None_iff split: option.splits) force

interpretation lru: addr_map_cache lru_get lru_put lru_clear lru_coherent "\<lambda>_ _. True"
proof
  show "lru_coherent g (lru_clear c)" for g c
    using lru_ok_clear by (simp add: lru_coherent_def) (simp add: lru_clear_def)
  show "v = f a" if "lru_coherent f c" "fst (lru_get a c) = Some v" for f c a v
    using that lru_get_value[of c a v] by (force simp: lru_coherent_def)
  show get: "lru_coherent f (snd (lru_get a c))" if "lru_coherent f c" for f c a
    using that lru_ok_get[of c a] by (auto simp: lru_coherent_def lru_get_def split: option.splits)
  show "lru_coherent f (lru_put a (f a) sz (snd (lru_get a c)))"
    if "lru_coherent f c" for f c a sz
  proof -
    have c: "lru_coherent f (snd (lru_get a c))" by (rule get[OF that])
    then have ok: "lru_ok (snd (lru_get a c))" by (simp add: lru_coherent_def)
    show ?thesis
      using c lru_ok_put[OF ok] lru_ok_evict(3)[OF ok]
      by (auto simp: lru_coherent_def lru_put_def Let_def)
  qed
qed

text \<open>A region cache may store a target only if the target owns its whole range.\<close>

definition region_storable :: "(u64 \<Rightarrow> target_info option) \<Rightarrow> target_info option \<Rightarrow> bool" where
  "region_storable f v \<longleftrightarrow> (case v of None \<Rightarrow> True | Some t \<Rightarrow> \<forall>b. covers t b \<longrightarrow> f b = Some t)"

definition region_coherent :: "(u64 \<Rightarrow> target_info option) \<Rightarrow> region_cache \<Rightarrow> bool" where
  "region_coherent f c \<longleftrightarrow> (\<forall>e \<in> set (rc_entries c). \<forall>a. entry_hit a e \<longrightarrow> f a = Some (re_value e))"

lemma region_coherent_subset:
  "region_coherent f c \<Longrightarrow> set (rc_entries c') \<subseteq> set (rc_entries c) \<Longrightarrow> region_coherent f c'"
  unfolding region_coherent_def by blast

lemma region_coherent_put:
  assumes "region_coherent f c" "region_storable f v"
  shows "region_coherent f (fifo_put a v sz c)"
proof (cases v)
  case (Some t)
  have "set (tl (rc_entries c)) \<subseteq> set (rc_entries c)" by (cases "rc_entries c") auto
  with Some assms show ?thesis
    by (auto simp: fifo_put_def region_coherent_def region_storable_def Let_def entry_hit_def covers_def)
qed (use assms in \<open>simp add: fifo_put_def\<close>)

lemma region_lru_put_fifo: "region_lru_put = fifo_put"
  by (intro ext) (simp add: region_lru_put_def fifo_put_def)

lemma move_hit_Some:
  "move_hit k es after = Some (t, es') \<Longrightarrow>
   set es' = set es \<union> set after \<and> (\<exists>e \<in> set es. entry_hit k e \<and> re_value e = t)"
  by (induction es arbitrary: after) (auto split: if_splits)

interpretation fifo: addr_map_cache fifo_get fifo_put region_clear region_coherent region_storable
proof
  show "v = f a" if "region_coherent f c" "fst (fifo_get a c) = Some v" for f c a v
    using that by (auto simp: fifo_get_def region_coherent_def dest!: find_SomeD split: option.splits)
  show get: "region_coherent f (snd (fifo_get a c))" if "region_coherent f c" for f c a
    by (rule region_coherent_subset[OF that]) (simp add: fifo_get_def split: option.splits)
  show "region_coherent f (fifo_put a (f a) sz (snd (fifo_get a c)))"
    if "region_coherent f c" "region_storable f (f a)" for f c a sz
    by (rule region_coherent_put[OF get[OF that(1)] that(2)])
qed (simp add: region_coherent_def region_clear_def)

interpretation region_lru: addr_map_cache region_lru_get region_lru_put region_clear region_coherent
    region_storable
proof
  show "v = f a" if "region_coherent f c" "fst (region_lru_get a c) = Some v" for f c a v
    using that by (auto simp: region_lru_get_def region_coherent_def dest!: move_hit_Some split: option.splits)
  show get: "region_coherent f (snd (region_lru_get a c))" if "region_coherent f c" for f c a
    by (rule region_coherent_subset[OF that])
      (auto simp: region_lru_get_def dest!: move_hit_Some split: option.splits)
  show "region_coherent f (region_lru_put a (f a) sz (snd (region_lru_get a c)))"
    if "region_coherent f c" "region_storable f (f a)" for f c a sz
    unfolding region_lru_put_fifo by (rule region_coherent_put[OF get[OF that(1)] that(2)])
qed (simp add: region_coherent_def region_clear_def)

section \<open>Disjoint targets\<close>

definition apart :: "target_info \<Rightarrow> target_info \<Rightarrow> bool" where
  "apart t u \<longleftrightarrow> ti_address t + ti_size t \<le> ti_address u \<or> ti_address u + ti_size u \<le> ti_address t"

fun added :: "am_op list \<Rightarrow> target_info list" where
  "added [] = []"
| "added (Add t # ops) = t # added ops"
| "added (Find a sz # ops) = added ops"

lemma apart_covers: "apart t u \<Longrightarrow> covers t a \<Longrightarrow> \<not> covers u a"
  unfolding apart_def covers_def by auto

lemma apart_storable:
  assumes "sorted_wrt apart ts"
  shows "region_storable (resolve ts) (resolve ts a)"
proof (cases "resolve ts a")
  case (Some t)
  have "resolve ts b = Some t" if b: "covers t b" for b
  proof -
    obtain xs ys where w: "ts = xs @ t # ys" "ti_priority t < UINT32_MAX"
      using Some by (auto simp: resolve_Some_iff wins_def)
    have "\<not> covers u b" if "u \<in> set xs \<union> set ys" for u
      using assms w(1) that b apart_covers[of u t b] apart_covers[of t u b]
      by (auto simp: sorted_wrt_append)
    with w b show ?thesis unfolding resolve_Some_iff wins_def by blast
  qed
  with Some show ?thesis by (simp add: region_storable_def)
qed (simp add: region_storable_def)

lemma apart_storable_run:
  "sorted_wrt apart (ts @ added ops) \<Longrightarrow> storable_run region_storable ts ops"
proof (induction ops arbitrary: ts)
  case (Cons op ops)
  show ?case
  proof (cases op)
    case (Add t)
    then show ?thesis using Cons.IH[of "ts @ [t]"] Cons.prems by simp
  next
    case (Find a sz)
    then show ?thesis using Cons apart_storable[of ts] by (simp add: sorted_wrt_append)
  qed
qed simp

lemma storable_run_trivial: "storable_run (\<lambda>_ _. True) ts ops"
  by (induction "\<lambda>(_ :: u64 \<Rightarrow> target_info option) (_ :: target_info option). True" ts ops
      rule: storable_run.induct) auto

text \<open>Statistics of the LRU cache.\<close>

fun lookups :: "am_op list \<Rightarrow> nat" where
  "lookups [] = 0"
| "lookups (Add t # ops) = lookups ops"
| "lookups (Find a sz # ops) = Suc (lookups ops)"

lemma lru_put_stats [simp]:
  "lru_hits (lru_put k v sz c) = lru_hits c" "lru_misses (lru_put k v sz c) = lru_misses c"
  by (simp_all add: lru_put_def lru_evict_def Let_def)

lemma lru_get_stats:
  "lru_hits (snd (lru_get k c)) + lru_misses (snd (lru_get k c)) = lru_hits c + lru_misses c + 1"
  by (simp add: lru_get_def split: option.splits)

lemma lru_run_invariant:
  "lru_ok (m_cache am) \<Longrightarrow>
   (let am' = snd (am_run lru_get lru_put lru_clear ops am)
    in lru_ok (m_cache am') \<and> lru_hits (m_cache am') + lru_misses (m_cache am') =
         lru_hits (m_cache am) + lru_misses (m_cache am) + of_nat (lookups ops))"
proof (induction ops arbitrary: am)
  case (Cons op ops)
  show ?case
  proof (cases op)
    case (Add t)
    let ?am = "fst (am_add lru_clear t am)"
    have c: "m_cache ?am = lru_clear (m_cache am)" by (simp add: am_add_def split: prod.splits)
    have "lru_hits (lru_clear (m_cache am)) = lru_hits (m_cache am)"
      "lru_misses (lru_clear (m_cache am)) = lru_misses (m_cache am)" by (simp_all add: lru_clear_def)
    with c show ?thesis using Add Cons.IH[of ?am] lru_ok_clear by simp
  next
    case (Find a sz)
    obtain r am1 where am1: "am_find lru_get lru_put a sz am = (r, am1)" by force
    then have "lru_ok (m_cache am1) \<and> lru_hits (m_cache am1) + lru_misses (m_cache am1) =
        lru_hits (m_cache am) + lru_misses (m_cache am) + 1"
      using lru_get_stats[of a "m_cache am"] lru_ok_get[OF Cons.prems, of a] lru_ok_put
      by (fastforce simp: am_find_def Let_def split: prod.splits option.splits)
    then show ?thesis using Find am1 Cons.IH[of am1]
      by (cases "am_run lru_get lru_put lru_clear ops am1") (simp add: Let_def algebra_simps)
  qed
qed simp

section \<open>Properties\<close>

text \<open>
  C14. The LRU lookup cache is transparent: for every sequence of additions and lookups, a router
  map with the cache (and one with the default \<^verbatim>\<open>AddrMapNoCache\<close>) answers every lookup
  as the priority resolution of the targets added so far does.
\<close>

theorem lru_cache_transparent:
  "fst (am_run lru_get lru_put lru_clear ops \<lparr>m_regions = [], m_cache = lru_init\<rparr>) = spec_run [] ops \<and>
   fst (am_run no_get no_put no_clear ops \<lparr>m_regions = [], m_cache = ()\<rparr>) = spec_run [] ops"
proof
  have "lru_coherent (resolve []) lru_init"
    by (simp add: lru_coherent_def lru_ok_def lru_init_def)
  then show "fst (am_run lru_get lru_put lru_clear ops \<lparr>m_regions = [], m_cache = lru_init\<rparr>) = spec_run [] ops"
    by (intro lru.am_run_correct storable_run_trivial) (simp_all add: add_all_def)
  show "fst (am_run no_get no_put no_clear ops \<lparr>m_regions = [], m_cache = ()\<rparr>) = spec_run [] ops"
    by (intro no_cache.am_run_correct storable_run_trivial) (simp_all add: add_all_def)
qed

text \<open>
  C15. The LRU cache stays within its capacity of 65536 entries, none of the iterators in its hash
  map dangles, and hits plus misses count the lookups (modulo the 64-bit counters).
\<close>

theorem lru_cache_bounded:
  assumes "c = m_cache (snd (am_run lru_get lru_put lru_clear ops \<lparr>m_regions = [], m_cache = lru_init\<rparr>))"
  shows "length (lru_list c) \<le> 0x10000 \<and>
    (\<forall>k n. lru_map c k = Some n \<longrightarrow> (\<exists>v. (n, k, v) \<in> set (lru_list c))) \<and>
    lru_hits c + lru_misses c = of_nat (lookups ops)"
proof -
  have "lru_ok lru_init" by (simp add: lru_ok_def lru_init_def)
  then show ?thesis
    using assms lru_run_invariant[of "\<lparr>m_regions = [], m_cache = lru_init\<rparr>" ops]
    by (simp add: Let_def lru_ok_def lru_capacity_def lru_init_def)
qed

theorem lru_cache_bounded_witness:
  "length (lru_list (m_cache (snd (am_run lru_get lru_put lru_clear
     [Add (plain_target 0 0 16 0), Find 4 1, Find 4 1] \<lparr>m_regions = [], m_cache = lru_init\<rparr>)))) \<le> 0x10000"
  using lru_cache_bounded[OF refl] by blast

text \<open>
  C16. The two region caches are transparent when no two targets overlap, the situation they are
  written for.
\<close>

theorem region_cache_transparent:
  assumes "sorted_wrt apart (added ops)"
  shows "fst (am_run fifo_get fifo_put region_clear ops \<lparr>m_regions = [], m_cache = region_init\<rparr>) =
      spec_run [] ops \<and>
    fst (am_run region_lru_get region_lru_put region_clear ops \<lparr>m_regions = [], m_cache = region_init\<rparr>) =
      spec_run [] ops"
proof
  have c: "region_coherent (resolve []) region_init" by (simp add: region_coherent_def region_init_def)
  have s: "storable_run region_storable [] ops" using assms by (intro apart_storable_run) simp
  show "fst (am_run fifo_get fifo_put region_clear ops \<lparr>m_regions = [], m_cache = region_init\<rparr>) = spec_run [] ops"
    by (intro fifo.am_run_correct s) (simp_all add: add_all_def c)
  show "fst (am_run region_lru_get region_lru_put region_clear ops \<lparr>m_regions = [], m_cache = region_init\<rparr>) =
      spec_run [] ops"
    by (intro region_lru.am_run_correct s) (simp_all add: add_all_def c)
qed

theorem region_cache_transparent_witness:
  "fst (am_run fifo_get fifo_put region_clear
     [Add (plain_target 0 0 16 0), Add (plain_target 1 16 16 1), Find 4 1, Find 20 1, Find 5 1]
     \<lparr>m_regions = [], m_cache = region_init\<rparr>) =
   [Some (plain_target 0 0 16 0), Some (plain_target 1 16 16 1), Some (plain_target 0 0 16 0)]"
proof -
  have "sorted_wrt apart (added [Add (plain_target 0 0 16 0), Add (plain_target 1 16 16 1), Find 4 1, Find 20 1, Find 5 1])"
    by code_simp
  from region_cache_transparent[OF this] show ?thesis
    by (elim conjE) (simp only:, code_simp)
qed

text \<open>
  With overlapping targets they are not: the entry for a target covers the target's whole
  range, so that after a lookup in the uncontested part of a weak target the shadowed part is
  answered with the weak target too.
\<close>

lemma region_cache_ignores_priority:
  "\<exists>ops. fst (am_run fifo_get fifo_put region_clear ops \<lparr>m_regions = [], m_cache = region_init\<rparr>) \<noteq> spec_run [] ops \<and>
     fst (am_run region_lru_get region_lru_put region_clear ops \<lparr>m_regions = [], m_cache = region_init\<rparr>) \<noteq> spec_run [] ops"
proof (intro exI conjI)
  let ?ops = "[Add (plain_target 0 0 100 1), Add (plain_target 1 50 10 0), Find 0 1, Find 55 1]"
  show "fst (am_run fifo_get fifo_put region_clear ?ops \<lparr>m_regions = [], m_cache = region_init\<rparr>) \<noteq> spec_run [] ?ops"
    by code_simp
  show "fst (am_run region_lru_get region_lru_put region_clear ?ops \<lparr>m_regions = [], m_cache = region_init\<rparr>) \<noteq> spec_run [] ?ops"
    by code_simp
qed

end
