(* ===== verification/CciUtils.thy ===== *)
theory CciUtils
  imports Prelude "HOL-Library.List_Lexorder" "HOL-Library.Char_ord" "HOL-Library.Sublist"
begin

text \<open>
  \<^verbatim>\<open>common/include/cciutils.h\<close> and \<^verbatim>\<open>common/src/cciutils.cc\<close>: reading configuration values, and the
  name functions the components use to find their children. The CCI broker is not code of the
  repository: a configuration is what it answers (the value behind a valid parameter handle, the
  preset values, and the names of the presets not consumed so far).

  The \<^verbatim>\<open>std::string\<close> searches are written out first; \<open>None\<close> is \<^verbatim>\<open>npos\<close>.
\<close>

section \<open>Strings\<close>

fun str_find :: "string \<Rightarrow> string \<Rightarrow> nat option" where
  "str_find pat [] = (if pat = [] then Some 0 else None)"
| "str_find pat (c # s) = (if prefix pat (c # s) then Some 0 else map_option Suc (str_find pat s))"

definition str_find_from :: "string \<Rightarrow> nat \<Rightarrow> string \<Rightarrow> nat option" where
  "str_find_from pat pos s =
     (if pos > length s then None else map_option (\<lambda>i. i + pos) (str_find pat (drop pos s)))"

definition str_contains :: "string \<Rightarrow> string \<Rightarrow> bool" where
  "str_contains pat s \<longleftrightarrow> str_find pat s \<noteq> None"

fun find_last_of :: "char \<Rightarrow> string \<Rightarrow> nat option" where
  "find_last_of c [] = None"
| "find_last_of c (x # s) =
     (case find_last_of c s of Some i \<Rightarrow> Some (Suc i) | None \<Rightarrow> if x = c then Some 0 else None)"

text \<open>
  \<^verbatim>\<open>substr(pos, count)\<close> raises an exception when the position is behind the end; the count is
  cut at the end.
\<close>

definition substr :: "string \<Rightarrow> nat \<Rightarrow> nat \<Rightarrow> string res" where
  "substr s pos n = (if pos > length s then Inl Out_of_bounds else Inr (take n (drop pos s)))"

text \<open>\<^verbatim>\<open>list::sort\<close> followed by \<^verbatim>\<open>list::unique\<close>.\<close>

fun list_unique :: "'a list \<Rightarrow> 'a list" where
  "list_unique (x # y # xs) = (if x = y then list_unique (x # xs) else x # list_unique (y # xs))"
| "list_unique xs = xs"

section \<open>Configuration values\<close>

datatype cci_value = Cci_num nat | Cci_bool bool | Cci_string string | Cci_null

record cci_broker =
  br_param :: "string \<Rightarrow> cci_value option"
  br_preset :: "string \<Rightarrow> cci_value option"
  br_unconsumed :: "string list"

definition has_preset_value :: "cci_broker \<Rightarrow> string \<Rightarrow> bool" where
  "has_preset_value b n \<longleftrightarrow> br_preset b n \<noteq> None"

definition get_preset_cci_value :: "cci_broker \<Rightarrow> string \<Rightarrow> cci_value" where
  "get_preset_cci_value b n = (case br_preset b n of None \<Rightarrow> Cci_null | Some v \<Rightarrow> v)"

fun is_number :: "cci_value \<Rightarrow> bool" where
  "is_number (Cci_num n) = True"
| "is_number _ = False"

definition cci_get :: "cci_broker \<Rightarrow> string \<Rightarrow> cci_value" where
  "cci_get b n = (case br_param b n of Some v \<Rightarrow> v | None \<Rightarrow> get_preset_cci_value b n)"

text \<open>\<^verbatim>\<open>try_get\<close> at the types the sources use; a number must fit the type.\<close>

fun try_get_u64 :: "cci_value \<Rightarrow> u64 option" where
  "try_get_u64 (Cci_num n) = (if n < 2 ^ 64 then Some (of_nat n) else None)"
| "try_get_u64 _ = None"

fun try_get_u32 :: "cci_value \<Rightarrow> u32 option" where
  "try_get_u32 (Cci_num n) = (if n < 2 ^ 32 then Some (of_nat n) else None)"
| "try_get_u32 _ = None"

fun try_get_bool :: "cci_value \<Rightarrow> bool option" where
  "try_get_bool (Cci_bool b) = Some b"
| "try_get_bool _ = None"

fun try_get_string :: "cci_value \<Rightarrow> string option" where
  "try_get_string (Cci_string s) = Some s"
| "try_get_string _ = None"

definition cci_get_T :: "(cci_value \<Rightarrow> 'a option) \<Rightarrow> cci_broker \<Rightarrow> string \<Rightarrow> 'a res" where
  "cci_get_T try_get b n = (case try_get (cci_get b n) of Some v \<Rightarrow> Inr v | None \<Rightarrow> Inl Report_error)"

definition cci_get_d :: "(cci_value \<Rightarrow> 'a option) \<Rightarrow> cci_broker \<Rightarrow> string \<Rightarrow> 'a \<Rightarrow> 'a" where
  "cci_get_d try_get b n default_val =
     (case try_get (cci_get b n) of Some v \<Rightarrow> v | None \<Rightarrow> default_val)"

definition cci_get_opt :: "(cci_value \<Rightarrow> 'a option) \<Rightarrow> cci_broker \<Rightarrow> string \<Rightarrow> 'a option" where
  "cci_get_opt try_get b n = try_get (cci_get b n)"

section \<open>Hierarchical names\<close>

definition sc_cci_leaf_name :: "string \<Rightarrow> string" where
  "sc_cci_leaf_name n = (case find_last_of CHR ''.'' n of Some i \<Rightarrow> drop (i + 1) n | None \<Rightarrow> n)"

definition get_parent_name :: "string \<Rightarrow> string" where
  "get_parent_name n = (case find_last_of CHR ''.'' n of Some i \<Rightarrow> take i n | None \<Rightarrow> [])"

text \<open>The component of a name that starts at position \<open>l\<close>.\<close>

definition component_at :: "nat \<Rightarrow> string \<Rightarrow> string res" where
  "component_at l n =
     (case str_find_from ''.'' l n of
        Some i \<Rightarrow> substr n l (i - l)
      | None \<Rightarrow> substr n l (length n))"

fun components_at :: "nat \<Rightarrow> string list \<Rightarrow> string list res" where
  "components_at l [] = Inr []"
| "components_at l (n # ns) =
     bind_res (component_at l n) (\<lambda>c. bind_res (components_at l ns) (\<lambda>cs. Inr (c # cs)))"

definition sc_cci_children :: "cci_broker \<Rightarrow> string \<Rightarrow> string list res" where
  "sc_cci_children b name =
     bind_res (components_at (length name + 1)
         (filter (\<lambda>n. str_find (name @ ''.'') n = Some 0) (br_unconsumed b)))
       (\<lambda>cs. Inr (list_unique (sort cs)))"

lemma list_unique_simps:
  "list_unique [x] = [x]" "set (list_unique xs) = set xs"
  by simp (induction xs rule: list_unique.induct, auto)

lemma list_unique_sorted: "sorted xs \<Longrightarrow> sorted_wrt (<) (list_unique xs)"
proof (induction xs rule: list_unique.induct)
  case (1 x y xs)
  then show ?case by (auto simp: list_unique_simps(2))
qed auto

lemma find_last_of_None: "find_last_of c s = None \<longleftrightarrow> c \<notin> set s"
  by (induction s) (auto split: option.splits)

lemma find_last_of_Some:
  "find_last_of c s = Some i \<Longrightarrow> i < length s \<and> s ! i = c \<and> c \<notin> set (drop (Suc i) s)"
proof (induction s arbitrary: i)
  case (Cons x s)
  then show ?case by (cases "find_last_of c s") (auto simp: find_last_of_None split: if_splits)
qed simp

lemma parent_leaf_name:
  assumes "CHR ''.'' \<in> set n"
  shows "get_parent_name n @ ''.'' @ sc_cci_leaf_name n = n" "CHR ''.'' \<notin> set (sc_cci_leaf_name n)"
proof -
  from assms obtain i where i: "find_last_of CHR ''.'' n = Some i"
    using find_last_of_None by fastforce
  note f = find_last_of_Some[OF i]
  have "n = take i n @ n ! i # drop (Suc i) n" using f by (intro id_take_nth_drop) simp
  then have "take i n @ CHR ''.'' # drop (Suc i) n = n" using f by simp
  then show "get_parent_name n @ ''.'' @ sc_cci_leaf_name n = n" using i
    by (simp add: get_parent_name_def sc_cci_leaf_name_def)
  show "CHR ''.'' \<notin> set (sc_cci_leaf_name n)" using f i by (simp add: sc_cci_leaf_name_def)
qed

lemma str_find_0: "str_find pat s = Some 0 \<longleftrightarrow> prefix pat s"
  by (cases s) auto

text \<open>
  With the dot in the search pattern the position behind it is always inside the name: looking up
  children never raises.
\<close>

lemma component_at_total: "l \<le> length n \<Longrightarrow> \<exists>c. component_at l n = Inr c \<and> length c \<le> length n - l"
  by (auto simp: component_at_def substr_def split: option.splits)

lemma components_at_total: "\<forall>n \<in> set ns. l \<le> length n \<Longrightarrow> \<exists>cs. components_at l ns = Inr cs"
proof (induction ns)
  case (Cons n ns)
  then show ?case using component_at_total[of l n] by auto
qed simp

lemma sc_cci_children_total: "\<exists>cs. sc_cci_children b name = Inr cs \<and> sorted_wrt (<) cs"
proof -
  have "\<exists>cs. components_at (length name + 1)
      (filter (\<lambda>n. str_find (name @ ''.'') n = Some 0) (br_unconsumed b)) = Inr cs"
    by (rule components_at_total) (auto simp: str_find_0 prefix_def)
  then show ?thesis by (auto simp: sc_cci_children_def list_unique_sorted)
qed

end
