(* ===== verification/Router.thy ===== *)
theory Router
  imports AddrMapCache CciUtils
begin

text \<open>
  \<^verbatim>\<open>router/include/router.h\<close>, the class \<^verbatim>\<open>router\<close> around the address map: configuration from the
  CCI presets, the three forward calls, and the table of granted direct memory pointers.

  The router's state is the record \<open>router\<close>. A call that may stop the simulation returns a
  \<open>res\<close>. Notifications to the initiators (\<^verbatim>\<open>target_socket[t]->invalidate_direct_mem_ptr\<close>) are the
  list of results \<open>(initiator, start, end)\<close>.
\<close>

section \<open>State\<close>

record dmi_info =
  di_initiators :: "int list"
  di_dmi :: tlm_dmi

type_synonym dmi_map = "(u64, dmi_info) smap"
type_synonym notice = "int \<times> u64 \<times> u64"

record 'c cache_ops =
  co_get :: "u64 \<Rightarrow> 'c \<Rightarrow> target_info option option \<times> 'c"
  co_put :: "u64 \<Rightarrow> target_info option \<Rightarrow> u64 \<Rightarrow> 'c \<Rightarrow> 'c"
  co_clear :: "'c \<Rightarrow> 'c"

record 'c router =
  rt_name :: string
  rt_bound :: "target_info list"
  rt_aliases :: "target_info list"
  rt_ids :: "target_info list"
  rt_map :: "'c address_map"
  rt_dmi :: dmi_map
  rt_pool :: "path_id list"
  rt_initialized :: bool

section \<open>The table of granted pointers\<close>

abbreviation di_start :: "dmi_info \<Rightarrow> u64" where
  "di_start i \<equiv> dmi_start (di_dmi i)"

abbreviation di_end :: "dmi_info \<Rightarrow> u64" where
  "di_end i \<equiv> dmi_end (di_dmi i)"

definition router_invalidate_direct_mem_ptr_ts :: "u64 \<Rightarrow> u64 \<Rightarrow> dmi_map \<Rightarrow> dmi_map \<times> notice list" where
  "router_invalidate_direct_mem_ptr_ts s e m =
     (let (kept, erased) = smap_invalidate di_start di_end s e m;
          initiators = fold (\<lambda>p. fold sset_insert (di_initiators (snd p))) erased []
      in (kept, map (\<lambda>t. (t, s, e)) initiators))"

definition in_dmi_cache :: "tlm_dmi \<Rightarrow> dmi_map \<Rightarrow> (dmi_info \<times> dmi_map) res" where
  "in_dmi_cache d m =
     (case map_of m (dmi_start d) of
        Some i \<Rightarrow> if di_end i \<noteq> dmi_end d then Inl Report_error else Inr (i, m)
      | None \<Rightarrow>
          (let i = \<lparr>di_initiators = [], di_dmi = d\<rparr>
           in Inr (i, smap_emplace (dmi_start d) i m)))"

definition record_dmi :: "int \<Rightarrow> tlm_dmi \<Rightarrow> dmi_map \<Rightarrow> (dmi_map \<times> notice list) res" where
  "record_dmi iid d m =
     (let (m1, ns) =
        (case map_of m (dmi_start d) of
           Some i \<Rightarrow>
             if di_end i \<noteq> dmi_end d
             then router_invalidate_direct_mem_ptr_ts (dmi_start d) (dmi_end d) m else (m, [])
         | None \<Rightarrow> (m, []))
      in bind_res (in_dmi_cache d m1) (\<lambda>(i, m2).
           Inr (smap_assign (dmi_start d)
                  (i\<lparr>di_initiators := sset_insert iid (di_initiators i)\<rparr>) m2, ns)))"

section \<open>Configuration\<close>

definition register_boundto :: "string \<Rightarrow> 'c router \<Rightarrow> 'c router" where
  "register_boundto s r =
     r\<lparr>rt_bound := rt_bound r @
        [target_init\<lparr>ti_name := s, ti_index := length (rt_bound r), ti_chained := False,
           ti_shortname := drop (common_prefix s (rt_name r)) s\<rparr>]\<rparr>"

definition set_preset :: "string \<Rightarrow> cci_value \<Rightarrow> cci_broker \<Rightarrow> cci_broker" where
  "set_preset n v b =
     (if has_preset_value b n then b else b\<lparr>br_preset := (br_preset b)(n \<mapsto> v)\<rparr>)"

definition add_target :: "string \<Rightarrow> u64 \<Rightarrow> u64 \<Rightarrow> bool \<Rightarrow> u32 \<Rightarrow> cci_broker \<times> 'c router \<Rightarrow>
    cci_broker \<times> 'c router" where
  "add_target s address sz masked priority br =
     (set_preset (s @ ''.priority'') (Cci_num (unat priority))
       (set_preset (s @ ''.relative_addresses'') (Cci_bool masked)
         (set_preset (s @ ''.size'') (Cci_num (unat sz))
           (set_preset (s @ ''.address'') (Cci_num (unat address)) (fst br)))),
      register_boundto s (snd br))"

definition get_matching_children :: "string \<Rightarrow> string list \<Rightarrow> string list res" where
  "get_matching_children pre names =
     bind_res (components_at (length pre + 1) (filter (\<lambda>n. str_find pre n = Some 0) names))
       (\<lambda>cs. Inr (list_unique (sort cs)))"

text \<open>The configuration name of a target: its own, or the one its first positional value refers to.\<close>

definition config_name :: "cci_broker \<Rightarrow> string \<Rightarrow> string res" where
  "config_name b name =
     (case cci_get_opt try_get_string b (name @ ''.0'') of
        None \<Rightarrow> Inr name
      | Some src \<Rightarrow>
          if has_preset_value b (name @ ''.address'') \<and>
             is_number (get_preset_cci_value b (name @ ''.address''))
          then Inr name
          else
            (let src1 = (case src of c # cs \<Rightarrow> if c = CHR ''&'' then cs @ ''.target_socket'' else src
                                   | [] \<Rightarrow> src)
             in if \<not> has_preset_value b (src1 @ ''.address'') then Inl Report_error else Inr src1))"

definition configure_target :: "cci_broker \<Rightarrow> target_info \<Rightarrow> target_info res" where
  "configure_target b ti =
     bind_res (config_name b (ti_name ti)) (\<lambda>name.
     bind_res (cci_get_T try_get_u64 b (name @ ''.address'')) (\<lambda>address.
     bind_res (cci_get_T try_get_u64 b (name @ ''.size'')) (\<lambda>sz.
       Inr (ti\<lparr>ti_address := address, ti_size := sz,
         ti_use_offset := cci_get_d try_get_bool b (name @ ''.relative_addresses'') True,
         ti_chained := cci_get_d try_get_bool b (name @ ''.chained'') False,
         ti_priority := cci_get_d try_get_u32 b (name @ ''.priority'') 0\<rparr>))))"

definition make_alias :: "cci_broker \<Rightarrow> target_info \<Rightarrow> string \<Rightarrow> target_info res" where
  "make_alias b ti n =
     (let alias_name = ti_name ti @ ''.aliases.'' @ n
      in bind_res (cci_get_T try_get_u64 b (alias_name @ ''.address'')) (\<lambda>address.
         bind_res (cci_get_T try_get_u64 b (alias_name @ ''.size'')) (\<lambda>sz.
           Inr (ti\<lparr>ti_address := address, ti_size := sz, ti_name := alias_name\<rparr>))))"

fun add_aliases :: "'c cache_ops \<Rightarrow> cci_broker \<Rightarrow> target_info \<Rightarrow> string list \<Rightarrow> 'c router \<Rightarrow>
    'c router res" where
  "add_aliases co b ti [] r = Inr r"
| "add_aliases co b ti (n # ns) r =
     bind_res (make_alias b ti n) (\<lambda>a.
       add_aliases co b ti ns
         (r\<lparr>rt_aliases := rt_aliases r @ [a], rt_map := fst (am_add (co_clear co) a (rt_map r))\<rparr>))"

text \<open>
  The loop over the bound targets. The objects are updated in place: \<open>rt_bound\<close> collects the
  updated records.
\<close>

fun init_targets :: "'c cache_ops \<Rightarrow> cci_broker \<Rightarrow> string list \<Rightarrow> target_info list \<Rightarrow> 'c router \<Rightarrow>
    'c router res" where
  "init_targets co b all_alias [] r = Inr r"
| "init_targets co b all_alias (t # ts) r =
     bind_res (configure_target b t) (\<lambda>ti.
     bind_res (get_matching_children (ti_name ti @ ''.aliases'') all_alias) (\<lambda>ns.
     bind_res (add_aliases co b ti ns
         (r\<lparr>rt_bound := rt_bound r @ [ti], rt_map := fst (am_add (co_clear co) ti (rt_map r))\<rparr>)) (\<lambda>r1.
       init_targets co b all_alias ts (r1\<lparr>rt_ids := rt_ids r1 @ [ti]\<rparr>))))"

definition router_lazy_initialize :: "'c cache_ops \<Rightarrow> cci_broker \<Rightarrow> 'c router \<Rightarrow> 'c router res" where
  "router_lazy_initialize co b r =
     (if rt_initialized r then Inr r
      else bind_res
        (init_targets co b (filter (str_contains ''.aliases.'') (br_unconsumed b)) (rt_bound r)
          (r\<lparr>rt_bound := []\<rparr>))
        (\<lambda>r1. Inr (r1\<lparr>rt_initialized := True\<rparr>)))"

definition before_end_of_elaboration :: "bool \<Rightarrow> 'c cache_ops \<Rightarrow> cci_broker \<Rightarrow> 'c router \<Rightarrow>
    'c router res" where
  "before_end_of_elaboration lazy_init co b r =
     (if \<not> lazy_init then router_lazy_initialize co b r else Inr r)"

section \<open>Transport\<close>

definition stamp_txn :: "int \<Rightarrow> gp \<Rightarrow> 'c router \<Rightarrow> gp \<times> 'c router" where
  "stamp_txn iid txn r =
     (case gp_path txn of
        Some p \<Rightarrow> (txn\<lparr>gp_path := Some (p @ [iid])\<rparr>, r)
      | None \<Rightarrow>
          if rt_pool r = [] then (txn\<lparr>gp_path := Some [iid]\<rparr>, r)
          else (txn\<lparr>gp_path := Some (last (rt_pool r) @ [iid])\<rparr>, r\<lparr>rt_pool := butlast (rt_pool r)\<rparr>))"

definition unstamp_txn :: "int \<Rightarrow> gp \<Rightarrow> 'c router \<Rightarrow> (gp \<times> 'c router) res" where
  "unstamp_txn iid txn r =
     (case gp_path txn of
        None \<Rightarrow> Inl Assert_failed
      | Some p \<Rightarrow>
          if p = [] then Inl Out_of_bounds
          else assert_res (last p = iid)
            (if butlast p = []
             then Inr (txn\<lparr>gp_path := None\<rparr>, r\<lparr>rt_pool := rt_pool r @ [butlast p]\<rparr>)
             else Inr (txn\<lparr>gp_path := Some (butlast p)\<rparr>, r)))"

definition router_decode_address :: "'c cache_ops \<Rightarrow> cci_broker \<Rightarrow> gp \<Rightarrow> 'c router \<Rightarrow>
    (target_info option \<times> 'c router) res" where
  "router_decode_address co b txn r =
     bind_res (router_lazy_initialize co b r) (\<lambda>r1.
       let (ti, am) = am_find (co_get co) (co_put co) (gp_address txn) (ucast (gp_length txn)) (rt_map r1)
       in Inr (ti, r1\<lparr>rt_map := am\<rparr>))"

text \<open>
  Invalidations from target \<open>i\<close>: shifted by the base address the target's own record has (the
  record in \<^verbatim>\<open>id_targets\<close>, whichever alias the pointer was granted through).
\<close>

definition router_invalidate_direct_mem_ptr :: "nat \<Rightarrow> u64 \<Rightarrow> u64 \<Rightarrow> 'c router \<Rightarrow>
    ('c router \<times> notice list) res" where
  "router_invalidate_direct_mem_ptr i s e r =
     (if i \<ge> length (rt_ids r) then Inl Out_of_bounds
      else
        let t = rt_ids r ! i;
            s1 = (if ti_use_offset t then ti_address t + s else s);
            e1 = (if ti_use_offset t then ti_address t + e else e);
            (m, ns) = router_invalidate_direct_mem_ptr_ts s1 e1 (rt_dmi r)
        in Inr (r\<lparr>rt_dmi := m\<rparr>, ns))"

fun handle_invals :: "nat \<Rightarrow> inval list \<Rightarrow> 'c router \<Rightarrow> ('c router \<times> notice list) res" where
  "handle_invals i [] r = Inr (r, [])"
| "handle_invals i ((s, e) # is) r =
     bind_res (router_invalidate_direct_mem_ptr i s e r) (\<lambda>(r1, ns1).
     bind_res (handle_invals i is r1) (\<lambda>(r2, ns2). Inr (r2, ns1 @ ns2)))"

definition router_b_transport :: "'c cache_ops \<Rightarrow> cci_broker \<Rightarrow> (nat \<Rightarrow> 's b_transport_call) \<Rightarrow> int \<Rightarrow> gp \<Rightarrow> u64 \<Rightarrow>
    'c router \<Rightarrow> 's \<Rightarrow> (gp \<times> u64 \<times> notice list \<times> 'c router \<times> 's) res" where
  "router_b_transport co b initiator_socket iid txn delay r s =
     (let addr = gp_address txn
      in bind_res (router_decode_address co b txn r) (\<lambda>(ti, r1).
         case ti of
           None \<Rightarrow> Inr (txn\<lparr>gp_response := Address_error_response\<rparr>, delay, [], r1, s)
         | Some t \<Rightarrow>
             (let (trans1, r2) = stamp_txn iid txn r1
              in bind_res
                (if status_val (gp_response trans1) \<ge> status_val Incomplete_response then
                   (let trans2 = (if ti_use_offset t then trans1\<lparr>gp_address := addr - ti_address t\<rparr> else trans1);
                        (trans3, delay1, invals, s1) = initiator_socket (ti_index t) trans2 delay s;
                        trans4 = (if ti_use_offset t then trans3\<lparr>gp_address := addr\<rparr> else trans3)
                    in bind_res (handle_invals (ti_index t) invals r2) (\<lambda>(r3, ns).
                         Inr (trans4, delay1, ns, r3, s1)))
                 else Inr (trans1, delay, [], r2, s))
                (\<lambda>(trans5, delay2, ns, r4, s2).
                   bind_res (unstamp_txn iid trans5 r4) (\<lambda>(trans6, r5).
                     Inr (trans6, delay2, ns, r5, s2))))))"

definition router_transport_dbg :: "'c cache_ops \<Rightarrow> cci_broker \<Rightarrow> (nat \<Rightarrow> 's dbg_call) \<Rightarrow> int \<Rightarrow> gp \<Rightarrow>
    'c router \<Rightarrow> 's \<Rightarrow> (u32 \<times> gp \<times> 'c router \<times> 's) res" where
  "router_transport_dbg co b initiator_socket iid txn r s =
     bind_res (router_lazy_initialize co b r) (\<lambda>r0.
       let addr = gp_address txn
       in bind_res (router_decode_address co b txn r0) (\<lambda>(ti, r1).
          case ti of
            None \<Rightarrow> Inr (0, txn\<lparr>gp_response := Address_error_response\<rparr>, r1, s)
          | Some t \<Rightarrow>
              (let trans1 = (if ti_use_offset t then txn\<lparr>gp_address := addr - ti_address t\<rparr> else txn);
                   (ret, trans2, s1) = initiator_socket (ti_index t) trans1 s;
                   trans3 = (if ti_use_offset t then trans2\<lparr>gp_address := addr\<rparr> else trans2)
               in Inr (ret, trans3, r1, s1))))"

text \<open>A grant is moved to the router's addresses and cut to the decoded segment.\<close>

definition rebase_dmi :: "target_info \<Rightarrow> tlm_dmi \<Rightarrow> tlm_dmi res" where
  "rebase_dmi t d =
     (if ti_use_offset t
      then assert_res (dmi_start d < ti_size t)
        (Inr (d\<lparr>dmi_start := ti_address t + dmi_start d, dmi_end := ti_address t + dmi_end d\<rparr>))
      else Inr d)"

definition clamp_dmi :: "tlm_dmi \<Rightarrow> tlm_dmi \<Rightarrow> tlm_dmi" where
  "clamp_dmi hole d =
     (let d1 = (if dmi_start d < dmi_start hole
                then d\<lparr>dmi_ptr := dmi_ptr d + (dmi_start hole - dmi_start d), dmi_start := dmi_start hole\<rparr>
                else d)
      in if dmi_end d1 > dmi_end hole then d1\<lparr>dmi_end := dmi_end hole\<rparr> else d1)"

definition router_get_direct_mem_ptr :: "'c cache_ops \<Rightarrow> cci_broker \<Rightarrow> (nat \<Rightarrow> 's dmi_call) \<Rightarrow> int \<Rightarrow> gp \<Rightarrow> tlm_dmi \<Rightarrow>
    'c router \<Rightarrow> 's \<Rightarrow> (bool \<times> gp \<times> tlm_dmi \<times> notice list \<times> 'c router \<times> 's) res" where
  "router_get_direct_mem_ptr co b initiator_socket iid txn dmi_data r s =
     bind_res (router_lazy_initialize co b r) (\<lambda>r1.
       let addr = gp_address txn;
           (ti, hole) = am_find_region addr (m_regions (rt_map r1)) dmi_init;
           trans1 = txn\<lparr>gp_underlying :=
             map_option (add_dmi (rt_name r) hole (if ti = None then dmi_nomap else dmi_mapped))
               (gp_underlying txn)\<rparr>
       in case ti of
            None \<Rightarrow> Inr (False, trans1, dmi_data, [], r1, s)
          | Some t \<Rightarrow>
              (let trans2 = (if ti_use_offset t then trans1\<lparr>gp_address := addr - ti_address t\<rparr> else trans1);
                   (status, trans3, dmi1, invals, s1) = initiator_socket (ti_index t) trans2 dmi_data s;
                   trans4 = (if ti_use_offset t then trans3\<lparr>gp_address := addr\<rparr> else trans3)
               in bind_res (handle_invals (ti_index t) invals r1) (\<lambda>(r2, ns1).
                  if status then
                    bind_res (rebase_dmi t dmi1) (\<lambda>dmi2.
                      let dmi3 = clamp_dmi hole dmi2
                      in bind_res (record_dmi iid dmi3 (rt_dmi r2)) (\<lambda>(m, ns2).
                           Inr (True, trans4, dmi3, ns1 @ ns2, r2\<lparr>rt_dmi := m\<rparr>, s1)))
                  else Inr (False, trans4, dmi1, ns1, r2, s1))))"

section \<open>Invalidation\<close>

abbreviation dmi_map_ok :: "dmi_map \<Rightarrow> bool" where
  "dmi_map_ok \<equiv> interval_map_ok di_start di_end"

lemma set_fold_sset_insert [simp]: "set (fold sset_insert xs acc) = set xs \<union> set acc"
  by (induction xs arbitrary: acc) auto

lemma set_collect_initiators:
  "set (fold (\<lambda>p. fold sset_insert (di_initiators (snd p))) es acc) =
     (\<Union>p \<in> set es. set (di_initiators (snd p))) \<union> set acc"
  by (induction es arbitrary: acc) auto

lemma invalidate_ts_exact:
  assumes "dmi_map_ok m"
  shows "fst (router_invalidate_direct_mem_ptr_ts s e m) =
      filter (\<lambda>p. \<not> meets s e (di_start (snd p)) (di_end (snd p))) m"
    and "set (snd (router_invalidate_direct_mem_ptr_ts s e m)) =
      {(t, s, e) | t p. p \<in> set m \<and> meets s e (di_start (snd p)) (di_end (snd p)) \<and>
         t \<in> set (di_initiators (snd p))}"
  by (simp_all add: router_invalidate_direct_mem_ptr_ts_def smap_invalidate_filter[OF assms]
      set_collect_initiators image_UN) force

text \<open>
  The walk without the assumption that records are disjoint still erases the record with the key
  that starts the range, which is what \<^verbatim>\<open>record_dmi\<close> relies on.
\<close>

lemma smap_pred_key:
  assumes "smap_ok m" "(k, v) \<in> set m"
  shows "smap_pred k m = Some (k, v)"
  using assms smap_pred_eq_Some[OF assms(1), of k "(k, v)"] by simp

lemma overlap_walk_subset:
  "overlap_walk lo hi s e m = (kept, erased) \<Longrightarrow> set kept \<subseteq> set m"
  by (induction m arbitrary: kept erased) (auto split: if_splits prod.splits)

lemma overlap_walk_head:
  "\<not> lo (snd p) > e \<Longrightarrow> \<not> hi (snd p) < s \<Longrightarrow> p \<notin> set m \<Longrightarrow>
   p \<notin> set (fst (overlap_walk lo hi s e (p # m)))"
  using overlap_walk_subset[of lo hi s e m] by (auto split: prod.splits)

lemma smap_from_key:
  assumes "smap_ok m" "(k, v) \<in> set m"
  shows "\<exists>m'. smap_from False k m = (k, v) # m' \<and> (k, v) \<notin> set m' \<and> (k, v) \<notin> set (smap_before False k m)"
proof -
  have "takeWhile (below_bound False k) m = smap_upto k m"
    by (simp add: smap_upto_def below_bound_def[abs_def])
  moreover have "smap_upto k m \<noteq> []" "last (smap_upto k m) = (k, v)"
    using smap_pred_key[OF assms] by (auto simp: smap_pred_def split: list.splits)
  ultimately have f: "smap_from False k m = (k, v) # dropWhile (below_bound False k) m"
    by (auto simp: smap_from_def split: list.splits)
  have "smap_ok (smap_before False k m @ smap_from False k m)"
    using assms(1) by (simp add: smap_before_append_from)
  with f show ?thesis by (auto simp: smap_ok_append smap_ok_Cons)
qed

lemma invalidate_ts_key:
  assumes "smap_ok m" "(s, i) \<in> set m" "di_start i = s" "s \<le> di_end i" "s \<le> e"
  shows "(s, i) \<notin> set (fst (router_invalidate_direct_mem_ptr_ts s e m))"
    and "set (fst (router_invalidate_direct_mem_ptr_ts s e m)) \<subseteq> set m"
proof -
  obtain m' where f: "smap_from False s m = (s, i) # m'" "(s, i) \<notin> set m'"
    "(s, i) \<notin> set (smap_before False s m)"
    using smap_from_key[OF assms(1,2)] by blast
  have "fst (router_invalidate_direct_mem_ptr_ts s e m) =
      smap_before False s m @ fst (overlap_walk di_start di_end s e (smap_from False s m))"
    by (simp add: router_invalidate_direct_mem_ptr_ts_def smap_invalidate_def Let_def split: prod.splits)
  moreover have "(s, i) \<notin> set (fst (overlap_walk di_start di_end s e ((s, i) # m')))"
    using assms(3-5) f(2) by (intro overlap_walk_head) auto
  moreover have "set (fst (overlap_walk di_start di_end s e (smap_from False s m))) \<subseteq> set (smap_from False s m)"
    using overlap_walk_subset by (metis prod.collapse)
  moreover have "set (smap_before False s m) \<union> set (smap_from False s m) = set m"
    by (metis smap_before_append_from set_append)
  ultimately show "(s, i) \<notin> set (fst (router_invalidate_direct_mem_ptr_ts s e m))"
    "set (fst (router_invalidate_direct_mem_ptr_ts s e m)) \<subseteq> set m"
    using f by auto
qed

lemma record_dmi_total:
  assumes ok: "smap_ok m" "\<forall>p \<in> set m. fst p = di_start (snd p) \<and> di_start (snd p) \<le> di_end (snd p)"
    and d: "dmi_start d \<le> dmi_end d"
  shows "\<exists>m' ns. record_dmi iid d m = Inr (m', ns)"
proof (cases "map_of m (dmi_start d)")
  case None
  then show ?thesis by (simp add: record_dmi_def in_dmi_cache_def Let_def)
next
  case (Some i)
  then have i: "(dmi_start d, i) \<in> set m" by (rule map_of_SomeD)
  show ?thesis
  proof (cases "di_end i = dmi_end d")
    case True
    with Some show ?thesis by (simp add: record_dmi_def in_dmi_cache_def)
  next
    case False
    let ?m1 = "fst (router_invalidate_direct_mem_ptr_ts (dmi_start d) (dmi_end d) m)"
    have "di_start i = dmi_start d" "dmi_start d \<le> di_end i" using ok(2) i by force+
    note k = invalidate_ts_key[OF ok(1) i this d]
    have "map_of ?m1 (dmi_start d) = None"
      using k smap_ok_inj[OF ok(1) i] by (fastforce simp: map_of_eq_None_iff)
    with Some False show ?thesis
      by (auto simp: record_dmi_def in_dmi_cache_def Let_def split: prod.splits)
  qed
qed

section \<open>Grants from a fixed family of windows\<close>

text \<open>
  Targets that always grant the same windows: the windows are not empty and two that meet are
  equal. The table then only holds windows of the family.
\<close>

definition window_family :: "(u64 \<times> u64) set \<Rightarrow> bool" where
  "window_family F \<longleftrightarrow> (\<forall>w \<in> F. fst w \<le> snd w) \<and>
     (\<forall>w \<in> F. \<forall>w' \<in> F. meets (fst w) (snd w) (fst w') (snd w') \<longrightarrow> w = w')"

definition family_map :: "(u64 \<times> u64) set \<Rightarrow> dmi_map \<Rightarrow> bool" where
  "family_map F m \<longleftrightarrow>
     smap_ok m \<and> (\<forall>p \<in> set m. fst p = di_start (snd p) \<and> (di_start (snd p), di_end (snd p)) \<in> F)"

lemma window_familyD:
  assumes "window_family F" "(s, e) \<in> F"
  shows "s \<le> e" and "(s', e') \<in> F \<Longrightarrow> meets s e s' e' \<Longrightarrow> s = s' \<and> e = e'"
  using assms unfolding window_family_def by fastforce+

lemma family_mapD:
  assumes "family_map F m" "(a, i) \<in> set m"
  shows "di_start i = a" "(a, di_end i) \<in> F"
  using assms unfolding family_map_def by fastforce+

lemma family_map_interval:
  assumes "window_family F" "family_map F m"
  shows "dmi_map_ok m"
proof -
  have "di_end (snd p) < fst q" if "p \<in> set m" "q \<in> set m" "fst p < fst q" for p q
  proof (rule ccontr)
    assume n: "\<not> di_end (snd p) < fst q"
    have F: "(fst p, di_end (snd p)) \<in> F" "(fst q, di_end (snd q)) \<in> F"
      using that family_mapD(2)[OF assms(2)] by simp_all
    then have "meets (fst p) (di_end (snd p)) (fst q) (di_end (snd q))"
      using n that(3) window_familyD(1)[OF assms(1)] by (force simp: meets_def not_less)
    then show False using window_familyD(2)[OF assms(1) F] that(3) by simp
  qed
  moreover have "fst p = di_start (snd p) \<and> di_start (snd p) \<le> di_end (snd p)" if "p \<in> set m" for p
    using that assms(2) window_familyD(1)[OF assms(1)] unfolding family_map_def by fastforce
  ultimately show ?thesis using assms(2) by (simp add: interval_map_ok_def family_map_def)
qed

lemma family_map_start:
  assumes "window_family F" "family_map F m" "(dmi_start d, dmi_end d) \<in> F" "(dmi_start d, i) \<in> set m"
  shows "di_end i = dmi_end d"
proof -
  have i: "(dmi_start d, di_end i) \<in> F" using family_mapD[OF assms(2,4)] by simp
  have "meets (dmi_start d) (di_end i) (dmi_start d) (dmi_end d)"
    using window_familyD(1)[OF assms(1)] i assms(3) by (simp add: meets_def)
  then show ?thesis using window_familyD(2)[OF assms(1) i assms(3)] by simp
qed

lemma record_dmi_family:
  assumes F: "window_family F" "family_map F m" and d: "(dmi_start d, dmi_end d) \<in> F"
  shows "\<exists>m' i. record_dmi iid d m = Inr (m', []) \<and> family_map F m' \<and>
    set m' = insert (dmi_start d, i) {p \<in> set m. fst p \<noteq> dmi_start d} \<and>
    di_end i = dmi_end d \<and> iid \<in> set (di_initiators i) \<and>
    (\<forall>j. (dmi_start d, j) \<in> set m \<longrightarrow> set (di_initiators j) \<subseteq> set (di_initiators i))"
proof -
  have ok: "smap_ok m" using F(2) by (simp add: family_map_def)
  show ?thesis
  proof (cases "map_of m (dmi_start d)")
    case None
    let ?i = "\<lparr>di_initiators = [iid], di_dmi = d\<rparr>"
    have fresh: "dmi_start d \<notin> fst ` set m" using None by (simp add: map_of_eq_None_iff)
    then have "set (smap_assign (dmi_start d) ?i (smap_emplace (dmi_start d) \<lparr>di_initiators = [], di_dmi = d\<rparr> m)) =
        insert (dmi_start d, ?i) {p \<in> set m. fst p \<noteq> dmi_start d}"
      by (simp add: set_smap_assign smap_ok_emplace ok set_smap_emplace_fresh) auto
    moreover have "record_dmi iid d m = Inr (smap_assign (dmi_start d) ?i
        (smap_emplace (dmi_start d) \<lparr>di_initiators = [], di_dmi = d\<rparr> m), [])"
      using None by (simp add: record_dmi_def in_dmi_cache_def Let_def)
    moreover have "(dmi_start d, j) \<notin> set m" for j using fresh by force
    ultimately show ?thesis using F(2) d ok
      by (intro exI[of _ "smap_assign (dmi_start d) ?i (smap_emplace (dmi_start d) \<lparr>di_initiators = [], di_dmi = d\<rparr> m)"]
          exI[of _ ?i]) (simp add: family_map_def smap_ok_assign smap_ok_emplace)
  next
    case (Some j)
    then have j: "(dmi_start d, j) \<in> set m" by (rule map_of_SomeD)
    note e = family_map_start[OF F d j]
    have st: "di_start j = dmi_start d" using family_mapD[OF F(2) j] by simp
    let ?i = "j\<lparr>di_initiators := sset_insert iid (di_initiators j)\<rparr>"
    have "record_dmi iid d m = Inr (smap_assign (dmi_start d) ?i m, [])"
      using Some e by (simp add: record_dmi_def in_dmi_cache_def)
    moreover have "family_map F (smap_assign (dmi_start d) ?i m)"
      using F(2) d st e by (auto simp: family_map_def smap_ok_assign set_smap_assign)
    moreover have "set (di_initiators j') \<subseteq> set (di_initiators ?i)" if "(dmi_start d, j') \<in> set m" for j'
      using smap_ok_inj[OF ok j that] by auto
    ultimately show ?thesis using e
      by (intro exI[of _ "smap_assign (dmi_start d) ?i m"] exI[of _ ?i]) (simp add: set_smap_assign[OF ok])
  qed
qed

text \<open>
  The router's table together with what the initiators hold: an initiator holds a window from the
  grant until it is told to drop a range that meets it.
\<close>

type_synonym held = "(int \<times> u64 \<times> u64) set"

definition drop_held :: "notice list \<Rightarrow> held \<Rightarrow> held" where
  "drop_held ns h = {x \<in> h. \<not> (\<exists>n \<in> set ns. fst n = fst x \<and>
     meets (fst (snd n)) (snd (snd n)) (fst (snd x)) (snd (snd x)))}"

inductive dmi_reachable :: "(u64 \<times> u64) set \<Rightarrow> dmi_map \<Rightarrow> held \<Rightarrow> bool" for F where
  start: "dmi_reachable F [] {}"
| grant: "dmi_reachable F m h \<Longrightarrow> (dmi_start d, dmi_end d) \<in> F \<Longrightarrow>
    record_dmi iid d m = Inr (m', ns) \<Longrightarrow>
    dmi_reachable F m' (insert (iid, dmi_start d, dmi_end d) (drop_held ns h))"
| invalidate: "dmi_reachable F m h \<Longrightarrow>
    router_invalidate_direct_mem_ptr_ts s e m = (m', ns) \<Longrightarrow>
    dmi_reachable F m' (drop_held ns h)"

definition held_recorded :: "dmi_map \<Rightarrow> held \<Rightarrow> bool" where
  "held_recorded m h \<longleftrightarrow> (\<forall>i a b. (i, a, b) \<in> h \<longrightarrow>
     (\<exists>info. (a, info) \<in> set m \<and> di_end info = b \<and> i \<in> set (di_initiators info)))"

lemma held_dropped:
  assumes "dmi_map_ok m" "held_recorded m h"
    and "(i, a, b) \<in> drop_held (snd (router_invalidate_direct_mem_ptr_ts s e m)) h"
  shows "\<not> meets s e a b" "\<exists>info. (a, info) \<in> set (fst (router_invalidate_direct_mem_ptr_ts s e m)) \<and>
      di_end info = b \<and> i \<in> set (di_initiators info)"
proof -
  from assms(2,3) obtain info where info: "(a, info) \<in> set m" "di_end info = b" "i \<in> set (di_initiators info)"
    unfolding held_recorded_def drop_held_def by blast
  have a: "di_start info = a" using interval_map_okD(1)[OF assms(1) info(1)] by simp
  show nm: "\<not> meets s e a b"
  proof
    assume "meets s e a b"
    then have "(i, s, e) \<in> set (snd (router_invalidate_direct_mem_ptr_ts s e m))"
      using info a unfolding invalidate_ts_exact(2)[OF assms(1)] by force
    with \<open>meets s e a b\<close> assms(3) show False by (force simp: drop_held_def)
  qed
  then show "\<exists>info. (a, info) \<in> set (fst (router_invalidate_direct_mem_ptr_ts s e m)) \<and>
      di_end info = b \<and> i \<in> set (di_initiators info)"
    using info a unfolding invalidate_ts_exact(1)[OF assms(1)] by force
qed

lemma dmi_reachable_invariant:
  assumes "dmi_reachable F m h" "window_family F"
  shows "family_map F m \<and> held_recorded m h"
  using assms(1)
proof induction
  case start
  then show ?case by (simp add: family_map_def held_recorded_def)
next
  case (grant m h d iid m' ns)
  obtain m2 i where r: "record_dmi iid d m = Inr (m2, [])" "family_map F m2"
    "set m2 = insert (dmi_start d, i) {p \<in> set m. fst p \<noteq> dmi_start d}"
    "di_end i = dmi_end d" "iid \<in> set (di_initiators i)"
    "\<forall>j. (dmi_start d, j) \<in> set m \<longrightarrow> set (di_initiators j) \<subseteq> set (di_initiators i)"
    using record_dmi_family[OF assms(2) _ grant(2), of m iid] grant.IH by blast
  then have eq: "m' = m2" "ns = []" using grant(3) by auto
  have "\<exists>info. (a, info) \<in> set m2 \<and> di_end info = b \<and> k \<in> set (di_initiators info)"
    if old: "(k, a, b) \<in> h" for k a b
  proof -
    obtain info where "(a, info) \<in> set m" "di_end info = b" "k \<in> set (di_initiators info)"
      using grant.IH old unfolding held_recorded_def by blast
    then show ?thesis
      using r family_map_start[OF assms(2) _ grant(2), of m info] grant.IH
      by (cases "a = dmi_start d") auto
  qed
  then show ?case using r eq by (auto simp: held_recorded_def drop_held_def)
next
  case (invalidate m h s e m' ns)
  have ok: "dmi_map_ok m" using invalidate.IH assms(2) family_map_interval by blast
  have "family_map F (filter (\<lambda>p. \<not> meets s e (di_start (snd p)) (di_end (snd p))) m)"
    using invalidate.IH by (auto simp: family_map_def smap_ok_filter)
  moreover have "held_recorded m' (drop_held ns h)"
    using held_dropped(2)[OF ok, of h _ _ _ s e] invalidate unfolding held_recorded_def by simp
  ultimately show ?case using invalidate_ts_exact(1)[OF ok, of s e] invalidate(2) by simp
qed

section \<open>Forward calls\<close>

lemma handle_invals_total:
  "i < length (rt_ids r) \<Longrightarrow> \<exists>m ns. handle_invals i is r = Inr (r\<lparr>rt_dmi := m\<rparr>, ns)"
proof (induction "is" arbitrary: r)
  case Nil
  have "r = r\<lparr>rt_dmi := rt_dmi r\<rparr>" by simp
  then show ?case by (metis handle_invals.simps(1))
next
  case (Cons x "is")
  obtain s e where x: "x = (s, e)" by force
  have "\<exists>m1 ns1. router_invalidate_direct_mem_ptr i s e r = Inr (r\<lparr>rt_dmi := m1\<rparr>, ns1)"
    using Cons.prems by (simp add: router_invalidate_direct_mem_ptr_def Let_def case_prod_unfold) blast
  then obtain m1 ns1 where 1: "router_invalidate_direct_mem_ptr i s e r = Inr (r\<lparr>rt_dmi := m1\<rparr>, ns1)"
    by blast
  have "i < length (rt_ids (r\<lparr>rt_dmi := m1\<rparr>))" using Cons.prems by simp
  from Cons.IH[OF this] obtain m2 ns2
    where "handle_invals i is (r\<lparr>rt_dmi := m1\<rparr>) = Inr (r\<lparr>rt_dmi := m1, rt_dmi := m2\<rparr>, ns2)" by blast
  with 1 x have "handle_invals i (x # is) r = Inr (r\<lparr>rt_dmi := m2\<rparr>, ns1 @ ns2)" by simp
  then show ?case by blast
qed

text \<open>The payload a target sees, and the one the initiator gets back.\<close>

definition path_of :: "gp \<Rightarrow> path_id" where
  "path_of txn = (case gp_path txn of None \<Rightarrow> [] | Some p \<Rightarrow> p)"

definition forwarded :: "target_info \<Rightarrow> int \<Rightarrow> gp \<Rightarrow> gp" where
  "forwarded t iid txn = txn\<lparr>gp_path := Some (path_of txn @ [iid]),
     gp_address := (if ti_use_offset t then gp_address txn - ti_address t else gp_address txn)\<rparr>"

definition returned :: "target_info \<Rightarrow> gp \<Rightarrow> gp \<Rightarrow> gp" where
  "returned t txn g = g\<lparr>gp_path := gp_path txn,
     gp_address := (if ti_use_offset t then gp_address txn else gp_address g)\<rparr>"

text \<open>Extensions return to the pool empty.\<close>

definition pool_clean :: "'c router \<Rightarrow> bool" where
  "pool_clean r \<longleftrightarrow> (\<forall>p \<in> set (rt_pool r). p = [])"

lemma stamp_clean:
  assumes "pool_clean r"
  shows "\<exists>q. stamp_txn iid txn r = (txn\<lparr>gp_path := Some (path_of txn @ [iid])\<rparr>, r\<lparr>rt_pool := q\<rparr>) \<and>
    (\<forall>p \<in> set q. p = [])"
proof (cases "gp_path txn")
  case None
  show ?thesis
  proof (cases "rt_pool r" rule: rev_cases)
    case Nil
    with None show ?thesis
      by (intro exI[of _ "rt_pool r"]) (simp add: stamp_txn_def path_of_def)
  next
    case (snoc q p)
    with None assms show ?thesis
      by (intro exI[of _ q]) (simp add: stamp_txn_def path_of_def pool_clean_def)
  qed
next
  case (Some p)
  then show ?thesis using assms
    by (intro exI[of _ "rt_pool r"]) (simp add: stamp_txn_def path_of_def pool_clean_def)
qed

lemma unstamp_stamped:
  assumes "pool_clean r" "gp_path g = Some (path_of txn @ [iid])" "gp_path txn \<noteq> Some []"
  shows "\<exists>q. unstamp_txn iid g r = Inr (g\<lparr>gp_path := gp_path txn\<rparr>, r\<lparr>rt_pool := q\<rparr>) \<and>
    (\<forall>p \<in> set q. p = [])"
proof (cases "gp_path txn")
  case None
  then show ?thesis using assms(1,2)
    by (intro exI[of _ "rt_pool r @ [[]]"]) (simp add: unstamp_txn_def path_of_def pool_clean_def)
next
  case (Some p)
  then show ?thesis using assms
    by (intro exI[of _ "rt_pool r"]) (simp add: unstamp_txn_def path_of_def pool_clean_def)
qed

lemma b_transport_unmapped:
  assumes "router_decode_address co b txn r = Inr (None, r1)"
  shows "router_b_transport co b sock iid txn delay r s =
    Inr (txn\<lparr>gp_response := Address_error_response\<rparr>, delay, [], r1, s)"
  using assms by (simp add: router_b_transport_def)

lemma b_transport_mapped:
  assumes dec: "router_decode_address co b txn r = Inr (Some t, r1)"
    and st: "0 \<le> status_val (gp_response txn)" and idx: "ti_index t < length (rt_ids r1)"
    and pool: "pool_clean r1" and path: "gp_path txn \<noteq> Some []"
    and call: "sock (ti_index t) (forwarded t iid txn) delay s = (g, delay', invals, s')"
      "gp_path g = gp_path (forwarded t iid txn)"
  shows "\<exists>ns q m. router_b_transport co b sock iid txn delay r s =
      Inr (returned t txn g, delay', ns, r1\<lparr>rt_pool := q, rt_dmi := m\<rparr>, s') \<and> (\<forall>p \<in> set q. p = [])"
proof -
  obtain q where stamp: "stamp_txn iid txn r1 = (txn\<lparr>gp_path := Some (path_of txn @ [iid])\<rparr>, r1\<lparr>rt_pool := q\<rparr>)"
    "\<forall>p \<in> set q. p = []" using stamp_clean[OF pool] by blast
  let ?r2 = "r1\<lparr>rt_pool := q\<rparr>"
  let ?g = "if ti_use_offset t then g\<lparr>gp_address := gp_address txn\<rparr> else g"
  have fw: "(if ti_use_offset t
       then txn\<lparr>gp_path := Some (path_of txn @ [iid]), gp_address := gp_address txn - ti_address t\<rparr>
       else txn\<lparr>gp_path := Some (path_of txn @ [iid])\<rparr>) = forwarded t iid txn"
    by (simp add: forwarded_def)
  have "ti_index t < length (rt_ids ?r2)" using idx by simp
  from handle_invals_total[OF this, of invals] obtain m ns
    where inv: "handle_invals (ti_index t) invals ?r2 = Inr (?r2\<lparr>rt_dmi := m\<rparr>, ns)" by blast
  have "pool_clean (?r2\<lparr>rt_dmi := m\<rparr>)" using stamp(2) by (simp add: pool_clean_def)
  moreover have "gp_path ?g = Some (path_of txn @ [iid])" using call(2) by (simp add: forwarded_def)
  ultimately obtain q' where un: "unstamp_txn iid ?g (?r2\<lparr>rt_dmi := m\<rparr>) =
      Inr (?g\<lparr>gp_path := gp_path txn\<rparr>, ?r2\<lparr>rt_dmi := m, rt_pool := q'\<rparr>)" "\<forall>p \<in> set q'. p = []"
    using unstamp_stamped path by blast
  have "router_b_transport co b sock iid txn delay r s =
      Inr (?g\<lparr>gp_path := gp_path txn\<rparr>, delay', ns, ?r2\<lparr>rt_dmi := m, rt_pool := q'\<rparr>, s')"
    using dec stamp(1) st call(1) inv un(1) by (simp add: router_b_transport_def Let_def fw)
  moreover have "?g\<lparr>gp_path := gp_path txn\<rparr> = returned t txn g" by (simp add: returned_def)
  moreover have "?r2\<lparr>rt_dmi := m, rt_pool := q'\<rparr> = r1\<lparr>rt_pool := q', rt_dmi := m\<rparr>" by simp
  ultimately show ?thesis using un(2) by metis
qed

lemma b_transport_refused:
  assumes dec: "router_decode_address co b txn r = Inr (Some t, r1)"
    and st: "\<not> 0 \<le> status_val (gp_response txn)"
    and pool: "pool_clean r1" and path: "gp_path txn \<noteq> Some []"
  shows "\<exists>q. router_b_transport co b sock iid txn delay r s = Inr (txn, delay, [], r1\<lparr>rt_pool := q\<rparr>, s) \<and>
    (\<forall>p \<in> set q. p = [])"
proof -
  obtain q where stamp: "stamp_txn iid txn r1 = (txn\<lparr>gp_path := Some (path_of txn @ [iid])\<rparr>, r1\<lparr>rt_pool := q\<rparr>)"
    "\<forall>p \<in> set q. p = []" using stamp_clean[OF pool] by blast
  have "pool_clean (r1\<lparr>rt_pool := q\<rparr>)" using stamp(2) by (simp add: pool_clean_def)
  then obtain q' where "unstamp_txn iid (txn\<lparr>gp_path := Some (path_of txn @ [iid])\<rparr>) (r1\<lparr>rt_pool := q\<rparr>) =
      Inr (txn, r1\<lparr>rt_pool := q'\<rparr>)" "\<forall>p \<in> set q'. p = []"
    using unstamp_stamped[of "r1\<lparr>rt_pool := q\<rparr>" "txn\<lparr>gp_path := Some (path_of txn @ [iid])\<rparr>" txn iid] path
    by auto
  then show ?thesis using dec stamp st
    by (intro exI[of _ q']) (simp add: router_b_transport_def Let_def)
qed

lemma transport_dbg_mapped:
  assumes "rt_initialized r" "router_decode_address co b txn r = Inr (Some t, r1)"
    and "sock (ti_index t) (txn\<lparr>gp_address := (if ti_use_offset t then gp_address txn - ti_address t
           else gp_address txn)\<rparr>) s = (n, g, s')"
  shows "router_transport_dbg co b sock iid txn r s =
    Inr (n, g\<lparr>gp_address := (if ti_use_offset t then gp_address txn else gp_address g)\<rparr>, r1, s')"
  using assms by (cases "ti_use_offset t") (simp_all add: router_transport_dbg_def router_lazy_initialize_def)

context addr_map_cache
begin

lemma decode_correct:
  assumes "rt_initialized r" "m_regions (rt_map r) = add_all ts"
    and "coherent (resolve ts) (m_cache (rt_map r))"
    and "storable (resolve ts) (resolve ts (gp_address txn))"
  shows "\<exists>am. router_decode_address \<lparr>co_get = cget, co_put = cput, co_clear = cclear\<rparr> b txn r =
      Inr (resolve ts (gp_address txn), r\<lparr>rt_map := am\<rparr>) \<and> m_regions am = add_all ts \<and>
      coherent (resolve ts) (m_cache am)"
proof -
  have rf: "region_find (add_all ts) = resolve ts" by (simp add: fun_eq_iff add_all_resolves)
  note f = am_find_correct[of "rt_map r" "gp_address txn" "ucast (gp_length txn)", unfolded assms(2) rf,
      OF assms(3,4)]
  obtain ti am where "am_find cget cput (gp_address txn) (ucast (gp_length txn)) (rt_map r) = (ti, am)" by force
  with f assms(1,2) show ?thesis
    by (auto simp: router_decode_address_def router_lazy_initialize_def)
qed

end

text \<open>The operations of the default cache and of the LRU cache.\<close>

definition no_ops :: "unit cache_ops" where
  "no_ops = \<lparr>co_get = no_get, co_put = no_put, co_clear = no_clear\<rparr>"

definition lru_ops :: "lru_cache cache_ops" where
  "lru_ops = \<lparr>co_get = lru_get, co_put = lru_put, co_clear = lru_clear\<rparr>"

text \<open>A router that serves the targets \<open>ts\<close>.\<close>

definition serving :: "('c \<Rightarrow> bool) \<Rightarrow> target_info list \<Rightarrow> 'c router \<Rightarrow> bool" where
  "serving cache_ok ts r \<longleftrightarrow> rt_initialized r \<and> m_regions (rt_map r) = add_all ts \<and>
     cache_ok (m_cache (rt_map r)) \<and> (\<forall>t \<in> set ts. ti_index t < length (rt_ids r)) \<and> pool_clean r"

lemma serving_decode_lru:
  assumes "serving (lru_coherent (resolve ts)) ts r"
  shows "\<exists>am. router_decode_address lru_ops b txn r = Inr (resolve ts (gp_address txn), r\<lparr>rt_map := am\<rparr>) \<and>
    m_regions am = add_all ts \<and> lru_coherent (resolve ts) (m_cache am)"
  using assms unfolding serving_def lru_ops_def by (intro lru.decode_correct) auto

lemma resolve_in_set: "resolve ts a = Some t \<Longrightarrow> t \<in> set ts \<and> covers t a"
  by (auto simp: resolve_Some_iff wins_def)

section \<open>Direct memory grants\<close>

definition dmi_table_ok :: "dmi_map \<Rightarrow> bool" where
  "dmi_table_ok m \<longleftrightarrow>
     smap_ok m \<and> (\<forall>p \<in> set m. fst p = di_start (snd p) \<and> di_start (snd p) \<le> di_end (snd p))"

lemma smap_ok_overlap_walk:
  "smap_ok (b @ m) \<Longrightarrow> smap_ok (b @ fst (overlap_walk lo hi s e m))"
proof (induction m arbitrary: b)
  case (Cons p m)
  have "smap_ok ((b @ [p]) @ fst (overlap_walk lo hi s e m))"
    using Cons.IH[of "b @ [p]"] Cons.prems by simp
  moreover have "smap_ok (b @ m)"
    using Cons.prems by (auto simp: smap_ok_append dest: smap_ok_tl)
  then have "smap_ok (b @ fst (overlap_walk lo hi s e m))" by (rule Cons.IH)
  ultimately show ?case using Cons.prems by (auto split: prod.splits)
qed simp

lemma dmi_table_ok_invalidate_ts [inv_intros]:
  assumes "dmi_table_ok m"
  shows "dmi_table_ok (fst (router_invalidate_direct_mem_ptr_ts s e m))"
proof -
  have m: "fst (router_invalidate_direct_mem_ptr_ts s e m) =
      smap_before False s m @ fst (overlap_walk di_start di_end s e (smap_from False s m))"
    by (simp add: router_invalidate_direct_mem_ptr_ts_def smap_invalidate_def Let_def split: prod.splits)
  have "set (fst (overlap_walk di_start di_end s e (smap_from False s m))) \<subseteq> set (smap_from False s m)"
    using overlap_walk_subset by (metis prod.collapse)
  moreover have "set (smap_before False s m) \<union> set (smap_from False s m) = set m"
    by (metis smap_before_append_from set_append)
  ultimately have "set (smap_before False s m @ fst (overlap_walk di_start di_end s e (smap_from False s m))) \<subseteq> set m"
    by auto
  moreover have "smap_ok (smap_before False s m @ fst (overlap_walk di_start di_end s e (smap_from False s m)))"
    using assms by (intro smap_ok_overlap_walk) (simp add: smap_before_append_from dmi_table_ok_def)
  ultimately show ?thesis using assms unfolding m dmi_table_ok_def by blast
qed

lemma dmi_table_ok_handle_invals:
  "dmi_table_ok (rt_dmi r) \<Longrightarrow> handle_invals i is r = Inr (r', ns) \<Longrightarrow> dmi_table_ok (rt_dmi r')"
proof (induction "is" arbitrary: r ns)
  case (Cons x "is")
  obtain s e where x: "x = (s, e)" by force
  from Cons.prems x obtain r1 ns1 ns2 where r1: "router_invalidate_direct_mem_ptr i s e r = Inr (r1, ns1)"
    "handle_invals i is r1 = Inr (r', ns2)" by auto
  then have "dmi_table_ok (rt_dmi r1)"
    using dmi_table_ok_invalidate_ts[OF Cons.prems(1)]
    by (auto simp: router_invalidate_direct_mem_ptr_def Let_def case_prod_unfold split: if_splits)
  then show ?case using Cons.IH r1(2) by blast
qed simp

lemma set_smap_assign_self: "(k, v) \<in> set (smap_assign k v m)"
  by (induction k v m rule: smap_assign.induct) auto

lemma record_dmi_recorded:
  assumes "record_dmi iid d m = Inr (m', ns)"
  shows "\<exists>i. (dmi_start d, i) \<in> set m' \<and> di_end i = dmi_end d \<and> iid \<in> set (di_initiators i)"
proof -
  from assms obtain i m1 m2 where i: "in_dmi_cache d m1 = Inr (i, m2)"
    "m' = smap_assign (dmi_start d) (i\<lparr>di_initiators := sset_insert iid (di_initiators i)\<rparr>) m2"
    by (auto simp: record_dmi_def Let_def split: prod.splits)
  then have "di_end i = dmi_end d" by (auto simp: in_dmi_cache_def Let_def split: option.splits if_splits)
  then show ?thesis using i(2) set_smap_assign_self[of "dmi_start d" _ m2] by force
qed

lemma clamp_dmi_ptr: "dmi_ptr (clamp_dmi hole d) + (a - dmi_start (clamp_dmi hole d)) = dmi_ptr d + (a - dmi_start d)"
  by (simp add: clamp_dmi_def Let_def)

lemma clamp_dmi_range:
  "dmi_start (clamp_dmi hole d) = max (dmi_start hole) (dmi_start d)"
  "dmi_end (clamp_dmi hole d) = min (dmi_end hole) (dmi_end d)"
  by (auto simp: clamp_dmi_def Let_def max_def min_def)

text \<open>Where a target's local addresses start, and the payload of a request.\<close>

definition base_of :: "target_info \<Rightarrow> u64" where
  "base_of t = (if ti_use_offset t then ti_address t else 0)"

definition dmi_request :: "string \<Rightarrow> target_info \<Rightarrow> tlm_dmi \<Rightarrow> gp \<Rightarrow> gp" where
  "dmi_request nm t hole txn = txn\<lparr>gp_underlying := map_option (add_dmi nm hole dmi_mapped) (gp_underlying txn),
     gp_address := gp_address txn - base_of t\<rparr>"

text \<open>
  What a router expects from a grant: it contains the local address asked for, it starts inside the
  target, and its end does not wrap around when it is moved to the router's addresses.
\<close>

definition grant_ok :: "target_info \<Rightarrow> u64 \<Rightarrow> tlm_dmi \<Rightarrow> bool" where
  "grant_ok t local d \<longleftrightarrow> dmi_start d \<le> local \<and> local \<le> dmi_end d \<and>
     (ti_use_offset t \<longrightarrow> dmi_start d < ti_size t) \<and> base_of t \<le> base_of t + dmi_end d"

lemma rebase_grant:
  assumes "grant_ok t (addr - base_of t) d" "base_of t \<le> addr"
  shows "\<exists>d1. rebase_dmi t d = Inr d1 \<and> dmi_start d1 = base_of t + dmi_start d \<and>
    dmi_end d1 = base_of t + dmi_end d \<and> dmi_ptr d1 = dmi_ptr d \<and>
    dmi_start d1 \<le> addr \<and> addr \<le> dmi_end d1 \<and>
    (\<forall>a. dmi_start d1 \<le> a \<and> a \<le> dmi_end d1 \<longrightarrow> dmi_start d \<le> a - base_of t \<and> a - base_of t \<le> dmi_end d)"
proof -
  have nw: "base_of t \<le> base_of t + dmi_end d" and se: "dmi_start d \<le> dmi_end d"
    using assms(1) by (auto simp: grant_ok_def)
  note w = word_rebase[OF nw se]
  have "base_of t + dmi_start d \<le> addr \<and> addr \<le> base_of t + dmi_end d"
    using w(2)[OF assms(2)] assms(1) by (simp add: grant_ok_def)
  moreover have "rebase_dmi t d = Inr (d\<lparr>dmi_start := base_of t + dmi_start d, dmi_end := base_of t + dmi_end d\<rparr>)"
    using assms(1) by (simp add: rebase_dmi_def base_of_def grant_ok_def)
  ultimately show ?thesis using w(1) by simp
qed

lemma get_direct_mem_ptr_mapped:
  assumes sv: "serving ck ts r" and tab: "dmi_table_ok (rt_dmi r)"
    and t: "resolve ts (gp_address txn) = Some t"
    and call: "sock (ti_index t) (dmi_request (rt_name r) t
        (snd (am_find_region (gp_address txn) (add_all ts) dmi_init)) txn) dmi s = (True, g, gd, invals, s')"
    and gr: "grant_ok t (gp_address txn - base_of t) gd"
  shows "\<exists>d ns r'. router_get_direct_mem_ptr co b sock iid txn dmi r s =
      Inr (True, g\<lparr>gp_address := (if ti_use_offset t then gp_address txn else gp_address g)\<rparr>, d, ns, r', s') \<and>
    dmi_start d \<le> gp_address txn \<and> gp_address txn \<le> dmi_end d \<and>
    (\<forall>a. dmi_start d \<le> a \<and> a \<le> dmi_end d \<longrightarrow> resolve ts a = Some t \<and>
       dmi_start gd \<le> a - base_of t \<and> a - base_of t \<le> dmi_end gd \<and>
       dmi_ptr d + (a - dmi_start d) = dmi_ptr gd + (a - base_of t - dmi_start gd)) \<and>
    (\<exists>i. (dmi_start d, i) \<in> set (rt_dmi r') \<and> di_end i = dmi_end d \<and> iid \<in> set (di_initiators i))"
proof -
  let ?addr = "gp_address txn"
  obtain hole where fr: "am_find_region ?addr (add_all ts) dmi_init = (Some t, hole)"
    using am_find_region_sound(1)[OF add_all_ok, of ?addr ts dmi_init] t
    by (cases "am_find_region ?addr (add_all ts) dmi_init") (simp add: add_all_resolves)
  note hole = am_find_region_sound[OF add_all_ok, of ?addr ts dmi_init, unfolded add_all_resolves t fr snd_conv]
  have init: "rt_initialized r" "m_regions (rt_map r) = add_all ts" using sv by (simp_all add: serving_def)
  have cov: "t \<in> set ts" "covers t ?addr" using resolve_in_set[OF t] by auto
  then have base: "base_of t \<le> ?addr" by (simp add: base_of_def covers_def)
  obtain d1 where d1: "rebase_dmi t gd = Inr d1" "dmi_start d1 = base_of t + dmi_start gd"
    "dmi_ptr d1 = dmi_ptr gd" "dmi_start d1 \<le> ?addr" "?addr \<le> dmi_end d1"
    "\<forall>a. dmi_start d1 \<le> a \<and> a \<le> dmi_end d1 \<longrightarrow> dmi_start gd \<le> a - base_of t \<and> a - base_of t \<le> dmi_end gd"
    using rebase_grant[OF gr base] by blast
  let ?d = "clamp_dmi hole d1"
  have idx: "ti_index t < length (rt_ids r)" using sv cov by (simp add: serving_def)
  obtain m1 ns1 where inv: "handle_invals (ti_index t) invals r = Inr (r\<lparr>rt_dmi := m1\<rparr>, ns1)"
    using handle_invals_total[OF idx] by blast
  have m1: "dmi_table_ok m1" using dmi_table_ok_handle_invals[OF tab inv] by simp
  have in_d: "dmi_start ?d \<le> ?addr" "?addr \<le> dmi_end ?d"
    using hole(3,4) d1(4,5) by (auto simp: clamp_dmi_range)
  obtain m2 ns2 where rec: "record_dmi iid ?d m1 = Inr (m2, ns2)"
    using record_dmi_total[of m1 ?d iid] m1 order_trans[OF in_d] by (auto simp: dmi_table_ok_def)
  have req: "(if ti_use_offset t then txn\<lparr>gp_underlying := u, gp_address := ?addr - ti_address t\<rparr>
      else txn\<lparr>gp_underlying := u\<rparr>) = txn\<lparr>gp_underlying := u, gp_address := ?addr - base_of t\<rparr>" for u
    by (simp add: base_of_def)
  have run: "router_get_direct_mem_ptr co b sock iid txn dmi r s =
      Inr (True, g\<lparr>gp_address := (if ti_use_offset t then ?addr else gp_address g)\<rparr>, ?d, ns1 @ ns2, r\<lparr>rt_dmi := m2\<rparr>, s')"
    using call inv d1(1) rec unfolding dmi_request_def
    by (simp add: router_get_direct_mem_ptr_def router_lazy_initialize_def init fr Let_def req)
  have uni: "resolve ts a = Some t \<and> dmi_start gd \<le> a - base_of t \<and> a - base_of t \<le> dmi_end gd \<and>
      dmi_ptr ?d + (a - dmi_start ?d) = dmi_ptr gd + (a - base_of t - dmi_start gd)"
    if "dmi_start ?d \<le> a \<and> a \<le> dmi_end ?d" for a
  proof -
    have "dmi_start hole \<le> a" "a \<le> dmi_end hole" "dmi_start d1 \<le> a" "a \<le> dmi_end d1"
      using that by (simp_all add: clamp_dmi_range)
    then show ?thesis using hole(2)[of a] d1(2,3,6) clamp_dmi_ptr[of hole d1 a] by (simp add: diff_diff_eq)
  qed
  show ?thesis
    using run in_d uni record_dmi_recorded[OF rec]
    by (intro exI[of _ ?d] exI[of _ "ns1 @ ns2"] exI[of _ "r\<lparr>rt_dmi := m2\<rparr>"]) simp
qed

section \<open>Initialization\<close>

text \<open>A configured target followed by its aliases, in the order the loop adds them.\<close>

definition target_family :: "cci_broker \<Rightarrow> string list \<Rightarrow> target_info \<Rightarrow> target_info list res" where
  "target_family b all_alias t =
     bind_res (configure_target b t) (\<lambda>ti.
     bind_res (get_matching_children (ti_name ti @ ''.aliases'') all_alias) (\<lambda>ns.
     bind_res (mapM_res (make_alias b ti) ns) (\<lambda>as. Inr (ti # as))))"

abbreviation add_each :: "'c cache_ops \<Rightarrow> target_info list \<Rightarrow> 'c address_map \<Rightarrow> 'c address_map" where
  "add_each co \<equiv> fold (\<lambda>t am. fst (am_add (co_clear co) t am))"

lemma add_aliases_eq:
  "add_aliases co b ti ns r =
   bind_res (mapM_res (make_alias b ti) ns) (\<lambda>as.
     Inr (r\<lparr>rt_aliases := rt_aliases r @ as, rt_map := add_each co as (rt_map r)\<rparr>))"
  by (induction ns arbitrary: r) (simp_all add: bind_res_assoc)

lemma init_targets_eq:
  "init_targets co b all_alias ts r =
   bind_res (mapM_res (target_family b all_alias) ts) (\<lambda>fs.
     Inr (r\<lparr>rt_bound := rt_bound r @ map hd fs, rt_aliases := rt_aliases r @ concat (map tl fs),
            rt_ids := rt_ids r @ map hd fs, rt_map := add_each co (concat fs) (rt_map r)\<rparr>))"
  by (induction ts arbitrary: r) (simp_all add: bind_res_assoc add_aliases_eq target_family_def)

lemma m_regions_add_each:
  "m_regions am = add_all us \<Longrightarrow> m_regions (add_each co ts am) = add_all (us @ ts)"
proof (induction ts arbitrary: us am)
  case (Cons t ts)
  have "m_regions (fst (am_add (co_clear co) t am)) = add_all (us @ [t])"
    using Cons.prems by (simp add: am_add_def add_all_def split: prod.splits)
  then show ?case using Cons.IH[of _ "us @ [t]"] by simp
qed simp

lemma configure_target_keeps: "configure_target b t = Inr ti \<Longrightarrow> ti_index ti = ti_index t \<and> ti_name ti = ti_name t"
  by (auto simp: configure_target_def)

lemma make_alias_keeps: "make_alias b ti n = Inr a \<Longrightarrow> ti_index a = ti_index ti"
  by (auto simp: make_alias_def Let_def)

lemma target_family_index:
  assumes "target_family b al t = Inr f"
  shows "f \<noteq> []" "\<forall>u \<in> set f. ti_index u = ti_index t" "ti_name (hd f) = ti_name t"
  using assms by (auto simp: target_family_def dest!: configure_target_keeps mapM_res_set make_alias_keeps)

lemma families_index:
  assumes fs: "mapM_res (target_family b al) ts = Inr fs"
    and idx: "\<forall>i < length ts. ti_index (ts ! i) = i"
  shows "\<forall>u \<in> set (concat fs). ti_index u < length fs"
    and "i < length ts \<Longrightarrow> ti_index (hd (fs ! i)) = i \<and> ti_name (hd (fs ! i)) = ti_name (ts ! i)"
proof -
  have len: "length fs = length ts" by (rule mapM_res_length[OF fs])
  have f: "target_family b al (ts ! i) = Inr (fs ! i)" if "i < length ts" for i
    by (rule mapM_res_nth[OF fs that])
  show "\<forall>u \<in> set (concat fs). ti_index u < length fs"
  proof
    fix u assume "u \<in> set (concat fs)"
    then obtain i where "i < length fs" "u \<in> set (fs ! i)"
      by (metis concat.simps in_set_conv_nth set_concat UN_E)
    then show "ti_index u < length fs" using target_family_index(2)[OF f[of i]] idx len by auto
  qed
  show "ti_index (hd (fs ! i)) = i \<and> ti_name (hd (fs ! i)) = ti_name (ts ! i)" if "i < length ts"
    using target_family_index[OF f[OF that]] idx that by auto
qed

lemma register_boundto_index:
  assumes "\<forall>i < length (rt_bound r). ti_index (rt_bound r ! i) = i"
  shows "\<forall>i < length (rt_bound (register_boundto s r)). ti_index (rt_bound (register_boundto s r) ! i) = i"
  using assms by (auto simp: register_boundto_def nth_append less_Suc_eq)

lemma lazy_initialize_idem: "rt_initialized r \<Longrightarrow> router_lazy_initialize co b r = Inr r"
  by (simp add: router_lazy_initialize_def)

lemma lazy_initialize_serving:
  assumes new: "\<not> rt_initialized r" "m_regions (rt_map r) = []" "rt_ids r = []" "rt_pool r = []"
    and idx: "\<forall>i < length (rt_bound r). ti_index (rt_bound r ! i) = i"
    and fs: "mapM_res (target_family b (filter (str_contains ''.aliases.'') (br_unconsumed b))) (rt_bound r) = Inr fs"
  shows "\<exists>r'. router_lazy_initialize no_ops b r = Inr r' \<and> serving (\<lambda>_. True) (concat fs) r' \<and>
    rt_ids r' = map hd fs \<and> rt_bound r' = map hd fs"
proof -
  have "m_regions (add_each no_ops (concat fs) (rt_map r)) = add_all (concat fs)"
    using m_regions_add_each[of "rt_map r" "[]" no_ops "concat fs"] new(2) by (simp add: add_all_def)
  then show ?thesis
    using families_index(1)[OF fs idx] new fs
    by (auto simp: router_lazy_initialize_def init_targets_eq serving_def pool_clean_def)
qed

text \<open>A target added by \<^verbatim>\<open>add_target\<close> is configured with the values given there.\<close>

lemma set_preset_preset:
  "br_preset (set_preset n v b) k = (if k = n \<and> br_preset b n = None then Some v else br_preset b k)"
  "br_param (set_preset n v b) = br_param b"
  by (auto simp: set_preset_def has_preset_value_def)

lemma add_target_configures:
  assumes "\<And>k. br_param b (s @ k) = None" "\<And>k. br_preset b (s @ k) = None" "ti_name t = s"
  shows "configure_target (fst (add_target s a sz masked prio (b, r))) t =
    Inr (t\<lparr>ti_address := a, ti_size := sz, ti_use_offset := masked, ti_chained := False, ti_priority := prio\<rparr>)"
proof -
  have lt: "unat a < 2 ^ 64" "unat sz < 2 ^ 64" "unat prio < 2 ^ 32"
    using unsigned_less[of a] unsigned_less[of sz] unsigned_less[of prio] by simp_all
  then show ?thesis using assms
    by (simp add: configure_target_def config_name_def add_target_def cci_get_opt_def cci_get_def
        cci_get_T_def cci_get_d_def get_preset_cci_value_def set_preset_preset)
qed

section \<open>Properties\<close>


text \<open>A router with one memory-mapped target, for the examples.\<close>

definition example_target :: target_info where
  "example_target = plain_target 0 0x1000 0x100 0"

definition example_router :: "lru_cache router" where
  "example_router = \<lparr>rt_name = ''r'', rt_bound = [example_target], rt_aliases = [], rt_ids = [example_target],
     rt_map = \<lparr>m_regions = add_all [example_target], m_cache = lru_init\<rparr>,
     rt_dmi = [], rt_pool = [], rt_initialized = True\<rparr>"

definition example_txn :: gp where
  "example_txn = gp_init\<lparr>gp_address := 0x1010\<rparr>"

definition empty_broker :: cci_broker where
  "empty_broker = \<lparr>br_param = (\<lambda>_. None), br_preset = (\<lambda>_. None), br_unconsumed = []\<rparr>"

lemma example_router_serving:
  "serving (lru_coherent (resolve [example_target])) [example_target] example_router"
  by (simp add: serving_def example_router_def lru_coherent_def lru_ok_def lru_init_def pool_clean_def
      example_target_def plain_target_def)

lemma example_resolve: "resolve [example_target] (gp_address example_txn) = Some example_target"
  by code_simp

text \<open>A target that answers every access, and one that grants its first 0x80 bytes at host address 0x5000.\<close>

definition ok_target :: "nat \<Rightarrow> unit b_transport_call" where
  "ok_target i g d s = (g\<lparr>gp_response := Ok_response\<rparr>, d + 1, [], s)"

definition granting_target :: "nat \<Rightarrow> unit dmi_call" where
  "granting_target i g d s = (True, g, d\<lparr>dmi_ptr := 0x5000, dmi_start := 0, dmi_end := 0x7F\<rparr>, [], s)"




text \<open>
  C18. Invalidation is complete when the targets grant from a fixed family of windows that do not
  overlap: after any sequence of grants and invalidations, an initiator that was not told to drop
  its pointer by the invalidation of \<open>[s, e]\<close> holds no window that meets \<open>[s, e]\<close>.
\<close>

theorem dmi_invalidation_complete:
  assumes "window_family F" "dmi_reachable F m h"
    and "(i, a, b) \<in> drop_held (snd (router_invalidate_direct_mem_ptr_ts s e m)) h"
  shows "\<not> meets s e a b"
proof -
  have "family_map F m" "held_recorded m h" using dmi_reachable_invariant[OF assms(2,1)] by auto
  then show ?thesis using held_dropped(1)[OF family_map_interval[OF assms(1)] _ assms(3)] by blast
qed

text \<open>Two windows, both granted to initiator 1, and the invalidation of a byte of the first.\<close>

definition window_dmi :: "u64 \<Rightarrow> u64 \<Rightarrow> tlm_dmi" where
  "window_dmi s e = dmi_init\<lparr>dmi_start := s, dmi_end := e\<rparr>"

theorem dmi_invalidation_complete_witness:
  "\<exists>m h. dmi_reachable {(0, 0xFF), (0x100, 0x1FF)} m h \<and>
     (1, 0x100, 0x1FF) \<in> drop_held (snd (router_invalidate_direct_mem_ptr_ts 0x10 0x10 m)) h \<and>
     \<not> meets 0x10 0x10 (0x100 :: u64) 0x1FF"
proof -
  let ?F = "{(0, 0xFF), (0x100, 0x1FF)} :: (u64 \<times> u64) set"
  let ?m1 = "[(0, \<lparr>di_initiators = [1], di_dmi = window_dmi 0 0xFF\<rparr>)]"
  let ?m2 = "?m1 @ [(0x100, \<lparr>di_initiators = [1], di_dmi = window_dmi 0x100 0x1FF\<rparr>)]"
  have F: "window_family ?F" by (auto simp: window_family_def meets_def)
  have "record_dmi 1 (window_dmi 0 0xFF) [] = Inr (?m1, [])" by code_simp
  with dmi_reachable.start[of ?F] have "dmi_reachable ?F ?m1 (insert (1, 0, 0xFF) (drop_held [] {}))"
    using dmi_reachable.grant[of ?F "[]" "{}" "window_dmi 0 0xFF"] by (simp add: window_dmi_def)
  moreover have "record_dmi 1 (window_dmi 0x100 0x1FF) ?m1 = Inr (?m2, [])" by code_simp
  ultimately have r: "dmi_reachable ?F ?m2 (insert (1, 0x100, 0x1FF) (drop_held [] (insert (1, 0, 0xFF) (drop_held [] {}))))"
    using dmi_reachable.grant[of ?F ?m1 _ "window_dmi 0x100 0x1FF" 1 ?m2 "[]"] by (simp add: window_dmi_def)
  have "snd (router_invalidate_direct_mem_ptr_ts 0x10 0x10 ?m2) = [(1, 0x10, 0x10)]" by code_simp
  then have d: "(1, 0x100, 0x1FF) \<in> drop_held (snd (router_invalidate_direct_mem_ptr_ts 0x10 0x10 ?m2))
      (insert (1, 0x100, 0x1FF) (drop_held [] (insert (1, 0, 0xFF) (drop_held [] {}))))"
    by (simp add: drop_held_def meets_def)
  show ?thesis using dmi_invalidation_complete[OF F r d] r d by blast
qed

text \<open>
  The report "DMI overlap with differing end address" in \<^verbatim>\<open>in_dmi_cache\<close> is unreachable, as
  the comment there says: \<^verbatim>\<open>record_dmi\<close> succeeds for every non-empty range on every table whose
  entries are keyed by their starts, even when entries of the table overlap.
\<close>

theorem record_dmi_never_reports:
  assumes "dmi_table_ok m" "dmi_start d \<le> dmi_end d"
  shows "\<exists>m' ns. record_dmi iid d m = Inr (m', ns)"
  using assms record_dmi_total[of m d iid] by (simp add: dmi_table_ok_def)

theorem record_dmi_never_reports_witness:
  "\<exists>m' ns. record_dmi 2 (window_dmi 0 0x7F) [(0, \<lparr>di_initiators = [1], di_dmi = window_dmi 0 0xFF\<rparr>)] = Inr (m', ns)"
  by (rule record_dmi_never_reports) (simp_all add: dmi_table_ok_def smap_ok_Cons window_dmi_def)

text \<open>
  Without the assumption on the windows invalidation misses pointers. \<^verbatim>\<open>record_dmi\<close> only looks
  for a record with the same start, so that records can overlap, and the walk of
  \<^verbatim>\<open>invalidate_direct_mem_ptr_ts\<close> starts only one record back: after grants of \<open>[104, 999]\<close> to
  initiator 1 and of \<open>[0, 999]\<close> to initiator 2, the invalidation of \<open>[500, 503]\<close> leaves the second
  pointer in place, and its holder is not told.
\<close>

lemma dmi_invalidation_misses_overlap:
  "\<exists>m1 m2. record_dmi 1 (window_dmi 104 999) [] = Inr (m1, []) \<and>
     record_dmi 2 (window_dmi 0 999) m1 = Inr (m2, []) \<and>
     (\<forall>n \<in> set (snd (router_invalidate_direct_mem_ptr_ts 500 503 m2)). fst n \<noteq> 2) \<and>
     (\<exists>p \<in> set (fst (router_invalidate_direct_mem_ptr_ts 500 503 m2)). meets 500 503 (di_start (snd p)) (di_end (snd p)))"
proof (intro exI conjI)
  let ?m1 = "[(104, \<lparr>di_initiators = [1], di_dmi = window_dmi 104 999\<rparr>)]"
  let ?m2 = "(0, \<lparr>di_initiators = [2], di_dmi = window_dmi 0 999\<rparr>) # ?m1"
  show "record_dmi 1 (window_dmi 104 999) [] = Inr (?m1, [])" by code_simp
  show "record_dmi 2 (window_dmi 0 999) ?m1 = Inr (?m2, [])" by code_simp
  show "\<forall>n \<in> set (snd (router_invalidate_direct_mem_ptr_ts 500 503 ?m2)). fst n \<noteq> 2" by code_simp
  show "\<exists>p \<in> set (fst (router_invalidate_direct_mem_ptr_ts 500 503 ?m2)). meets 500 503 (di_start (snd p)) (di_end (snd p))"
    by code_simp
qed

theorem dmi_invalidation_misses_overlap_witness:
  "(2 :: int) \<notin> fst ` set (snd (router_invalidate_direct_mem_ptr_ts 500 503
     [(0, \<lparr>di_initiators = [2], di_dmi = window_dmi 0 999\<rparr>), (104, \<lparr>di_initiators = [1], di_dmi = window_dmi 104 999\<rparr>)]))"
proof -
  have 1: "record_dmi 1 (window_dmi 104 999) [] = Inr ([(104, \<lparr>di_initiators = [1], di_dmi = window_dmi 104 999\<rparr>)], [])"
    by code_simp
  have 2: "record_dmi 2 (window_dmi 0 999) [(104, \<lparr>di_initiators = [1], di_dmi = window_dmi 104 999\<rparr>)] =
      Inr ([(0, \<lparr>di_initiators = [2], di_dmi = window_dmi 0 999\<rparr>), (104, \<lparr>di_initiators = [1], di_dmi = window_dmi 104 999\<rparr>)], [])"
    by code_simp
  show ?thesis using dmi_invalidation_misses_overlap 1 2 by auto
qed

text \<open>
  C19. Initialization builds the map the configuration describes: when every bound target and its
  aliases can be configured (\<open>fs\<close>, one list per bound target), a new router becomes one that serves
  exactly these targets, each target first and then its aliases in the order of their names, with
  socket i belonging to the i-th bound target; a second initialization changes nothing.
\<close>

theorem router_initialize_correct:
  assumes "\<not> rt_initialized r" "m_regions (rt_map r) = []" "rt_ids r = []" "rt_pool r = []"
    and "\<forall>i < length (rt_bound r). ti_index (rt_bound r ! i) = i"
    and "mapM_res (target_family b (filter (str_contains ''.aliases.'') (br_unconsumed b))) (rt_bound r) = Inr fs"
  shows "\<exists>r'. router_lazy_initialize no_ops b r = Inr r' \<and> serving (\<lambda>_. True) (concat fs) r' \<and>
    rt_ids r' = map hd fs \<and> router_lazy_initialize no_ops b r' = Inr r' \<and>
    (\<forall>i < length (rt_bound r). ti_index (rt_ids r' ! i) = i \<and> ti_name (rt_ids r' ! i) = ti_name (rt_bound r ! i))"
proof -
  obtain r' where r': "router_lazy_initialize no_ops b r = Inr r'" "serving (\<lambda>_. True) (concat fs) r'" "rt_ids r' = map hd fs"
    using lazy_initialize_serving[OF assms] by blast
  then show ?thesis
    using families_index(2)[OF assms(6,5)] mapM_res_length[OF assms(6)] lazy_initialize_idem[of r' no_ops b]
    by (auto simp: serving_def)
qed

text \<open>A configuration with one target and one alias.\<close>

definition alias_broker :: cci_broker where
  "alias_broker = empty_broker\<lparr>br_preset := [''m.address'' \<mapsto> Cci_num 0, ''m.size'' \<mapsto> Cci_num 16,
     ''m.aliases.x.address'' \<mapsto> Cci_num 256, ''m.aliases.x.size'' \<mapsto> Cci_num 16],
     br_unconsumed := [''m.address'', ''m.aliases.x.address'', ''m.aliases.x.size'', ''m.size'']\<rparr>"

definition new_router :: "unit router" where
  "new_router = \<lparr>rt_name = ''r'', rt_bound = [], rt_aliases = [], rt_ids = [],
     rt_map = \<lparr>m_regions = [], m_cache = ()\<rparr>, rt_dmi = [], rt_pool = [], rt_initialized = False\<rparr>"

lemma alias_names:
  "filter (str_contains ''.aliases.'') (br_unconsumed alias_broker) = [''m.aliases.x.address'', ''m.aliases.x.size'']"
  by (simp add: str_contains_def alias_broker_def)

lemma alias_children:
  "get_matching_children ''m.aliases'' [''m.aliases.x.address'', ''m.aliases.x.size''] = Inr [''x'']"
  by (simp add: get_matching_children_def component_at_def str_find_from_def substr_def)

definition alias_target :: target_info where
  "alias_target = hd (rt_bound (register_boundto ''m'' new_router))\<lparr>ti_size := 16, ti_use_offset := True\<rparr>"

lemma alias_family:
  "target_family alias_broker [''m.aliases.x.address'', ''m.aliases.x.size'']
     (hd (rt_bound (register_boundto ''m'' new_router))) =
   Inr [alias_target, alias_target\<lparr>ti_address := 256, ti_name := ''m.aliases.x''\<rparr>]"
proof -
  have "configure_target alias_broker (hd (rt_bound (register_boundto ''m'' new_router))) = Inr alias_target"
    by (simp add: configure_target_def config_name_def register_boundto_def new_router_def cci_get_opt_def
        cci_get_def cci_get_T_def cci_get_d_def get_preset_cci_value_def alias_broker_def target_init_def
        empty_broker_def alias_target_def)
  moreover have "ti_name alias_target = ''m''" "ti_size alias_target = 16"
    by (simp_all add: alias_target_def register_boundto_def new_router_def)
  moreover from this have "make_alias alias_broker alias_target ''x'' =
      Inr (alias_target\<lparr>ti_address := 256, ti_name := ''m.aliases.x''\<rparr>)"
    by (simp add: make_alias_def cci_get_T_def cci_get_def get_preset_cci_value_def alias_broker_def empty_broker_def)
  ultimately show ?thesis using alias_children by (simp add: target_family_def)
qed

theorem router_initialize_correct_witness:
  "\<exists>r'. router_lazy_initialize no_ops alias_broker (register_boundto ''m'' new_router) = Inr r' \<and>
     serving (\<lambda>_. True) [alias_target, alias_target\<lparr>ti_address := 256, ti_name := ''m.aliases.x''\<rparr>] r'"
proof -
  let ?r = "register_boundto ''m'' new_router"
  have b: "rt_bound ?r = [hd (rt_bound ?r)]" by (simp add: register_boundto_def new_router_def)
  have "mapM_res (target_family alias_broker (filter (str_contains ''.aliases.'') (br_unconsumed alias_broker)))
      (rt_bound ?r) = Inr [[alias_target, alias_target\<lparr>ti_address := 256, ti_name := ''m.aliases.x''\<rparr>]]"
    by (subst b) (simp only: alias_names mapM_res.simps alias_family bind_res_simps)
  moreover have "\<not> rt_initialized ?r" "m_regions (rt_map ?r) = []" "rt_ids ?r = []" "rt_pool ?r = []"
    "\<forall>i < length (rt_bound ?r). ti_index (rt_bound ?r ! i) = i"
    by (simp_all add: register_boundto_def new_router_def)
  ultimately have "\<exists>r'. router_lazy_initialize no_ops alias_broker ?r = Inr r' \<and>
      serving (\<lambda>_. True) (concat [[alias_target, alias_target\<lparr>ti_address := 256, ti_name := ''m.aliases.x''\<rparr>]]) r'"
    using router_initialize_correct[of ?r alias_broker] by blast
  then show ?thesis by simp
qed

text \<open>
  C20. \<^verbatim>\<open>add_target\<close> and the configuration at initialization round-trip: for a socket name without
  presets, the target is configured with the address, size, addressing mode and priority that
  \<^verbatim>\<open>add_target\<close> was given.
\<close>

theorem add_target_roundtrip:
  assumes "\<And>k. br_param b (s @ k) = None" "\<And>k. br_preset b (s @ k) = None"
  shows "configure_target (fst (add_target s a sz masked prio (b, r)))
      (last (rt_bound (snd (add_target s a sz masked prio (b, r))))) =
    Inr ((last (rt_bound (register_boundto s r)))\<lparr>ti_address := a, ti_size := sz, ti_use_offset := masked,
      ti_chained := False, ti_priority := prio\<rparr>)"
proof -
  have "ti_name (last (rt_bound (register_boundto s r))) = s" by (simp add: register_boundto_def)
  then show ?thesis using add_target_configures[OF assms] by (simp add: add_target_def)
qed

theorem add_target_roundtrip_witness:
  "\<exists>t. configure_target (fst (add_target ''s'' 0x1000 0x100 True 7 (empty_broker, new_router)))
      (last (rt_bound (snd (add_target ''s'' 0x1000 0x100 True 7 (empty_broker, new_router))))) = Inr t \<and>
    ti_address t = 0x1000 \<and> ti_priority t = 7"
  using add_target_roundtrip[where b = empty_broker and s = "''s''" and a = "0x1000" and sz = "0x100" and masked = True
      and prio = 7 and r = new_router]
  by (simp add: empty_broker_def)

end
