(* ===== verification/ExclusiveMonitor.thy ===== *)
theory ExclusiveMonitor
  imports Tlm StdMap
begin

text \<open>
  \<^verbatim>\<open>exclusive_monitor/include/exclusive-monitor.h\<close>: the global exclusive monitor in front of a
  memory. The state is the pair of maps of the class, the locked regions by start address and by
  initiator. The invariant \<open>em_ok\<close> says that they describe the same regions, that the regions do not
  intersect, and hence that an initiator has at most one. The abstract view is the set of valid
  reservations (\<open>em_reachable\<close>): an exclusive load makes one, every store that reaches the memory
  drops those it meets. A store that succeeds exclusively has a reservation.
\<close>

section \<open>State\<close>

record em_region =
  er_start :: u64
  er_end :: u64
  er_id :: path_id

record exclusive_monitor =
  em_regions :: "(u64, em_region) smap"
  em_by_id :: "path_id \<Rightarrow> em_region option"

definition em_init :: exclusive_monitor where
  "em_init = \<lparr>em_regions = [], em_by_id = (\<lambda>_. None)\<rparr>"

text \<open>\<^verbatim>\<open>start + get_data_length() - 1\<close> at 64 bits.\<close>

definition txn_end :: "gp \<Rightarrow> u64" where
  "txn_end g = gp_address g + ucast (gp_length g) - 1"

definition mk_em_region :: "gp \<Rightarrow> path_id \<Rightarrow> em_region" where
  "mk_em_region g i = \<lparr>er_start = gp_address g, er_end = txn_end g, er_id = i\<rparr>"

definition is_exact_match :: "em_region \<Rightarrow> gp \<Rightarrow> bool" where
  "is_exact_match r g \<longleftrightarrow> er_start r = gp_address g \<and> er_end r = er_start r + ucast (gp_length g) - 1"

definition get_initiator_id :: "gp \<Rightarrow> path_id res" where
  "get_initiator_id g = (case gp_path g of None \<Rightarrow> Inl Null_pointer | Some p \<Rightarrow> Inr p)"

section \<open>Locking and unlocking\<close>

fun find_walk :: "u64 \<Rightarrow> u64 \<Rightarrow> (u64, em_region) smap \<Rightarrow> em_region option" where
  "find_walk s e [] = None"
| "find_walk s e (p # m) =
     (if er_end (snd p) < s then find_walk s e m
      else if er_start (snd p) > e then None
      else Some (snd p))"

definition em_find_region :: "gp \<Rightarrow> exclusive_monitor \<Rightarrow> em_region option" where
  "em_find_region g m = find_walk (gp_address g) (txn_end g) (smap_from True (gp_address g) (em_regions m))"

definition lock_region :: "gp \<Rightarrow> path_id \<Rightarrow> exclusive_monitor \<Rightarrow> (exclusive_monitor \<times> inval list) res" where
  "lock_region g i m =
     (let r = mk_em_region g i
      in assert_res (em_find_region g m = None)
        (Inr (\<lparr>em_regions = smap_assign (er_start r) r (em_regions m),
               em_by_id = (em_by_id m)(er_id r \<mapsto> r)\<rparr>, [(er_start r, er_end r)])))"

definition unlock_region :: "em_region \<Rightarrow> exclusive_monitor \<Rightarrow> exclusive_monitor res" where
  "unlock_region r m =
     assert_res (map_of (em_regions m) (er_start r) \<noteq> None)
       (assert_res (em_by_id m (er_id r) \<noteq> None)
         (Inr \<lparr>em_regions = smap_erase (er_start r) (em_regions m),
               em_by_id = (em_by_id m)(er_id r := None)\<rparr>))"

definition unlock_region_by_id :: "path_id \<Rightarrow> exclusive_monitor \<Rightarrow> exclusive_monitor res" where
  "unlock_region_by_id i m = (case em_by_id m i of None \<Rightarrow> Inr m | Some r \<Rightarrow> unlock_region r m)"

definition handle_exclusive_load :: "gp \<Rightarrow> exclusive_monitor \<Rightarrow> (exclusive_monitor \<times> inval list) res" where
  "handle_exclusive_load g m =
     bind_res (get_initiator_id g) (\<lambda>i.
       case em_find_region g m of
         Some r \<Rightarrow> Inr (m, [])
       | None \<Rightarrow> bind_res (unlock_region_by_id i m) (lock_region g i))"

definition handle_exclusive_store :: "gp \<Rightarrow> exclusive_ext \<Rightarrow> exclusive_monitor \<Rightarrow>
    (bool \<times> exclusive_ext \<times> exclusive_monitor) res" where
  "handle_exclusive_store g x m =
     (case em_find_region g m of
        None \<Rightarrow> Inr (False, set_exclusive_store_failure x, m)
      | Some r \<Rightarrow>
          bind_res (get_initiator_id g) (\<lambda>i.
            if er_id r \<noteq> i then Inr (False, set_exclusive_store_failure x, m)
            else if \<not> is_exact_match r g then Inr (False, set_exclusive_store_failure x, m)
            else bind_res (unlock_region r m) (\<lambda>m1. Inr (True, set_exclusive_store_success x, m1))))"

text \<open>The loop of a regular store, with fuel; one unit per locked region and one to stop suffice.\<close>

fun regular_store_loop :: "nat \<Rightarrow> gp \<Rightarrow> exclusive_monitor \<Rightarrow> exclusive_monitor res" where
  "regular_store_loop 0 g m = Inl No_return"
| "regular_store_loop (Suc n) g m =
     (case em_find_region g m of
        None \<Rightarrow> Inr m
      | Some r \<Rightarrow> bind_res (unlock_region r m) (regular_store_loop n g))"

definition handle_regular_store :: "gp \<Rightarrow> exclusive_monitor \<Rightarrow> exclusive_monitor res" where
  "handle_regular_store g m = regular_store_loop (Suc (length (em_regions m))) g m"

section \<open>The forward calls\<close>

definition before_b_transport :: "gp \<Rightarrow> exclusive_monitor \<Rightarrow> (bool \<times> gp \<times> exclusive_monitor) res" where
  "before_b_transport g m =
     (if gp_command g \<noteq> Write_command then Inr (True, g, m)
      else case gp_exclusive g of
          Some x \<Rightarrow>
            bind_res (handle_exclusive_store g x m) (\<lambda>(ok, x1, m1).
              Inr (ok, g\<lparr>gp_exclusive := Some x1\<rparr>, m1))
        | None \<Rightarrow> bind_res (handle_regular_store g m) (\<lambda>m1. Inr (True, g, m1)))"

definition after_b_transport :: "gp \<Rightarrow> exclusive_monitor \<Rightarrow> (bool \<times> exclusive_monitor \<times> inval list) res" where
  "after_b_transport g m =
     (if gp_command g = Write_command then Inr (False, m, [])
      else case gp_exclusive g of
          None \<Rightarrow> Inr (em_find_region g m \<noteq> None, m, [])
        | Some x \<Rightarrow> bind_res (handle_exclusive_load g m) (\<lambda>(m1, is). Inr (True, m1, is)))"

definition monitor_b_transport :: "'s b_transport_call \<Rightarrow> gp \<Rightarrow> u64 \<Rightarrow> exclusive_monitor \<Rightarrow> 's \<Rightarrow>
    (gp \<times> u64 \<times> inval list \<times> exclusive_monitor \<times> 's) res" where
  "monitor_b_transport back_socket txn delay m s =
     bind_res (before_b_transport txn m) (\<lambda>(go, txn1, m1).
       if \<not> go then Inr (txn1\<lparr>gp_response := Generic_error_response\<rparr>, delay, [], m1, s)
       else
         (let (txn2, delay1, is, s1) = back_socket txn1 delay s
          in if gp_response txn2 \<noteq> Ok_response then Inr (txn2, delay1, is, m1, s1)
             else
               bind_res (after_b_transport txn1 m1) (\<lambda>(clear, m2, is2).
                 Inr (if clear then txn2\<lparr>gp_dmi_allowed := False\<rparr> else txn2, delay1, is @ is2, m2, s1))))"

definition monitor_transport_dbg :: "'s dbg_call \<Rightarrow> gp \<Rightarrow> 's \<Rightarrow> u32 \<times> gp \<times> 's" where
  "monitor_transport_dbg back_socket txn s = back_socket txn s"

text \<open>
  The loop that cuts a grant to the unlocked surroundings of the address: \<open>None\<close> is the early
  \<^verbatim>\<open>return false\<close>.
\<close>

fun fix_window :: "u64 \<Rightarrow> u64 \<Rightarrow> u64 \<Rightarrow> (u64, em_region) smap \<Rightarrow> (u64 \<times> u64) option" where
  "fix_window a fs fe [] = Some (fs, fe)"
| "fix_window a fs fe (p # m) =
     (let r = snd p
      in if er_end r < fs then fix_window a fs fe m
         else if er_start r > fe then Some (fs, fe)
         else if er_start r \<le> a \<and> er_end r \<ge> a then None
         else
           let fs1 = (if er_end r < a then er_end r + 1 else fs)
           in if er_start r > a then Some (fs1, er_start r - 1)
              else fix_window a fs1 fe m)"

definition monitor_get_direct_mem_ptr :: "'s dmi_call \<Rightarrow> gp \<Rightarrow> tlm_dmi \<Rightarrow> exclusive_monitor \<Rightarrow> 's \<Rightarrow>
    bool \<times> gp \<times> tlm_dmi \<times> inval list \<times> 's" where
  "monitor_get_direct_mem_ptr back_socket txn dmi m s =
     (let (ret, txn1, d, is, s1) = back_socket txn dmi s
      in if \<not> ret then (False, txn1, d, is, s1)
         else
           case fix_window (gp_address txn1) (dmi_start d) (dmi_end d)
               (smap_from False (gp_address txn1) (em_regions m)) of
             None \<Rightarrow> (False, txn1, d, is, s1)
           | Some (fs, fe) \<Rightarrow>
               (True, txn1, d\<lparr>dmi_ptr := dmi_ptr d + (fs - dmi_start d), dmi_start := fs, dmi_end := fe\<rparr>, is, s1))"

definition monitor_invalidate_direct_mem_ptr :: "u64 \<Rightarrow> u64 \<Rightarrow> inval list" where
  "monitor_invalidate_direct_mem_ptr s e = [(s, e)]"

section \<open>Invariant\<close>

abbreviation em_map_ok :: "(u64, em_region) smap \<Rightarrow> bool" where
  "em_map_ok \<equiv> interval_map_ok er_start er_end"

definition em_ok :: "exclusive_monitor \<Rightarrow> bool" where
  "em_ok m \<longleftrightarrow> em_map_ok (em_regions m) \<and>
     (\<forall>i r. em_by_id m i = Some r \<longleftrightarrow> r \<in> snd ` set (em_regions m) \<and> er_id r = i)"

text \<open>A request covers at least one byte and does not wrap around the address space.\<close>

definition request_ok :: "gp \<Rightarrow> bool" where
  "request_ok g \<longleftrightarrow> gp_address g \<le> txn_end g"

abbreviation touches :: "gp \<Rightarrow> em_region \<Rightarrow> bool" where
  "touches g r \<equiv> meets (gp_address g) (txn_end g) (er_start r) (er_end r)"

lemma em_okD:
  assumes "em_ok m" "(k, r) \<in> set (em_regions m)"
  shows "er_start r = k" "k \<le> er_end r" "em_by_id m (er_id r) = Some r"
  using assms interval_map_okD(1,2)[of er_start er_end "em_regions m" "(k, r)"]
  unfolding em_ok_def by force+

lemma em_by_idD:
  assumes "em_ok m" "em_by_id m i = Some r"
  shows "(er_start r, r) \<in> set (em_regions m)" "er_id r = i" "er_start r \<le> er_end r"
proof -
  from assms obtain k where k: "(k, r) \<in> set (em_regions m)" "er_id r = i" unfolding em_ok_def by force
  with em_okD[OF assms(1) k(1)] show "(er_start r, r) \<in> set (em_regions m)" "er_id r = i" "er_start r \<le> er_end r"
    by auto
qed

text \<open>The search from \<^verbatim>\<open>lower_bound\<close> finds a region exactly if one meets the request.\<close>

lemma find_walk_find:
  "em_map_ok m \<Longrightarrow> find_walk s e m = map_option snd (find (\<lambda>p. meets s e (er_start (snd p)) (er_end (snd p))) m)"
proof (induction m)
  case (Cons p m)
  have ok: "em_map_ok m" using Cons.prems by (metis append_Cons append_Nil interval_map_ok_append)
  have none: "\<not> meets s e (er_start (snd q)) (er_end (snd q))" if "er_start (snd p) > e" "q \<in> set m" for q
    using that smap_ok_hd_min[of p m q] interval_map_okD(1)[OF Cons.prems, of p] interval_map_okD(1)[OF Cons.prems, of q]
      interval_map_ok_smap[OF Cons.prems] by (auto simp: meets_def)
  then have "find (\<lambda>p. meets s e (er_start (snd p)) (er_end (snd p))) m = None" if "er_start (snd p) > e"
    using that unfolding find_None_ball by blast
  then show ?case using Cons.IH[OF ok] by (auto simp: meets_def not_le not_less)
qed simp

lemma before_lower_bound:
  assumes "em_map_ok m" "p \<in> set (smap_before True s m)"
  shows "er_end (snd p) < s"
proof -
  obtain q where q: "q \<in> set (smap_from True s m)" "fst p < fst q" "fst q < s"
    using smap_before_bound[OF interval_map_ok_smap[OF assms(1)] assms(2)] by (auto simp: below_bound_def)
  have "p \<in> set m" "q \<in> set m" using assms(2) q(1) smap_before_append_from[of True s m]
    by (metis Un_iff set_append)+
  then show ?thesis using interval_map_okD(3)[OF assms(1)] q(2,3) by (meson less_trans)
qed

lemma em_find_region_find:
  assumes "em_ok m"
  shows "em_find_region g m = map_option snd (find (\<lambda>p. touches g (snd p)) (em_regions m))"
proof -
  let ?s = "gp_address g" and ?m = "em_regions m"
  have ok: "em_map_ok ?m" using assms by (simp add: em_ok_def)
  have m: "?m = smap_before True ?s ?m @ smap_from True ?s ?m" by (simp add: smap_before_append_from)
  then have okf: "em_map_ok (smap_from True ?s ?m)" using ok interval_map_ok_append by metis
  have "find (\<lambda>p. touches g (snd p)) (smap_before True ?s ?m) = None"
    using before_lower_bound[OF ok] unfolding find_None_ball meets_def by (meson leD)
  then have "find (\<lambda>p. touches g (snd p)) (smap_before True ?s ?m @ smap_from True ?s ?m) =
      find (\<lambda>p. touches g (snd p)) (smap_from True ?s ?m)"
    by (rule find_append_None)
  then show ?thesis unfolding em_find_region_def find_walk_find[OF okf]
    by (simp add: smap_before_append_from)
qed

lemma em_find_region_None:
  "em_ok m \<Longrightarrow> em_find_region g m = None \<longleftrightarrow> (\<forall>p \<in> set (em_regions m). \<not> touches g (snd p))"
  by (simp add: em_find_region_find find_None_ball)

lemma em_find_region_SomeD:
  assumes "em_ok m" "em_find_region g m = Some r"
  shows "(er_start r, r) \<in> set (em_regions m)" "touches g r" "em_by_id m (er_id r) = Some r"
proof -
  obtain p where p: "p \<in> set (em_regions m)" "touches g (snd p)" "r = snd p"
    using assms by (auto simp: em_find_region_find dest!: find_SomeD)
  then have "(fst p, r) \<in> set (em_regions m)" by simp
  from em_okD[OF assms(1) this] this p show "(er_start r, r) \<in> set (em_regions m)" "touches g r"
    "em_by_id m (er_id r) = Some r" by auto
qed

lemma unlock_region_ok:
  assumes "em_ok m" "(er_start r, r) \<in> set (em_regions m)"
  shows "\<exists>m'. unlock_region r m = Inr m' \<and> em_ok m' \<and>
    set (em_regions m') = {p \<in> set (em_regions m). snd p \<noteq> r} \<and>
    em_by_id m' = (em_by_id m)(er_id r := None) \<and> em_regions m' = smap_erase (er_start r) (em_regions m)"
proof -
  have ok: "em_map_ok (em_regions m)" using assms(1) by (simp add: em_ok_def)
  have "em_by_id m (er_id r) = Some r" using em_okD(3)[OF assms] by simp
  moreover have "map_of (em_regions m) (er_start r) \<noteq> None"
    using weak_map_of_SomeI[OF assms(2)] by auto
  moreover have same: "fst p = er_start r \<longleftrightarrow> snd p = r" if "p \<in> set (em_regions m)" for p
    using that assms(2) em_okD(1)[OF assms(1), of "fst p" "snd p"] smap_ok_inj[OF interval_map_ok_smap[OF ok]]
    by (metis prod.collapse)
  then have s: "set (smap_erase (er_start r) (em_regions m)) = {p \<in> set (em_regions m). snd p \<noteq> r}" by auto
  have "r' \<in> snd ` {p \<in> set (em_regions m). snd p \<noteq> r} \<and> er_id r' = i \<longleftrightarrow>
      ((em_by_id m)(er_id r := None)) i = Some r'" for i r'
  proof -
    have "r' \<in> snd ` {p \<in> set (em_regions m). snd p \<noteq> r} \<longleftrightarrow> r' \<in> snd ` set (em_regions m) \<and> r' \<noteq> r" by blast
    moreover have "em_by_id m i = Some r' \<longleftrightarrow> r' \<in> snd ` set (em_regions m) \<and> er_id r' = i"
      using assms(1) unfolding em_ok_def by blast
    ultimately show ?thesis using em_okD(3)[OF assms] by auto
  qed
  then have "em_ok \<lparr>em_regions = smap_erase (er_start r) (em_regions m), em_by_id = (em_by_id m)(er_id r := None)\<rparr>"
    using interval_map_ok_erase[OF ok] unfolding em_ok_def exclusive_monitor.select_convs s by blast
  ultimately show ?thesis using s unfolding unlock_region_def by simp
qed

lemma lock_region_ok:
  assumes ok: "em_ok m" and req: "request_ok g" and free: "em_find_region g m = None" "em_by_id m i = None"
  shows "\<exists>m'. lock_region g i m = Inr (m', [(gp_address g, txn_end g)]) \<and> em_ok m' \<and>
    set (em_regions m') = insert (gp_address g, mk_em_region g i) (set (em_regions m)) \<and>
    em_by_id m' = (em_by_id m)(i \<mapsto> mk_em_region g i)"
proof -
  let ?r = "mk_em_region g i"
  have r: "er_start ?r = gp_address g" "er_end ?r = txn_end g" "er_id ?r = i" by (simp_all add: mk_em_region_def)
  have okm: "em_map_ok (em_regions m)" using ok by (simp add: em_ok_def)
  note sok = interval_map_ok_smap[OF okm]
  have none: "\<not> touches g (snd p)" if "p \<in> set (em_regions m)" for p
    using free(1) that unfolding em_find_region_None[OF ok] by blast
  have le: "gp_address g \<le> txn_end g" using req by (simp add: request_ok_def)
  have nokey: "fst p \<noteq> gp_address g" if "p \<in> set (em_regions m)" for p
    using none[OF that] interval_map_okD(1,2)[OF okm that] le by (auto simp: meets_def)
  then have s: "set (smap_assign (gp_address g) ?r (em_regions m)) = insert (gp_address g, ?r) (set (em_regions m))"
    by (auto simp: set_smap_assign[OF sok])
  have "er_end (snd p) < fst q" if "p \<in> insert (gp_address g, ?r) (set (em_regions m))"
    "q \<in> insert (gp_address g, ?r) (set (em_regions m))" "fst p < fst q" for p q
    using that none[of p] none[of q] interval_map_okD(1,2)[OF okm, of p] interval_map_okD(1,2)[OF okm, of q]
      interval_map_okD(3)[OF okm, of p q] r le
    by (auto simp: meets_def not_le)
  moreover have "fst p = er_start (snd p) \<and> er_start (snd p) \<le> er_end (snd p)"
    if "p \<in> insert (gp_address g, ?r) (set (em_regions m))" for p
    using that interval_map_okD(1,2)[OF okm, of p] r le by auto
  ultimately have "em_map_ok (smap_assign (gp_address g) ?r (em_regions m))"
    unfolding interval_map_ok_def s using smap_ok_assign[OF sok] by blast
  moreover have "((em_by_id m)(i \<mapsto> ?r)) j = Some r' \<longleftrightarrow>
      r' \<in> snd ` insert (gp_address g, ?r) (set (em_regions m)) \<and> er_id r' = j" for j r'
  proof -
    have "em_by_id m j = Some r' \<longleftrightarrow> r' \<in> snd ` set (em_regions m) \<and> er_id r' = j"
      using ok unfolding em_ok_def by blast
    then show ?thesis using r(3) free(2) by auto
  qed
  ultimately have "em_ok \<lparr>em_regions = smap_assign (gp_address g) ?r (em_regions m), em_by_id = (em_by_id m)(i \<mapsto> ?r)\<rparr>"
    unfolding em_ok_def exclusive_monitor.select_convs s by blast
  then show ?thesis using free(1) s r by (simp add: lock_region_def Let_def)
qed

lemma unlock_region_by_id_ok:
  assumes "em_ok m"
  shows "\<exists>m'. unlock_region_by_id i m = Inr m' \<and> em_ok m' \<and>
    set (em_regions m') = {p \<in> set (em_regions m). er_id (snd p) \<noteq> i} \<and> em_by_id m' = (em_by_id m)(i := None)"
proof (cases "em_by_id m i")
  case None
  have "er_id (snd p) \<noteq> i" if "p \<in> set (em_regions m)" for p
    using None em_okD(3)[OF assms, of "fst p" "snd p"] that by auto
  with None assms show ?thesis by (auto simp: unlock_region_by_id_def)
next
  case (Some r)
  note r = em_by_idD[OF assms Some]
  have "snd p = r \<longleftrightarrow> er_id (snd p) = i" if "p \<in> set (em_regions m)" for p
    using Some r(2) em_okD(3)[OF assms, of "fst p" "snd p"] that by (metis option.inject prod.collapse)
  then have "{p \<in> set (em_regions m). snd p \<noteq> r} = {p \<in> set (em_regions m). er_id (snd p) \<noteq> i}" by blast
  then show ?thesis using unlock_region_ok[OF assms r(1)] Some r(2) by (auto simp: unlock_region_by_id_def)
qed

section \<open>Operations\<close>

lemma em_regions_disjoint:
  assumes "em_ok m" "(k, r) \<in> set (em_regions m)" "(k', r') \<in> set (em_regions m)"
    and "meets (er_start r) (er_end r) (er_start r') (er_end r')"
  shows "r = r'"
proof (rule ccontr)
  assume ne: "r \<noteq> r'"
  have ok: "em_map_ok (em_regions m)" using assms(1) by (simp add: em_ok_def)
  have "k \<noteq> k'" using ne assms(2,3) smap_ok_inj[OF interval_map_ok_smap[OF ok]] by blast
  then consider "k < k'" | "k' < k" by (meson less_linear)
  then show False
    using interval_map_okD(3)[OF ok assms(2), of "(k', r')"] interval_map_okD(3)[OF ok assms(3), of "(k, r)"]
      em_okD(1)[OF assms(1,2)] em_okD(1)[OF assms(1,3)] assms(2-4)
    by cases (auto simp: meets_def)
qed

lemma handle_exclusive_load_ok:
  assumes ok: "em_ok m" and req: "request_ok g" and i: "gp_path g = Some i"
  shows "case em_find_region g m of
      Some r \<Rightarrow> handle_exclusive_load g m = Inr (m, [])
    | None \<Rightarrow> \<exists>m'. handle_exclusive_load g m = Inr (m', [(gp_address g, txn_end g)]) \<and> em_ok m' \<and>
        set (em_regions m') = insert (gp_address g, mk_em_region g i) {p \<in> set (em_regions m). er_id (snd p) \<noteq> i} \<and>
        em_by_id m' = (em_by_id m)(i \<mapsto> mk_em_region g i)"
proof (cases "em_find_region g m")
  case None
  obtain m1 where m1: "unlock_region_by_id i m = Inr m1" "em_ok m1" "em_by_id m1 = (em_by_id m)(i := None)"
    "set (em_regions m1) = {p \<in> set (em_regions m). er_id (snd p) \<noteq> i}"
    using unlock_region_by_id_ok[OF ok] by blast
  have "em_find_region g m1 = None"
    using None m1(4) unfolding em_find_region_None[OF ok] em_find_region_None[OF m1(2)] by blast
  then have "\<exists>m'. lock_region g i m1 = Inr (m', [(gp_address g, txn_end g)]) \<and> em_ok m' \<and>
    set (em_regions m') = insert (gp_address g, mk_em_region g i) (set (em_regions m1)) \<and>
    em_by_id m' = (em_by_id m1)(i \<mapsto> mk_em_region g i)"
    by (intro lock_region_ok[OF m1(2) req]) (simp_all add: m1(3))
  then show ?thesis using None m1 i by (auto simp: handle_exclusive_load_def get_initiator_id_def)
qed (use i in \<open>simp add: handle_exclusive_load_def get_initiator_id_def\<close>)

lemma handle_exclusive_store_ok:
  assumes ok: "em_ok m" and i: "gp_path g = Some i"
  shows "if em_by_id m i = Some (mk_em_region g i)
    then \<exists>m'. handle_exclusive_store g x m = Inr (True, set_exclusive_store_success x, m') \<and> em_ok m' \<and>
      set (em_regions m') = {p \<in> set (em_regions m). \<not> touches g (snd p)}
    else handle_exclusive_store g x m = Inr (False, set_exclusive_store_failure x, m)"
proof (cases "em_by_id m i = Some (mk_em_region g i)")
  case True
  let ?r = "mk_em_region g i"
  note r = em_by_idD[OF ok True]
  have f: "er_start ?r = gp_address g" "er_end ?r = txn_end g" by (simp_all add: mk_em_region_def)
  have only: "touches g (snd p) \<longleftrightarrow> snd p = ?r" if "p \<in> set (em_regions m)" for p
    using em_regions_disjoint[OF ok r(1), of "fst p" "snd p"] that r(3) f by (auto simp: meets_def)
  have "em_find_region g m \<noteq> None" using only[OF r(1)] r(1) unfolding em_find_region_None[OF ok] by force
  then have find: "em_find_region g m = Some ?r"
    using only em_find_region_SomeD(1,2)[OF ok] by (metis not_None_eq snd_conv)
  have "is_exact_match ?r g" by (simp add: is_exact_match_def mk_em_region_def txn_end_def)
  moreover obtain m' where "unlock_region ?r m = Inr m'" "em_ok m'"
    "set (em_regions m') = {p \<in> set (em_regions m). snd p \<noteq> ?r}"
    using unlock_region_ok[OF ok r(1)] by blast
  moreover have "{p \<in> set (em_regions m). snd p \<noteq> ?r} = {p \<in> set (em_regions m). \<not> touches g (snd p)}"
    using only by blast
  ultimately show ?thesis using True find r(2) i by (simp add: handle_exclusive_store_def get_initiator_id_def)
next
  case False
  have "\<not> (er_id r = i \<and> is_exact_match r g)" if "em_find_region g m = Some r" for r
  proof
    assume m: "er_id r = i \<and> is_exact_match r g"
    then have "r = mk_em_region g i" by (simp add: mk_em_region_def is_exact_match_def txn_end_def)
    with em_find_region_SomeD(3)[OF ok that] m False show False by simp
  qed
  with False i show ?thesis
    by (auto simp: handle_exclusive_store_def get_initiator_id_def split: option.splits)
qed

lemma regular_store_loop_ok:
  "em_ok m \<Longrightarrow> length (em_regions m) < n \<Longrightarrow>
   \<exists>m'. regular_store_loop n g m = Inr m' \<and> em_ok m' \<and>
     set (em_regions m') = {p \<in> set (em_regions m). \<not> touches g (snd p)}"
proof (induction n arbitrary: m)
  case (Suc n)
  show ?case
  proof (cases "em_find_region g m")
    case None
    then have "{p \<in> set (em_regions m). \<not> touches g (snd p)} = set (em_regions m)"
      unfolding em_find_region_None[OF Suc.prems(1)] by blast
    with None Suc.prems show ?thesis by simp
  next
    case (Some r)
    note r = em_find_region_SomeD[OF Suc.prems(1) Some]
    obtain m1 where m1: "unlock_region r m = Inr m1" "em_ok m1"
      "set (em_regions m1) = {p \<in> set (em_regions m). snd p \<noteq> r}"
      "em_regions m1 = smap_erase (er_start r) (em_regions m)"
      using unlock_region_ok[OF Suc.prems(1) r(1)] by blast
    have "length (em_regions m1) < length (em_regions m)"
      unfolding m1(4) smap_erase_def using r(1) by (intro length_filter_less[of "(er_start r, r)"]) auto
    then obtain m' where "regular_store_loop n g m1 = Inr m'" "em_ok m'"
      "set (em_regions m') = {p \<in> set (em_regions m1). \<not> touches g (snd p)}"
      using Suc.IH[OF m1(2)] Suc.prems(2) by auto
    moreover have "{p \<in> set (em_regions m1). \<not> touches g (snd p)} = {p \<in> set (em_regions m). \<not> touches g (snd p)}"
      using m1(3) r(2) by auto
    ultimately show ?thesis using Some m1(1) by simp
  qed
qed simp

lemma handle_regular_store_ok:
  "em_ok m \<Longrightarrow> \<exists>m'. handle_regular_store g m = Inr m' \<and> em_ok m' \<and>
     set (em_regions m') = {p \<in> set (em_regions m). \<not> touches g (snd p)}"
  unfolding handle_regular_store_def by (rule regular_store_loop_ok) simp_all

text \<open>A store that is let through: regular, or exclusive by the holder of exactly this region.\<close>

definition store_passes :: "gp \<Rightarrow> exclusive_monitor \<Rightarrow> bool" where
  "store_passes g m \<longleftrightarrow> (case gp_exclusive g of
     None \<Rightarrow> True
   | Some _ \<Rightarrow> \<exists>i. gp_path g = Some i \<and> em_by_id m i = Some (mk_em_region g i))"

lemma before_b_transport_ok:
  assumes ok: "em_ok m" and i: "gp_path g = Some i"
  shows "\<exists>m'. before_b_transport g m = Inr (gp_command g = Write_command \<longrightarrow> store_passes g m,
      (if gp_command g = Write_command then g\<lparr>gp_exclusive := map_option
         (if store_passes g m then set_exclusive_store_success else set_exclusive_store_failure) (gp_exclusive g)\<rparr>
       else g), m') \<and> em_ok m' \<and>
    set (em_regions m') = (if gp_command g = Write_command \<and> store_passes g m
      then {p \<in> set (em_regions m). \<not> touches g (snd p)} else set (em_regions m))"
proof (cases "gp_command g = Write_command")
  case True
  show ?thesis
  proof (cases "gp_exclusive g")
    case None
    have "g = g\<lparr>gp_exclusive := None\<rparr>" using None by simp
    with None True show ?thesis using handle_regular_store_ok[OF ok, of g]
      by (auto simp: before_b_transport_def store_passes_def)
  next
    case (Some x)
    then show ?thesis using True handle_exclusive_store_ok[OF ok i, of x] ok i
      by (auto simp: before_b_transport_def store_passes_def split: if_splits)
  qed
qed (use ok in \<open>auto simp: before_b_transport_def\<close>)

section \<open>Direct memory windows\<close>

abbreviation region_meets :: "u64 \<Rightarrow> u64 \<Rightarrow> u64 \<times> em_region \<Rightarrow> bool" where
  "region_meets s e p \<equiv> meets s e (er_start (snd p)) (er_end (snd p))"

lemma fix_window_above:
  assumes ok: "em_map_ok m" and above: "\<forall>p \<in> set m. a < fst p" and a: "fs \<le> a" "a \<le> fe"
  shows "\<exists>fe'. fix_window a fs fe m = Some (fs, fe') \<and> a \<le> fe' \<and> fe' \<le> fe \<and> (\<forall>p \<in> set m. \<not> region_meets fs fe' p)"
proof (cases m)
  case (Cons p n)
  have p: "fst p = er_start (snd p)" "er_start (snd p) \<le> er_end (snd p)" "a < er_start (snd p)"
    using interval_map_okD(1,2)[OF ok, of p] above Cons by auto
  have later: "er_start (snd p) \<le> er_start (snd q)" if "q \<in> set m" for q
    using that Cons smap_ok_hd_min[of p n q] interval_map_ok_smap[OF ok] interval_map_okD(1)[OF ok that] p(1)
    by (auto simp: less_imp_le)
  have skip: "\<not> er_end (snd p) < fs" "\<not> er_end (snd p) < a" using p a(1) by auto
  show ?thesis
  proof (cases "er_start (snd p) > fe")
    case True
    then have "fix_window a fs fe m = Some (fs, fe)" using Cons skip by (simp add: Let_def)
    moreover have "\<not> region_meets fs fe q" if "q \<in> set m" for q
      using later[OF that] True by (auto simp: meets_def)
    ultimately show ?thesis using a by blast
  next
    case False
    then have f: "fix_window a fs fe m = Some (fs, er_start (snd p) - 1)"
      using Cons skip p by (auto simp: Let_def)
    have lt: "er_start (snd p) - 1 < er_start (snd p)" "a \<le> er_start (snd p) - 1"
      using p(3) word_less_end_le[OF p(3)] by (auto simp: not_le[symmetric])
    then have "\<not> region_meets fs (er_start (snd p) - 1) q" if "q \<in> set m" for q
      using later[OF that] by (auto simp: meets_def)
    moreover have "er_start (snd p) - 1 \<le> fe" using lt(1) False by simp
    ultimately show ?thesis using f lt(2) by blast
  qed
qed (use a in simp)

lemma smap_from_cases:
  assumes "smap_ok m"
  obtains (none) "smap_from False a m = m" "\<forall>p \<in> set m. a < fst p"
  | (pred) p n where "smap_from False a m = p # n" "p \<in> set m" "fst p \<le> a" "\<forall>q \<in> set n. a < fst q"
      "\<forall>q \<in> set m. q \<in> set n \<or> q = p \<or> fst q < fst p" "smap_ok n"
proof (cases "smap_upto a m")
  case Nil
  have "takeWhile (below_bound False a) m = smap_upto a m" by (simp add: smap_upto_def below_bound_def[abs_def])
  with Nil have "smap_from False a m = m" by (simp add: smap_from_def)
  moreover have "\<forall>p \<in> set m. a < fst p" using set_smap_upto[OF assms, of a] Nil by (auto simp: not_le)
  ultimately show ?thesis by (rule none)
next
  case (Cons x xs)
  have tw: "takeWhile (below_bound False a) m = smap_upto a m" "dropWhile (below_bound False a) m = smap_above a m"
    by (simp_all add: smap_upto_def smap_above_def below_bound_def[abs_def])
  let ?p = "last (smap_upto a m)"
  have "smap_from False a m = ?p # smap_above a m" using Cons tw by (simp add: smap_from_def)
  moreover have pu: "?p \<in> set (smap_upto a m)" using Cons by simp
  then have "?p \<in> set m" "fst ?p \<le> a" using set_smap_upto[OF assms] by auto
  moreover have "\<forall>q \<in> set (smap_above a m). a < fst q" using set_smap_above[OF assms] by simp
  moreover have ok: "smap_ok (smap_upto a m)" "smap_ok (smap_above a m)"
    using assms smap_upto_append_above[of m a] smap_ok_append by metis+
  moreover have "\<forall>q \<in> set m. q \<in> set (smap_above a m) \<or> q = ?p \<or> fst q < fst ?p"
  proof
    fix q assume q: "q \<in> set m"
    show "q \<in> set (smap_above a m) \<or> q = ?p \<or> fst q < fst ?p"
    proof (cases "a < fst q")
      case False
      then have "q \<in> set (smap_upto a m)" using q set_smap_upto[OF assms] by auto
      then have "fst q \<le> fst ?p" using smap_ok_last_max[OF ok(1)] Cons by simp
      moreover have "fst q = fst ?p \<Longrightarrow> q = ?p"
        using smap_ok_inj[OF assms] q \<open>?p \<in> set m\<close> by (metis prod.collapse)
      ultimately show ?thesis by auto
    qed (use q set_smap_above[OF assms] in auto)
  qed
  ultimately show ?thesis using pred by blast
qed

lemma fix_window_ok:
  assumes ok: "em_map_ok m" and a: "s \<le> a" "a \<le> e"
  shows "case fix_window a s e (smap_from False a m) of
      None \<Rightarrow> \<exists>p \<in> set m. er_start (snd p) \<le> a \<and> a \<le> er_end (snd p)
    | Some (fs, fe) \<Rightarrow> s \<le> fs \<and> fs \<le> a \<and> a \<le> fe \<and> fe \<le> e \<and> (\<forall>p \<in> set m. \<not> region_meets fs fe p)"
  using interval_map_ok_smap[OF ok]
proof (cases rule: smap_from_cases[where a = a])
  case none
  then show ?thesis using fix_window_above[OF ok none(2) a] a by auto
next
  case (pred p n)
  let ?r = "snd p"
  have okn: "em_map_ok n"
    using ok pred(1,6) smap_before_append_from[of False a m] by (metis append_Cons append_Nil interval_map_ok_append)
  have p: "fst p = er_start ?r" "er_start ?r \<le> er_end ?r" using interval_map_okD(1,2)[OF ok pred(2)] by auto
  have low: "er_end (snd q) < fst p" if "q \<in> set m" "fst q < fst p" for q
    using interval_map_okD(3)[OF ok that(1) pred(2) that(2)] .
  show ?thesis
  proof (cases "er_end ?r \<ge> a")
    case True
    then have "fix_window a s e (p # n) = None" using p pred(3) a by (auto simp: Let_def)
    then show ?thesis using pred(1-3) p True by auto
  next
    case False
    define fs where "fs = (if er_end ?r < s then s else er_end ?r + 1)"
    have step: "fix_window a s e (p # n) = fix_window a fs e n"
      using False p pred(3) a unfolding fs_def by (auto simp: Let_def)
    have fs: "s \<le> fs" "fs \<le> a" "er_end ?r < fs"
      using False a word_succ_le[of "er_end ?r" a] unfolding fs_def by (auto simp: not_le not_less)
    obtain fe where fe: "fix_window a fs e n = Some (fs, fe)" "a \<le> fe" "fe \<le> e" "\<forall>q \<in> set n. \<not> region_meets fs fe q"
      using fix_window_above[OF okn pred(4) fs(2) a(2)] by blast
    have "\<not> region_meets fs fe q" if "q \<in> set m" for q
    proof -
      have "er_end (snd q) < fs" if "q = p \<or> fst q < fst p"
        using that low[OF \<open>q \<in> set m\<close>] p fs(3) by auto
      then show ?thesis using pred(5) that fe(4) unfolding meets_def by (metis leD)
    qed
    then show ?thesis using pred(1) step fe fs a by simp
  qed
qed

section \<open>Whole accesses\<close>

text \<open>The locked regions after an access that was answered with \<open>g'\<close>.\<close>

definition regions_after :: "gp \<Rightarrow> path_id \<Rightarrow> gp \<Rightarrow> exclusive_monitor \<Rightarrow> (u64 \<times> em_region) set" where
  "regions_after g i g' m =
     (let R = set (em_regions m)
      in if gp_command g = Write_command
         then if store_passes g m then {p \<in> R. \<not> touches g (snd p)} else R
         else if gp_exclusive g \<noteq> None \<and> gp_response g' = Ok_response \<and> (\<forall>p \<in> R. \<not> touches g (snd p))
         then insert (gp_address g, mk_em_region g i) {p \<in> R. er_id (snd p) \<noteq> i}
         else R)"

lemma after_b_transport_ok:
  assumes ok: "em_ok m" and req: "request_ok g" and i: "gp_path g = Some i" and rd: "gp_command g \<noteq> Write_command"
  shows "\<exists>clear m' is. after_b_transport g m = Inr (clear, m', is) \<and> em_ok m' \<and>
    set (em_regions m') = (if gp_exclusive g \<noteq> None \<and> (\<forall>p \<in> set (em_regions m). \<not> touches g (snd p))
      then insert (gp_address g, mk_em_region g i) {p \<in> set (em_regions m). er_id (snd p) \<noteq> i}
      else set (em_regions m))"
proof (cases "gp_exclusive g")
  case None
  then show ?thesis using ok rd by (simp add: after_b_transport_def)
next
  case (Some x)
  then show ?thesis
    using handle_exclusive_load_ok[OF ok req i] rd em_find_region_None[OF ok, of g] ok
    by (cases "em_find_region g m") (auto simp: after_b_transport_def)
qed

lemma monitor_b_transport_step:
  assumes ok: "em_ok m" and req: "request_ok g" and i: "gp_path g = Some i"
  shows "\<exists>g' delay' is m' s'. monitor_b_transport bk g delay m s = Inr (g', delay', is, m', s') \<and>
    em_ok m' \<and> set (em_regions m') = regions_after g i g' m"
proof -
  obtain m1 g1 where b: "before_b_transport g m = Inr (gp_command g = Write_command \<longrightarrow> store_passes g m, g1, m1)"
    "em_ok m1" "set (em_regions m1) = (if gp_command g = Write_command \<and> store_passes g m
      then {p \<in> set (em_regions m). \<not> touches g (snd p)} else set (em_regions m))"
    "gp_command g \<noteq> Write_command \<Longrightarrow> g1 = g" "gp_command g1 = gp_command g"
    using before_b_transport_ok[OF ok i] by fastforce
  obtain g2 d2 js s2 where call: "bk g1 delay s = (g2, d2, js, s2)" by (metis prod_cases4)
  show ?thesis
  proof (cases "gp_command g = Write_command")
    case True
    then show ?thesis using b call
      by (auto simp: monitor_b_transport_def after_b_transport_def regions_after_def Let_def)
  next
    case False
    then have g1: "g1 = g" and go: "before_b_transport g m = Inr (True, g, m1)" using b by auto
    obtain c m' ks where a: "after_b_transport g m1 = Inr (c, m', ks)" "em_ok m'"
      "set (em_regions m') = (if gp_exclusive g \<noteq> None \<and> (\<forall>p \<in> set (em_regions m1). \<not> touches g (snd p))
        then insert (gp_address g, mk_em_region g i) {p \<in> set (em_regions m1). er_id (snd p) \<noteq> i}
        else set (em_regions m1))"
      using after_b_transport_ok[OF b(2) req i False] by blast
    show ?thesis
      using False go g1 call a b(2,3) by (cases "gp_response g2 = Ok_response")
        (auto simp: monitor_b_transport_def regions_after_def Let_def)
  qed
qed

section \<open>Reservations\<close>

text \<open>
  The abstract view of a run: the reservations of the initiators. An answered exclusive load adds
  one, a store that reaches the memory drops all it meets.
\<close>

type_synonym reservations = "(path_id \<times> u64 \<times> u64) set"

definition reserve :: "gp \<Rightarrow> path_id \<Rightarrow> gp \<Rightarrow> bool \<Rightarrow> reservations \<Rightarrow> reservations" where
  "reserve g i g' passed R =
     (if gp_command g = Write_command
      then if passed then {x \<in> R. \<not> meets (gp_address g) (txn_end g) (fst (snd x)) (snd (snd x))} else R
      else if gp_exclusive g \<noteq> None \<and> gp_response g' = Ok_response
      then insert (i, gp_address g, txn_end g) R else R)"

inductive em_reachable :: "exclusive_monitor \<Rightarrow> reservations \<Rightarrow> bool" where
  start: "em_reachable em_init {}"
| access: "em_reachable m R \<Longrightarrow> request_ok g \<Longrightarrow> gp_path g = Some i \<Longrightarrow>
    monitor_b_transport bk g delay m () = Inr (g', delay', is, m', ()) \<Longrightarrow>
    em_reachable m' (reserve g i g' (store_passes g m) R)"

lemma em_reachable_invariant:
  assumes "em_reachable m R"
  shows "em_ok m \<and> (\<forall>p \<in> set (em_regions m). (er_id (snd p), er_start (snd p), er_end (snd p)) \<in> R)"
  using assms
proof induction
  case start
  then show ?case by (simp add: em_ok_def em_init_def interval_map_ok_def)
next
  case (access m R g i bk delay g' delay' js m')
  obtain g2 m2 where s: "monitor_b_transport bk g delay m () = Inr (g2, delay', js, m2, ())"
    "em_ok m2" "set (em_regions m2) = regions_after g i g2 m"
    using monitor_b_transport_step[of m g i bk delay "()"] access by auto
  then have eq: "m2 = m'" "g2 = g'" using access(4) by auto
  have new: "er_id (mk_em_region g i) = i" "er_start (mk_em_region g i) = gp_address g"
    "er_end (mk_em_region g i) = txn_end g" by (simp_all add: mk_em_region_def)
  show ?case using s(2,3) access.IH new unfolding eq
    by (auto simp: regions_after_def reserve_def Let_def split: if_splits)
qed

section \<open>Properties\<close>


definition example_load :: "path_id \<Rightarrow> u64 \<Rightarrow> u32 \<Rightarrow> gp" where
  "example_load i a n = gp_init\<lparr>gp_command := Read_command, gp_address := a, gp_length := n, gp_path := Some i,
     gp_exclusive := Some \<lparr>m_id = [], m_store_sta = EXCLUSIVE_STORE_NA\<rparr>\<rparr>"

definition ok_memory :: "unit b_transport_call" where
  "ok_memory g d s = (g\<lparr>gp_response := Ok_response, gp_dmi_allowed := True\<rparr>, d, [], s)"


text \<open>
  C22. An exclusive store reaches the memory exactly when its initiator holds exactly the region it
  writes. Then the extension reports success and every region it meets is unlocked; otherwise the
  extension reports failure, the response is an error, and neither the memory nor the monitor
  changes.
\<close>

theorem exclusive_store_correct:
  assumes "em_ok m" "gp_path g = Some i" "gp_command g = Write_command" "gp_exclusive g = Some x"
  shows "if em_by_id m i = Some \<lparr>er_start = gp_address g, er_end = txn_end g, er_id = i\<rparr>
    then \<exists>m'. em_ok m' \<and> set (em_regions m') = {p \<in> set (em_regions m). \<not> touches g (snd p)} \<and>
      monitor_b_transport bk g delay m s =
        (case bk (g\<lparr>gp_exclusive := Some (x\<lparr>m_store_sta := EXCLUSIVE_STORE_SUCCESS\<rparr>)\<rparr>) delay s of
           (g2, delay2, is, s2) \<Rightarrow> Inr (g2, delay2, is, m', s2))
    else monitor_b_transport bk g delay m s =
      Inr (g\<lparr>gp_exclusive := Some (x\<lparr>m_store_sta := EXCLUSIVE_STORE_FAILURE\<rparr>),
             gp_response := Generic_error_response\<rparr>, delay, [], m, s)"
proof (cases "em_by_id m i = Some (mk_em_region g i)")
  case True
  then obtain m' where m': "handle_exclusive_store g x m = Inr (True, set_exclusive_store_success x, m')" "em_ok m'"
    "set (em_regions m') = {p \<in> set (em_regions m). \<not> touches g (snd p)}"
    using handle_exclusive_store_ok[OF assms(1,2), of x] by auto
  then have "monitor_b_transport bk g delay m s =
      (case bk (g\<lparr>gp_exclusive := Some (x\<lparr>m_store_sta := EXCLUSIVE_STORE_SUCCESS\<rparr>)\<rparr>) delay s of
         (g2, delay2, js, s2) \<Rightarrow> Inr (g2, delay2, js, m', s2))"
    using assms(3,4) by (auto simp: monitor_b_transport_def before_b_transport_def after_b_transport_def
        set_exclusive_store_success_def split: prod.splits)
  with True m' show ?thesis by (auto simp: mk_em_region_def)
next
  case False
  then have "handle_exclusive_store g x m = Inr (False, set_exclusive_store_failure x, m)"
    using handle_exclusive_store_ok[OF assms(1,2), of x] by auto
  with False assms(3,4) show ?thesis
    by (simp add: monitor_b_transport_def before_b_transport_def set_exclusive_store_failure_def mk_em_region_def)
qed

theorem exclusive_store_correct_witness:
  "monitor_b_transport ok_memory (example_load [1] 0x100 4\<lparr>gp_command := Write_command\<rparr>) 0 em_init () =
     Inr (example_load [1] 0x100 4\<lparr>gp_command := Write_command,
       gp_exclusive := Some \<lparr>m_id = [], m_store_sta = EXCLUSIVE_STORE_FAILURE\<rparr>,
       gp_response := Generic_error_response\<rparr>, 0, [], em_init, ())"
  using exclusive_store_correct[of em_init "example_load [1] 0x100 4\<lparr>gp_command := Write_command\<rparr>" "[1]" _ ok_memory 0 "()"]
  by (simp add: em_ok_def em_init_def interval_map_ok_def example_load_def)

text \<open>
  C8. Exclusive stores are atomic with respect to the load they pair with: in every run of the
  monitor, when an exclusive store is let through, its initiator made an answered exclusive load of
  the same bytes, and no store that reached the memory since then touched any of them.
\<close>

theorem exclusive_store_has_reservation:
  assumes "em_reachable m R" "gp_path g = Some i" "gp_command g = Write_command" "gp_exclusive g = Some x"
    and "before_b_transport g m = Inr (True, g1, m1)"
  shows "(i, gp_address g, txn_end g) \<in> R"
proof -
  have inv: "em_ok m" "\<forall>p \<in> set (em_regions m). (er_id (snd p), er_start (snd p), er_end (snd p)) \<in> R"
    using em_reachable_invariant[OF assms(1)] by auto
  have "em_by_id m i = Some (mk_em_region g i)"
    using before_b_transport_ok[OF inv(1) assms(2)] assms(2-5) by (auto simp: store_passes_def)
  from em_by_idD[OF inv(1) this] inv(2) show ?thesis by (force simp: mk_em_region_def)
qed

theorem exclusive_store_has_reservation_witness:
  "\<exists>R. ([1], 0x100, 0x103) \<in> R \<and>
     (\<exists>m. em_reachable m R \<and> em_by_id m [1] = Some \<lparr>er_start = 0x100, er_end = 0x103, er_id = [1]\<rparr>)"
proof -
  let ?g = "example_load [1] 0x100 4" and ?r = "\<lparr>er_start = 0x100, er_end = 0x103, er_id = [1]\<rparr>"
  let ?m = "\<lparr>em_regions = [(0x100, ?r)], em_by_id = [[1] \<mapsto> ?r]\<rparr>"
  let ?w = "?g\<lparr>gp_command := Write_command\<rparr>"
  let ?R = "reserve ?g [1] (?g\<lparr>gp_response := Ok_response, gp_dmi_allowed := False\<rparr>) (store_passes ?g em_init) {}"
  have run: "monitor_b_transport ok_memory ?g 0 em_init () =
      Inr (?g\<lparr>gp_response := Ok_response, gp_dmi_allowed := False\<rparr>, 0, [(0x100, 0x103)], ?m, ())"
    by (simp add: monitor_b_transport_def before_b_transport_def after_b_transport_def handle_exclusive_load_def
        em_find_region_def smap_from_def em_init_def ok_memory_def example_load_def gp_init_def get_initiator_id_def
        unlock_region_by_id_def lock_region_def mk_em_region_def txn_end_def Let_def)
  have reach: "em_reachable ?m ?R"
    by (rule em_reachable.access[OF em_reachable.start _ _ run])
      (simp_all add: request_ok_def txn_end_def example_load_def gp_init_def)
  have before: "\<exists>g1 m1. before_b_transport ?w ?m = Inr (True, g1, m1)"
    by (auto simp: before_b_transport_def handle_exclusive_store_def em_find_region_def smap_from_def
        example_load_def gp_init_def get_initiator_id_def txn_end_def unlock_region_def is_exact_match_def)
  then have "([1], gp_address ?w, txn_end ?w) \<in> ?R"
    using exclusive_store_has_reservation[OF reach, of ?w "[1]"] by (auto simp: example_load_def)
  then have "([1], 0x100, 0x103) \<in> ?R" by (simp add: example_load_def txn_end_def)
  moreover have "em_by_id ?m [1] = Some ?r" by simp
  ultimately show ?thesis using reach by blast
qed

text \<open>
  C23. A direct memory grant through the monitor is refused exactly when the address is locked;
  otherwise it is the memory's grant cut down to a window that still contains the address, meets no
  locked region, and keeps the host pointer of every address.
\<close>

theorem monitor_dmi_avoids_locks:
  assumes "em_ok m" "bk g dmi s = (True, g1, d, is, s1)" "dmi_start d \<le> gp_address g1" "gp_address g1 \<le> dmi_end d"
  shows "if \<exists>p \<in> set (em_regions m). er_start (snd p) \<le> gp_address g1 \<and> gp_address g1 \<le> er_end (snd p)
    then monitor_get_direct_mem_ptr bk g dmi m s = (False, g1, d, is, s1)
    else \<exists>d'. monitor_get_direct_mem_ptr bk g dmi m s = (True, g1, d', is, s1) \<and>
      dmi_start d \<le> dmi_start d' \<and> dmi_start d' \<le> gp_address g1 \<and>
      gp_address g1 \<le> dmi_end d' \<and> dmi_end d' \<le> dmi_end d \<and>
      (\<forall>p \<in> set (em_regions m). \<not> region_meets (dmi_start d') (dmi_end d') p) \<and>
      (\<forall>a. dmi_ptr d' + (a - dmi_start d') = dmi_ptr d + (a - dmi_start d))"
proof -
  let ?a = "gp_address g1" and ?f = "fix_window (gp_address g1) (dmi_start d) (dmi_end d) (smap_from False (gp_address g1) (em_regions m))"
  have ok: "em_map_ok (em_regions m)" using assms(1) by (simp add: em_ok_def)
  note w = fix_window_ok[OF ok assms(3,4)]
  show ?thesis
  proof (cases ?f)
    case None
    then show ?thesis using w assms(2) by (auto simp: monitor_get_direct_mem_ptr_def)
  next
    case (Some x)
    obtain fs fe where x: "x = (fs, fe)" by force
    with Some w have f: "dmi_start d \<le> fs" "fs \<le> ?a" "?a \<le> fe" "fe \<le> dmi_end d"
      "\<forall>p \<in> set (em_regions m). \<not> region_meets fs fe p" by auto
    then have "\<not> (\<exists>p \<in> set (em_regions m). er_start (snd p) \<le> ?a \<and> ?a \<le> er_end (snd p))"
      unfolding meets_def by (meson order_trans)
    moreover have "monitor_get_direct_mem_ptr bk g dmi m s =
        (True, g1, d\<lparr>dmi_ptr := dmi_ptr d + (fs - dmi_start d), dmi_start := fs, dmi_end := fe\<rparr>, is, s1)"
      using Some x assms(2) by (simp add: monitor_get_direct_mem_ptr_def)
    ultimately show ?thesis using f
      by (simp only: if_False) (rule exI[of _ "d\<lparr>dmi_ptr := dmi_ptr d + (fs - dmi_start d), dmi_start := fs, dmi_end := fe\<rparr>"], simp)
  qed
qed

definition locked_monitor :: exclusive_monitor where
  "locked_monitor = \<lparr>em_regions = [(0x100, \<lparr>er_start = 0x100, er_end = 0x103, er_id = [1]\<rparr>)],
     em_by_id = [[1] \<mapsto> \<lparr>er_start = 0x100, er_end = 0x103, er_id = [1]\<rparr>]\<rparr>"

lemma locked_monitor_ok: "em_ok locked_monitor"
  by (auto simp: em_ok_def locked_monitor_def interval_map_ok_def smap_ok_def)

definition dmi_memory :: "unit dmi_call" where
  "dmi_memory g d s = (True, g, d\<lparr>dmi_ptr := 0x7000, dmi_start := 0, dmi_end := 0xFFF\<rparr>, [], s)"

theorem monitor_dmi_avoids_locks_witness:
  "\<exists>d'. monitor_get_direct_mem_ptr dmi_memory (example_load [2] 0x200 4) dmi_init locked_monitor () =
     (True, example_load [2] 0x200 4, d', [], ()) \<and> \<not> meets (dmi_start d') (dmi_end d') 0x100 0x103"
proof -
  have "dmi_memory (example_load [2] 0x200 4) dmi_init () =
      (True, example_load [2] 0x200 4, dmi_init\<lparr>dmi_ptr := 0x7000, dmi_start := 0, dmi_end := 0xFFF\<rparr>, [], ())"
    by (simp add: dmi_memory_def)
  note w = monitor_dmi_avoids_locks[where bk = dmi_memory and s = "()", OF locked_monitor_ok this]
  have "gp_address (example_load [2] 0x200 4) = 0x200" by (simp add: example_load_def)
  with w show ?thesis by (auto simp: locked_monitor_def)
qed

text \<open>
  A new exclusive load does not release the region its initiator holds when the two overlap.
  The class documentation announces that the old region is unlocked before the new one is locked;
  the code returns as soon as it finds any locked region, the initiator's own included. Initiator
  \<open>[1]\<close> holds \<open>[0x100, 0x103]\<close> and loads \<open>[0x100, 0x107]\<close>: nothing changes, and the exclusive
  store of the eight bytes fails.
\<close>

lemma exclusive_load_keeps_own_overlap:
  "handle_exclusive_load (example_load [1] 0x100 8) locked_monitor = Inr (locked_monitor, []) \<and>
   handle_exclusive_store (example_load [1] 0x100 8) x locked_monitor =
     Inr (False, x\<lparr>m_store_sta := EXCLUSIVE_STORE_FAILURE\<rparr>, locked_monitor)"
  by (simp add: handle_exclusive_load_def handle_exclusive_store_def em_find_region_def smap_from_def
      example_load_def get_initiator_id_def txn_end_def is_exact_match_def locked_monitor_def below_bound_def
      set_exclusive_store_failure_def)

end
