(* ===== verification/Addrtr.thy ===== *)
theory Addrtr
  imports Tlm CciUtils
begin

text \<open>
  \<^verbatim>\<open>addrtr/include/addrtr.h\<close>: translation of a window of addresses. The window
  \<open>[base, base + size)\<close> in front of the component corresponds address by address to
  \<open>[mapped, mapped + size)\<close> behind it. The results are that forward accesses stay inside the mapped
  window, and that ranges coming back (grants and invalidations) are translated exactly: an address
  of the window is in the translated range if and only if its image is in the given one.
\<close>

section \<open>Model\<close>

record addrtr =
  at_base :: u64
  at_size :: u64
  at_mapped :: u64

text \<open>The constructor reads the window from the configuration of the module's target socket.\<close>

definition addrtr_construct :: "cci_broker \<Rightarrow> string \<Rightarrow> u64 \<Rightarrow> addrtr res" where
  "addrtr_construct b nm mapped_base_addr =
     bind_res (cci_get_T try_get_u64 b (nm @ ''.target_socket.address'')) (\<lambda>a.
     bind_res (cci_get_T try_get_u64 b (nm @ ''.target_socket.size'')) (\<lambda>sz.
       Inr \<lparr>at_base = a, at_size = sz, at_mapped = mapped_base_addr\<rparr>))"

definition range_end :: "u64 \<Rightarrow> u64 \<Rightarrow> u64 option" where
  "range_end s sz = (if sz = 0 \<or> s > UINT64_MAX - (sz - 1) then None else Some (s + sz - 1))"

text \<open>Result: start, end and host pointer, or \<open>None\<close> for \<^verbatim>\<open>false\<close>; a null pointer is not moved.\<close>

definition map_window :: "u64 \<Rightarrow> u64 \<Rightarrow> u64 \<Rightarrow> addrtr \<Rightarrow> (u64 \<times> u64 \<times> u64) option" where
  "map_window start_addr end_addr ptr t =
     (case range_end (at_mapped t) (at_size t) of
        None \<Rightarrow> None
      | Some mapped_end \<Rightarrow>
          if range_end (at_base t) (at_size t) = None \<or> end_addr < start_addr \<or> end_addr < at_mapped t \<or>
             start_addr > mapped_end
          then None
          else
            (let clipped_start = max start_addr (at_mapped t);
                 clipped_end = min end_addr mapped_end
             in Some (at_base t + (clipped_start - at_mapped t), at_base t + (clipped_end - at_mapped t),
                  if ptr \<noteq> 0 then ptr + (clipped_start - start_addr) else ptr)))"

definition addr_fw :: "u64 \<Rightarrow> addrtr \<Rightarrow> u64" where
  "addr_fw a t = at_mapped t + (a - at_base t)"

definition addr_bw :: "u64 \<Rightarrow> addrtr \<Rightarrow> u64" where
  "addr_bw a t = at_base t + (a - at_mapped t)"

definition map_txn_addr :: "gp \<Rightarrow> addrtr \<Rightarrow> gp res" where
  "map_txn_addr g t =
     (let addr = gp_address g;
          len = ucast (gp_length g) :: u64;
          target_end = range_end (at_base t) (at_size t);
          mapped_end = range_end (at_mapped t) (at_size t);
          txn_last = (if len = 0 then Some addr else range_end addr len)
      in case (target_end, mapped_end, txn_last) of
           (Some te, Some me, Some le) \<Rightarrow>
             if addr \<ge> at_base t \<and> le \<le> te then Inr (g\<lparr>gp_address := addr_fw addr t\<rparr>) else Inl Fatal
         | _ \<Rightarrow> Inl Fatal)"

definition addrtr_b_transport :: "'s b_transport_call \<Rightarrow> gp \<Rightarrow> u64 \<Rightarrow> addrtr \<Rightarrow> 's \<Rightarrow>
    (gp \<times> u64 \<times> inval list \<times> 's) res" where
  "addrtr_b_transport initiator_socket g delay t s =
     bind_res (map_txn_addr g t) (\<lambda>g1.
       let (g2, delay1, is, s1) = initiator_socket g1 delay s
       in Inr (g2\<lparr>gp_address := gp_address g\<rparr>, delay1, is, s1))"

definition addrtr_transport_dbg :: "'s dbg_call \<Rightarrow> gp \<Rightarrow> addrtr \<Rightarrow> 's \<Rightarrow> (u32 \<times> gp \<times> 's) res" where
  "addrtr_transport_dbg initiator_socket g t s =
     bind_res (map_txn_addr g t) (\<lambda>g1.
       let (n, g2, s1) = initiator_socket g1 s
       in Inr (n, g2\<lparr>gp_address := gp_address g\<rparr>, s1))"

definition addrtr_get_direct_mem_ptr :: "'s dmi_call \<Rightarrow> gp \<Rightarrow> tlm_dmi \<Rightarrow> addrtr \<Rightarrow> 's \<Rightarrow>
    (bool \<times> gp \<times> tlm_dmi \<times> inval list \<times> 's) res" where
  "addrtr_get_direct_mem_ptr initiator_socket g dmi t s =
     bind_res (map_txn_addr g t) (\<lambda>g1.
       let mapped_addr = gp_address g1;
           (ret, g2, d, is, s1) = initiator_socket g1 dmi s;
           g3 = g2\<lparr>gp_address := gp_address g\<rparr>
       in if \<not> ret then Inr (False, g3, d, is, s1)
          else if mapped_addr < dmi_start d \<or> mapped_addr > dmi_end d then Inr (False, g3, d, is, s1)
          else
            case map_window (dmi_start d) (dmi_end d) (dmi_ptr d) t of
              None \<Rightarrow> Inr (False, g3, d, is, s1)
            | Some (sa, ea, p) \<Rightarrow> Inr (True, g3, d\<lparr>dmi_ptr := p, dmi_start := sa, dmi_end := ea\<rparr>, is, s1))"

text \<open>An invalidation from behind: at most one translated invalidation in front.\<close>

definition addrtr_invalidate_direct_mem_ptr :: "u64 \<Rightarrow> u64 \<Rightarrow> addrtr \<Rightarrow> inval list" where
  "addrtr_invalidate_direct_mem_ptr s e t =
     (case map_window s e 0 t of None \<Rightarrow> [] | Some (sa, ea, _) \<Rightarrow> [(sa, ea)])"

section \<open>Window arithmetic\<close>

lemma range_end_None: "range_end s sz = None \<longleftrightarrow> sz = 0 \<or> 2 ^ 64 < unat s + unat sz"
proof (cases "sz = 0")
  case False
  have "unat (UINT64_MAX - (sz - 1)) = unat UINT64_MAX - unat (sz - 1)" by (rule unat_sub) simp
  also have "\<dots> = 2 ^ 64 - unat sz"
  proof -
    have "unat sz \<noteq> 0" "unat sz < 2 ^ 64" using False unsigned_less[of sz] by (simp_all add: unat_eq_0)
    moreover have "unat UINT64_MAX = 2 ^ 64 - 1" by (simp add: unsigned_minus_1_eq_mask mask_eq_exp_minus_1)
    ultimately show ?thesis unfolding unat_minus_one[OF False] by linarith
  qed
  finally have m: "unat (UINT64_MAX - (sz - 1)) = 2 ^ 64 - unat sz" .
  have "unat sz < 2 ^ 64" using unsigned_less[of sz] by simp
  then have "s > UINT64_MAX - (sz - 1) \<longleftrightarrow> 2 ^ 64 < unat s + unat sz"
    unfolding word_less_nat_alt m by linarith
  with False show ?thesis by (simp add: range_end_def)
qed (simp add: range_end_def)

lemma unat_range_end:
  assumes "range_end s sz = Some e"
  shows "unat e = unat s + unat sz - 1"
proof -
  have z: "sz \<noteq> 0" "unat s + unat sz \<le> 2 ^ 64" using assms range_end_None[of s sz] by auto
  have p: "unat sz \<noteq> 0" using z(1) by (simp add: unat_eq_0)
  have "e = s + (sz - 1)" using assms by (auto simp: range_end_def algebra_simps split: if_splits)
  moreover have "unat (sz - 1) = unat sz - 1" using z(1) by (rule unat_minus_one)
  moreover have "unat s + (unat sz - 1) < 2 ^ 64" using z(2) p by linarith
  ultimately show ?thesis using p by (simp add: unat_add_lem[THEN iffD1])
qed

definition in_window :: "u64 \<Rightarrow> addrtr \<Rightarrow> bool" where
  "in_window a t \<longleftrightarrow> at_base t \<le> a \<and> unat a < unat (at_base t) + unat (at_size t)"

definition window_ok :: "addrtr \<Rightarrow> bool" where
  "window_ok t \<longleftrightarrow> at_size t \<noteq> 0 \<and> unat (at_base t) + unat (at_size t) \<le> 2 ^ 64 \<and>
     unat (at_mapped t) + unat (at_size t) \<le> 2 ^ 64"

lemma unat_addr_fw:
  assumes "window_ok t" "in_window a t"
  shows "unat (addr_fw a t) = unat (at_mapped t) + (unat a - unat (at_base t))"
proof -
  have "unat (a - at_base t) = unat a - unat (at_base t)"
    using assms(2) by (intro unat_sub) (simp add: in_window_def)
  moreover have "unat (at_mapped t) + (unat a - unat (at_base t)) < 2 ^ 64"
    using assms unfolding window_ok_def in_window_def word_le_nat_alt by linarith
  ultimately show ?thesis unfolding addr_fw_def by (simp add: unat_add_lem[THEN iffD1])
qed

lemma unat_addr_bw:
  assumes "window_ok t" "at_mapped t \<le> x" "unat x < unat (at_mapped t) + unat (at_size t)"
  shows "unat (addr_bw x t) = unat (at_base t) + (unat x - unat (at_mapped t))"
proof -
  have "unat (x - at_mapped t) = unat x - unat (at_mapped t)" using assms(2) by (rule unat_sub)
  moreover have "unat (at_base t) + (unat x - unat (at_mapped t)) < 2 ^ 64"
    using assms unfolding window_ok_def word_le_nat_alt by linarith
  ultimately show ?thesis unfolding addr_bw_def by (simp add: unat_add_lem[THEN iffD1])
qed

lemma addr_fw_bw [simp]: "addr_bw (addr_fw a t) t = a" "addr_fw (addr_bw a t) t = a"
  by (simp_all add: addr_fw_def addr_bw_def)

lemma addr_bw_le:
  assumes "window_ok t" "in_window a t" "at_mapped t \<le> x" "unat x < unat (at_mapped t) + unat (at_size t)"
  shows "addr_bw x t \<le> a \<longleftrightarrow> x \<le> addr_fw a t" "a \<le> addr_bw x t \<longleftrightarrow> addr_fw a t \<le> x"
  using unat_addr_fw[OF assms(1,2)] unat_addr_bw[OF assms(1,3,4)] assms(2,3)
  unfolding word_le_nat_alt in_window_def by linarith+

text \<open>Ranges are translated exactly.\<close>

lemma map_window_exact:
  assumes ok: "window_ok t"
  shows "case map_window s e p t of
      None \<Rightarrow> \<forall>a. in_window a t \<longrightarrow> \<not> (s \<le> addr_fw a t \<and> addr_fw a t \<le> e)
    | Some (s', e', p') \<Rightarrow> (\<forall>a. s' \<le> a \<and> a \<le> e' \<longleftrightarrow> in_window a t \<and> s \<le> addr_fw a t \<and> addr_fw a t \<le> e) \<and>
        (p \<noteq> 0 \<longrightarrow> (\<forall>a. p' + (a - s') = p + (addr_fw a t - s)))"
proof -
  have "range_end (at_mapped t) (at_size t) \<noteq> None" "range_end (at_base t) (at_size t) \<noteq> None"
    using ok by (auto simp: range_end_None window_ok_def)
  then obtain me where me: "range_end (at_mapped t) (at_size t) = Some me" and be: "range_end (at_base t) (at_size t) \<noteq> None"
    by blast
  have sz: "unat (at_size t) \<noteq> 0" using ok by (simp add: window_ok_def unat_eq_0)
  note ume = unat_range_end[OF me]
  have fw: "at_mapped t \<le> addr_fw a t" "addr_fw a t \<le> me" if "in_window a t" for a
    using unat_addr_fw[OF ok that] that ume sz unfolding in_window_def word_le_nat_alt by linarith+
  show ?thesis
  proof (cases "e < s \<or> e < at_mapped t \<or> s > me")
    case True
    have "\<not> (s \<le> addr_fw a t \<and> addr_fw a t \<le> e)" if "in_window a t" for a
      using fw[OF that] True by auto
    moreover have "map_window s e p t = None" using True me be by (auto simp: map_window_def)
    ultimately show ?thesis by simp
  next
    case False
    let ?cs = "max s (at_mapped t)" and ?ce = "min e me"
    have mm: "at_mapped t \<le> me" using ume sz unfolding word_le_nat_alt by linarith
    have mw: "map_window s e p t = Some (addr_bw ?cs t, addr_bw ?ce t, if p \<noteq> 0 then p + (?cs - s) else p)"
      using False me be by (auto simp: map_window_def addr_bw_def Let_def)
    have cs: "at_mapped t \<le> ?cs" "unat ?cs < unat (at_mapped t) + unat (at_size t)"
      and ce: "at_mapped t \<le> ?ce" "unat ?ce < unat (at_mapped t) + unat (at_size t)"
      using False mm ume sz by (auto simp: max_def min_def word_le_nat_alt not_less)
    have "addr_bw ?cs t \<le> a \<and> a \<le> addr_bw ?ce t \<longleftrightarrow> in_window a t \<and> s \<le> addr_fw a t \<and> addr_fw a t \<le> e" for a
    proof (cases "in_window a t")
      case True
      then show ?thesis using addr_bw_le[OF ok True cs] addr_bw_le[OF ok True ce] fw[OF True] by auto
    next
      case False
      have "unat (addr_bw ?cs t) \<ge> unat (at_base t)" "unat (addr_bw ?ce t) < unat (at_base t) + unat (at_size t)"
        using unat_addr_bw[OF ok cs] unat_addr_bw[OF ok ce] ce unfolding word_le_nat_alt by linarith+
      then show ?thesis using False unfolding in_window_def word_le_nat_alt by linarith
    qed
    moreover have "p + (?cs - s) + (a - addr_bw ?cs t) = p + (addr_fw a t - s)" for a
      by (simp add: addr_bw_def addr_fw_def)
    ultimately show ?thesis using mw by simp
  qed
qed

text \<open>All bytes of the access (at least one address for an empty access) lie in the window.\<close>

definition txn_in_window :: "gp \<Rightarrow> addrtr \<Rightarrow> bool" where
  "txn_in_window g t \<longleftrightarrow> window_ok t \<and> at_base t \<le> gp_address g \<and>
     unat (gp_address g) + max 1 (unat (gp_length g)) \<le> unat (at_base t) + unat (at_size t)"

lemma map_txn_addr_eq:
  "map_txn_addr g t = (if txn_in_window g t then Inr (g\<lparr>gp_address := addr_fw (gp_address g) t\<rparr>) else Inl Fatal)"
proof (cases "window_ok t")
  case False
  then have "range_end (at_base t) (at_size t) = None \<or> range_end (at_mapped t) (at_size t) = None"
    unfolding range_end_None window_ok_def by linarith
  with False show ?thesis by (auto simp: map_txn_addr_def txn_in_window_def Let_def split: option.splits)
next
  case True
  then have "range_end (at_base t) (at_size t) \<noteq> None" "range_end (at_mapped t) (at_size t) \<noteq> None"
    unfolding range_end_None window_ok_def by linarith+
  then obtain te me where te: "range_end (at_base t) (at_size t) = Some te" and me: "range_end (at_mapped t) (at_size t) = Some me"
    by blast
  have sz: "unat (at_size t) \<noteq> 0" using True by (simp add: window_ok_def unat_eq_0)
  let ?len = "ucast (gp_length g) :: u64"
  let ?last = "if ?len = 0 then Some (gp_address g) else range_end (gp_address g) ?len"
  have len: "?len = 0 \<longleftrightarrow> unat (gp_length g) = 0" using unat_eq_0[of ?len] by (simp add: unat_ucast_32_64)
  have "(\<exists>le. ?last = Some le \<and> le \<le> te) \<longleftrightarrow>
      unat (gp_address g) + max 1 (unat (gp_length g)) \<le> unat (at_base t) + unat (at_size t)"
  proof (cases "?len = 0")
    case True
    then show ?thesis using len unat_range_end[OF te] sz by (auto simp: word_le_nat_alt)
  next
    case False
    then have p: "unat (gp_length g) \<noteq> 0" using len by simp
    have le: "unat (at_base t) + unat (at_size t) \<le> 2 ^ 64" using \<open>window_ok t\<close> by (simp add: window_ok_def)
    show ?thesis
    proof (cases "range_end (gp_address g) ?len")
      case None
      then have "2 ^ 64 < unat (gp_address g) + unat (gp_length g)"
        using False by (simp add: range_end_None unat_ucast_32_64)
      with le None False p show ?thesis by auto
    next
      case (Some e)
      with p False show ?thesis using unat_range_end[OF Some] unat_range_end[OF te] sz
        by (auto simp: word_le_nat_alt unat_ucast_32_64)
    qed
  qed
  moreover have "map_txn_addr g t = (case ?last of None \<Rightarrow> Inl Fatal
      | Some le \<Rightarrow> if gp_address g \<ge> at_base t \<and> le \<le> te
          then Inr (g\<lparr>gp_address := addr_fw (gp_address g) t\<rparr>) else Inl Fatal)"
    using te me by (simp add: map_txn_addr_def Let_def)
  ultimately show ?thesis using True unfolding txn_in_window_def by (cases ?last) auto
qed

section \<open>Properties\<close>

text \<open>
  C24. An access is forwarded if and only if all its bytes lie in the window (and the window itself
  does not wrap around); otherwise the simulation is stopped. The forwarded access lies in the
  mapped window with all its bytes, at the same offset, and the initiator gets its address back.
\<close>

theorem addrtr_forward_correct:
  "addrtr_b_transport sock g delay t s =
     (if txn_in_window g t
      then case sock (g\<lparr>gp_address := at_mapped t + (gp_address g - at_base t)\<rparr>) delay s of
        (g2, delay1, is, s1) \<Rightarrow> Inr (g2\<lparr>gp_address := gp_address g\<rparr>, delay1, is, s1)
      else Inl Fatal) \<and>
   (txn_in_window g t \<longrightarrow>
      unat (at_mapped t + (gp_address g - at_base t)) = unat (at_mapped t) + (unat (gp_address g) - unat (at_base t)) \<and>
      unat (at_mapped t + (gp_address g - at_base t)) + max 1 (unat (gp_length g)) \<le> unat (at_mapped t) + unat (at_size t))"
proof
  show "addrtr_b_transport sock g delay t s =
     (if txn_in_window g t
      then case sock (g\<lparr>gp_address := at_mapped t + (gp_address g - at_base t)\<rparr>) delay s of
        (g2, delay1, is, s1) \<Rightarrow> Inr (g2\<lparr>gp_address := gp_address g\<rparr>, delay1, is, s1)
      else Inl Fatal)"
    by (simp add: addrtr_b_transport_def map_txn_addr_eq addr_fw_def split: prod.splits)
  show "txn_in_window g t \<longrightarrow>
      unat (at_mapped t + (gp_address g - at_base t)) = unat (at_mapped t) + (unat (gp_address g) - unat (at_base t)) \<and>
      unat (at_mapped t + (gp_address g - at_base t)) + max 1 (unat (gp_length g)) \<le> unat (at_mapped t) + unat (at_size t)"
  proof
    assume w: "txn_in_window g t"
    then have ok: "window_ok t" "in_window (gp_address g) t" by (auto simp: txn_in_window_def in_window_def)
    note f = unat_addr_fw[OF ok, unfolded addr_fw_def]
    show "unat (at_mapped t + (gp_address g - at_base t)) = unat (at_mapped t) + (unat (gp_address g) - unat (at_base t)) \<and>
      unat (at_mapped t + (gp_address g - at_base t)) + max 1 (unat (gp_length g)) \<le> unat (at_mapped t) + unat (at_size t)"
      using f w unfolding txn_in_window_def word_le_nat_alt by linarith
  qed
qed

definition example_addrtr :: addrtr where
  "example_addrtr = \<lparr>at_base = 0x1000, at_size = 0x100, at_mapped = 0x8000\<rparr>"

definition example_access :: gp where
  "example_access = gp_init\<lparr>gp_address := 0x1010, gp_length := 4\<rparr>"

lemma example_in_window: "txn_in_window example_access example_addrtr"
  by (simp add: txn_in_window_def window_ok_def example_access_def example_addrtr_def)

theorem addrtr_forward_correct_witness:
  "txn_in_window example_access example_addrtr \<and>
   unat (at_mapped example_addrtr + (gp_address example_access - at_base example_addrtr)) + 4 \<le> 0x8000 + 0x100"
  using addrtr_forward_correct[of "\<lambda>g d s. (g, d, [], s)" example_access 0 example_addrtr "()"] example_in_window
  by (simp add: example_access_def example_addrtr_def)

text \<open>
  C25. A direct memory grant is translated exactly: if the target's grant contains the mapped
  address, the grant passed on covers precisely the addresses of the window whose images the target
  granted, the requested one included, each with the host pointer of its image.
\<close>

theorem addrtr_dmi_exact:
  assumes "txn_in_window g t"
    and "sock (g\<lparr>gp_address := addr_fw (gp_address g) t\<rparr>) dmi s = (True, g2, d, is, s1)"
    and "dmi_start d \<le> addr_fw (gp_address g) t" "addr_fw (gp_address g) t \<le> dmi_end d" "dmi_ptr d \<noteq> 0"
  shows "\<exists>d'. addrtr_get_direct_mem_ptr sock g dmi t s = Inr (True, g2\<lparr>gp_address := gp_address g\<rparr>, d', is, s1) \<and>
    dmi_start d' \<le> gp_address g \<and> gp_address g \<le> dmi_end d' \<and>
    (\<forall>a. dmi_start d' \<le> a \<and> a \<le> dmi_end d' \<longleftrightarrow> in_window a t \<and> dmi_start d \<le> addr_fw a t \<and> addr_fw a t \<le> dmi_end d) \<and>
    (\<forall>a. dmi_ptr d' + (a - dmi_start d') = dmi_ptr d + (addr_fw a t - dmi_start d))"
proof -
  have ok: "window_ok t" "in_window (gp_address g) t" using assms(1) by (auto simp: txn_in_window_def in_window_def)
  note e = map_window_exact[OF ok(1), of "dmi_start d" "dmi_end d" "dmi_ptr d"]
  obtain sa ea p where w: "map_window (dmi_start d) (dmi_end d) (dmi_ptr d) t = Some (sa, ea, p)"
    using e ok(2) assms(3,4) by (cases "map_window (dmi_start d) (dmi_end d) (dmi_ptr d) t") auto
  have "addrtr_get_direct_mem_ptr sock g dmi t s =
      Inr (True, g2\<lparr>gp_address := gp_address g\<rparr>, d\<lparr>dmi_ptr := p, dmi_start := sa, dmi_end := ea\<rparr>, is, s1)"
    using assms w by (auto simp: addrtr_get_direct_mem_ptr_def map_txn_addr_eq Let_def)
  moreover have "sa \<le> gp_address g \<and> gp_address g \<le> ea" using e w ok(2) assms(3,4) by simp
  ultimately show ?thesis using e w assms(5)
    by (intro exI[of _ "d\<lparr>dmi_ptr := p, dmi_start := sa, dmi_end := ea\<rparr>"]) simp
qed

theorem addrtr_dmi_exact_witness:
  "\<exists>d'. addrtr_get_direct_mem_ptr (\<lambda>g d s. (True, g, d\<lparr>dmi_ptr := 0x50000, dmi_start := 0x7000, dmi_end := 0x8FFF\<rparr>, [], s))
     example_access dmi_init example_addrtr () = Inr (True, example_access, d', [], ()) \<and>
     (\<forall>a. dmi_start d' \<le> a \<and> a \<le> dmi_end d' \<longrightarrow> in_window a example_addrtr)"
proof -
  let ?sock = "\<lambda>g d s. (True, g :: gp, d\<lparr>dmi_ptr := 0x50000, dmi_start := 0x7000, dmi_end := 0x8FFF\<rparr> :: tlm_dmi, [] :: inval list, s :: unit)"
  let ?g = "example_access\<lparr>gp_address := addr_fw (gp_address example_access) example_addrtr\<rparr>"
  have "?sock ?g dmi_init () = (True, ?g, dmi_init\<lparr>dmi_ptr := 0x50000, dmi_start := 0x7000, dmi_end := 0x8FFF\<rparr>, [], ())" by simp
  from addrtr_dmi_exact[where sock = ?sock and s = "()", OF example_in_window this]
  have "\<exists>d'. addrtr_get_direct_mem_ptr ?sock example_access dmi_init example_addrtr () =
      Inr (True, ?g\<lparr>gp_address := gp_address example_access\<rparr>, d', [], ()) \<and>
      (\<forall>a. dmi_start d' \<le> a \<and> a \<le> dmi_end d' \<longrightarrow> in_window a example_addrtr)"
    by (auto simp: addr_fw_def example_access_def example_addrtr_def)
  moreover have "?g\<lparr>gp_address := gp_address example_access\<rparr> = example_access" by (simp add: example_access_def)
  ultimately show ?thesis by simp
qed

text \<open>
  C26. Invalidations are translated exactly: whatever range is invalidated behind the component, the
  addresses invalidated in front are those of the window whose images lie in the range.
\<close>

theorem addrtr_invalidation_exact:
  assumes "window_ok t"
  shows "(\<exists>r \<in> set (addrtr_invalidate_direct_mem_ptr s e t). fst r \<le> a \<and> a \<le> snd r) \<longleftrightarrow>
    in_window a t \<and> s \<le> addr_fw a t \<and> addr_fw a t \<le> e"
  using map_window_exact[OF assms, of s e 0]
  by (cases "map_window s e 0 t") (auto simp: addrtr_invalidate_direct_mem_ptr_def)

theorem addrtr_invalidation_exact_witness:
  "\<exists>r \<in> set (addrtr_invalidate_direct_mem_ptr 0x7000 0x8010 example_addrtr). fst r \<le> 0x1008 \<and> 0x1008 \<le> snd r"
proof -
  have "window_ok example_addrtr" by (simp add: window_ok_def example_addrtr_def)
  from addrtr_invalidation_exact[OF this, of "0x7000" "0x8010" "0x1008"] show ?thesis
    by (simp add: in_window_def addr_fw_def example_addrtr_def)
qed

end
