(* ===== verification/Registers.thy ===== *)
theory Registers
  imports Tlm
begin

text \<open>
  \<^verbatim>\<open>common/include/registers.h\<close>: registers whose value lives in a memory behind a socket.

  \<open>proxy\<close> is \<^verbatim>\<open>proxy_data_array\<close>: an array of elements of one unsigned type, read and written
  through its initiator socket, or through a direct memory pointer once the memory has granted one.
  \<open>gs_reg\<close> adds what \<^verbatim>\<open>port_fnct\<close> and \<^verbatim>\<open>gs_register\<close> keep: whether a callback runs and the data
  captured before a masked write. The element type is \<open>'a word\<close>. The socket, and the host memory
  its pointers lead to, are the parameter \<open>reg_port\<close> over the state \<open>'s\<close> behind it. Element buffers
  are lists; the copies between elements and bytes are little endian, as on the hosts supported.

  The callbacks of a register are parameters too: they may change the transaction, the register and
  the state behind the socket. Banks are in \<open>RegBank\<close>.
\<close>

section \<open>Elements and bytes\<close>

definition sizeof :: "'a::len itself \<Rightarrow> nat" where
  "sizeof T = LENGTH('a) div 8"

definition to_bytes :: "'a::len word \<Rightarrow> u8 list" where
  "to_bytes w = map (\<lambda>i. ucast (drop_bit (8 * i) w)) [0..<sizeof TYPE('a)]"

fun of_bytes :: "u8 list \<Rightarrow> 'a::len word" where
  "of_bytes [] = 0"
| "of_bytes (b # bs) = ucast b OR push_bit 8 (of_bytes bs)"

definition bytes_of :: "'a::len word list \<Rightarrow> u8 list" where
  "bytes_of ws = concat (map to_bytes ws)"

definition words_of :: "nat \<Rightarrow> u8 list \<Rightarrow> 'a::len word list" where
  "words_of n bs = map (\<lambda>i. of_bytes (take (sizeof TYPE('a)) (drop (i * sizeof TYPE('a)) bs))) [0..<n]"

section \<open>Masks\<close>

definition gs_full_mask :: "'a::len word" where
  "gs_full_mask = - 1"

definition gs_mask_for_field :: "nat \<Rightarrow> nat \<Rightarrow> 'a::len word res" where
  "gs_mask_for_field start len =
     (if len = 0 \<or> LENGTH('a) \<le> start \<or> LENGTH('a) - start < len then Inl Assert_failed
      else if len = LENGTH('a) then Inr gs_full_mask
      else Inr (drop_bit (LENGTH('a) - len) gs_full_mask))"

definition write_with_mask :: "'a::len word \<Rightarrow> 'a word list \<Rightarrow> 'a word list \<Rightarrow> 'a word list" where
  "write_with_mask m src dst =
     map2 (\<lambda>x y. x OR y) (map (\<lambda>x. x AND m) src) (map (\<lambda>y. y AND NOT m) dst)"

section \<open>The proxy\<close>

record 's reg_port =
  rp_b_transport :: "gp \<Rightarrow> u64 \<Rightarrow> 's \<Rightarrow> (gp \<times> u64 \<times> inval list \<times> 's) res"
  rp_dmi :: "gp \<Rightarrow> tlm_dmi \<Rightarrow> 's \<Rightarrow> (bool \<times> gp \<times> tlm_dmi \<times> inval list \<times> 's) res"
  rp_peek :: "u64 \<Rightarrow> nat \<Rightarrow> 's \<Rightarrow> u8 list"
  rp_poke :: "u64 \<Rightarrow> u8 list \<Rightarrow> 's \<Rightarrow> 's"

record 'm proxy =
  pd_dmi :: "u64 option"
  p_number :: u64
  p_offset :: u64
  p_size :: u64
  p_stride :: u64
  p_elem_size :: u64
  p_mask :: 'm
  p_relative_addresses :: bool

definition proxy_init :: "u64 \<Rightarrow> u64 \<Rightarrow> 'a::len word \<Rightarrow> u64 \<Rightarrow> u64 \<Rightarrow> 'a word proxy" where
  "proxy_init offset number msk stride total_span_override =
     (let sz = of_nat (sizeof TYPE('a))
      in \<lparr>pd_dmi = None, p_number = number, p_offset = offset,
          p_size = (if total_span_override \<noteq> 0 then total_span_override
                    else if number = 0 then 0 else stride * (number - 1) + sz),
          p_stride = stride, p_elem_size = sz, p_mask = msk, p_relative_addresses = True\<rparr>)"

text \<open>A transaction of the proxy. Lengths are cut to 32 bits, the width of the payload's field.\<close>

definition proxy_txn :: "tlm_command \<Rightarrow> u64 \<Rightarrow> u8 list \<Rightarrow> gp" where
  "proxy_txn cmd addr data =
     gp_init\<lparr>gp_command := cmd, gp_address := addr, gp_data := data,
       gp_length := of_nat (length data), gp_streaming_width := of_nat (length data)\<rparr>"

text \<open>Any invalidation drops the pointer.\<close>

definition proxy_invalidate :: "inval list \<Rightarrow> ('a::len word, 'b) proxy_scheme \<Rightarrow> ('a word, 'b) proxy_scheme" where
  "proxy_invalidate invals p = (if invals = [] then p else p\<lparr>pd_dmi := None\<rparr>)"

definition check_dmi :: "'s reg_port \<Rightarrow> ('a::len word, 'b) proxy_scheme \<Rightarrow> 's \<Rightarrow>
    (('a word, 'b) proxy_scheme \<times> 's) res" where
  "check_dmi port p s =
     (let span = p_size p;
          txn = gp_init\<lparr>gp_command := Ignore_command, gp_address := p_offset p,
                  gp_length := ucast span, gp_streaming_width := ucast span\<rparr>
      in bind_res (rp_dmi port txn dmi_init s) (\<lambda>(granted, _, dmi, invals, s1).
         let p1 = proxy_invalidate invals p
         in if granted then
              assert_res (dmi_end dmi \<ge> dmi_start dmi + p_offset p + span)
                (Inr (p1\<lparr>pd_dmi := Some (dmi_ptr dmi + (p_offset p - dmi_start dmi))\<rparr>, s1))
            else Inr (p1, s1)))"

definition proxy_transport :: "'s reg_port \<Rightarrow> gp \<Rightarrow> ('a::len word, 'b) proxy_scheme \<Rightarrow> 's \<Rightarrow>
    (u8 list \<times> ('a word, 'b) proxy_scheme \<times> 's) res" where
  "proxy_transport port txn p s =
     bind_res (rp_b_transport port txn 0 s) (\<lambda>(txn1, _, invals, s1).
       assert_res (gp_response txn1 = Ok_response)
         (let p1 = proxy_invalidate invals p
          in if gp_dmi_allowed txn1
             then bind_res (check_dmi port p1 s1) (\<lambda>(p2, s2). Inr (gp_data txn1, p2, s2))
             else Inr (gp_data txn1, p1, s1)))"

subsection \<open>Reading\<close>

fun get_elems :: "'s reg_port \<Rightarrow> u64 \<Rightarrow> 'a::len word list \<Rightarrow> ('a word, 'b) proxy_scheme \<Rightarrow> 's \<Rightarrow>
    ('a word list \<times> ('a word, 'b) proxy_scheme \<times> 's) res" where
  "get_elems port idx [] p s = Inr ([], p, s)"
| "get_elems port idx (d # dst) p s =
     bind_res (proxy_transport port
         (proxy_txn Read_command (p_offset p + p_stride p * idx) (to_bytes d)) p s) (\<lambda>(bs, p1, s1).
     bind_res (get_elems port (idx + 1) dst p1 s1) (\<lambda>(vs, p2, s2).
       Inr (of_bytes bs # vs, p2, s2)))"

definition proxy_get :: "'s reg_port \<Rightarrow> 'a::len word list \<Rightarrow> u64 \<Rightarrow> ('a word, 'b) proxy_scheme \<Rightarrow> 's \<Rightarrow>
    ('a word list \<times> ('a word, 'b) proxy_scheme \<times> 's) res" where
  "proxy_get port dst idx p s =
     (let n = length dst; sz = sizeof TYPE('a)
      in assert_res (idx + of_nat n \<le> p_number p)
        (case pd_dmi p of
           Some q \<Rightarrow>
             Inr (map (\<lambda>i. of_bytes (rp_peek port (q + p_stride p * (idx + of_nat i)) sz s)) [0..<n], p, s)
         | None \<Rightarrow>
             if n = 1 \<or> p_stride p = of_nat sz
             then bind_res (proxy_transport port
                 (proxy_txn Read_command (p_offset p + p_stride p * idx) (bytes_of dst)) p s)
               (\<lambda>(bs, p1, s1). Inr (words_of n bs, p1, s1))
             else get_elems port idx dst p s))"

definition get_bytes :: "'s reg_port \<Rightarrow> 'a::len word \<Rightarrow> u64 \<Rightarrow> ('a word, 'b) proxy_scheme \<Rightarrow> 's \<Rightarrow>
    ('a word \<times> ('a word, 'b) proxy_scheme \<times> 's) res" where
  "get_bytes port dst byte_offset p s =
     (case pd_dmi p of
        Some q \<Rightarrow> Inr (of_bytes (rp_peek port (q + byte_offset) (sizeof TYPE('a)) s), p, s)
      | None \<Rightarrow>
          bind_res (proxy_transport port
              (proxy_txn Read_command (p_offset p + byte_offset) (to_bytes dst)) p s)
            (\<lambda>(bs, p1, s1). Inr (of_bytes bs, p1, s1)))"

subsection \<open>Writing\<close>

text \<open>Through the pointer, element by element; a masked element is read first.\<close>

fun poke_elems :: "'s reg_port \<Rightarrow> bool \<Rightarrow> u64 \<Rightarrow> u64 \<Rightarrow> 'a::len word list \<Rightarrow> ('a word, 'b) proxy_scheme \<Rightarrow> 's \<Rightarrow> 's" where
  "poke_elems port masked q idx [] p s = s"
| "poke_elems port masked q idx (v # vs) p s =
     (let a = q + p_stride p * idx;
          w = (if masked
               then hd (write_with_mask (p_mask p) [v] [of_bytes (rp_peek port a (sizeof TYPE('a)) s)])
               else v)
      in poke_elems port masked q (idx + 1) vs p (rp_poke port a (to_bytes w) s))"

text \<open>Through the socket, one transaction per element.\<close>

fun set_elems :: "'s reg_port \<Rightarrow> bool \<Rightarrow> u64 \<Rightarrow> 'a::len word list \<Rightarrow> ('a word, 'b) proxy_scheme \<Rightarrow> 's \<Rightarrow>
    (('a word, 'b) proxy_scheme \<times> 's) res" where
  "set_elems port masked idx [] p s = Inr (p, s)"
| "set_elems port masked idx (v # vs) p s =
     bind_res
       (if masked
        then bind_res (proxy_get port [0] idx p s) (\<lambda>(cur, p1, s1).
          Inr (hd (write_with_mask (p_mask p) [v] cur), p1, s1))
        else Inr (v, p, s))
       (\<lambda>(w, p1, s1).
     bind_res (proxy_transport port
         (proxy_txn Write_command (p_offset p1 + p_stride p1 * idx) (to_bytes w)) p1 s1) (\<lambda>(_, p2, s2).
       set_elems port masked (idx + 1) vs p2 s2))"

definition proxy_set :: "'s reg_port \<Rightarrow> 'a::len word list \<Rightarrow> u64 \<Rightarrow> bool \<Rightarrow> ('a word, 'b) proxy_scheme \<Rightarrow> 's \<Rightarrow>
    (('a word, 'b) proxy_scheme \<times> 's) res" where
  "proxy_set port src idx use_mask p s =
     (let n = length src; masked = (use_mask \<and> p_mask p \<noteq> gs_full_mask)
      in assert_res (idx + of_nat n \<le> p_number p)
        (case pd_dmi p of
           Some q \<Rightarrow> Inr (p, poke_elems port masked q idx src p s)
         | None \<Rightarrow>
             if (n = 1 \<or> p_stride p = of_nat (sizeof TYPE('a))) \<and> \<not> masked
             then bind_res (proxy_transport port
                 (proxy_txn Write_command (p_offset p + p_stride p * idx) (bytes_of src)) p s)
               (\<lambda>(_, p1, s1). Inr (p1, s1))
             else set_elems port masked idx src p s))"

text \<open>\<open>mask_at\<close> is the virtual \<^verbatim>\<open>mask_for_byte_offset\<close>: \<open>p_mask\<close> for a plain register.\<close>

definition set_bytes :: "'s reg_port \<Rightarrow> (u64 \<Rightarrow> 'a::len word) \<Rightarrow> 'a word \<Rightarrow> u64 \<Rightarrow> bool \<Rightarrow>
    ('a word, 'b) proxy_scheme \<Rightarrow> 's \<Rightarrow> (('a word, 'b) proxy_scheme \<times> 's) res" where
  "set_bytes port mask_at src byte_offset use_mask p s =
     (let m = mask_at byte_offset; masked = (use_mask \<and> m \<noteq> gs_full_mask)
      in case pd_dmi p of
           Some q \<Rightarrow>
             (let w = (if masked
                then hd (write_with_mask m [src]
                       [of_bytes (rp_peek port (q + byte_offset) (sizeof TYPE('a)) s)])
                else src)
              in Inr (p, rp_poke port (q + byte_offset) (to_bytes w) s))
         | None \<Rightarrow>
             bind_res
               (if masked
                then bind_res (get_bytes port 0 byte_offset p s) (\<lambda>(cur, p1, s1).
                  Inr (hd (write_with_mask m [src] [cur]), p1, s1))
                else Inr (src, p, s))
               (\<lambda>(w, p1, s1).
             bind_res (proxy_transport port
                 (proxy_txn Write_command (p_offset p1 + byte_offset) (to_bytes w)) p1 s1)
               (\<lambda>(_, p2, s2). Inr (p2, s2))))"

text \<open>\<^verbatim>\<open>operator[](int)\<close> gives a reference, the host address of the element.\<close>

definition proxy_ref :: "'s reg_port \<Rightarrow> u32 \<Rightarrow> ('a::len word, 'b) proxy_scheme \<Rightarrow> 's \<Rightarrow>
    (u64 \<times> ('a word, 'b) proxy_scheme \<times> 's) res" where
  "proxy_ref port idx p s =
     bind_res (if pd_dmi p = None then check_dmi port p s else Inr (p, s)) (\<lambda>(p1, s1).
       case pd_dmi p1 of
         None \<Rightarrow> Inl Fatal
       | Some q \<Rightarrow>
           if p_mask p1 \<noteq> gs_full_mask then Inl Fatal
           else Inr (q + p_stride p1 * scast idx, p1, s1))"

section \<open>Callbacks\<close>

text \<open>
  \<^verbatim>\<open>port_fnct\<close>: the target socket of a register. The register router calls it before the access to
  the memory, with an incomplete response, and again after it, with the response of the memory. The
  two virtual functions for masks are arguments. A nested call, from a callback of the same register,
  does nothing.
\<close>

record 'm gs_reg = "'m proxy" +
  m_in_callback :: bool
  captured_txn_data :: "u8 list"

type_synonym ('r, 's) tlm_fnct = "gp \<Rightarrow> u64 \<Rightarrow> 'r \<Rightarrow> 's \<Rightarrow> (gp \<times> u64 \<times> 'r \<times> 's) res"
type_synonym ('r, 's) mask_fnct = "gp \<Rightarrow> 'r \<Rightarrow> 's \<Rightarrow> (gp \<times> 'r \<times> 's) res"

record ('r, 's) port_fncts =
  m_pre_read_fncts :: "('r, 's) tlm_fnct list"
  m_pre_write_fncts :: "('r, 's) tlm_fnct list"
  m_post_read_fncts :: "('r, 's) tlm_fnct list"
  m_post_write_fncts :: "('r, 's) tlm_fnct list"

fun run_fncts :: "('r, 's) tlm_fnct list \<Rightarrow> ('r, 's) tlm_fnct" where
  "run_fncts [] txn delay r s = Inr (txn, delay, r, s)"
| "run_fncts (f # fs) txn delay r s =
     bind_res (f txn delay r s) (\<lambda>(txn1, delay1, r1, s1). run_fncts fs txn1 delay1 r1 s1)"

definition pre_fncts :: "('r, 's) port_fncts \<Rightarrow> tlm_command \<Rightarrow> ('r, 's) tlm_fnct list" where
  "pre_fncts f c = (case c of Read_command \<Rightarrow> m_pre_read_fncts f | Write_command \<Rightarrow> m_pre_write_fncts f
                            | Ignore_command \<Rightarrow> [])"

definition post_fncts :: "('r, 's) port_fncts \<Rightarrow> tlm_command \<Rightarrow> ('r, 's) tlm_fnct list" where
  "post_fncts f c = (case c of Read_command \<Rightarrow> m_post_read_fncts f | Write_command \<Rightarrow> m_post_write_fncts f
                             | Ignore_command \<Rightarrow> [])"

definition has_fncts :: "('r, 's) port_fncts \<Rightarrow> bool" where
  "has_fncts f \<longleftrightarrow> m_pre_read_fncts f \<noteq> [] \<or> m_pre_write_fncts f \<noteq> [] \<or>
     m_post_read_fncts f \<noteq> [] \<or> m_post_write_fncts f \<noteq> []"

definition port_b_transport ::
  "(('m, 'b) gs_reg_scheme, 's) mask_fnct \<Rightarrow> (('m, 'b) gs_reg_scheme, 's) mask_fnct \<Rightarrow>
   (('m, 'b) gs_reg_scheme, 's) port_fncts \<Rightarrow> (('m, 'b) gs_reg_scheme, 's) tlm_fnct" where
  "port_b_transport capture_txn_pre handle_mask_post f txn delay r s =
     bind_res
       (if has_fncts f \<and> \<not> m_in_callback r then
          (let r0 = r\<lparr>m_in_callback := True\<rparr>
           in bind_res
             (if gp_response txn = Incomplete_response then
                bind_res (run_fncts (pre_fncts f (gp_command txn)) txn delay r0 s) (\<lambda>(txn1, delay1, r1, s1).
                bind_res (capture_txn_pre txn1 r1 s1) (\<lambda>(txn2, r2, s2). Inr (txn2, delay1, r2, s2)))
              else if gp_response txn = Ok_response then
                bind_res (handle_mask_post txn r0 s) (\<lambda>(txn1, r1, s1).
                  run_fncts (post_fncts f (gp_command txn1)) txn1 delay r1 s1)
              else Inr (txn, delay, r0, s))
             (\<lambda>(txn3, delay3, r3, s3). Inr (txn3, delay3, r3\<lparr>m_in_callback := False\<rparr>, s3)))
        else Inr (txn, delay, r, s))
       (\<lambda>(txn4, delay4, r4, s4). Inr (txn4\<lparr>gp_dmi_allowed := False\<rparr>, delay4, r4, s4))"

definition port_transport_dbg :: "(gp \<Rightarrow> 'r \<Rightarrow> 's \<Rightarrow> (u32 \<times> gp \<times> 'r \<times> 's) res) option \<Rightarrow>
    gp \<Rightarrow> 'r \<Rightarrow> 's \<Rightarrow> (u32 \<times> gp \<times> 'r \<times> 's) res" where
  "port_transport_dbg fn txn r s = (case fn of Some g \<Rightarrow> g txn r s | None \<Rightarrow> Inr (0, txn, r, s))"

section \<open>Registers\<close>

definition gs_reg_init :: "'m proxy \<Rightarrow> 'm gs_reg" where
  "gs_reg_init p = proxy.extend p \<lparr>m_in_callback = False, captured_txn_data = []\<rparr>"

text \<open>The constructor of \<^verbatim>\<open>proxy_data\<close> has two more parameters than the one of the array, which it drops.
  \<^verbatim>\<open>gs_register\<close> passes its mask as the first of these two.\<close>

definition proxy_data_new :: "u64 \<Rightarrow> u64 \<Rightarrow> u64 \<Rightarrow> u64 \<Rightarrow> 'a::len word \<Rightarrow> 'a word proxy" where
  "proxy_data_new offset number start len msk = proxy_init offset number msk (of_nat (sizeof TYPE('a))) 0"

definition gs_register_new :: "u64 \<Rightarrow> u64 \<Rightarrow> 'a::len word \<Rightarrow> 'a word gs_reg" where
  "gs_register_new offset number msk =
     gs_reg_init (proxy_data_new offset number (ucast msk) (of_nat (sizeof TYPE('a)) * 8) gs_full_mask)"

text \<open>The value of a register. The buffer it is read into is not initialised in the sources.\<close>

definition reg_get :: "'s reg_port \<Rightarrow> ('a::len word, 'b) proxy_scheme \<Rightarrow> 's \<Rightarrow>
    ('a word \<times> ('a word, 'b) proxy_scheme \<times> 's) res" where
  "reg_get port p s = bind_res (proxy_get port [0] 0 p s) (\<lambda>(vs, p1, s1). Inr (hd vs, p1, s1))"

definition reg_set :: "'s reg_port \<Rightarrow> 'a::len word \<Rightarrow> ('a word, 'b) proxy_scheme \<Rightarrow> 's \<Rightarrow>
    (('a word, 'b) proxy_scheme \<times> 's) res" where
  "reg_set port v p s = proxy_set port [v] 0 True p s"

text \<open>Assigning another register stores the register's own value.\<close>

definition reg_copy :: "'s reg_port \<Rightarrow> ('a::len word, 'c) proxy_scheme \<Rightarrow> ('a word, 'b) proxy_scheme \<Rightarrow> 's \<Rightarrow>
    (('a word, 'b) proxy_scheme \<times> 's) res" where
  "reg_copy port other p s = bind_res (reg_get port p s) (\<lambda>(v, p1, s1). reg_set port v p1 s1)"

datatype rmw_op = Rmw_add | Rmw_sub | Rmw_div | Rmw_mul | Rmw_and | Rmw_or | Rmw_xor | Rmw_shl | Rmw_shr

text \<open>Narrow operands are promoted to 32 bits, so that only a shift by that much is undefined.\<close>

fun rmw_apply :: "rmw_op \<Rightarrow> 'a::len word \<Rightarrow> 'a word \<Rightarrow> 'a word res" where
  "rmw_apply Rmw_add v w = Inr (v + w)"
| "rmw_apply Rmw_sub v w = Inr (v - w)"
| "rmw_apply Rmw_div v w = (if w = 0 then Inl Fatal else Inr (v div w))"
| "rmw_apply Rmw_mul v w = Inr (v * w)"
| "rmw_apply Rmw_and v w = Inr (v AND w)"
| "rmw_apply Rmw_or v w = Inr (v OR w)"
| "rmw_apply Rmw_xor v w = Inr (v XOR w)"
| "rmw_apply Rmw_shl v w = (if max 32 LENGTH('a) \<le> unat w then Inl Bad_shift else Inr (push_bit (unat w) v))"
| "rmw_apply Rmw_shr v w = (if max 32 LENGTH('a) \<le> unat w then Inl Bad_shift else Inr (drop_bit (unat w) v))"

definition reg_rmw :: "'s reg_port \<Rightarrow> rmw_op \<Rightarrow> 'a::len word \<Rightarrow> ('a word, 'b) proxy_scheme \<Rightarrow> 's \<Rightarrow>
    (('a word, 'b) proxy_scheme \<times> 's) res" where
  "reg_rmw port opr w p s =
     (if opr = Rmw_div \<and> w = 0 then Inl Fatal
      else bind_res (reg_get port p s) (\<lambda>(v, p1, s1).
           bind_res (rmw_apply opr v w) (\<lambda>x. reg_set port x p1 s1)))"

definition set_mask :: "'m \<Rightarrow> ('m, 'b) proxy_scheme \<Rightarrow> ('m, 'b) proxy_scheme" where
  "set_mask m p = p\<lparr>p_mask := m\<rparr>"

definition get_mask :: "('m, 'b) proxy_scheme \<Rightarrow> 'm" where
  "get_mask p = p_mask p"

subsection \<open>Masked bus writes\<close>

definition masked_write :: "('a::len word, 'b) proxy_scheme \<Rightarrow> gp \<Rightarrow> bool" where
  "masked_write p txn \<longleftrightarrow> p_mask p \<noteq> gs_full_mask \<and> gp_command txn = Write_command"

text \<open>The first element a transaction addresses and the number of elements.\<close>

definition txn_elems :: "('a::len word, 'b) proxy_scheme \<Rightarrow> gp \<Rightarrow> (u64 \<times> nat) res" where
  "txn_elems p txn =
     (let n = unat (gp_length txn); sz = sizeof TYPE('a);
          off = (if p_relative_addresses p then gp_address txn else gp_address txn - p_offset p)
      in if n = 0 \<or> n mod sz \<noteq> 0 then Inl Fatal
         else if p_stride p = 0 then Inl Div_by_zero
         else Inr (off div p_stride p, n div sz))"

definition capture_txn_pre :: "'s reg_port \<Rightarrow> (('a::len word, 'b) gs_reg_scheme, 's) mask_fnct" where
  "capture_txn_pre port txn r s =
     (if \<not> masked_write r txn then Inr (txn, r, s)
      else bind_res (txn_elems r txn) (\<lambda>(idx, n).
           bind_res (proxy_get port (replicate n 0) idx r s) (\<lambda>(vs, r1, s1).
             Inr (txn, r1\<lparr>captured_txn_data := bytes_of vs\<rparr>, s1))))"

definition handle_mask_post :: "'s reg_port \<Rightarrow> (('a::len word, 'b) gs_reg_scheme, 's) mask_fnct" where
  "handle_mask_post port txn r s =
     (if \<not> masked_write r txn then Inr (txn, r, s)
      else bind_res (txn_elems r txn) (\<lambda>(idx, n).
           if length (captured_txn_data r) < n * sizeof TYPE('a) then Inl Out_of_bounds
           else
             let ws = write_with_mask (p_mask r) (words_of n (gp_data txn)) (words_of n (captured_txn_data r));
                 r1 = r\<lparr>captured_txn_data := bytes_of ws @ drop (n * sizeof TYPE('a)) (captured_txn_data r)\<rparr>
             in bind_res (proxy_set port ws idx False r1 s) (\<lambda>(r2, s2).
                  Inr (txn\<lparr>gp_data := bytes_of ws @ drop (n * sizeof TYPE('a)) (gp_data txn)\<rparr>, r2, s2))))"

definition reg_b_transport :: "'s reg_port \<Rightarrow> (('a::len word, 'b) gs_reg_scheme, 's) port_fncts \<Rightarrow>
    (('a word, 'b) gs_reg_scheme, 's) tlm_fnct" where
  "reg_b_transport port f = port_b_transport (capture_txn_pre port) (handle_mask_post port) f"

text \<open>The debug function of a register; it always accesses the first element.\<close>

definition reg_transport_dbg :: "'s reg_port \<Rightarrow> gp \<Rightarrow> ('a::len word, 'b) gs_reg_scheme \<Rightarrow> 's \<Rightarrow>
    (u32 \<times> gp \<times> ('a word, 'b) gs_reg_scheme \<times> 's) res" where
  "reg_transport_dbg port txn r s =
     (let sz = sizeof TYPE('a)
      in if unat (gp_length txn) < sz then Inr (0, txn, r, s)
         else case gp_command txn of
           Read_command \<Rightarrow>
             bind_res (reg_get port r s) (\<lambda>(v, r1, s1).
               Inr (of_nat sz, txn\<lparr>gp_data := to_bytes v @ replicate (unat (gp_length txn) - sz) 0
                                     @ drop (unat (gp_length txn)) (gp_data txn)\<rparr>, r1, s1))
         | Write_command \<Rightarrow>
             bind_res (reg_set port (of_bytes (take sz (gp_data txn))) r s) (\<lambda>(r1, s1).
               Inr (of_nat sz, txn, r1, s1))
         | Ignore_command \<Rightarrow> Inr (0, txn, r, s))"

subsection \<open>Fields\<close>

definition bitfield_set :: "'s reg_port \<Rightarrow> nat \<Rightarrow> nat \<Rightarrow> 'a::len word \<Rightarrow> ('a word, 'b) proxy_scheme \<Rightarrow> 's \<Rightarrow>
    (('a word, 'b) proxy_scheme \<times> 's) res" where
  "bitfield_set port start len v p s =
     bind_res (gs_mask_for_field start len) (\<lambda>field_mask.
       assert_res (v AND NOT field_mask = 0)
         (bind_res (reg_rmw port Rmw_and (NOT (push_bit start field_mask)) p s) (\<lambda>(p1, s1).
            reg_rmw port Rmw_or (push_bit start (v AND field_mask)) p1 s1)))"

definition bitfield_get :: "'s reg_port \<Rightarrow> nat \<Rightarrow> nat \<Rightarrow> ('a::len word, 'b) proxy_scheme \<Rightarrow> 's \<Rightarrow>
    ('a word \<times> ('a word, 'b) proxy_scheme \<times> 's) res" where
  "bitfield_get port start len p s =
     bind_res (gs_mask_for_field start len) (\<lambda>field_mask.
     bind_res (reg_get port p s) (\<lambda>(v, p1, s1). Inr (drop_bit start v AND field_mask, p1, s1)))"

text \<open>A field knows its position, and is attached to a register unless it belongs to a bank.\<close>

record gs_field =
  m_bit_start :: nat
  m_bit_length :: nat
  m_attached :: bool

definition gs_field_new :: "bool \<Rightarrow> nat \<Rightarrow> nat \<Rightarrow> gs_field res" where
  "gs_field_new scalar bit_start bit_length =
     (if bit_length = 0 then Inl Fatal
      else Inr \<lparr>m_bit_start = bit_start, m_bit_length = bit_length, m_attached = scalar\<rparr>)"

definition field_set :: "'s reg_port \<Rightarrow> gs_field \<Rightarrow> 'a::len word \<Rightarrow> ('a word, 'b) proxy_scheme \<Rightarrow> 's \<Rightarrow>
    (('a word, 'b) proxy_scheme \<times> 's) res" where
  "field_set port f v p s =
     (if \<not> m_attached f then Inl Fatal else bitfield_set port (m_bit_start f) (m_bit_length f) v p s)"

definition field_get :: "'s reg_port \<Rightarrow> gs_field \<Rightarrow> ('a::len word, 'b) proxy_scheme \<Rightarrow> 's \<Rightarrow>
    ('a word \<times> ('a word, 'b) proxy_scheme \<times> 's) res" where
  "field_get port f p s =
     (if \<not> m_attached f then Inl Fatal else bitfield_get port (m_bit_start f) (m_bit_length f) p s)"

text \<open>\<^verbatim>\<open>field_proxy\<close>: a field of the element behind a reference. An assignment cuts the value.\<close>

definition field_proxy_get :: "'s reg_port \<Rightarrow> u64 \<Rightarrow> nat \<Rightarrow> nat \<Rightarrow> 's \<Rightarrow> 'a::len word res" where
  "field_proxy_get port ref start len s =
     bind_res (gs_mask_for_field start len) (\<lambda>field_mask.
       Inr (drop_bit start (of_bytes (rp_peek port ref (sizeof TYPE('a)) s)) AND field_mask))"

definition field_proxy_set :: "'s reg_port \<Rightarrow> u64 \<Rightarrow> nat \<Rightarrow> nat \<Rightarrow> 'a::len word \<Rightarrow> 's \<Rightarrow> 's res" where
  "field_proxy_set port ref start len v s =
     bind_res (gs_mask_for_field start len) (\<lambda>field_mask.
       let cur = of_bytes (rp_peek port ref (sizeof TYPE('a)) s);
           msk = push_bit start field_mask
       in Inr (rp_poke port ref (to_bytes (cur AND NOT msk OR push_bit start (v AND field_mask))) s))"

section \<open>Facts\<close>

lemma gs_mask_for_field_ok:
  "0 < len \<Longrightarrow> start + len \<le> LENGTH('a) \<Longrightarrow> gs_mask_for_field start len = Inr (mask len :: 'a::len word)"
  by (auto simp: gs_mask_for_field_def gs_full_mask_def bit_simps intro!: bit_eqI)

lemma bit_of_bytes:
  "bit (of_bytes bs :: 'a::len word) n \<longleftrightarrow> n < LENGTH('a) \<and> n div 8 < length bs \<and> bit (bs ! (n div 8)) (n mod 8)"
proof (induction bs arbitrary: n)
  case (Cons b bs)
  show ?case
  proof (cases "n < 8")
    case True
    then show ?thesis by (auto simp: bit_simps)
  next
    case False
    then have "n div 8 = Suc ((n - 8) div 8)" "(n - 8) mod 8 = n mod 8" "\<not> bit b n"
      by (auto simp: le_div_geq le_mod_geq dest: bit_imp_le_length)
    then show ?thesis using False by (auto simp: bit_simps Cons.IH)
  qed
qed simp

lemma length_to_bytes [simp]: "length (to_bytes (w :: 'a::len word)) = sizeof TYPE('a)"
  by (simp add: to_bytes_def)

lemma of_to_bytes: "8 dvd LENGTH('a) \<Longrightarrow> of_bytes (to_bytes w) = (w :: 'a::len word)"
  by (rule bit_eqI) (auto simp: bit_of_bytes to_bytes_def sizeof_def bit_simps less_mult_imp_div_less)

lemma to_of_bytes:
  assumes "8 dvd LENGTH('a)" "length bs = sizeof TYPE('a::len)"
  shows "to_bytes (of_bytes bs :: 'a word) = bs"
proof (rule nth_equalityI)
  fix i assume "i < length (to_bytes (of_bytes bs :: 'a word))"
  then have i: "i < sizeof TYPE('a)" by simp
  have "bit (ucast (drop_bit (8 * i) (of_bytes bs :: 'a word)) :: u8) n \<longleftrightarrow> bit (bs ! i) n" for n
  proof (cases "n < 8")
    case True
    then have "8 * i + n < LENGTH('a)" using i assms(1) by (auto simp: sizeof_def)
    then show ?thesis using True i assms(2) by (simp add: bit_simps bit_of_bytes)
  qed (auto simp: bit_simps dest: bit_imp_le_length)
  then show "to_bytes (of_bytes bs :: 'a word) ! i = bs ! i"
    using i by (auto simp: to_bytes_def intro: bit_eqI)
qed (simp add: assms(2))

lemma bytes_of_simps [simp]:
  "bytes_of [] = []" "bytes_of (w # ws) = to_bytes w @ bytes_of ws"
  by (simp_all add: bytes_of_def)

lemma length_bytes_of [simp]: "length (bytes_of (ws :: 'a::len word list)) = length ws * sizeof TYPE('a)"
  by (induction ws) simp_all

lemma length_words_of [simp]: "length (words_of n bs) = n"
  by (simp add: words_of_def)

lemma words_of_0 [simp]: "words_of 0 bs = []"
  by (simp add: words_of_def)

lemma words_of_Suc:
  "words_of (Suc n) bs = (of_bytes (take (sizeof TYPE('a)) bs) :: 'a::len word)
     # words_of n (drop (sizeof TYPE('a)) bs)"
  by (simp add: words_of_def upt_conv_Cons map_Suc_upt[symmetric] del: upt_Suc) (simp add: add.commute)

lemma words_of_bytes_of:
  "8 dvd LENGTH('a) \<Longrightarrow> words_of (length ws) (bytes_of ws @ xs) = (ws :: 'a::len word list)"
  by (induction ws) (simp_all add: words_of_Suc of_to_bytes)

lemma bytes_of_words_of:
  "8 dvd LENGTH('a) \<Longrightarrow> n * sizeof TYPE('a) \<le> length bs \<Longrightarrow>
     bytes_of (words_of n bs :: 'a::len word list) = take (n * sizeof TYPE('a)) bs"
  by (induction n arbitrary: bs) (simp_all add: words_of_Suc to_of_bytes take_add)

lemma write_with_mask_simps [simp]:
  "write_with_mask m [] [] = []"
  "write_with_mask m (x # xs) (y # ys) = (x AND m OR y AND NOT m) # write_with_mask m xs ys"
  by (simp_all add: write_with_mask_def)

lemma length_write_with_mask [simp]: "length (write_with_mask m xs ys) = min (length xs) (length ys)"
  by (simp add: write_with_mask_def)

subsection \<open>Where the code departs from its contract\<close>

text \<open>A register without callbacks never applies its write mask to bus writes.\<close>

lemma mask_needs_callback:
  "\<not> has_fncts f \<Longrightarrow> reg_b_transport port f txn d r s = Inr (txn\<lparr>gp_dmi_allowed := False\<rparr>, d, r, s)"
  by (simp add: reg_b_transport_def port_b_transport_def)

text \<open>The mask given to the constructor of a register is lost: every register starts fully writable.\<close>

lemma constructor_drops_mask: "p_mask (gs_register_new offset number msk) = gs_full_mask"
  by (simp add: gs_register_new_def gs_reg_init_def proxy_data_new_def proxy_init_def proxy.defs Let_def)

text \<open>Assigning one register to another does not look at the other.\<close>

lemma copy_ignores_source: "reg_copy port other = reg_copy port other'"
  by (simp add: reg_copy_def fun_eq_iff)

text \<open>A direct access granted for exactly the bytes of the register is an assertion failure.\<close>

lemma exact_dmi_fails:
  assumes "\<And>txn dmi. rp_dmi port txn dmi s = Inr (True, txn, dmi_init\<lparr>dmi_start := p_offset p,
      dmi_end := p_offset p + p_size p - 1, dmi_ptr := h\<rparr>, [], s)"
    and "0 < p_size p" "unat (p_offset p) * 2 + unat (p_size p) < 2 ^ 64"
  shows "check_dmi port p s = Inl Assert_failed"
proof -
  have "unat (p_offset p + p_offset p + p_size p) = unat (p_offset p) + unat (p_offset p) + unat (p_size p)"
    using assms(3) by (simp add: unat_word_ariths)
  moreover have "unat (p_offset p + p_size p - 1) < unat (p_offset p) + unat (p_size p)"
    using assms(2,3) by (simp add: unat_word_ariths unat_sub_if' word_less_nat_alt)
  ultimately have "\<not> p_offset p + p_size p - 1 \<ge> p_offset p + p_offset p + p_size p"
    by (simp add: word_le_nat_alt)
  then show ?thesis by (simp add: check_dmi_def assms(1) assert_res_def Let_def)
qed

end
