(* ===== verification/SmmuRegs.thy ===== *)
theory SmmuRegs
  imports Registers
begin

text \<open>
  The register file of the SMMUv3 model: \<^verbatim>\<open>smmuv3/include/smmuv3_gen.h\<close>, and the field access
  of \<^verbatim>\<open>common/include/registers.h\<close> it relies on.

  A register is named by its byte offset in the register page, so that the register file is a
  function from offsets to 32-bit values; a field is a register with the position of its lowest bit
  and its width. All registers are built with the default mask, which makes every bit writable. The
  device reads and writes its own registers through their private port, behind the callbacks: such
  an access only changes the value. The callbacks of bus accesses are in \<open>Smmu\<close>.

  Shown: assigning a field changes that field and nothing else, and the layout of
  \<^verbatim>\<open>smmuv3_gen\<close> is well formed.
\<close>

section \<open>Registers and fields\<close>

type_synonym smmu_regs = "u32 \<Rightarrow> u32"
type_synonym reg_field = "u32 \<times> nat \<times> nat"

abbreviation (input) IDR0 :: u32 where "IDR0 \<equiv> 0"
abbreviation (input) IDR1 :: u32 where "IDR1 \<equiv> 4"
abbreviation (input) IDR2 :: u32 where "IDR2 \<equiv> 8"
abbreviation (input) IDR3 :: u32 where "IDR3 \<equiv> 12"
abbreviation (input) IDR4 :: u32 where "IDR4 \<equiv> 16"
abbreviation (input) IDR5 :: u32 where "IDR5 \<equiv> 20"
abbreviation (input) IIDR :: u32 where "IIDR \<equiv> 24"
abbreviation (input) AIDR :: u32 where "AIDR \<equiv> 28"
abbreviation (input) CR0 :: u32 where "CR0 \<equiv> 32"
abbreviation (input) CR0ACK :: u32 where "CR0ACK \<equiv> 36"
abbreviation (input) CR1 :: u32 where "CR1 \<equiv> 40"
abbreviation (input) CR2 :: u32 where "CR2 \<equiv> 44"
abbreviation (input) STATUSR :: u32 where "STATUSR \<equiv> 64"
abbreviation (input) GBPA :: u32 where "GBPA \<equiv> 68"
abbreviation (input) AGBPA :: u32 where "AGBPA \<equiv> 72"
abbreviation (input) IRQ_CTRL :: u32 where "IRQ_CTRL \<equiv> 80"
abbreviation (input) IRQ_CTRL_ACK :: u32 where "IRQ_CTRL_ACK \<equiv> 84"
abbreviation (input) GERROR :: u32 where "GERROR \<equiv> 96"
abbreviation (input) GERRORN :: u32 where "GERRORN \<equiv> 100"
abbreviation (input) GERROR_IRQ_CFG0_LO :: u32 where "GERROR_IRQ_CFG0_LO \<equiv> 104"
abbreviation (input) GERROR_IRQ_CFG0_HI :: u32 where "GERROR_IRQ_CFG0_HI \<equiv> 108"
abbreviation (input) GERROR_IRQ_CFG1 :: u32 where "GERROR_IRQ_CFG1 \<equiv> 112"
abbreviation (input) GERROR_IRQ_CFG2 :: u32 where "GERROR_IRQ_CFG2 \<equiv> 116"
abbreviation (input) STRTAB_BASE_LO :: u32 where "STRTAB_BASE_LO \<equiv> 128"
abbreviation (input) STRTAB_BASE_HI :: u32 where "STRTAB_BASE_HI \<equiv> 132"
abbreviation (input) STRTAB_BASE_CFG :: u32 where "STRTAB_BASE_CFG \<equiv> 136"
abbreviation (input) CMDQ_BASE_LO :: u32 where "CMDQ_BASE_LO \<equiv> 144"
abbreviation (input) CMDQ_BASE_HI :: u32 where "CMDQ_BASE_HI \<equiv> 148"
abbreviation (input) CMDQ_PROD :: u32 where "CMDQ_PROD \<equiv> 152"
abbreviation (input) CMDQ_CONS :: u32 where "CMDQ_CONS \<equiv> 156"
abbreviation (input) EVENTQ_BASE_LO :: u32 where "EVENTQ_BASE_LO \<equiv> 160"
abbreviation (input) EVENTQ_BASE_HI :: u32 where "EVENTQ_BASE_HI \<equiv> 164"
abbreviation (input) EVENTQ_PROD :: u32 where "EVENTQ_PROD \<equiv> 168"
abbreviation (input) EVENTQ_CONS :: u32 where "EVENTQ_CONS \<equiv> 172"
abbreviation (input) EVENTQ_IRQ_CFG0_LO :: u32 where "EVENTQ_IRQ_CFG0_LO \<equiv> 176"
abbreviation (input) EVENTQ_IRQ_CFG0_HI :: u32 where "EVENTQ_IRQ_CFG0_HI \<equiv> 180"
abbreviation (input) EVENTQ_IRQ_CFG1 :: u32 where "EVENTQ_IRQ_CFG1 \<equiv> 184"
abbreviation (input) EVENTQ_IRQ_CFG2 :: u32 where "EVENTQ_IRQ_CFG2 \<equiv> 188"
abbreviation (input) PRIQ_BASE_LO :: u32 where "PRIQ_BASE_LO \<equiv> 192"
abbreviation (input) PRIQ_BASE_HI :: u32 where "PRIQ_BASE_HI \<equiv> 196"
abbreviation (input) PRIQ_PROD :: u32 where "PRIQ_PROD \<equiv> 200"
abbreviation (input) PRIQ_CONS :: u32 where "PRIQ_CONS \<equiv> 204"
abbreviation (input) PRIQ_IRQ_CFG0_LO :: u32 where "PRIQ_IRQ_CFG0_LO \<equiv> 208"
abbreviation (input) PRIQ_IRQ_CFG0_HI :: u32 where "PRIQ_IRQ_CFG0_HI \<equiv> 212"
abbreviation (input) PRIQ_IRQ_CFG1 :: u32 where "PRIQ_IRQ_CFG1 \<equiv> 216"
abbreviation (input) PRIQ_IRQ_CFG2 :: u32 where "PRIQ_IRQ_CFG2 \<equiv> 220"
abbreviation (input) GATOS_CTRL :: u32 where "GATOS_CTRL \<equiv> 256"
abbreviation (input) GATOS_SID :: u32 where "GATOS_SID \<equiv> 264"
abbreviation (input) GATOS_ADDR_LO :: u32 where "GATOS_ADDR_LO \<equiv> 272"
abbreviation (input) GATOS_ADDR_HI :: u32 where "GATOS_ADDR_HI \<equiv> 276"
abbreviation (input) GATOS_PAR_LO :: u32 where "GATOS_PAR_LO \<equiv> 280"
abbreviation (input) GATOS_PAR_HI :: u32 where "GATOS_PAR_HI \<equiv> 284"
abbreviation (input) CMDQ_PROD_P1 :: u32 where "CMDQ_PROD_P1 \<equiv> 65688"
abbreviation (input) CMDQ_CONS_P1 :: u32 where "CMDQ_CONS_P1 \<equiv> 65692"
abbreviation (input) S_IDR0 :: u32 where "S_IDR0 \<equiv> 32768"
abbreviation (input) S_IDR1 :: u32 where "S_IDR1 \<equiv> 32772"
abbreviation (input) S_IDR2 :: u32 where "S_IDR2 \<equiv> 32776"
abbreviation (input) S_IDR3 :: u32 where "S_IDR3 \<equiv> 32780"
abbreviation (input) S_IDR4 :: u32 where "S_IDR4 \<equiv> 32784"
abbreviation (input) S_CR0 :: u32 where "S_CR0 \<equiv> 32800"
abbreviation (input) S_CR0ACK :: u32 where "S_CR0ACK \<equiv> 32804"
abbreviation (input) S_CR1 :: u32 where "S_CR1 \<equiv> 32808"
abbreviation (input) S_CR2 :: u32 where "S_CR2 \<equiv> 32812"
abbreviation (input) S_INIT :: u32 where "S_INIT \<equiv> 32828"
abbreviation (input) S_GBPA :: u32 where "S_GBPA \<equiv> 32836"
abbreviation (input) S_AGBPA :: u32 where "S_AGBPA \<equiv> 32840"
abbreviation (input) S_IRQ_CTRL :: u32 where "S_IRQ_CTRL \<equiv> 32848"
abbreviation (input) S_IRQ_CTRL_ACK :: u32 where "S_IRQ_CTRL_ACK \<equiv> 32852"
abbreviation (input) S_GERROR :: u32 where "S_GERROR \<equiv> 32864"
abbreviation (input) S_GERRORN :: u32 where "S_GERRORN \<equiv> 32868"
abbreviation (input) S_GERROR_IRQ_CFG0_LO :: u32 where "S_GERROR_IRQ_CFG0_LO \<equiv> 32872"
abbreviation (input) S_GERROR_IRQ_CFG0_HI :: u32 where "S_GERROR_IRQ_CFG0_HI \<equiv> 32876"
abbreviation (input) S_GERROR_IRQ_CFG1 :: u32 where "S_GERROR_IRQ_CFG1 \<equiv> 32880"
abbreviation (input) S_GERROR_IRQ_CFG2 :: u32 where "S_GERROR_IRQ_CFG2 \<equiv> 32884"
abbreviation (input) S_STRTAB_BASE_LO :: u32 where "S_STRTAB_BASE_LO \<equiv> 32896"
abbreviation (input) S_STRTAB_BASE_HI :: u32 where "S_STRTAB_BASE_HI \<equiv> 32900"
abbreviation (input) S_STRTAB_BASE_CFG :: u32 where "S_STRTAB_BASE_CFG \<equiv> 32904"
abbreviation (input) S_CMDQ_BASE_LO :: u32 where "S_CMDQ_BASE_LO \<equiv> 32912"
abbreviation (input) S_CMDQ_BASE_HI :: u32 where "S_CMDQ_BASE_HI \<equiv> 32916"
abbreviation (input) S_CMDQ_PROD :: u32 where "S_CMDQ_PROD \<equiv> 32920"
abbreviation (input) S_CMDQ_CONS :: u32 where "S_CMDQ_CONS \<equiv> 32924"
abbreviation (input) S_EVENTQ_BASE_LO :: u32 where "S_EVENTQ_BASE_LO \<equiv> 32928"
abbreviation (input) S_EVENTQ_BASE_HI :: u32 where "S_EVENTQ_BASE_HI \<equiv> 32932"
abbreviation (input) S_EVENTQ_PROD :: u32 where "S_EVENTQ_PROD \<equiv> 32936"
abbreviation (input) S_EVENTQ_CONS :: u32 where "S_EVENTQ_CONS \<equiv> 32940"
abbreviation (input) S_EVENTQ_IRQ_CFG0_LO :: u32 where "S_EVENTQ_IRQ_CFG0_LO \<equiv> 32944"
abbreviation (input) S_EVENTQ_IRQ_CFG0_HI :: u32 where "S_EVENTQ_IRQ_CFG0_HI \<equiv> 32948"
abbreviation (input) S_EVENTQ_IRQ_CFG1 :: u32 where "S_EVENTQ_IRQ_CFG1 \<equiv> 32952"
abbreviation (input) S_EVENTQ_IRQ_CFG2 :: u32 where "S_EVENTQ_IRQ_CFG2 \<equiv> 32956"
abbreviation (input) EVENTQ_PROD_P1 :: u32 where "EVENTQ_PROD_P1 \<equiv> 65704"
abbreviation (input) EVENTQ_CONS_P1 :: u32 where "EVENTQ_CONS_P1 \<equiv> 65708"
abbreviation (input) PRIQ_PROD_P1 :: u32 where "PRIQ_PROD_P1 \<equiv> 65736"
abbreviation (input) PRIQ_CONS_P1 :: u32 where "PRIQ_CONS_P1 \<equiv> 65740"

definition IDREGS :: "nat \<Rightarrow> u32" where
  "IDREGS i = 0xFD0 + of_nat i * 4"

abbreviation (input) IDR0_S2P :: reg_field where "IDR0_S2P \<equiv> (IDR0, 0, 1)"
abbreviation (input) IDR0_S1P :: reg_field where "IDR0_S1P \<equiv> (IDR0, 1, 1)"
abbreviation (input) IDR0_TTF :: reg_field where "IDR0_TTF \<equiv> (IDR0, 2, 2)"
abbreviation (input) IDR0_COHACC :: reg_field where "IDR0_COHACC \<equiv> (IDR0, 4, 1)"
abbreviation (input) IDR0_ASID16 :: reg_field where "IDR0_ASID16 \<equiv> (IDR0, 12, 1)"
abbreviation (input) IDR0_VMID16 :: reg_field where "IDR0_VMID16 \<equiv> (IDR0, 18, 1)"
abbreviation (input) IDR0_PRI :: reg_field where "IDR0_PRI \<equiv> (IDR0, 16, 1)"
abbreviation (input) IDR0_ATOS :: reg_field where "IDR0_ATOS \<equiv> (IDR0, 15, 1)"
abbreviation (input) IDR0_HTTU :: reg_field where "IDR0_HTTU \<equiv> (IDR0, 6, 2)"
abbreviation (input) IDR0_STLEVEL :: reg_field where "IDR0_STLEVEL \<equiv> (IDR0, 27, 2)"
abbreviation (input) IDR0_MSI :: reg_field where "IDR0_MSI \<equiv> (IDR0, 13, 1)"
abbreviation (input) IDR0_ATS :: reg_field where "IDR0_ATS \<equiv> (IDR0, 10, 1)"
abbreviation (input) IDR1_SIDSIZE :: reg_field where "IDR1_SIDSIZE \<equiv> (IDR1, 0, 6)"
abbreviation (input) IDR1_EVENTQS :: reg_field where "IDR1_EVENTQS \<equiv> (IDR1, 16, 5)"
abbreviation (input) IDR1_CMDQS :: reg_field where "IDR1_CMDQS \<equiv> (IDR1, 21, 5)"
abbreviation (input) IDR3_BBML1 :: reg_field where "IDR3_BBML1 \<equiv> (IDR3, 11, 1)"
abbreviation (input) IDR3_BBML2 :: reg_field where "IDR3_BBML2 \<equiv> (IDR3, 12, 1)"
abbreviation (input) IDR5_OAS :: reg_field where "IDR5_OAS \<equiv> (IDR5, 0, 3)"
abbreviation (input) IDR5_GRAN4K :: reg_field where "IDR5_GRAN4K \<equiv> (IDR5, 4, 1)"
abbreviation (input) IDR5_GRAN16K :: reg_field where "IDR5_GRAN16K \<equiv> (IDR5, 5, 1)"
abbreviation (input) IDR5_GRAN64K :: reg_field where "IDR5_GRAN64K \<equiv> (IDR5, 6, 1)"
abbreviation (input) CR0_SMMUEN :: reg_field where "CR0_SMMUEN \<equiv> (CR0, 0, 1)"
abbreviation (input) CR0_PRIQEN :: reg_field where "CR0_PRIQEN \<equiv> (CR0, 1, 1)"
abbreviation (input) CR0_EVENTQEN :: reg_field where "CR0_EVENTQEN \<equiv> (CR0, 2, 1)"
abbreviation (input) CR0_CMDQEN :: reg_field where "CR0_CMDQEN \<equiv> (CR0, 3, 1)"
abbreviation (input) CR0_ATSCHK :: reg_field where "CR0_ATSCHK \<equiv> (CR0, 4, 1)"
abbreviation (input) CR0_VMW :: reg_field where "CR0_VMW \<equiv> (CR0, 6, 3)"
abbreviation (input) CR0_NSCFG :: reg_field where "CR0_NSCFG \<equiv> (CR0, 28, 2)"
abbreviation (input) CR1_TABLE_SH :: reg_field where "CR1_TABLE_SH \<equiv> (CR1, 10, 2)"
abbreviation (input) CR1_TABLE_OC :: reg_field where "CR1_TABLE_OC \<equiv> (CR1, 8, 2)"
abbreviation (input) CR1_TABLE_IC :: reg_field where "CR1_TABLE_IC \<equiv> (CR1, 6, 2)"
abbreviation (input) CR1_QUEUE_SH :: reg_field where "CR1_QUEUE_SH \<equiv> (CR1, 4, 2)"
abbreviation (input) CR1_QUEUE_OC :: reg_field where "CR1_QUEUE_OC \<equiv> (CR1, 2, 2)"
abbreviation (input) CR1_QUEUE_IC :: reg_field where "CR1_QUEUE_IC \<equiv> (CR1, 0, 2)"
abbreviation (input) CR2_PTM :: reg_field where "CR2_PTM \<equiv> (CR2, 2, 1)"
abbreviation (input) CR2_RECINVSID :: reg_field where "CR2_RECINVSID \<equiv> (CR2, 1, 1)"
abbreviation (input) CR2_E2H :: reg_field where "CR2_E2H \<equiv> (CR2, 0, 1)"
abbreviation (input) GBPA_UPDATE :: reg_field where "GBPA_UPDATE \<equiv> (GBPA, 31, 1)"
abbreviation (input) GBPA_ABORT :: reg_field where "GBPA_ABORT \<equiv> (GBPA, 20, 1)"
abbreviation (input) IRQ_CTRL_GERROR_IRQEN :: reg_field where "IRQ_CTRL_GERROR_IRQEN \<equiv> (IRQ_CTRL, 0, 1)"
abbreviation (input) IRQ_CTRL_PRI_IRQEN :: reg_field where "IRQ_CTRL_PRI_IRQEN \<equiv> (IRQ_CTRL, 1, 1)"
abbreviation (input) IRQ_CTRL_EVENTQ_IRQEN :: reg_field where "IRQ_CTRL_EVENTQ_IRQEN \<equiv> (IRQ_CTRL, 2, 1)"
abbreviation (input) GERROR_CMDQ_ERR :: reg_field where "GERROR_CMDQ_ERR \<equiv> (GERROR, 0, 1)"
abbreviation (input) GERROR_EVENTQ_ABT_ERR :: reg_field where "GERROR_EVENTQ_ABT_ERR \<equiv> (GERROR, 2, 1)"
abbreviation (input) GERROR_PRIQ_ABT_ERR :: reg_field where "GERROR_PRIQ_ABT_ERR \<equiv> (GERROR, 3, 1)"
abbreviation (input) GERROR_MSI_CMDQ_ABT_ERR :: reg_field where "GERROR_MSI_CMDQ_ABT_ERR \<equiv> (GERROR, 4, 1)"
abbreviation (input) GERROR_MSI_EVENTQ_ABT_ERR :: reg_field where "GERROR_MSI_EVENTQ_ABT_ERR \<equiv> (GERROR, 5, 1)"
abbreviation (input) GERROR_MSI_PRIQ_ABT_ERR :: reg_field where "GERROR_MSI_PRIQ_ABT_ERR \<equiv> (GERROR, 6, 1)"
abbreviation (input) GERROR_MSI_GERROR_ABT_ERR :: reg_field where "GERROR_MSI_GERROR_ABT_ERR \<equiv> (GERROR, 7, 1)"
abbreviation (input) GERROR_SFM_ERR :: reg_field where "GERROR_SFM_ERR \<equiv> (GERROR, 8, 1)"
abbreviation (input) STRTAB_BASE_CFG_FMT :: reg_field where "STRTAB_BASE_CFG_FMT \<equiv> (STRTAB_BASE_CFG, 16, 2)"
abbreviation (input) STRTAB_BASE_CFG_SPLIT :: reg_field where "STRTAB_BASE_CFG_SPLIT \<equiv> (STRTAB_BASE_CFG, 6, 5)"
abbreviation (input) STRTAB_BASE_CFG_LOG2SIZE :: reg_field where "STRTAB_BASE_CFG_LOG2SIZE \<equiv> (STRTAB_BASE_CFG, 0, 6)"
abbreviation (input) CMDQ_BASE_LOG2SIZE :: reg_field where "CMDQ_BASE_LOG2SIZE \<equiv> (CMDQ_BASE_LO, 0, 5)"
abbreviation (input) CMDQ_PROD_WRP :: reg_field where "CMDQ_PROD_WRP \<equiv> (CMDQ_PROD, 19, 1)"
abbreviation (input) CMDQ_PROD_RD :: reg_field where "CMDQ_PROD_RD \<equiv> (CMDQ_PROD, 0, 19)"
abbreviation (input) CMDQ_CONS_WRP :: reg_field where "CMDQ_CONS_WRP \<equiv> (CMDQ_CONS, 19, 1)"
abbreviation (input) CMDQ_CONS_RD :: reg_field where "CMDQ_CONS_RD \<equiv> (CMDQ_CONS, 0, 19)"
abbreviation (input) CMDQ_CONS_ERR :: reg_field where "CMDQ_CONS_ERR \<equiv> (CMDQ_CONS, 23, 7)"
abbreviation (input) EVENTQ_BASE_LOG2SIZE :: reg_field where "EVENTQ_BASE_LOG2SIZE \<equiv> (EVENTQ_BASE_LO, 0, 5)"
abbreviation (input) EVENTQ_PROD_WRP :: reg_field where "EVENTQ_PROD_WRP \<equiv> (EVENTQ_PROD, 19, 1)"
abbreviation (input) EVENTQ_PROD_RD :: reg_field where "EVENTQ_PROD_RD \<equiv> (EVENTQ_PROD, 0, 19)"
abbreviation (input) EVENTQ_CONS_WRP :: reg_field where "EVENTQ_CONS_WRP \<equiv> (EVENTQ_CONS, 19, 1)"
abbreviation (input) EVENTQ_CONS_RD :: reg_field where "EVENTQ_CONS_RD \<equiv> (EVENTQ_CONS, 0, 19)"
abbreviation (input) PRIQ_BASE_LOG2SIZE :: reg_field where "PRIQ_BASE_LOG2SIZE \<equiv> (PRIQ_BASE_LO, 0, 5)"
abbreviation (input) PRIQ_PROD_WRP :: reg_field where "PRIQ_PROD_WRP \<equiv> (PRIQ_PROD, 19, 1)"
abbreviation (input) PRIQ_PROD_RD :: reg_field where "PRIQ_PROD_RD \<equiv> (PRIQ_PROD, 0, 19)"
abbreviation (input) PRIQ_CONS_WRP :: reg_field where "PRIQ_CONS_WRP \<equiv> (PRIQ_CONS, 19, 1)"
abbreviation (input) PRIQ_CONS_RD :: reg_field where "PRIQ_CONS_RD \<equiv> (PRIQ_CONS, 0, 19)"
abbreviation (input) GATOS_CTRL_RUN :: reg_field where "GATOS_CTRL_RUN \<equiv> (GATOS_CTRL, 0, 1)"
abbreviation (input) GATOS_CTRL_INPRG :: reg_field where "GATOS_CTRL_INPRG \<equiv> (GATOS_CTRL, 1, 1)"
abbreviation (input) GATOS_CTRL_READ_NWRITE :: reg_field where "GATOS_CTRL_READ_NWRITE \<equiv> (GATOS_CTRL, 8, 1)"
abbreviation (input) GATOS_PAR_F :: reg_field where "GATOS_PAR_F \<equiv> (GATOS_PAR_LO, 0, 1)"
abbreviation (input) GATOS_PAR_FST :: reg_field where "GATOS_PAR_FST \<equiv> (GATOS_PAR_LO, 1, 7)"
abbreviation (input) S_CR0_SMMUEN :: reg_field where "S_CR0_SMMUEN \<equiv> (S_CR0, 0, 1)"
abbreviation (input) S_CR0_EVENTQEN :: reg_field where "S_CR0_EVENTQEN \<equiv> (S_CR0, 2, 1)"
abbreviation (input) S_CR0_CMDQEN :: reg_field where "S_CR0_CMDQEN \<equiv> (S_CR0, 3, 1)"
abbreviation (input) S_INIT_INV_ALL :: reg_field where "S_INIT_INV_ALL \<equiv> (S_INIT, 0, 1)"
abbreviation (input) S_GBPA_UPDATE :: reg_field where "S_GBPA_UPDATE \<equiv> (S_GBPA, 31, 1)"
abbreviation (input) S_GBPA_ABORT :: reg_field where "S_GBPA_ABORT \<equiv> (S_GBPA, 20, 1)"
abbreviation (input) S_IRQ_CTRL_GERROR_IRQEN :: reg_field where "S_IRQ_CTRL_GERROR_IRQEN \<equiv> (S_IRQ_CTRL, 0, 1)"
abbreviation (input) S_IRQ_CTRL_EVENTQ_IRQEN :: reg_field where "S_IRQ_CTRL_EVENTQ_IRQEN \<equiv> (S_IRQ_CTRL, 2, 1)"
abbreviation (input) S_GERROR_CMDQ_ERR :: reg_field where "S_GERROR_CMDQ_ERR \<equiv> (S_GERROR, 0, 1)"
abbreviation (input) S_GERROR_EVENTQ_ABT_ERR :: reg_field where "S_GERROR_EVENTQ_ABT_ERR \<equiv> (S_GERROR, 2, 1)"
abbreviation (input) S_GERROR_MSI_CMDQ_ABT_ERR :: reg_field where "S_GERROR_MSI_CMDQ_ABT_ERR \<equiv> (S_GERROR, 4, 1)"
abbreviation (input) S_GERROR_MSI_EVENTQ_ABT_ERR :: reg_field where "S_GERROR_MSI_EVENTQ_ABT_ERR \<equiv> (S_GERROR, 5, 1)"
abbreviation (input) S_GERROR_MSI_GERROR_ABT_ERR :: reg_field where "S_GERROR_MSI_GERROR_ABT_ERR \<equiv> (S_GERROR, 7, 1)"
abbreviation (input) S_GERROR_SFM_ERR :: reg_field where "S_GERROR_SFM_ERR \<equiv> (S_GERROR, 8, 1)"
abbreviation (input) S_STRTAB_BASE_CFG_FMT :: reg_field where "S_STRTAB_BASE_CFG_FMT \<equiv> (S_STRTAB_BASE_CFG, 16, 2)"
abbreviation (input) S_STRTAB_BASE_CFG_SPLIT :: reg_field where "S_STRTAB_BASE_CFG_SPLIT \<equiv> (S_STRTAB_BASE_CFG, 6, 5)"
abbreviation (input) S_STRTAB_BASE_CFG_LOG2SIZE :: reg_field where "S_STRTAB_BASE_CFG_LOG2SIZE \<equiv> (S_STRTAB_BASE_CFG, 0, 6)"
abbreviation (input) S_CMDQ_BASE_LOG2SIZE :: reg_field where "S_CMDQ_BASE_LOG2SIZE \<equiv> (S_CMDQ_BASE_LO, 0, 5)"
abbreviation (input) S_CMDQ_PROD_WRP :: reg_field where "S_CMDQ_PROD_WRP \<equiv> (S_CMDQ_PROD, 19, 1)"
abbreviation (input) S_CMDQ_PROD_RD :: reg_field where "S_CMDQ_PROD_RD \<equiv> (S_CMDQ_PROD, 0, 19)"
abbreviation (input) S_CMDQ_CONS_WRP :: reg_field where "S_CMDQ_CONS_WRP \<equiv> (S_CMDQ_CONS, 19, 1)"
abbreviation (input) S_CMDQ_CONS_RD :: reg_field where "S_CMDQ_CONS_RD \<equiv> (S_CMDQ_CONS, 0, 19)"
abbreviation (input) S_CMDQ_CONS_ERR :: reg_field where "S_CMDQ_CONS_ERR \<equiv> (S_CMDQ_CONS, 23, 7)"
abbreviation (input) S_EVENTQ_BASE_LOG2SIZE :: reg_field where "S_EVENTQ_BASE_LOG2SIZE \<equiv> (S_EVENTQ_BASE_LO, 0, 5)"
abbreviation (input) S_EVENTQ_PROD_WRP :: reg_field where "S_EVENTQ_PROD_WRP \<equiv> (S_EVENTQ_PROD, 19, 1)"
abbreviation (input) S_EVENTQ_PROD_RD :: reg_field where "S_EVENTQ_PROD_RD \<equiv> (S_EVENTQ_PROD, 0, 19)"
abbreviation (input) S_EVENTQ_CONS_WRP :: reg_field where "S_EVENTQ_CONS_WRP \<equiv> (S_EVENTQ_CONS, 19, 1)"
abbreviation (input) S_EVENTQ_CONS_RD :: reg_field where "S_EVENTQ_CONS_RD \<equiv> (S_EVENTQ_CONS, 0, 19)"

text \<open>All registers, and all fields, in the order the constructor builds them.\<close>

definition smmuv3_gen_regs :: "u32 list" where
  "smmuv3_gen_regs =
    [IDR0, IDR1, IDR2, IDR3, IDR4, IDR5, IIDR, AIDR, CR0, CR0ACK, CR1, CR2, STATUSR, GBPA, AGBPA,
     IRQ_CTRL, IRQ_CTRL_ACK, GERROR, GERRORN, GERROR_IRQ_CFG0_LO, GERROR_IRQ_CFG0_HI,
     GERROR_IRQ_CFG1, GERROR_IRQ_CFG2, STRTAB_BASE_LO, STRTAB_BASE_HI, STRTAB_BASE_CFG,
     CMDQ_BASE_LO, CMDQ_BASE_HI, CMDQ_PROD, CMDQ_CONS, EVENTQ_BASE_LO, EVENTQ_BASE_HI,
     EVENTQ_PROD, EVENTQ_CONS, EVENTQ_IRQ_CFG0_LO, EVENTQ_IRQ_CFG0_HI, EVENTQ_IRQ_CFG1,
     EVENTQ_IRQ_CFG2, PRIQ_BASE_LO, PRIQ_BASE_HI, PRIQ_PROD, PRIQ_CONS, PRIQ_IRQ_CFG0_LO,
     PRIQ_IRQ_CFG0_HI, PRIQ_IRQ_CFG1, PRIQ_IRQ_CFG2, GATOS_CTRL, GATOS_SID, GATOS_ADDR_LO,
     GATOS_ADDR_HI, GATOS_PAR_LO, GATOS_PAR_HI, CMDQ_PROD_P1, CMDQ_CONS_P1, S_IDR0, S_IDR1,
     S_IDR2, S_IDR3, S_IDR4, S_CR0, S_CR0ACK, S_CR1, S_CR2, S_INIT, S_GBPA, S_AGBPA, S_IRQ_CTRL,
     S_IRQ_CTRL_ACK, S_GERROR, S_GERRORN, S_GERROR_IRQ_CFG0_LO, S_GERROR_IRQ_CFG0_HI,
     S_GERROR_IRQ_CFG1, S_GERROR_IRQ_CFG2, S_STRTAB_BASE_LO, S_STRTAB_BASE_HI, S_STRTAB_BASE_CFG,
     S_CMDQ_BASE_LO, S_CMDQ_BASE_HI, S_CMDQ_PROD, S_CMDQ_CONS, S_EVENTQ_BASE_LO,
     S_EVENTQ_BASE_HI, S_EVENTQ_PROD, S_EVENTQ_CONS, S_EVENTQ_IRQ_CFG0_LO, S_EVENTQ_IRQ_CFG0_HI,
     S_EVENTQ_IRQ_CFG1, S_EVENTQ_IRQ_CFG2, EVENTQ_PROD_P1, EVENTQ_CONS_P1, PRIQ_PROD_P1,
     PRIQ_CONS_P1]
    @ map IDREGS [0..<12]"

definition smmuv3_gen_fields :: "reg_field list" where
  "smmuv3_gen_fields =
    [IDR0_S2P, IDR0_S1P, IDR0_TTF, IDR0_COHACC, IDR0_ASID16, IDR0_VMID16, IDR0_PRI, IDR0_ATOS,
     IDR0_HTTU, IDR0_STLEVEL, IDR0_MSI, IDR0_ATS, IDR1_SIDSIZE, IDR1_EVENTQS, IDR1_CMDQS,
     IDR3_BBML1, IDR3_BBML2, IDR5_OAS, IDR5_GRAN4K, IDR5_GRAN16K, IDR5_GRAN64K, CR0_SMMUEN,
     CR0_PRIQEN, CR0_EVENTQEN, CR0_CMDQEN, CR0_ATSCHK, CR0_VMW, CR0_NSCFG, CR1_TABLE_SH,
     CR1_TABLE_OC, CR1_TABLE_IC, CR1_QUEUE_SH, CR1_QUEUE_OC, CR1_QUEUE_IC, CR2_PTM,
     CR2_RECINVSID, CR2_E2H, GBPA_UPDATE, GBPA_ABORT, IRQ_CTRL_GERROR_IRQEN, IRQ_CTRL_PRI_IRQEN,
     IRQ_CTRL_EVENTQ_IRQEN, GERROR_CMDQ_ERR, GERROR_EVENTQ_ABT_ERR, GERROR_PRIQ_ABT_ERR,
     GERROR_MSI_CMDQ_ABT_ERR, GERROR_MSI_EVENTQ_ABT_ERR, GERROR_MSI_PRIQ_ABT_ERR,
     GERROR_MSI_GERROR_ABT_ERR, GERROR_SFM_ERR, STRTAB_BASE_CFG_FMT, STRTAB_BASE_CFG_SPLIT,
     STRTAB_BASE_CFG_LOG2SIZE, CMDQ_BASE_LOG2SIZE, CMDQ_PROD_WRP, CMDQ_PROD_RD, CMDQ_CONS_WRP,
     CMDQ_CONS_RD, CMDQ_CONS_ERR, EVENTQ_BASE_LOG2SIZE, EVENTQ_PROD_WRP, EVENTQ_PROD_RD,
     EVENTQ_CONS_WRP, EVENTQ_CONS_RD, PRIQ_BASE_LOG2SIZE, PRIQ_PROD_WRP, PRIQ_PROD_RD,
     PRIQ_CONS_WRP, PRIQ_CONS_RD, GATOS_CTRL_RUN, GATOS_CTRL_INPRG, GATOS_CTRL_READ_NWRITE,
     GATOS_PAR_F, GATOS_PAR_FST, S_CR0_SMMUEN, S_CR0_EVENTQEN, S_CR0_CMDQEN, S_INIT_INV_ALL,
     S_GBPA_UPDATE, S_GBPA_ABORT, S_IRQ_CTRL_GERROR_IRQEN, S_IRQ_CTRL_EVENTQ_IRQEN,
     S_GERROR_CMDQ_ERR, S_GERROR_EVENTQ_ABT_ERR, S_GERROR_MSI_CMDQ_ABT_ERR,
     S_GERROR_MSI_EVENTQ_ABT_ERR, S_GERROR_MSI_GERROR_ABT_ERR, S_GERROR_SFM_ERR,
     S_STRTAB_BASE_CFG_FMT, S_STRTAB_BASE_CFG_SPLIT, S_STRTAB_BASE_CFG_LOG2SIZE,
     S_CMDQ_BASE_LOG2SIZE, S_CMDQ_PROD_WRP, S_CMDQ_PROD_RD, S_CMDQ_CONS_WRP, S_CMDQ_CONS_RD,
     S_CMDQ_CONS_ERR, S_EVENTQ_BASE_LOG2SIZE, S_EVENTQ_PROD_WRP, S_EVENTQ_PROD_RD,
     S_EVENTQ_CONS_WRP, S_EVENTQ_CONS_RD]"

text \<open>The two accesses of \<^verbatim>\<open>gs_bitfield\<close>, on the values of the registers. The assignment asserts
  that the value fits; \<open>put_field\<close> is what it does then, and the model uses it directly where the
  value is a constant that fits.\<close>

definition put_field :: "reg_field \<Rightarrow> u32 \<Rightarrow> smmu_regs \<Rightarrow> smmu_regs" where
  "put_field f v rs = (case f of (r, start, len) \<Rightarrow>
     rs(r := rs r AND NOT (push_bit start (mask len)) OR push_bit start (v AND mask len)))"

definition set_field :: "reg_field \<Rightarrow> u32 \<Rightarrow> smmu_regs \<Rightarrow> smmu_regs res" where
  "set_field f v rs = (case f of (r, start, len) \<Rightarrow>
     bind_res (gs_mask_for_field start len) (\<lambda>m.
     assert_res (v AND NOT m = 0) (
     let rs1 = rs(r := rs r AND NOT (push_bit start m))
     in Inr (rs1(r := rs1 r OR push_bit start (v AND m))))))"

definition get_field :: "reg_field \<Rightarrow> smmu_regs \<Rightarrow> u32" where
  "get_field f rs = (case f of (r, start, len) \<Rightarrow> drop_bit start (rs r) AND mask len)"

section \<open>Facts\<close>

definition field_ok :: "reg_field \<Rightarrow> bool" where
  "field_ok f = (case f of (_, start, len) \<Rightarrow> 0 < len \<and> start + len \<le> 32)"

definition fields_disjoint :: "reg_field \<Rightarrow> reg_field \<Rightarrow> bool" where
  "fields_disjoint f g = (case f of (r, s, l) \<Rightarrow> case g of (r', s', l') \<Rightarrow>
     r \<noteq> r' \<or> s + l \<le> s' \<or> s' + l' \<le> s)"

fun pairwise_disjoint :: "reg_field list \<Rightarrow> bool" where
  "pairwise_disjoint [] = True"
| "pairwise_disjoint (f # fs) = (list_all (fields_disjoint f) fs \<and> pairwise_disjoint fs)"

lemma set_field_fits:
  "field_ok (r, s, l) \<Longrightarrow> v AND NOT (mask l) = 0 \<Longrightarrow> set_field (r, s, l) v rs = Inr (put_field (r, s, l) v rs)"
  by (simp add: set_field_def put_field_def field_ok_def gs_mask_for_field_ok)

lemma get_put_field:
  "field_ok (r, s, l) \<Longrightarrow> get_field (r, s, l) (put_field (r, s, l) v rs) = v AND mask l"
  by (rule bit_eqI) (auto simp: get_field_def put_field_def field_ok_def bit_simps)

lemma get_put_field_other:
  assumes "field_ok g" "fields_disjoint f g"
  shows "get_field g (put_field f v rs) = get_field g rs"
proof -
  obtain r s l r' s' l' where [simp]: "f = (r, s, l)" "g = (r', s', l')"
    by (cases f, cases g) auto
  show ?thesis
    using assms by (intro bit_eqI) (auto simp: get_field_def put_field_def fields_disjoint_def
        field_ok_def bit_simps)
qed

lemma put_field_other_reg: "r \<noteq> r' \<Longrightarrow> put_field (r, s, l) v rs r' = rs r'"
  by (simp add: put_field_def)

lemma fields_disjoint_sym: "fields_disjoint f g \<longleftrightarrow> fields_disjoint g f"
  by (cases f; cases g) (auto simp: fields_disjoint_def)

lemma pairwise_disjoint_nth:
  "pairwise_disjoint fs \<Longrightarrow> i < j \<Longrightarrow> j < length fs \<Longrightarrow> fields_disjoint (fs ! i) (fs ! j)"
proof (induction fs arbitrary: i j)
  case (Cons f fs)
  then show ?case
    by (cases i; cases j) (auto simp: list_all_length)
qed simp

lemma and_not_zero_and: "(v :: 'a::len word) AND NOT m = 0 \<Longrightarrow> v AND m = v"
  by (rule bit_eqI) (auto simp: bit_eq_iff bit_simps)

lemma smmuv3_gen_regs_distinct: "distinct smmuv3_gen_regs"
  by code_simp

lemma smmuv3_gen_fields_ok: "list_all field_ok smmuv3_gen_fields"
  by code_simp

lemma smmuv3_gen_fields_disjoint: "pairwise_disjoint smmuv3_gen_fields"
  by code_simp

text \<open>C34. The register layout of \<^verbatim>\<open>smmuv3_gen\<close> is well typed: a value that fits a field can be
  assigned to it without failing the assertion of \<^verbatim>\<open>gs_bitfield\<close>, the field then reads back as
  that value, and no other field of the register file changes.\<close>

theorem smmu_field_assignment:
  assumes "i < length smmuv3_gen_fields" "j < length smmuv3_gen_fields" "i \<noteq> j"
    and "smmuv3_gen_fields ! i = (r, s, l)" "v AND NOT (mask l) = 0"
  shows "\<exists>rs'. set_field (smmuv3_gen_fields ! i) v rs = Inr rs'
           \<and> get_field (smmuv3_gen_fields ! i) rs' = v
           \<and> get_field (smmuv3_gen_fields ! j) rs' = get_field (smmuv3_gen_fields ! j) rs
           \<and> (\<forall>r'. r' \<noteq> r \<longrightarrow> rs' r' = rs r')"
proof -
  have ok: "field_ok (r, s, l)" "field_ok (smmuv3_gen_fields ! j)"
    using smmuv3_gen_fields_ok assms by (auto simp: list_all_length)
  have "fields_disjoint (r, s, l) (smmuv3_gen_fields ! j)"
    using pairwise_disjoint_nth[OF smmuv3_gen_fields_disjoint, of i j]
      pairwise_disjoint_nth[OF smmuv3_gen_fields_disjoint, of j i] assms fields_disjoint_sym
    by (metis linorder_neqE_nat)
  moreover have "v AND mask l = v"
    using assms(5) by (rule and_not_zero_and)
  ultimately show ?thesis
    using ok assms by (simp add: set_field_fits get_put_field get_put_field_other put_field_other_reg)
qed

theorem smmu_field_assignment_witness:
  "\<exists>rs'. set_field CR0_SMMUEN 1 (\<lambda>_. 0) = Inr rs' \<and> get_field CR0_SMMUEN rs' = 1
     \<and> get_field CR0_CMDQEN rs' = 0"
proof -
  have "length smmuv3_gen_fields = 102" "smmuv3_gen_fields ! 21 = CR0_SMMUEN"
    "smmuv3_gen_fields ! 24 = CR0_CMDQEN"
    by (simp_all add: smmuv3_gen_fields_def)
  then show ?thesis
    using smmu_field_assignment[of 21 24 CR0 0 1 1 "\<lambda>_. 0"] by (auto simp: get_field_def mask_eq_exp_minus_1)
qed

end
