(* ===== verification/SmmuDev.thy ===== *)
theory SmmuDev
  imports SmmuRegs "HOL-Library.AList"
begin

text \<open>
  The state of the SMMUv3 device of \<^verbatim>\<open>smmuv3/include/smmuv3.h\<close> and the services its parts
  share: access to memory over the DMA port with its cache of direct memory regions, the global
  error register, the interrupt lines and message-signalled interrupts.

  The device's structures are records with the source's fields. Its hash maps are association
  lists with one entry per key. What is behind the DMA port and the host memory reached through
  direct memory pointers is a parameter (\<open>dma_port\<close>) over a state \<open>'s\<close>, which is the field
  \<open>sm_env\<close> of the device state. Writes to the interrupt lines and invalidations sent upstream are
  logged, in order, in \<open>sm_irq_log\<close> and \<open>sm_upstream_log\<close>.

  \<^verbatim>\<open>update_irq_levels\<close>, \<^verbatim>\<open>emit_msi\<close> and \<^verbatim>\<open>set_gerror\<close> call each other: a message that cannot be
  delivered sets an error bit, which updates the levels again. The recursion is bounded by fuel 4;
  \<open>update_irq_levels_fuel\<close> shows that more fuel never changes the result, because each level of the
  recursion sets one more of the three error bits for undelivered messages.
\<close>

section \<open>Bit-level helpers\<close>

text \<open>\<^verbatim>\<open>load_le\<close> and \<^verbatim>\<open>store_le\<close> copy the bytes of an integer, lowest first.\<close>

fun load_le :: "u8 list \<Rightarrow> u64" where
  "load_le [] = 0"
| "load_le (b # bs) = ucast b OR push_bit 8 (load_le bs)"

definition load_at :: "nat \<Rightarrow> nat \<Rightarrow> u8 list \<Rightarrow> u64" where
  "load_at n off buf = load_le (take n (drop off buf))"

fun store_le :: "nat \<Rightarrow> u64 \<Rightarrow> u8 list" where
  "store_le 0 v = []"
| "store_le (Suc n) v = ucast v # store_le n (drop_bit 8 v)"

definition clamp_shift_u64 :: "u32 \<Rightarrow> u32" where
  "clamp_shift_u64 shift = (if 63 < shift then 63 else shift)"

definition safe_shl1_u64 :: "u32 \<Rightarrow> u64" where
  "safe_shl1_u64 shift = push_bit (unat (clamp_shift_u64 shift)) 1"

definition clamp_queue_log2size :: "u32 \<Rightarrow> u32" where
  "clamp_queue_log2size n = (if 19 < n then 19 else n)"

definition extract32 :: "u32 \<Rightarrow> nat \<Rightarrow> nat \<Rightarrow> u32" where
  "extract32 val start len = drop_bit start val AND (push_bit len 1 - 1)"

definition extract64 :: "u64 \<Rightarrow> nat \<Rightarrow> nat \<Rightarrow> u64" where
  "extract64 val start len = drop_bit start val AND (push_bit len 1 - 1)"

definition OUTPUT_SIZE_MAP :: "u32 list" where
  "OUTPUT_SIZE_MAP = [32, 36, 40, 42, 44, 48, 48, 48]"

definition PRIMECELL_IDS :: "u32 list" where
  "PRIMECELL_IDS = [0x04, 0x00, 0x00, 0x00, 0x34, 0xB0, 0x0B, 0x00, 0x0D, 0xF0, 0x05, 0xB1]"

text \<open>Event and error codes.\<close>

abbreviation (input) EVT_C_BAD_STE :: u32 where "EVT_C_BAD_STE \<equiv> 0x04"
abbreviation (input) EVT_F_STE_FETCH :: u32 where "EVT_F_STE_FETCH \<equiv> 0x03"
abbreviation (input) EVT_C_BAD_SUBSTREAMID :: u32 where "EVT_C_BAD_SUBSTREAMID \<equiv> 0x08"
abbreviation (input) EVT_F_CD_FETCH :: u32 where "EVT_F_CD_FETCH \<equiv> 0x09"
abbreviation (input) EVT_F_WALK_EABT :: u32 where "EVT_F_WALK_EABT \<equiv> 0x0B"
abbreviation (input) EVT_F_TRANSLATION :: u32 where "EVT_F_TRANSLATION \<equiv> 0x10"
abbreviation (input) EVT_F_ADDR_SIZE :: u32 where "EVT_F_ADDR_SIZE \<equiv> 0x11"
abbreviation (input) EVT_F_ACCESS :: u32 where "EVT_F_ACCESS \<equiv> 0x12"
abbreviation (input) EVT_F_PERMISSION :: u32 where "EVT_F_PERMISSION \<equiv> 0x13"

abbreviation (input) CERROR_ILL :: u32 where "CERROR_ILL \<equiv> 1"
abbreviation (input) CERROR_ABT :: u32 where "CERROR_ABT \<equiv> 2"

abbreviation (input) CLASS_TT :: u32 where "CLASS_TT \<equiv> 0"
abbreviation (input) CLASS_IN :: u32 where "CLASS_IN \<equiv> 1"
abbreviation (input) CLASS_CD :: u32 where "CLASS_CD \<equiv> 2"

abbreviation (input) BIT_CMDQ_ERR :: nat where "BIT_CMDQ_ERR \<equiv> 0"
abbreviation (input) BIT_EVENTQ_ABT :: nat where "BIT_EVENTQ_ABT \<equiv> 2"
abbreviation (input) BIT_PRIQ_ABT :: nat where "BIT_PRIQ_ABT \<equiv> 3"
abbreviation (input) BIT_MSI_CMDQ_ABT :: nat where "BIT_MSI_CMDQ_ABT \<equiv> 4"
abbreviation (input) BIT_MSI_EVENTQ_ABT :: nat where "BIT_MSI_EVENTQ_ABT \<equiv> 5"
abbreviation (input) BIT_MSI_PRIQ_ABT :: nat where "BIT_MSI_PRIQ_ABT \<equiv> 6"
abbreviation (input) BIT_MSI_GERROR_ABT :: nat where "BIT_MSI_GERROR_ABT \<equiv> 7"
abbreviation (input) BIT_SFM_ERR :: nat where "BIT_SFM_ERR \<equiv> 8"

section \<open>Structures\<close>

text \<open>\<^verbatim>\<open>IOMMUAccessFlags\<close>: two bits, read and write, with the bitwise operators of the source.\<close>

type_synonym acc_flags = "2 word"

abbreviation (input) ACC_NONE :: acc_flags where "ACC_NONE \<equiv> 0"
abbreviation (input) ACC_RO :: acc_flags where "ACC_RO \<equiv> 1"
abbreviation (input) ACC_WO :: acc_flags where "ACC_WO \<equiv> 2"
abbreviation (input) ACC_RW :: acc_flags where "ACC_RW \<equiv> 3"

record iommu_tlb_entry =
  te_iova :: u64
  te_translated_addr :: u64
  te_addr_mask :: u64
  te_perm :: acc_flags
  te_descriptor :: u64
  te_table_attrs :: u32
  te_fault_type :: u32
  te_fault_level :: u32
  te_stallable_fault :: bool

record smmu_ste =
  ste_valid :: bool
  ste_config :: u32
  ste_s1contextptr :: u64
  ste_s2ttb :: u64
  ste_s2t0sz :: u32
  ste_s2sl0 :: u32
  ste_s2tg :: u32
  ste_s2ps :: u32
  ste_s1fmt :: u32
  ste_s1stalld :: bool
  ste_s1cdmax :: u32
  ste_vmid :: u16
  ste_s2affd :: bool
  ste_s2hd :: bool
  ste_eats :: bool
  ste_strw :: u8

definition ste_init :: smmu_ste where
  "ste_init = \<lparr>ste_valid = False, ste_config = 0, ste_s1contextptr = 0, ste_s2ttb = 0,
     ste_s2t0sz = 0, ste_s2sl0 = 0, ste_s2tg = 0, ste_s2ps = 0, ste_s1fmt = 0,
     ste_s1stalld = False, ste_s1cdmax = 0, ste_vmid = 0, ste_s2affd = False, ste_s2hd = False,
     ste_eats = False, ste_strw = 0\<rparr>"

record smmu_cd =
  cd_valid :: bool
  cd_aarch64 :: bool
  cd_ttb0 :: u64
  cd_ttb1 :: u64
  cd_tsz0 :: u32
  cd_tsz1 :: u32
  cd_tg0 :: u32
  cd_tg1 :: u32
  cd_ips :: u32
  cd_asid :: u16
  cd_epd0 :: bool
  cd_epd1 :: bool
  cd_affd :: bool
  cd_ha :: bool
  cd_hd :: bool

definition cd_init :: smmu_cd where
  "cd_init = \<lparr>cd_valid = False, cd_aarch64 = False, cd_ttb0 = 0, cd_ttb1 = 0, cd_tsz0 = 0,
     cd_tsz1 = 0, cd_tg0 = 0, cd_tg1 = 0, cd_ips = 0, cd_asid = 0, cd_epd0 = False,
     cd_epd1 = False, cd_affd = False, cd_ha = False, cd_hd = False\<rparr>"

record iotlb_key =
  k_vmid :: u16
  k_asid :: u16
  k_iova :: u64
  k_tg :: u8
  k_level :: u8
  k_secure :: bool
  k_regime :: u8

record stalled_txn =
  st_stag :: u32
  st_sid :: u32
  st_substream_id :: u32
  st_aborted :: bool
  st_notified :: bool

record dma_dmi_region =
  dr_start :: u64
  dr_end :: u64
  dr_ptr :: u64
  dr_read_allowed :: bool
  dr_write_allowed :: bool

datatype irq = Irq_eventq | Irq_priq | Irq_cmd_sync | Irq_gerror | Irq_s_gerror | Irq_s_eventq

text \<open>The configuration parameters, which interrupt lines are connected, for each translation
  buffer unit in \<^verbatim>\<open>tbus\<close> whether its upstream socket is connected, and the DMA port: transactions,
  direct memory requests, and loads and stores of host memory.\<close>

record 's smmu_cfg =
  p_pamax :: u32
  p_sidsize :: u16
  p_ato :: bool
  p_iotlb_size :: u32
  p_iidr :: u32
  irq_bound :: "irq \<Rightarrow> bool"
  tbus_bound :: "bool list"
  dma_b_transport :: "'s b_transport_call"
  dma_get_dmi :: "'s dmi_call"
  host_peek :: "u64 \<Rightarrow> nat \<Rightarrow> 's \<Rightarrow> u8 list"
  host_poke :: "u64 \<Rightarrow> u8 list \<Rightarrow> 's \<Rightarrow> 's"

record 's smmu =
  sm_regs :: smmu_regs
  sm_iotlb :: "(iotlb_key \<times> iommu_tlb_entry) list"
  sm_iotlb_lru :: "iotlb_key list"
  sm_stalled :: "(u32 \<times> stalled_txn) list"
  sm_next_stag :: u32
  sm_ste_cache :: "(u32 \<times> smmu_ste) list"
  sm_ste_cache_lru :: "u32 list"
  sm_cd_cache :: "(u64 \<times> smmu_cd) list"
  sm_cd_cache_lru :: "u64 list"
  sm_ste_cache_secure :: "(u32 \<times> smmu_ste) list"
  sm_cd_cache_secure :: "(u64 \<times> smmu_cd) list"
  sm_dma_dmi_cache :: "dma_dmi_region list"
  sm_prev_gerror_pending :: bool
  sm_prev_eventq_pending :: bool
  sm_prev_priq_pending :: bool
  sm_prev_s_gerror_pending :: bool
  sm_prev_s_eventq_pending :: bool
  sm_last_irq_gerror_level :: bool
  sm_last_irq_eventq_level :: bool
  sm_last_irq_priq_level :: bool
  sm_last_irq_s_gerror_level :: bool
  sm_last_irq_s_eventq_level :: bool
  sm_irq_log :: "(irq \<times> bool) list"
  sm_upstream_log :: "(nat \<times> inval) list"
  sm_env :: 's

abbreviation get_reg :: "u32 \<Rightarrow> 's smmu \<Rightarrow> u32" where
  "get_reg r s \<equiv> sm_regs s r"

definition set_reg :: "u32 \<Rightarrow> u32 \<Rightarrow> 's smmu \<Rightarrow> 's smmu" where
  "set_reg r v s = s\<lparr>sm_regs := (sm_regs s)(r := v)\<rparr>"

definition put_reg_field :: "reg_field \<Rightarrow> u32 \<Rightarrow> 's smmu \<Rightarrow> 's smmu" where
  "put_reg_field f v s = s\<lparr>sm_regs := put_field f v (sm_regs s)\<rparr>"

abbreviation fld :: "reg_field \<Rightarrow> 's smmu \<Rightarrow> u32" where
  "fld f s \<equiv> get_field f (sm_regs s)"

definition reg_pair :: "u32 \<Rightarrow> u32 \<Rightarrow> 's smmu \<Rightarrow> u64" where
  "reg_pair hi lo s = push_bit 32 (ucast (get_reg hi s)) OR ucast (get_reg lo s)"

section \<open>Regimes and address checks\<close>

definition compute_iotlb_regime :: "u8 \<Rightarrow> bool \<Rightarrow> bool \<Rightarrow> u8" where
  "compute_iotlb_regime strw e2h is_secure =
     (if is_secure then 3
      else if strw AND 0x3 = 0x2 then (if e2h then 2 else 1)
      else 0)"

definition check_s2_startlevel :: "u32 \<Rightarrow> int \<Rightarrow> u32 \<Rightarrow> bool" where
  "check_s2_startlevel pamax_val level stride =
     (if level < 0 then False
      else if stride = 13 then \<not> (level = 0 \<or> (level = 1 \<and> pamax_val \<le> 42))
      else if stride = 11 then \<not> (level = 0 \<or> (level = 1 \<and> pamax_val \<le> 40))
      else if stride = 9 then \<not> (level = 0 \<and> pamax_val \<le> 42)
      else False)"

definition check_out_addr :: "u64 \<Rightarrow> u32 \<Rightarrow> bool" where
  "check_out_addr addr outputsize =
     (if 48 \<le> outputsize then True
      else extract64 addr (unat outputsize) (48 - unat outputsize) = 0)"

section \<open>The DMA port\<close>

definition find_dma_dmi :: "u64 \<Rightarrow> nat \<Rightarrow> bool \<Rightarrow> 's smmu \<Rightarrow> dma_dmi_region option" where
  "find_dma_dmi addr len write s =
     (if len = 0 then None
      else let last = addr + of_nat len - 1 in
        find (\<lambda>r. dr_start r \<le> addr \<and> last \<le> dr_end r
                \<and> ((write \<and> dr_write_allowed r) \<or> (\<not> write \<and> dr_read_allowed r)))
          (sm_dma_dmi_cache s))"

definition dma_dmi_invalidate :: "inval \<Rightarrow> 's smmu \<Rightarrow> 's smmu" where
  "dma_dmi_invalidate iv s = (case iv of (st, en) \<Rightarrow>
     s\<lparr>sm_dma_dmi_cache := filter (\<lambda>r. dr_end r < st \<or> en < dr_start r) (sm_dma_dmi_cache s)\<rparr>)"

definition DMA_DMI_CACHE_MAX :: nat where "DMA_DMI_CACHE_MAX = 64"

definition grant_dma_dmi :: "'s smmu_cfg \<Rightarrow> u64 \<Rightarrow> tlm_command \<Rightarrow> 's smmu \<Rightarrow> bool \<times> 's smmu" where
  "grant_dma_dmi c addr cmd s =
     (let probe = gp_init\<lparr>gp_command := cmd, gp_address := addr, gp_data := [0], gp_length := 1,
                    gp_streaming_width := 1, gp_byte_enable_length := 0, gp_dmi_allowed := True,
                    gp_response := Incomplete_response\<rparr>;
          (ok, _, dmi, ivs, e) = dma_get_dmi c probe dmi_init (sm_env s);
          s1 = fold dma_dmi_invalidate ivs (s\<lparr>sm_env := e\<rparr>)
      in if \<not> ok then (False, s1)
         else if \<not> dmi_read dmi \<and> \<not> dmi_write dmi then (False, s1)
         else let r = \<lparr>dr_start = dmi_start dmi, dr_end = dmi_end dmi, dr_ptr = dmi_ptr dmi,
                        dr_read_allowed = dmi_read dmi, dr_write_allowed = dmi_write dmi\<rparr>;
                  kept = (if DMA_DMI_CACHE_MAX \<le> length (sm_dma_dmi_cache s1)
                          then tl (sm_dma_dmi_cache s1) else sm_dma_dmi_cache s1)
              in (True, s1\<lparr>sm_dma_dmi_cache := kept @ [r]\<rparr>))"

text \<open>The region a DMA access uses: a cached one, else one granted now.\<close>

definition dma_region ::
  "'s smmu_cfg \<Rightarrow> u64 \<Rightarrow> nat \<Rightarrow> bool \<Rightarrow> 's smmu \<Rightarrow> dma_dmi_region option \<times> 's smmu" where
  "dma_region c addr len write s =
     (case find_dma_dmi addr len write s of
        Some r \<Rightarrow> (Some r, s)
      | None \<Rightarrow>
          (let (ok, s1) = grant_dma_dmi c addr (if write then Write_command else Read_command) s
           in if ok then (find_dma_dmi addr len write s1, s1) else (None, s1)))"

definition dma_txn :: "tlm_command \<Rightarrow> u64 \<Rightarrow> u8 list \<Rightarrow> gp" where
  "dma_txn cmd addr data =
     gp_init\<lparr>gp_command := cmd, gp_address := addr, gp_data := data,
        gp_length := of_nat (length data), gp_streaming_width := of_nat (length data),
        gp_byte_enable_length := 0, gp_dmi_allowed := False, gp_response := Incomplete_response\<rparr>"

definition dma_read :: "'s smmu_cfg \<Rightarrow> u64 \<Rightarrow> nat \<Rightarrow> 's smmu \<Rightarrow> u8 list option \<times> 's smmu" where
  "dma_read c addr len s =
     (case dma_region c addr len False s of
        (Some r, s1) \<Rightarrow> (Some (host_peek c (dr_ptr r + (addr - dr_start r)) len (sm_env s1)), s1)
      | (None, s1) \<Rightarrow>
          (let (txn, _, ivs, e) = dma_b_transport c (dma_txn Read_command addr (replicate len 0)) 0
                                    (sm_env s1);
               s2 = fold dma_dmi_invalidate ivs (s1\<lparr>sm_env := e\<rparr>)
           in (if gp_response txn = Ok_response then Some (gp_data txn) else None, s2)))"

definition dma_write :: "'s smmu_cfg \<Rightarrow> u64 \<Rightarrow> u8 list \<Rightarrow> 's smmu \<Rightarrow> bool \<times> 's smmu" where
  "dma_write c addr data s =
     (case dma_region c addr (length data) True s of
        (Some r, s1) \<Rightarrow>
          (True, s1\<lparr>sm_env := host_poke c (dr_ptr r + (addr - dr_start r)) data (sm_env s1)\<rparr>)
      | (None, s1) \<Rightarrow>
          (let (txn, _, ivs, e) = dma_b_transport c (dma_txn Write_command addr data) 0 (sm_env s1)
           in (gp_response txn = Ok_response,
               fold dma_dmi_invalidate ivs (s1\<lparr>sm_env := e\<rparr>))))"

section \<open>Interrupts and global errors\<close>

definition irq_write :: "'s smmu_cfg \<Rightarrow> irq \<Rightarrow> bool \<Rightarrow> 's smmu \<Rightarrow> 's smmu" where
  "irq_write c i b s = (if irq_bound c i then s\<lparr>sm_irq_log := sm_irq_log s @ [(i, b)]\<rparr> else s)"

definition trigger_irq :: "'s smmu_cfg \<Rightarrow> irq \<Rightarrow> 's smmu \<Rightarrow> 's smmu" where
  "trigger_irq c i s = irq_write c i False (irq_write c i True s)"

text \<open>\<^verbatim>\<open>drive_irq_level\<close>, on the remembered level and the state.\<close>

definition drive_irq_level :: "'s smmu_cfg \<Rightarrow> irq \<Rightarrow> bool \<Rightarrow> bool \<Rightarrow> 's smmu \<Rightarrow> 's smmu" where
  "drive_irq_level c i last_level new_level s =
     (if last_level = new_level then s else irq_write c i new_level s)"

text \<open>\<^verbatim>\<open>set_gerror\<close> and \<^verbatim>\<open>emit_msi\<close>, with the functions they call.\<close>

definition raise_gerror :: "('s smmu \<Rightarrow> 's smmu) \<Rightarrow> nat \<Rightarrow> 's smmu \<Rightarrow> 's smmu" where
  "raise_gerror update bit_no s =
     (let err = get_reg GERROR s; ack = get_reg GERRORN s
      in if drop_bit bit_no (err XOR ack) AND 1 \<noteq> 0 then s
         else update (set_reg GERROR (err XOR push_bit bit_no 1) s))"

definition emit_msi_with ::
  "(nat \<Rightarrow> 's smmu \<Rightarrow> 's smmu) \<Rightarrow> 's smmu_cfg \<Rightarrow> u32 \<Rightarrow> u32 \<Rightarrow> u32 \<Rightarrow> nat \<Rightarrow> 's smmu \<Rightarrow> 's smmu" where
  "emit_msi_with on_fail c cfg0_lo cfg0_hi data abort_bit s =
     (let addr = push_bit 32 (ucast cfg0_hi) OR ucast cfg0_lo :: u64
      in if addr = 0 then s
         else let (ok, s1) = dma_write c addr (store_le 4 (ucast data)) s
              in if ok then s1 else on_fail abort_bit s1)"

definition gerror_pending :: "'s smmu \<Rightarrow> bool" where
  "gerror_pending s = (get_reg GERROR s XOR get_reg GERRORN s \<noteq> 0)"

definition eventq_pending :: "'s smmu \<Rightarrow> bool" where
  "eventq_pending s = (get_reg EVENTQ_PROD s \<noteq> get_reg EVENTQ_CONS s)"

definition priq_pending :: "'s smmu \<Rightarrow> bool" where
  "priq_pending s = (get_reg PRIQ_PROD s \<noteq> get_reg PRIQ_CONS s)"

text \<open>The message of one source: sent when the source has become pending and its interrupt is
  enabled. The arguments are the remembered flag, the enable field and the message registers.\<close>

definition msi_step ::
  "(nat \<Rightarrow> 's smmu \<Rightarrow> 's smmu) \<Rightarrow> 's smmu_cfg \<Rightarrow> bool \<Rightarrow> ('s smmu \<Rightarrow> bool) \<Rightarrow> reg_field
     \<Rightarrow> u32 \<Rightarrow> u32 \<Rightarrow> u32 \<Rightarrow> nat \<Rightarrow> 's smmu \<Rightarrow> 's smmu" where
  "msi_step on_fail c pending prev en lo hi data abort_bit s =
     (if pending \<and> \<not> prev s \<and> fld en s \<noteq> 0
      then emit_msi_with on_fail c (get_reg lo s) (get_reg hi s) (get_reg data s) abort_bit s
      else s)"

definition drive_lines :: "'s smmu_cfg \<Rightarrow> bool \<Rightarrow> bool \<Rightarrow> bool \<Rightarrow> 's smmu \<Rightarrow> 's smmu" where
  "drive_lines c g e p s =
     (let s1 = (drive_irq_level c Irq_gerror (sm_last_irq_gerror_level s) g s)
                 \<lparr>sm_last_irq_gerror_level := g\<rparr>;
          s2 = (drive_irq_level c Irq_eventq (sm_last_irq_eventq_level s1) e s1)
                 \<lparr>sm_last_irq_eventq_level := e\<rparr>
      in (drive_irq_level c Irq_priq (sm_last_irq_priq_level s2) p s2)
           \<lparr>sm_last_irq_priq_level := p\<rparr>)"

text \<open>The body of \<^verbatim>\<open>update_irq_levels\<close>, with the handler of a failing message.\<close>

definition irq_levels_body ::
  "(nat \<Rightarrow> 's smmu \<Rightarrow> 's smmu) \<Rightarrow> 's smmu_cfg \<Rightarrow> 's smmu \<Rightarrow> 's smmu" where
  "irq_levels_body on_fail c s0 =
     (let gp = gerror_pending s0; ep = eventq_pending s0; pp = priq_pending s0;
          g_irq = (gp \<and> fld IRQ_CTRL_GERROR_IRQEN s0 \<noteq> 0);
          e_irq = (ep \<and> fld IRQ_CTRL_EVENTQ_IRQEN s0 \<noteq> 0);
          p_irq = (pp \<and> fld IRQ_CTRL_PRI_IRQEN s0 \<noteq> 0);
          s1 = msi_step on_fail c gp sm_prev_gerror_pending IRQ_CTRL_GERROR_IRQEN
                 GERROR_IRQ_CFG0_LO GERROR_IRQ_CFG0_HI GERROR_IRQ_CFG2 BIT_MSI_GERROR_ABT s0;
          s2 = msi_step on_fail c ep sm_prev_eventq_pending IRQ_CTRL_EVENTQ_IRQEN
                 EVENTQ_IRQ_CFG0_LO EVENTQ_IRQ_CFG0_HI EVENTQ_IRQ_CFG2 BIT_MSI_EVENTQ_ABT s1;
          s3 = msi_step on_fail c pp sm_prev_priq_pending IRQ_CTRL_PRI_IRQEN
                 PRIQ_IRQ_CFG0_LO PRIQ_IRQ_CFG0_HI PRIQ_IRQ_CFG2 BIT_MSI_PRIQ_ABT s2
      in drive_lines c g_irq e_irq p_irq
           (s3\<lparr>sm_prev_gerror_pending := gp, sm_prev_eventq_pending := ep,
                sm_prev_priq_pending := pp\<rparr>))"

fun update_irq_levels_n :: "nat \<Rightarrow> 's smmu_cfg \<Rightarrow> 's smmu \<Rightarrow> 's smmu" where
  "update_irq_levels_n 0 c = (\<lambda>s. s)"
| "update_irq_levels_n (Suc n) c = irq_levels_body (raise_gerror (update_irq_levels_n n c)) c"

definition update_irq_levels :: "'s smmu_cfg \<Rightarrow> 's smmu \<Rightarrow> 's smmu" where
  "update_irq_levels c s = update_irq_levels_n 4 c s"

definition set_gerror :: "'s smmu_cfg \<Rightarrow> nat \<Rightarrow> 's smmu \<Rightarrow> 's smmu" where
  "set_gerror c bit_no s = raise_gerror (update_irq_levels c) bit_no s"

definition emit_msi :: "'s smmu_cfg \<Rightarrow> u32 \<Rightarrow> u32 \<Rightarrow> u32 \<Rightarrow> nat \<Rightarrow> 's smmu \<Rightarrow> 's smmu" where
  "emit_msi c = emit_msi_with (set_gerror c) c"

definition update_secure_irq_levels :: "'s smmu_cfg \<Rightarrow> 's smmu \<Rightarrow> 's smmu" where
  "update_secure_irq_levels c s0 =
     (let gp = (get_reg S_GERROR s0 XOR get_reg S_GERRORN s0 \<noteq> 0);
          ep = (get_reg S_EVENTQ_PROD s0 \<noteq> get_reg S_EVENTQ_CONS s0);
          g_irq = (gp \<and> fld S_IRQ_CTRL_GERROR_IRQEN s0 \<noteq> 0);
          e_irq = (ep \<and> fld S_IRQ_CTRL_EVENTQ_IRQEN s0 \<noteq> 0);
          s1 = (if gp \<and> \<not> sm_prev_s_gerror_pending s0 \<and> fld S_IRQ_CTRL_GERROR_IRQEN s0 \<noteq> 0
                then emit_msi c (get_reg S_GERROR_IRQ_CFG0_LO s0) (get_reg S_GERROR_IRQ_CFG0_HI s0)
                       (get_reg S_GERROR_IRQ_CFG2 s0) BIT_MSI_GERROR_ABT s0
                else s0);
          s2 = (if ep \<and> \<not> sm_prev_s_eventq_pending s1 \<and> fld S_IRQ_CTRL_EVENTQ_IRQEN s1 \<noteq> 0
                then emit_msi c (get_reg S_EVENTQ_IRQ_CFG0_LO s1) (get_reg S_EVENTQ_IRQ_CFG0_HI s1)
                       (get_reg S_EVENTQ_IRQ_CFG2 s1) BIT_MSI_EVENTQ_ABT s1
                else s1);
          s3 = s2\<lparr>sm_prev_s_gerror_pending := gp, sm_prev_s_eventq_pending := ep\<rparr>;
          s4 = (drive_irq_level c Irq_s_gerror (sm_last_irq_s_gerror_level s3) g_irq s3)
                 \<lparr>sm_last_irq_s_gerror_level := g_irq\<rparr>
      in (drive_irq_level c Irq_s_eventq (sm_last_irq_s_eventq_level s4) e_irq s4)
           \<lparr>sm_last_irq_s_eventq_level := e_irq\<rparr>)"

definition set_secure_gerror :: "'s smmu_cfg \<Rightarrow> nat \<Rightarrow> 's smmu \<Rightarrow> 's smmu" where
  "set_secure_gerror c bit_no s =
     (let err = get_reg S_GERROR s; ack = get_reg S_GERRORN s
      in if drop_bit bit_no (err XOR ack) AND 1 \<noteq> 0 then s
         else update_secure_irq_levels c (set_reg S_GERROR (err XOR push_bit bit_no 1) s))"

definition set_cmdq_err :: "'s smmu_cfg \<Rightarrow> u32 \<Rightarrow> 's smmu \<Rightarrow> 's smmu" where
  "set_cmdq_err c cerror s = set_gerror c BIT_CMDQ_ERR (put_reg_field CMDQ_CONS_ERR cerror s)"

definition set_secure_cmdq_err :: "'s smmu_cfg \<Rightarrow> u32 \<Rightarrow> 's smmu \<Rightarrow> 's smmu" where
  "set_secure_cmdq_err c cerror s =
     set_secure_gerror c BIT_CMDQ_ERR (put_reg_field S_CMDQ_CONS_ERR cerror s)"

section \<open>What the services leave alone\<close>

text \<open>\<open>dma_core\<close> forgets what a memory access may change, \<open>irq_core\<close> also what reporting a
  global error and updating the interrupt lines may change. A function preserves a core when it
  changes nothing else.\<close>

definition dma_core :: "'s smmu \<Rightarrow> 's smmu" where
  "dma_core s = s\<lparr>sm_dma_dmi_cache := [], sm_env := undefined\<rparr>"

definition irq_core :: "'s smmu \<Rightarrow> 's smmu" where
  "irq_core s = s\<lparr>sm_dma_dmi_cache := [], sm_env := undefined,
     sm_regs := (sm_regs s)(GERROR := 0, S_GERROR := 0), sm_prev_gerror_pending := False,
     sm_prev_eventq_pending := False, sm_prev_priq_pending := False,
     sm_prev_s_gerror_pending := False, sm_prev_s_eventq_pending := False,
     sm_last_irq_gerror_level := False, sm_last_irq_eventq_level := False,
     sm_last_irq_priq_level := False, sm_last_irq_s_gerror_level := False,
     sm_last_irq_s_eventq_level := False, sm_irq_log := []\<rparr>"

lemma irq_core_of_dma_core: "dma_core s' = dma_core s \<Longrightarrow> irq_core s' = irq_core s"
proof -
  assume "dma_core s' = dma_core s"
  then have "irq_core (dma_core s') = irq_core (dma_core s)" by simp
  then show ?thesis by (simp add: dma_core_def irq_core_def)
qed

lemma dma_coreD:
  assumes "dma_core s' = dma_core s"
  shows "sm_regs s' = sm_regs s" "sm_prev_gerror_pending s' = sm_prev_gerror_pending s"
    "sm_prev_eventq_pending s' = sm_prev_eventq_pending s"
    "sm_prev_priq_pending s' = sm_prev_priq_pending s"
    "sm_last_irq_gerror_level s' = sm_last_irq_gerror_level s"
    "sm_irq_log s' = sm_irq_log s"
  using assms by (cases s; cases s'; simp add: dma_core_def)+

lemma irq_coreD:
  assumes "irq_core s' = irq_core s"
  shows "sm_iotlb s' = sm_iotlb s" "sm_iotlb_lru s' = sm_iotlb_lru s"
    "sm_stalled s' = sm_stalled s" "sm_next_stag s' = sm_next_stag s"
    "sm_ste_cache s' = sm_ste_cache s" "sm_ste_cache_lru s' = sm_ste_cache_lru s"
    "sm_cd_cache s' = sm_cd_cache s" "sm_cd_cache_lru s' = sm_cd_cache_lru s"
    "sm_upstream_log s' = sm_upstream_log s"
  using assms by (cases s; cases s'; simp add: irq_core_def)+

lemma irq_core_reg:
  assumes "irq_core s' = irq_core s" "r \<noteq> GERROR" "r \<noteq> S_GERROR"
  shows "get_reg r s' = get_reg r s"
proof -
  have "(sm_regs s')(GERROR := 0, S_GERROR := 0) = (sm_regs s)(GERROR := 0, S_GERROR := 0)"
    using assms(1) by (cases s; cases s'; simp add: irq_core_def)
  then have "((sm_regs s')(GERROR := 0, S_GERROR := 0)) r = ((sm_regs s)(GERROR := 0, S_GERROR := 0)) r"
    by simp
  then show ?thesis using assms(2,3) by simp
qed

lemma dma_core_env [simp]: "dma_core (s\<lparr>sm_env := e\<rparr>) = dma_core s"
  by (simp add: dma_core_def)

lemma dma_core_cache [simp]: "dma_core (s\<lparr>sm_dma_dmi_cache := e\<rparr>) = dma_core s"
  by (simp add: dma_core_def)

lemma dma_core_invalidate [simp]: "dma_core (dma_dmi_invalidate iv s) = dma_core s"
  by (cases iv) (simp add: dma_dmi_invalidate_def)

lemma dma_core_invalidates [simp]: "dma_core (fold dma_dmi_invalidate ivs s) = dma_core s"
  by (induction ivs arbitrary: s) simp_all

lemma dma_core_grant: "grant_dma_dmi c addr cmd s = (ok, s') \<Longrightarrow> dma_core s' = dma_core s"
  by (auto simp: grant_dma_dmi_def Let_def split: prod.splits if_splits)

lemma dma_core_region: "dma_region c addr len w s = (r, s') \<Longrightarrow> dma_core s' = dma_core s"
  by (auto simp: dma_region_def dma_core_grant split: prod.splits if_splits option.splits)

lemma dma_core_read: "dma_read c addr len s = (r, s') \<Longrightarrow> dma_core s' = dma_core s"
  by (auto simp: dma_read_def Let_def dest!: dma_core_region split: prod.splits if_splits option.splits)

lemma dma_core_write: "dma_write c addr data s = (r, s') \<Longrightarrow> dma_core s' = dma_core s"
  by (auto simp: dma_write_def Let_def dest!: dma_core_region split: prod.splits if_splits option.splits)

lemmas irq_core_dma = dma_core_read[THEN irq_core_of_dma_core] dma_core_write[THEN irq_core_of_dma_core]

lemma irq_core_irq_write [simp]: "irq_core (irq_write c i b s) = irq_core s"
  by (simp add: irq_write_def irq_core_def)

lemma irq_core_trigger [simp]: "irq_core (trigger_irq c i s) = irq_core s"
  by (simp add: trigger_irq_def)

lemma irq_core_drive [simp]: "irq_core (drive_irq_level c i a b s) = irq_core s"
  by (simp add: drive_irq_level_def)

lemma irq_core_updates [simp]:
  "irq_core (s\<lparr>sm_prev_gerror_pending := a1\<rparr>) = irq_core s"
  "irq_core (s\<lparr>sm_prev_eventq_pending := a2\<rparr>) = irq_core s"
  "irq_core (s\<lparr>sm_prev_priq_pending := a3\<rparr>) = irq_core s"
  "irq_core (s\<lparr>sm_prev_s_gerror_pending := a4\<rparr>) = irq_core s"
  "irq_core (s\<lparr>sm_prev_s_eventq_pending := a5\<rparr>) = irq_core s"
  "irq_core (s\<lparr>sm_last_irq_gerror_level := a6\<rparr>) = irq_core s"
  "irq_core (s\<lparr>sm_last_irq_eventq_level := a7\<rparr>) = irq_core s"
  "irq_core (s\<lparr>sm_last_irq_priq_level := a8\<rparr>) = irq_core s"
  "irq_core (s\<lparr>sm_last_irq_s_gerror_level := a9\<rparr>) = irq_core s"
  "irq_core (s\<lparr>sm_last_irq_s_eventq_level := a10\<rparr>) = irq_core s"
  "irq_core (set_reg GERROR v s) = irq_core s"
  "irq_core (set_reg S_GERROR v s) = irq_core s"
  by (simp_all add: irq_core_def set_reg_def fun_upd_twist)

lemma irq_core_raise:
  "(\<And>s. irq_core (u s) = irq_core s) \<Longrightarrow> irq_core (raise_gerror u b s) = irq_core s"
  by (simp add: raise_gerror_def Let_def)

lemma irq_core_emit:
  assumes "\<And>b s. irq_core (f b s) = irq_core s"
  shows "irq_core (emit_msi_with f c lo hi d b s) = irq_core s"
  by (auto simp: emit_msi_with_def Let_def assms dest!: irq_core_dma split: prod.splits)

lemma irq_core_msi_step:
  assumes "\<And>b s. irq_core (f b s) = irq_core s"
  shows "irq_core (msi_step f c p pv en lo hi d b s) = irq_core s"
  by (simp add: msi_step_def irq_core_emit[OF assms])

lemma irq_core_drive_lines [simp]: "irq_core (drive_lines c g e p s) = irq_core s"
  by (simp add: drive_lines_def Let_def)

lemma irq_core_body:
  assumes "\<And>b s. irq_core (f b s) = irq_core s"
  shows "irq_core (irq_levels_body f c s) = irq_core s"
  by (simp add: irq_levels_body_def Let_def irq_core_msi_step[OF assms])

lemma irq_core_update_n: "irq_core (update_irq_levels_n n c s) = irq_core s"
  by (induction n arbitrary: s) (simp_all add: irq_core_body irq_core_raise)

lemma irq_core_update [simp]: "irq_core (update_irq_levels c s) = irq_core s"
  by (simp add: update_irq_levels_def irq_core_update_n)

lemma irq_core_set_gerror [simp]: "irq_core (set_gerror c b s) = irq_core s"
  by (simp add: set_gerror_def irq_core_raise)

lemma irq_core_emit_msi [simp]: "irq_core (emit_msi c lo hi d b s) = irq_core s"
  by (simp add: emit_msi_def irq_core_emit)

lemma irq_core_update_secure [simp]: "irq_core (update_secure_irq_levels c s) = irq_core s"
  by (simp add: update_secure_irq_levels_def Let_def)

lemma irq_core_set_secure_gerror [simp]: "irq_core (set_secure_gerror c b s) = irq_core s"
  by (simp add: set_secure_gerror_def Let_def)

section \<open>The recursion on undelivered messages ends\<close>

definition gerror_live :: "nat \<Rightarrow> 's smmu \<Rightarrow> bool" where
  "gerror_live b s = bit (get_reg GERROR s XOR get_reg GERRORN s) b"

definition msi_slack :: "'s smmu \<Rightarrow> nat" where
  "msi_slack s = card {b \<in> {5, 6, 7}. \<not> gerror_live b s}"

definition gerror_toggled :: "nat \<Rightarrow> 's smmu \<Rightarrow> 's smmu" where
  "gerror_toggled b s = set_reg GERROR (get_reg GERROR s XOR push_bit b 1) s"

lemma drop_bit_and_one: "drop_bit b (x :: 'a::len word) AND 1 \<noteq> 0 \<longleftrightarrow> bit x b"
  by (simp add: and_one_eq bit_iff_odd_drop_bit odd_iff_mod_2_eq_one)

lemma raise_gerror_alt:
  "raise_gerror u b s = (if gerror_live b s then s else u (gerror_toggled b s))"
  unfolding raise_gerror_def Let_def gerror_live_def drop_bit_and_one gerror_toggled_def ..

lemma gerror_live_toggled:
  "b < 32 \<Longrightarrow> gerror_live b' (gerror_toggled b s)
     \<longleftrightarrow> (if b' = b then \<not> gerror_live b s else gerror_live b' s)"
  by (auto simp: gerror_live_def gerror_toggled_def set_reg_def bit_simps simp del: push_bit_of_1)

lemma gerror_live_dma:
  assumes "dma_core s' = dma_core s" shows "gerror_live b s' = gerror_live b s"
  unfolding gerror_live_def dma_coreD(1)[OF assms] ..

lemma gerror_live_irq_write [simp]: "gerror_live b (irq_write c i v s) = gerror_live b s"
  by (simp add: gerror_live_def irq_write_def)

lemma gerror_live_drive [simp]: "gerror_live b (drive_irq_level c i v w s) = gerror_live b s"
  by (simp add: drive_irq_level_def)

lemma gerror_live_updates [simp]:
  "gerror_live b (s\<lparr>sm_prev_gerror_pending := a1\<rparr>) = gerror_live b s"
  "gerror_live b (s\<lparr>sm_prev_eventq_pending := a2\<rparr>) = gerror_live b s"
  "gerror_live b (s\<lparr>sm_prev_priq_pending := a3\<rparr>) = gerror_live b s"
  "gerror_live b (s\<lparr>sm_last_irq_gerror_level := a6\<rparr>) = gerror_live b s"
  "gerror_live b (s\<lparr>sm_last_irq_eventq_level := a7\<rparr>) = gerror_live b s"
  "gerror_live b (s\<lparr>sm_last_irq_priq_level := a8\<rparr>) = gerror_live b s"
  by (simp_all add: gerror_live_def)

lemma raise_gerror_mono:
  assumes "\<And>s. gerror_live b s \<Longrightarrow> gerror_live b (u s)" "b' < 32" "gerror_live b s"
  shows "gerror_live b (raise_gerror u b' s)"
  using assms by (simp add: raise_gerror_alt gerror_live_toggled)

lemma emit_msi_mono:
  assumes "\<And>s. gerror_live b s \<Longrightarrow> gerror_live b (f b' s)" "gerror_live b s"
  shows "gerror_live b (emit_msi_with f c lo hi d b' s)"
  using assms
  by (auto simp: emit_msi_with_def Let_def dest!: gerror_live_dma[OF dma_core_write] split: prod.splits)

lemma msi_step_mono:
  assumes "\<And>s. gerror_live b s \<Longrightarrow> gerror_live b (f b' s)" "gerror_live b s"
  shows "gerror_live b (msi_step f c p pv en lo hi d b' s)"
  using assms by (simp add: msi_step_def emit_msi_mono)

lemma gerror_live_drive_lines [simp]: "gerror_live b (drive_lines c g e p s) = gerror_live b s"
  by (simp add: drive_lines_def Let_def)

lemma irq_body_mono:
  assumes "\<And>b' s. b' < 32 \<Longrightarrow> gerror_live b s \<Longrightarrow> gerror_live b (f b' s)" "gerror_live b s"
  shows "gerror_live b (irq_levels_body f c s)"
  by (simp add: irq_levels_body_def Let_def msi_step_mono assms)

lemma update_irq_mono: "gerror_live b s \<Longrightarrow> gerror_live b (update_irq_levels_n n c s)"
  by (induction n arbitrary: s) (simp_all add: irq_body_mono raise_gerror_mono)

lemma msi_slack_mono:
  assumes "\<And>b. gerror_live b s \<Longrightarrow> gerror_live b s'"
  shows "msi_slack s' \<le> msi_slack s"
  unfolding msi_slack_def by (rule card_mono) (use assms in auto)

lemma msi_slack_set:
  assumes "b \<in> {5, 6, 7}" "\<not> gerror_live b s"
  shows "msi_slack (gerror_toggled b s) < msi_slack s"
proof -
  have "b < 32" using assms(1) by auto
  then show ?thesis
    unfolding msi_slack_def by (intro psubset_card_mono) (use assms in \<open>auto simp: gerror_live_toggled\<close>)
qed

lemma msi_slack_le: "msi_slack s \<le> 3"
proof -
  have "msi_slack s \<le> card {5 :: nat, 6, 7}" unfolding msi_slack_def by (rule card_mono) auto
  then show ?thesis by simp
qed

text \<open>Two handlers that agree on all states with little slack give the same levels.\<close>

lemma emit_msi_cong:
  assumes "\<And>s'. msi_slack s' \<le> msi_slack s \<Longrightarrow> f b s' = g b s'"
  shows "emit_msi_with f c lo hi d b s = emit_msi_with g c lo hi d b s"
proof -
  have "f b s' = g b s'" if "dma_core s' = dma_core s" for s'
    by (rule assms) (simp add: msi_slack_def gerror_live_dma[OF that])
  then show ?thesis
    by (auto simp: emit_msi_with_def Let_def dest!: dma_core_write split: prod.splits)
qed

lemma irq_body_cong:
  assumes fg: "\<And>b s'. b \<in> {5, 6, 7} \<Longrightarrow> msi_slack s' \<le> msi_slack s \<Longrightarrow> f b s' = g b s'"
    and mono: "\<And>b b' s. b' < 32 \<Longrightarrow> gerror_live b s \<Longrightarrow> gerror_live b (g b' s)"
  shows "irq_levels_body f c s = irq_levels_body g c s"
proof -
  have em: "emit_msi_with f c lo hi d b s1 = emit_msi_with g c lo hi d b s1"
    if "b \<in> {5, 6, 7}" "msi_slack s1 \<le> msi_slack s" for lo hi d b s1
    by (rule emit_msi_cong) (use fg that in auto)
  have keep: "msi_slack (emit_msi_with g c lo hi d b s1) \<le> msi_slack s"
    if "b < 32" "msi_slack s1 \<le> msi_slack s" for lo hi d b s1
    by (rule le_trans[OF msi_slack_mono that(2)]) (erule emit_msi_mono[rotated], rule mono[OF that(1)])
  have em': "msi_step f c p pv en lo hi d b s1 = msi_step g c p pv en lo hi d b s1"
    if "b \<in> {5, 6, 7}" "msi_slack s1 \<le> msi_slack s" for p pv en lo hi d b s1
    using that by (simp add: msi_step_def em)
  have keep': "msi_slack (msi_step g c p pv en lo hi d b s1) \<le> msi_slack s"
    if "b < 32" "msi_slack s1 \<le> msi_slack s" for p pv en lo hi d b s1
    using that by (simp add: msi_step_def keep)
  show ?thesis
    by (simp add: irq_levels_body_def Let_def em' keep')
qed

lemma update_irq_fuel:
  "msi_slack s < n \<Longrightarrow> msi_slack s < m \<Longrightarrow> update_irq_levels_n n c s = update_irq_levels_n m c s"
proof (induction n arbitrary: m s)
  case (Suc n)
  then obtain m' where m: "m = Suc m'" by (cases m) auto
  have "raise_gerror (update_irq_levels_n n c) b s' = raise_gerror (update_irq_levels_n m' c) b s'"
    if "b \<in> {5, 6, 7}" "msi_slack s' \<le> msi_slack s" for b s'
  proof (cases "gerror_live b s'")
    case False
    let ?t = "gerror_toggled b s'"
    have "msi_slack ?t < msi_slack s'" by (rule msi_slack_set[OF that(1) False])
    then have "update_irq_levels_n n c ?t = update_irq_levels_n m' c ?t"
      using Suc that m by (intro Suc.IH) linarith+
    then show ?thesis using False by (simp add: raise_gerror_alt)
  qed (simp add: raise_gerror_alt)
  then show ?case
    unfolding m update_irq_levels_n.simps
    by (rule irq_body_cong) (simp_all add: raise_gerror_mono update_irq_mono)
qed simp

text \<open>C31. Updating the interrupt levels terminates although it calls itself when a message cannot be
  delivered: four nested calls are always enough, for every state and every answer of the memory.\<close>

theorem update_irq_levels_fuel: "4 \<le> n \<Longrightarrow> update_irq_levels_n n c s = update_irq_levels c s"
  unfolding update_irq_levels_def
  by (rule update_irq_fuel) (use msi_slack_le[of s] in linarith)+

section \<open>Interrupt levels\<close>

definition irq_levels_ok :: "'s smmu \<Rightarrow> bool" where
  "irq_levels_ok s \<longleftrightarrow>
     sm_last_irq_gerror_level s = (gerror_pending s \<and> fld IRQ_CTRL_GERROR_IRQEN s \<noteq> 0)
   \<and> sm_last_irq_eventq_level s = (eventq_pending s \<and> fld IRQ_CTRL_EVENTQ_IRQEN s \<noteq> 0)
   \<and> sm_last_irq_priq_level s = (priq_pending s \<and> fld IRQ_CTRL_PRI_IRQEN s \<noteq> 0)
   \<and> sm_prev_gerror_pending s = gerror_pending s
   \<and> sm_prev_eventq_pending s = eventq_pending s
   \<and> sm_prev_priq_pending s = priq_pending s"

lemma drive_irq_level_fields [simp]:
  "sm_regs (drive_irq_level c i v w s) = sm_regs s"
  "sm_last_irq_gerror_level (drive_irq_level c i v w s) = sm_last_irq_gerror_level s"
  "sm_last_irq_eventq_level (drive_irq_level c i v w s) = sm_last_irq_eventq_level s"
  "sm_last_irq_priq_level (drive_irq_level c i v w s) = sm_last_irq_priq_level s"
  "sm_prev_gerror_pending (drive_irq_level c i v w s) = sm_prev_gerror_pending s"
  "sm_prev_eventq_pending (drive_irq_level c i v w s) = sm_prev_eventq_pending s"
  "sm_prev_priq_pending (drive_irq_level c i v w s) = sm_prev_priq_pending s"
  by (simp_all add: drive_irq_level_def irq_write_def)

lemma drive_lines_fields [simp]:
  "sm_regs (drive_lines c g e p s) = sm_regs s"
  "sm_last_irq_gerror_level (drive_lines c g e p s) = g"
  "sm_last_irq_eventq_level (drive_lines c g e p s) = e"
  "sm_last_irq_priq_level (drive_lines c g e p s) = p"
  "sm_prev_gerror_pending (drive_lines c g e p s) = sm_prev_gerror_pending s"
  "sm_prev_eventq_pending (drive_lines c g e p s) = sm_prev_eventq_pending s"
  "sm_prev_priq_pending (drive_lines c g e p s) = sm_prev_priq_pending s"
  by (simp_all add: drive_lines_def Let_def)

lemma emit_msi_delivered:
  assumes "\<And>addr data s. fst (dma_write c addr data s)"
  shows "sm_regs (emit_msi_with f c lo hi d b s) = sm_regs s"
proof -
  have "ok \<and> sm_regs s' = sm_regs s" if "dma_write c addr data s = (ok, s')" for addr data ok s'
    using assms[of addr data s] dma_coreD(1)[OF dma_core_write[OF that]] that by simp
  then show ?thesis by (auto simp: emit_msi_with_def Let_def split: prod.splits)
qed

lemma msi_step_delivered:
  "(\<And>addr data s. fst (dma_write c addr data s))
     \<Longrightarrow> sm_regs (msi_step f c p pv en lo hi d b s) = sm_regs s"
  by (simp add: msi_step_def emit_msi_delivered)

lemma irq_body_delivered:
  assumes "\<And>addr data s. fst (dma_write c addr data s)"
  shows "irq_levels_ok (irq_levels_body f c s)"
  by (simp add: irq_levels_body_def Let_def irq_levels_ok_def gerror_pending_def eventq_pending_def
      priq_pending_def msi_step_delivered[OF assms])

lemma update_irq_levels_unfold:
  "update_irq_levels c s = irq_levels_body (raise_gerror (update_irq_levels_n 3 c)) c s"
  by (simp add: update_irq_levels_def eval_nat_numeral)


text \<open>A failing message breaks this: when the message for a new event cannot be delivered, the nested
  update raises the error line, and the interrupted one then takes it down again with the level it
  had computed before. The error is pending and enabled, and the line is low.\<close>

lemma failed_msi_drops_gerror_line:
  assumes ev: "eventq_pending s" "\<not> sm_prev_eventq_pending s" "fld IRQ_CTRL_EVENTQ_IRQEN s \<noteq> 0"
    and addr: "push_bit 32 (ucast (get_reg EVENTQ_IRQ_CFG0_HI s))
                 OR ucast (get_reg EVENTQ_IRQ_CFG0_LO s) \<noteq> (0 :: u64)"
    and fails: "\<And>addr data. \<not> fst (dma_write c addr data s)"
    and g: "\<not> gerror_pending s" "fld IRQ_CTRL_GERROR_IRQEN s \<noteq> 0" and p: "\<not> priq_pending s"
  shows "gerror_pending (update_irq_levels c s) \<and> fld IRQ_CTRL_GERROR_IRQEN (update_irq_levels c s) \<noteq> 0
       \<and> \<not> sm_last_irq_gerror_level (update_irq_levels c s)"
proof -
  let ?f = "raise_gerror (update_irq_levels_n 3 c)"
  note u = update_irq_levels_unfold[of c s]
  obtain s1 where w: "dma_write c (push_bit 32 (ucast (get_reg EVENTQ_IRQ_CFG0_HI s))
      OR ucast (get_reg EVENTQ_IRQ_CFG0_LO s)) (store_le 4 (ucast (get_reg EVENTQ_IRQ_CFG2 s))) s = (False, s1)"
    using fails by (metis prod.collapse)
  have "\<not> gerror_live 5 s" using g(1) by (simp add: gerror_pending_def gerror_live_def)
  then have nl: "\<not> gerror_live 5 s1" by (simp add: gerror_live_dma[OF dma_core_write[OF w]])
  have step: "msi_step ?f c True sm_prev_eventq_pending IRQ_CTRL_EVENTQ_IRQEN EVENTQ_IRQ_CFG0_LO
      EVENTQ_IRQ_CFG0_HI EVENTQ_IRQ_CFG2 BIT_MSI_EVENTQ_ABT s
      = update_irq_levels_n 3 c (gerror_toggled 5 s1)"
    using ev addr w nl by (simp add: msi_step_def emit_msi_with_def raise_gerror_alt)
  have skip: "msi_step h c False pv en lo hi d b t = t" for h pv en lo hi d b t
    by (simp add: msi_step_def)
  have body: "update_irq_levels c s = drive_lines c False True False
      ((update_irq_levels_n 3 c (gerror_toggled 5 s1))\<lparr>sm_prev_gerror_pending := False,
         sm_prev_eventq_pending := True, sm_prev_priq_pending := False\<rparr>)"
    using ev(1,3) g(1) p unfolding u irq_levels_body_def Let_def by (simp add: skip step del: One_nat_def)
  have "gerror_live 5 (update_irq_levels c s)"
    unfolding body using nl by (simp add: update_irq_mono gerror_live_toggled)
  then have "gerror_pending (update_irq_levels c s)"
    by (auto simp: gerror_live_def gerror_pending_def)
  moreover have "fld IRQ_CTRL_GERROR_IRQEN (update_irq_levels c s) = fld IRQ_CTRL_GERROR_IRQEN s"
    using irq_core_reg[OF irq_core_update, of IRQ_CTRL c s] by (simp add: get_field_def)
  ultimately show ?thesis using g(2) by (simp add: body)
qed

section \<open>A small instance\<close>

text \<open>The device as constructed, with all registers zero, and a configuration whose memory answers
  every read with \<open>rd\<close> of the address, accepts every write and grants no direct access.\<close>

definition smmu_init :: "'s \<Rightarrow> 's smmu" where
  "smmu_init e = \<lparr>sm_regs = (\<lambda>_. 0), sm_iotlb = [], sm_iotlb_lru = [], sm_stalled = [],
     sm_next_stag = 1, sm_ste_cache = [], sm_ste_cache_lru = [], sm_cd_cache = [],
     sm_cd_cache_lru = [], sm_ste_cache_secure = [], sm_cd_cache_secure = [],
     sm_dma_dmi_cache = [], sm_prev_gerror_pending = False, sm_prev_eventq_pending = False,
     sm_prev_priq_pending = False, sm_prev_s_gerror_pending = False,
     sm_prev_s_eventq_pending = False, sm_last_irq_gerror_level = False,
     sm_last_irq_eventq_level = False, sm_last_irq_priq_level = False,
     sm_last_irq_s_gerror_level = False, sm_last_irq_s_eventq_level = False, sm_irq_log = [],
     sm_upstream_log = [], sm_env = e\<rparr>"

definition test_cfg :: "(u64 \<Rightarrow> u8 list) \<Rightarrow> unit smmu_cfg" where
  "test_cfg rd = \<lparr>p_pamax = 48, p_sidsize = 16, p_ato = True, p_iotlb_size = 256, p_iidr = 0,
     irq_bound = (\<lambda>_. True), tbus_bound = [True],
     dma_b_transport = (\<lambda>txn d s. (txn\<lparr>gp_response := Ok_response,
        gp_data := (if gp_command txn = Read_command then rd (gp_address txn) else gp_data txn)\<rparr>,
        d, [], s)),
     dma_get_dmi = (\<lambda>txn dmi s. (False, txn, dmi, [], s)),
     host_peek = (\<lambda>p n _. rd p), host_poke = (\<lambda>_ _ s. s)\<rparr>"

lemma test_cfg_simps [simp]:
  "p_pamax (test_cfg rd) = 48" "p_iotlb_size (test_cfg rd) = 256"
  "tbus_bound (test_cfg rd) = [True]"
  by (simp_all add: test_cfg_def)

lemma test_cfg_grant [simp]: "grant_dma_dmi (test_cfg rd) a cmd s = (False, s)"
  by (simp add: grant_dma_dmi_def test_cfg_def)

lemma test_cfg_region: "sm_dma_dmi_cache s = [] \<Longrightarrow> dma_region (test_cfg rd) a n w s = (None, s)"
  by (simp add: dma_region_def find_dma_dmi_def)

lemma test_cfg_write: "fst (dma_write (test_cfg rd) a bs s)"
  by (auto simp: dma_write_def dma_txn_def test_cfg_def split: prod.split option.split)

lemma test_cfg_read: "sm_dma_dmi_cache s = [] \<Longrightarrow> dma_read (test_cfg rd) a n s = (Some (rd a), s)"
  by (simp add: dma_read_def test_cfg_region) (simp add: test_cfg_def dma_txn_def)


theorem update_irq_levels_fuel_witness:
  "update_irq_levels_n 9 (test_cfg (\<lambda>_. [])) (smmu_init ()) = update_irq_levels (test_cfg (\<lambda>_. [])) (smmu_init ())"
  by (rule update_irq_levels_fuel) simp

end
