(* ===== verification/SmmuWalk.thy ===== *)
theory SmmuWalk
  imports SmmuDev
begin

text \<open>
  Configuration lookup and the page-table walk of \<^verbatim>\<open>smmuv3.h\<close>: \<^verbatim>\<open>find_ste\<close>, \<^verbatim>\<open>read_cd\<close> and
  \<^verbatim>\<open>smmuv3_ptw64\<close>.

  The walk is cut where the source has its phases: selecting the translation table, deriving the
  start level and table base (\<open>ptw_setup\<close>), the descent (\<open>ptw_loop\<close>, by recursion on the number
  of levels below the current one), and the permission checks on the leaf (\<open>ptw_leaf\<close>). A stage-1
  walk under stage 2 translates the address of each descriptor with a stage-2 walk, which itself
  never nests. Shift counts are checked where they can reach the width of the type.
\<close>

section \<open>Stream table entries\<close>

definition decode_ste :: "u8 list \<Rightarrow> smmu_ste" where
  "decode_ste buf =
     (let dw0 = load_at 8 0 buf; dw1 = load_at 8 8 buf; dw2 = load_at 8 16 buf;
          dw3 = load_at 8 24 buf
      in \<lparr>ste_valid = (dw0 AND 1 \<noteq> 0),
          ste_config = ucast (extract64 dw0 1 3),
          ste_s1contextptr = dw0 AND 0x000FFFFFFFFFFFC0,
          ste_s2ttb = dw3 AND 0x000FFFFFFFFFFFF0,
          ste_s2t0sz = ucast (extract64 dw2 32 6),
          ste_s2sl0 = ucast (extract64 dw2 38 2),
          ste_s2tg = ucast (extract64 dw2 46 2),
          ste_s2ps = ucast (extract64 dw2 48 3),
          ste_s1fmt = ucast (extract64 dw0 4 2),
          ste_s1stalld = (extract64 dw1 27 1 \<noteq> 0),
          ste_s1cdmax = ucast (extract64 dw0 59 5),
          ste_vmid = ucast (extract64 dw2 0 16),
          ste_s2affd = (extract64 dw2 60 1 \<noteq> 0),
          ste_s2hd = (extract64 dw2 56 1 \<noteq> 0),
          ste_eats = (extract64 dw1 28 2 \<noteq> 0),
          ste_strw = ucast (extract64 dw1 30 2)\<rparr>)"

definition STE_CACHE_MAX :: nat where "STE_CACHE_MAX = 1024"
definition CD_CACHE_MAX :: nat where "CD_CACHE_MAX = 1024"

definition ste_cache_insert :: "u32 \<Rightarrow> smmu_ste \<Rightarrow> 's smmu \<Rightarrow> 's smmu" where
  "ste_cache_insert sid ste s =
     (let s1 = (if STE_CACHE_MAX \<le> length (sm_ste_cache s) \<and> sm_ste_cache_lru s \<noteq> []
                then s\<lparr>sm_ste_cache := AList.delete (last (sm_ste_cache_lru s)) (sm_ste_cache s),
                       sm_ste_cache_lru := butlast (sm_ste_cache_lru s)\<rparr>
                else s)
      in s1\<lparr>sm_ste_cache := AList.update sid ste (sm_ste_cache s1),
             sm_ste_cache_lru := sid # sm_ste_cache_lru s1\<rparr>)"

text \<open>The address of the entry for a stream: linear or two-level table. \<open>None\<close> when the stream is
  outside the table or the first-level descriptor is unreadable or invalid.\<close>

definition ste_address :: "'s smmu_cfg \<Rightarrow> u32 \<Rightarrow> 's smmu \<Rightarrow> u64 option \<times> 's smmu" where
  "ste_address c sid s =
     (let strtab_base = reg_pair STRTAB_BASE_HI STRTAB_BASE_LO s AND 0x000FFFFFFFFFFFC0;
          fmt = fld STRTAB_BASE_CFG_FMT s;
          log2size0 = fld STRTAB_BASE_CFG_LOG2SIZE s;
          log2size = (if 31 < log2size0 then 31 else log2size0)
      in if fmt = 0
         then if push_bit (unat log2size) 1 \<le> sid then (None, s)
              else (Some (strtab_base + ucast sid * 64), s)
         else let split = unat (fld STRTAB_BASE_CFG_SPLIT s);
                  l1_idx = drop_bit split sid;
                  l2_idx = sid AND (push_bit split 1 - 1)
              in if push_bit (unat log2size) 1 \<le> l1_idx then (None, s)
                 else case dma_read c (strtab_base + ucast l1_idx * 8) 8 s of
                     (None, s1) \<Rightarrow> (None, set_gerror c BIT_SFM_ERR s1)
                   | (Some buf, s1) \<Rightarrow>
                       (let l1std = load_at 8 0 buf
                        in if l1std AND 1 = 0 then (None, s1)
                           else (Some ((l1std AND NOT (push_bit 6 1 - 1)) + ucast l2_idx * 64), s1)))"

text \<open>\<^verbatim>\<open>find_ste\<close>: the returned flag, the entry as the out-parameter leaves it, and the state.\<close>

definition find_ste :: "'s smmu_cfg \<Rightarrow> u32 \<Rightarrow> 's smmu \<Rightarrow> bool \<times> smmu_ste \<times> 's smmu" where
  "find_ste c sid s =
     (case map_of (sm_ste_cache s) sid of
        Some ste \<Rightarrow> (ste_valid ste, ste, s)
      | None \<Rightarrow>
         (case ste_address c sid s of
            (None, s1) \<Rightarrow> (False, ste_init, s1)
          | (Some ste_addr, s1) \<Rightarrow>
             (case dma_read c ste_addr 64 s1 of
                (None, s2) \<Rightarrow> (False, ste_init, set_gerror c BIT_SFM_ERR s2)
              | (Some buf, s2) \<Rightarrow>
                 (let ste = decode_ste buf in (ste_valid ste, ste, ste_cache_insert sid ste s2)))))"

section \<open>Context descriptors\<close>

definition decode_cd :: "u8 list \<Rightarrow> smmu_cd" where
  "decode_cd buf =
     (let w = (\<lambda>i. ucast (load_at 4 (i * 4) buf) :: u32)
      in \<lparr>cd_valid = (drop_bit 31 (w 0) AND 0x1 \<noteq> 0),
          cd_aarch64 = (drop_bit 9 (w 1) AND 0x1 \<noteq> 0),
          cd_ttb0 = push_bit 32 (ucast (w 3 AND 0xFFFFF)) OR ucast (w 2 AND 0xFFFFFFF0),
          cd_ttb1 = push_bit 32 (ucast (w 5 AND 0xFFFFF)) OR ucast (w 4 AND 0xFFFFFFF0),
          cd_tsz0 = w 0 AND 0x3F,
          cd_tsz1 = drop_bit 16 (w 0) AND 0x3F,
          cd_tg0 = drop_bit 6 (w 0) AND 0x3,
          cd_tg1 = drop_bit 22 (w 0) AND 0x3,
          cd_ips = w 1 AND 0x7,
          cd_asid = ucast (drop_bit 16 (w 1) AND 0xFFFF),
          cd_epd0 = (drop_bit 14 (w 0) AND 0x1 \<noteq> 0),
          cd_epd1 = (drop_bit 30 (w 0) AND 0x1 \<noteq> 0),
          cd_affd = (drop_bit 3 (w 1) AND 0x1 \<noteq> 0),
          cd_ha = (drop_bit 11 (w 1) AND 0x1 \<noteq> 0),
          cd_hd = (drop_bit 10 (w 1) AND 0x1 \<noteq> 0)\<rparr>)"

definition cd_cache_insert :: "u64 \<Rightarrow> smmu_cd \<Rightarrow> 's smmu \<Rightarrow> 's smmu" where
  "cd_cache_insert key cd s =
     (let s1 = (if CD_CACHE_MAX \<le> length (sm_cd_cache s) \<and> sm_cd_cache_lru s \<noteq> []
                then s\<lparr>sm_cd_cache := AList.delete (last (sm_cd_cache_lru s)) (sm_cd_cache s),
                       sm_cd_cache_lru := butlast (sm_cd_cache_lru s)\<rparr>
                else s)
      in s1\<lparr>sm_cd_cache := AList.update key cd (sm_cd_cache s1),
             sm_cd_cache_lru := key # sm_cd_cache_lru s1\<rparr>)"

definition cd_address ::
  "'s smmu_cfg \<Rightarrow> smmu_ste \<Rightarrow> u32 \<Rightarrow> 's smmu \<Rightarrow> u64 option \<times> 's smmu" where
  "cd_address c ste substream_id s =
     (if ste_s1fmt ste = 0 \<or> ste_s1cdmax ste = 0
      then (Some (ste_s1contextptr ste + ucast substream_id * 64), s)
      else let split = (if ste_s1fmt ste = 1 then 4 else 8 :: nat);
               l1_idx = drop_bit split (ucast substream_id :: u64);
               l2_idx = (ucast substream_id :: u64) AND (push_bit split 1 - 1)
           in case dma_read c (ste_s1contextptr ste + l1_idx * 8) 8 s of
                (None, s1) \<Rightarrow> (None, set_gerror c BIT_SFM_ERR s1)
              | (Some buf, s1) \<Rightarrow>
                  (let l1cd = load_at 8 0 buf
                   in if l1cd AND 1 = 0 then (None, s1)
                      else (Some ((l1cd AND NOT 0xFFF) + l2_idx * 64), s1)))"

definition read_cd ::
  "'s smmu_cfg \<Rightarrow> u32 \<Rightarrow> smmu_ste \<Rightarrow> u32 \<Rightarrow> 's smmu \<Rightarrow> bool \<times> smmu_cd \<times> 's smmu" where
  "read_cd c sid ste substream_id s =
     (let key = push_bit 32 (ucast sid) OR ucast substream_id :: u64
      in case map_of (sm_cd_cache s) key of
           Some cd \<Rightarrow> (cd_valid cd, cd, s)
         | None \<Rightarrow>
            (case cd_address c ste substream_id s of
               (None, s1) \<Rightarrow> (False, cd_init, s1)
             | (Some cd_addr, s1) \<Rightarrow>
                (case dma_read c cd_addr 64 s1 of
                   (None, s2) \<Rightarrow> (False, cd_init, set_gerror c BIT_SFM_ERR s2)
                 | (Some buf, s2) \<Rightarrow>
                    (let cd = decode_cd buf in (cd_valid cd, cd, cd_cache_insert key cd s2)))))"

section \<open>The page-table walk\<close>

record ptw_ctx =
  cx_ttb0 :: u64
  cx_ttb1 :: u64
  cx_tsz0 :: u32
  cx_tsz1 :: u32
  cx_tg0 :: u32
  cx_tg1 :: u32
  cx_ips :: u32
  cx_sl0 :: u32
  cx_epd0 :: bool
  cx_epd1 :: bool
  cx_stage :: int
  cx_iova :: u64
  cx_access :: acc_flags
  cx_s2_enabled :: bool
  cx_ste :: "smmu_ste option"
  cx_affd :: bool
  cx_ha :: bool
  cx_hd :: bool

definition ctx_init :: ptw_ctx where
  "ctx_init = \<lparr>cx_ttb0 = 0, cx_ttb1 = 0, cx_tsz0 = 0, cx_tsz1 = 0, cx_tg0 = 0, cx_tg1 = 0,
     cx_ips = 0, cx_sl0 = 0, cx_epd0 = False, cx_epd1 = False, cx_stage = 0, cx_iova = 0,
     cx_access = ACC_NONE, cx_s2_enabled = False, cx_ste = None, cx_affd = False, cx_ha = False,
     cx_hd = False\<rparr>"

record trans_req =
  rq_iova :: u64
  rq_access :: acc_flags
  rq_sid :: u32
  rq_substream_id :: u32
  rq_ste :: smmu_ste
  rq_cd :: smmu_cd
  rq_pa :: u64
  rq_prot :: acc_flags
  rq_page_size :: u64
  rq_err :: bool
  rq_event_type :: u32
  rq_tableattrs :: u32
  rq_fault_level :: int
  rq_descriptor :: u64
  rq_leaf_desc_addr :: u64

definition req_init :: trans_req where
  "req_init = \<lparr>rq_iova = 0, rq_access = ACC_NONE, rq_sid = 0, rq_substream_id = 0,
     rq_ste = ste_init, rq_cd = cd_init, rq_pa = 0, rq_prot = ACC_NONE, rq_page_size = 0,
     rq_err = False, rq_event_type = 0, rq_tableattrs = 0, rq_fault_level = 0, rq_descriptor = 0,
     rq_leaf_desc_addr = 0\<rparr>"

text \<open>Selecting the table: base, input size exponent, granule and walk-disable bit.\<close>

definition ptw_select :: "ptw_ctx \<Rightarrow> u64 \<times> u32 \<times> u32 \<times> bool" where
  "ptw_select ctx =
     (if cx_stage ctx = 1
      then if cx_iova ctx AND push_bit 63 1 = 0
           then (cx_ttb0 ctx, cx_tsz0 ctx, cx_tg0 ctx, cx_epd0 ctx)
           else (cx_ttb1 ctx, cx_tsz1 ctx,
                 (if cx_tg1 ctx = 1 then 2 else if cx_tg1 ctx = 2 then 0
                  else if cx_tg1 ctx = 3 then 1 else 0xFF),
                 cx_epd1 ctx)
      else (cx_ttb0 ctx, cx_tsz0 ctx, cx_tg0 ctx, cx_epd0 ctx))"

text \<open>The granule: grain size, initial level, first level that may hold a block.\<close>

definition ptw_granule :: "u32 \<Rightarrow> (u32 \<times> int \<times> int) option" where
  "ptw_granule tg =
     (if tg = 1 then Some (16, 3, 2) else if tg = 2 then Some (14, 3, 2)
      else if tg = 0 then Some (12, 2, 1) else None)"

record ptw_params =
  pp_ttbr :: u64
  pp_level :: int
  pp_grainsize :: u32
  pp_stride :: u32
  pp_outputsize :: u32
  pp_firstblocklevel :: int

text \<open>The start level; \<open>None\<close> when the input or the configured level is out of range.\<close>

definition ptw_start_level :: "ptw_ctx \<Rightarrow> u32 \<Rightarrow> u32 \<Rightarrow> u32 \<Rightarrow> u32 \<Rightarrow> int \<Rightarrow> int option" where
  "ptw_start_level ctx inputsize grainsize stride outputsize level0 =
     (if cx_stage ctx = 1
      then let level = (if grainsize < 16 \<and> grainsize + 3 * stride < inputsize then 0
                        else if grainsize + 2 * stride < inputsize then 1
                        else if grainsize + stride < inputsize then 2
                        else level0)
           in if inputsize < 25 \<or> 48 < inputsize
                \<or> extract64 (cx_iova ctx) (unat inputsize) (unat (64 - inputsize)) \<noteq> 0
              then None else Some level
      else let level = (if grainsize = 12 then 2 else 3) - uint (cx_sl0 ctx)
           in if check_s2_startlevel outputsize level stride then Some level else None)"

text \<open>The table base: alignment to the first table, and the concatenated first-level tables of a
  stage-2 walk. \<open>Inl\<close> is undefined behaviour, \<open>None\<close> a fault.\<close>

definition ptw_base :: "ptw_ctx \<Rightarrow> u64 \<Rightarrow> u32 \<Rightarrow> u32 \<Rightarrow> u32 \<Rightarrow> int \<Rightarrow> u64 option res" where
  "ptw_base ctx ttbr0 inputsize grainsize stride level =
     (let level_coverage = grainsize + word_of_int (3 - level + 1) * stride;
          concat_bits = (if cx_stage ctx = 2 \<and> level_coverage < inputsize
                         then inputsize - level_coverage else 0)
      in if 4 < concat_bits then Inr None
         else let baselowerbound = 3 + inputsize - (word_of_int (3 - level) * stride + grainsize)
              in if 64 \<le> baselowerbound then Inl Bad_shift
                 else let ttbr1 = extract64 ttbr0 0 48 AND NOT (push_bit (unat baselowerbound) 1 - 1);
                          concat_idx = drop_bit (unat level_coverage) (cx_iova ctx)
                                         AND (push_bit (unat concat_bits) 1 - 1);
                          table_bytes = push_bit (unat (grainsize + stride)) 1
                      in Inr (Some (if 0 < concat_bits then ttbr1 OR (concat_idx * table_bytes)
                                    else ttbr1)))"

text \<open>Everything before the descent: a fault event, or the parameters of the descent.\<close>

definition ptw_setup :: "'s smmu_cfg \<Rightarrow> ptw_ctx \<Rightarrow> (u32 + ptw_params) res" where
  "ptw_setup c ctx =
     (case ptw_select ctx of (ttbr, tsz, tg, epd) \<Rightarrow>
      if epd then Inr (Inl EVT_F_TRANSLATION)
      else case ptw_granule tg of
        None \<Rightarrow> Inr (Inl EVT_F_ADDR_SIZE)
      | Some (grainsize, level0, firstblock) \<Rightarrow>
         (let inputsize = 64 - tsz;
              os = OUTPUT_SIZE_MAP ! unat (cx_ips ctx);
              outputsize = (if p_pamax c < os then p_pamax c else os);
              stride = grainsize - 3
          in if length OUTPUT_SIZE_MAP \<le> unat (cx_ips ctx) then Inl Out_of_bounds
             else case ptw_start_level ctx inputsize grainsize stride outputsize level0 of
               None \<Rightarrow> Inr (Inl EVT_F_ADDR_SIZE)
             | Some level \<Rightarrow>
                (case ptw_base ctx ttbr inputsize grainsize stride level of
                   Inl e \<Rightarrow> Inl e
                 | Inr None \<Rightarrow> Inr (Inl EVT_F_ADDR_SIZE)
                 | Inr (Some base) \<Rightarrow>
                     if check_out_addr base outputsize
                     then Inr (Inr \<lparr>pp_ttbr = base, pp_level = level, pp_grainsize = grainsize,
                                     pp_stride = stride, pp_outputsize = outputsize,
                                     pp_firstblocklevel = firstblock\<rparr>)
                     else Inr (Inl EVT_F_ADDR_SIZE))))"

definition ptw_fault :: "u32 \<Rightarrow> int \<Rightarrow> trans_req \<Rightarrow> trans_req" where
  "ptw_fault ev level req = req\<lparr>rq_event_type := ev, rq_fault_level := level, rq_err := True\<rparr>"

text \<open>What a descriptor means at a level. \<open>rem\<close> is the number of levels below the current one, so
  the level is \<open>3 - rem\<close>.\<close>

datatype ptw_next = Ptw_fault u32 | Ptw_leaf | Ptw_table

definition ptw_level :: "nat \<Rightarrow> int" where
  "ptw_level rem = 3 - int rem"

definition desc_address :: "ptw_params \<Rightarrow> u64 \<Rightarrow> u64" where
  "desc_address pp desc = extract64 desc 0 48 AND NOT (push_bit (unat (pp_grainsize pp)) 1 - 1)"

definition ptw_classify :: "ptw_params \<Rightarrow> nat \<Rightarrow> u64 \<Rightarrow> ptw_next" where
  "ptw_classify pp rem desc =
     (let ty = desc AND 0x3
      in if rem = 0 then (if ty \<noteq> 3 then Ptw_fault EVT_F_TRANSLATION else Ptw_leaf)
         else if ty = 0 \<or> ty = 2 then Ptw_fault EVT_F_TRANSLATION
         else if ty = 1
         then (if ptw_level rem < pp_firstblocklevel pp then Ptw_fault EVT_F_TRANSLATION else Ptw_leaf)
         else if \<not> check_out_addr (desc_address pp desc) (pp_outputsize pp)
         then Ptw_fault EVT_F_ADDR_SIZE else Ptw_table)"

definition ptw_index :: "ptw_params \<Rightarrow> nat \<Rightarrow> u64 \<Rightarrow> u64" where
  "ptw_index pp rem iova =
     (let descmask = push_bit (unat (pp_grainsize pp)) 1 - 1;
          addrselectbottom = of_nat rem * pp_stride pp + pp_grainsize pp
      in (drop_bit (unat (addrselectbottom - 3)) iova AND descmask) AND NOT 7)"

text \<open>The request after a descriptor was read: its address, and the attributes of a table.\<close>

definition ptw_note :: "nat \<Rightarrow> u64 \<Rightarrow> u64 \<Rightarrow> trans_req \<Rightarrow> trans_req" where
  "ptw_note rem descaddr desc req =
     (let req1 = req\<lparr>rq_leaf_desc_addr := descaddr\<rparr>
      in if rem \<noteq> 0 \<and> desc AND 0x3 = 3
         then req1\<lparr>rq_tableattrs := rq_tableattrs req1 OR ucast (extract64 desc 59 5)\<rparr> else req1)"

text \<open>The descent. \<open>fetch\<close> translates the address of a descriptor when the walk runs under stage 2;
  it gives \<open>None\<close> when that translation faults. The result is the leaf: its level, the address bits
  of the descriptor and the descriptor. No table is found at the last level.\<close>

type_synonym 's ptw_fetch = "u64 \<Rightarrow> 's smmu \<Rightarrow> (u64 option \<times> 's smmu) res"

fun ptw_loop ::
  "'s smmu_cfg \<Rightarrow> 's ptw_fetch \<Rightarrow> u64 \<Rightarrow> ptw_params \<Rightarrow> nat \<Rightarrow> u64 \<Rightarrow> trans_req \<Rightarrow> 's smmu
     \<Rightarrow> ((int \<times> u64 \<times> u64) option \<times> trans_req \<times> 's smmu) res" where
  "ptw_loop c fetch iova pp rem ttbr req s =
     (case fetch (ttbr OR ptw_index pp rem iova) s of
        Inl e \<Rightarrow> Inl e
      | Inr (None, s1) \<Rightarrow> Inr (None, ptw_fault EVT_F_TRANSLATION (ptw_level rem) req, s1)
      | Inr (Some descaddr, s1) \<Rightarrow>
        (case dma_read c descaddr 8 s1 of
           (None, s2) \<Rightarrow> Inr (None, ptw_fault EVT_F_WALK_EABT (ptw_level rem) req, s2)
         | (Some buf, s2) \<Rightarrow>
           (case ptw_classify pp rem (load_at 8 0 buf) of
              Ptw_fault ev \<Rightarrow>
                Inr (None, ptw_fault ev (ptw_level rem) (ptw_note rem descaddr (load_at 8 0 buf) req), s2)
            | Ptw_leaf \<Rightarrow>
                Inr (Some (ptw_level rem, desc_address pp (load_at 8 0 buf), load_at 8 0 buf),
                     ptw_note rem descaddr (load_at 8 0 buf) req, s2)
            | Ptw_table \<Rightarrow>
                (case rem of
                   0 \<Rightarrow> Inl No_return
                 | Suc rem' \<Rightarrow> ptw_loop c fetch iova pp rem' (desc_address pp (load_at 8 0 buf))
                                 (ptw_note rem descaddr (load_at 8 0 buf) req) s2))))"

declare ptw_loop.simps [simp del]

text \<open>The leaf: access flag (with its hardware update), then the permissions of the stage.\<close>

definition ptw_access_flag ::
  "'s smmu_cfg \<Rightarrow> ptw_ctx \<Rightarrow> u64 \<Rightarrow> u32 \<Rightarrow> trans_req \<Rightarrow> 's smmu \<Rightarrow> (u64 \<times> u32) option \<times> 's smmu" where
  "ptw_access_flag c ctx desc attrs req s =
     (let affd = (if cx_stage ctx = 1 then cx_affd ctx
                  else case cx_ste ctx of Some ste \<Rightarrow> ste_s2affd ste | None \<Rightarrow> False);
          httu_af = ((cx_stage ctx = 1 \<and> cx_ha ctx)
                     \<or> (cx_stage ctx = 2 \<and> (case cx_ste ctx of Some ste \<Rightarrow> ste_s2hd ste | None \<Rightarrow> False)))
      in if attrs AND push_bit 8 1 \<noteq> 0 then (Some (desc, attrs), s)
         else let new_desc = desc OR push_bit 10 1;
                  (done, s1) = (if httu_af then dma_write c (rq_leaf_desc_addr req) (store_le 8 new_desc) s
                                else (False, s))
              in if done then (Some (new_desc, attrs OR push_bit 8 1), s1)
                 else if affd then (Some (desc, attrs), s1) else (None, s1))"

definition ptw_stage1_perm ::
  "'s smmu_cfg \<Rightarrow> ptw_ctx \<Rightarrow> u64 \<Rightarrow> u64 \<Rightarrow> u32 \<Rightarrow> trans_req \<Rightarrow> 's smmu \<Rightarrow> acc_flags option \<times> 's smmu" where
  "ptw_stage1_perm c ctx leaf desc attrs req s =
     (if attrs AND push_bit 4 1 = 0 then (None, s)
      else if attrs AND push_bit 5 1 \<noteq> 0
      then if cx_access ctx = ACC_WO
           then let new_desc = desc AND NOT (push_bit 7 1);
                    (done, s1) = (if cx_hd ctx \<and> drop_bit 51 leaf AND 1 \<noteq> 0
                                  then dma_write c (rq_leaf_desc_addr req) (store_le 8 new_desc) s
                                  else (False, s))
                in if done then (Some ACC_RW, s1) else (None, s1)
           else (Some (ACC_RW AND NOT ACC_WO), s)
      else (Some ACC_RW, s))"

definition ptw_stage2_perm :: "acc_flags \<Rightarrow> u32 \<Rightarrow> acc_flags option" where
  "ptw_stage2_perm acc s2attrs =
     (let ap = drop_bit 4 s2attrs AND 0x3
      in if ap = 0 then None
         else if ap = 1 then (if acc = ACC_WO then None else Some (ACC_RW AND NOT ACC_WO))
         else if ap = 2 then (if acc = ACC_RO then None else Some (ACC_RW AND NOT ACC_RO))
         else Some ACC_RW)"

definition leaf_attrs :: "u64 \<Rightarrow> u32" where
  "leaf_attrs desc = ucast (extract64 desc 2 10 OR push_bit 10 (extract64 desc 52 12))"

definition ptw_leaf ::
  "'s smmu_cfg \<Rightarrow> ptw_ctx \<Rightarrow> ptw_params \<Rightarrow> int \<Rightarrow> u64 \<Rightarrow> u64 \<Rightarrow> trans_req \<Rightarrow> 's smmu
     \<Rightarrow> bool \<times> trans_req \<times> 's smmu" where
  "ptw_leaf c ctx pp level ttbr desc req s =
     (if \<not> check_out_addr ttbr (pp_outputsize pp)
      then (False, ptw_fault EVT_F_ADDR_SIZE level req, s)
      else
      let page_bits = pp_stride pp * word_of_int (4 - level) + 3;
          pa = ttbr OR (cx_iova ctx AND (push_bit (unat page_bits) 1 - 1));
          req1 = req\<lparr>rq_page_size := ucast page_bits, rq_pa := pa, rq_descriptor := desc\<rparr>;
          s2attrs = leaf_attrs desc;
          attrs = (if cx_stage ctx = 1
                   then s2attrs OR push_bit 11 (extract32 (rq_tableattrs req1) 0 2)
                          OR push_bit 5 (extract32 (rq_tableattrs req1) 3 1)
                   else s2attrs);
          req2 = req1\<lparr>rq_prot := ACC_RW\<rparr>
      in case ptw_access_flag c ctx desc attrs req2 s of
           (None, s1) \<Rightarrow> (False, ptw_fault EVT_F_ACCESS level req2, s1)
         | (Some (desc1, attrs1), s1) \<Rightarrow>
            (case (if cx_stage ctx = 1 then ptw_stage1_perm c ctx desc desc1 attrs1 req2 s1
                   else (ptw_stage2_perm (cx_access ctx) s2attrs, s1)) of
               (None, s2) \<Rightarrow> (False, ptw_fault EVT_F_PERMISSION level req2, s2)
             | (Some prot, s2) \<Rightarrow> (True, req2\<lparr>rq_prot := prot\<rparr>, s2)))"

definition ptw_walk ::
  "'s smmu_cfg \<Rightarrow> 's ptw_fetch \<Rightarrow> ptw_ctx \<Rightarrow> trans_req \<Rightarrow> 's smmu \<Rightarrow> (bool \<times> trans_req \<times> 's smmu) res" where
  "ptw_walk c fetch ctx req0 s =
     (let req = req0\<lparr>rq_err := False, rq_tableattrs := 0, rq_fault_level := 0\<rparr>
      in case ptw_setup c ctx of
           Inl e \<Rightarrow> Inl e
         | Inr (Inl ev) \<Rightarrow> Inr (False, req\<lparr>rq_event_type := ev, rq_err := True\<rparr>, s)
         | Inr (Inr pp) \<Rightarrow>
            (case ptw_loop c fetch (cx_iova ctx) pp (nat (3 - pp_level pp)) (pp_ttbr pp) req s of
               Inl e \<Rightarrow> Inl e
             | Inr (None, req1, s1) \<Rightarrow> Inr (False, req1, s1)
             | Inr (Some (level, ttbr, desc), req1, s1) \<Rightarrow>
                 Inr (ptw_leaf c ctx pp level ttbr desc req1 s1)))"

definition no_fetch :: "'s ptw_fetch" where
  "no_fetch a s = Inr (Some a, s)"

definition s2_context :: "smmu_ste \<Rightarrow> u64 \<Rightarrow> acc_flags \<Rightarrow> ptw_ctx" where
  "s2_context ste iova acc =
     ctx_init\<lparr>cx_ttb0 := ste_s2ttb ste, cx_tsz0 := ste_s2t0sz ste, cx_tg0 := ste_s2tg ste,
        cx_ips := ste_s2ps ste, cx_sl0 := ste_s2sl0 ste, cx_epd0 := False, cx_stage := 2,
        cx_iova := iova, cx_access := acc, cx_s2_enabled := False, cx_ste := Some ste,
        cx_affd := ste_s2affd ste, cx_ha := False, cx_hd := ste_s2hd ste\<rparr>"

definition s2_fetch :: "'s smmu_cfg \<Rightarrow> ptw_ctx \<Rightarrow> 's ptw_fetch" where
  "s2_fetch c ctx descaddr s =
     (case cx_ste ctx of
        None \<Rightarrow> Inl Null_pointer
      | Some ste \<Rightarrow>
          bind_res (ptw_walk c no_fetch (s2_context ste descaddr ACC_RO)
                     (req_init\<lparr>rq_iova := descaddr, rq_access := ACC_RO, rq_pa := descaddr\<rparr>) s)
            (\<lambda>(ok, s2req, s1).
               Inr (if \<not> ok \<or> rq_err s2req then None else Some (rq_pa s2req), s1)))"

definition smmuv3_ptw64 ::
  "'s smmu_cfg \<Rightarrow> ptw_ctx \<Rightarrow> trans_req \<Rightarrow> 's smmu \<Rightarrow> (bool \<times> trans_req \<times> 's smmu) res" where
  "smmuv3_ptw64 c ctx req s =
     ptw_walk c (if cx_stage ctx = 1 \<and> cx_s2_enabled ctx then s2_fetch c ctx else no_fetch) ctx req s"

section \<open>The walk changes only memory and its cache\<close>

definition fetch_frame :: "'s ptw_fetch \<Rightarrow> bool" where
  "fetch_frame f \<longleftrightarrow> (\<forall>a s r s'. f a s = Inr (r, s') \<longrightarrow> dma_core s' = dma_core s)"

lemma no_fetch_frame: "fetch_frame no_fetch"
  by (auto simp: fetch_frame_def no_fetch_def)

lemma ptw_loop_frame:
  assumes "fetch_frame f"
  shows "ptw_loop c f iova pp n ttbr req s = Inr (r, req', s') \<Longrightarrow> dma_core s' = dma_core s"
proof (induction n arbitrary: ttbr req s)
  case 0
  then show ?case
    using assms unfolding fetch_frame_def
    by (subst (asm) ptw_loop.simps)
       (auto dest!: dma_core_read split: sum.split_asm option.split_asm prod.split_asm ptw_next.split_asm)
next
  case (Suc n)
  show ?case
    using Suc.prems assms unfolding fetch_frame_def
    by (subst (asm) ptw_loop.simps)
       (auto dest!: dma_core_read Suc.IH split: sum.split_asm option.split_asm prod.split_asm
         ptw_next.split_asm)
qed

lemma ptw_access_flag_frame: "ptw_access_flag c ctx d a req s = (r, s') \<Longrightarrow> dma_core s' = dma_core s"
  by (auto simp: ptw_access_flag_def Let_def dest!: dma_core_write split: prod.splits if_splits)

lemma ptw_stage1_perm_frame: "ptw_stage1_perm c ctx l d a req s = (r, s') \<Longrightarrow> dma_core s' = dma_core s"
  by (auto simp: ptw_stage1_perm_def Let_def dest!: dma_core_write split: prod.splits if_splits)

lemma ptw_leaf_frame: "ptw_leaf c ctx pp lv t d req s = (ok, req', s') \<Longrightarrow> dma_core s' = dma_core s"
  by (auto simp: ptw_leaf_def Let_def dest!: ptw_access_flag_frame ptw_stage1_perm_frame
      split: prod.splits if_splits option.splits)

lemma ptw_walk_frame:
  assumes "fetch_frame f" "ptw_walk c f ctx req s = Inr (ok, req', s')"
  shows "dma_core s' = dma_core s"
  using assms(2) unfolding ptw_walk_def Let_def
  by (auto dest!: ptw_loop_frame[OF assms(1)] ptw_leaf_frame
      split: sum.split_asm option.split_asm prod.split_asm)

lemma s2_fetch_frame: "fetch_frame (s2_fetch c ctx)"
  by (auto simp: fetch_frame_def s2_fetch_def dest: ptw_walk_frame[OF no_fetch_frame]
      split: option.splits prod.splits)

lemma smmuv3_ptw64_frame: "smmuv3_ptw64 c ctx req s = Inr (ok, req', s') \<Longrightarrow> dma_core s' = dma_core s"
  by (auto simp: smmuv3_ptw64_def split: if_splits
      dest: ptw_walk_frame[OF no_fetch_frame] ptw_walk_frame[OF s2_fetch_frame])

section \<open>The parameters of the descent\<close>

lemma ptw_granule_cases:
  "ptw_granule tg = Some (g, l0, fb) \<Longrightarrow>
     (g = 16 \<and> l0 = 3 \<and> fb = 2) \<or> (g = 14 \<and> l0 = 3 \<and> fb = 2) \<or> (g = 12 \<and> l0 = 2 \<and> fb = 1)"
  by (auto simp: ptw_granule_def split: if_splits)

lemma ptw_start_level_range:
  assumes "ptw_start_level ctx i g st os l0 = Some level" "l0 = 2 \<or> l0 = 3"
  shows "0 \<le> level \<and> level \<le> 3"
proof -
  have m: "- 1 \<le> uint (cx_sl0 ctx)"
    using unsigned_greater_eq[where ?'a = int, of "cx_sl0 ctx"] by linarith
  from assms show ?thesis
    by (auto simp: m ptw_start_level_def Let_def check_s2_startlevel_def split: if_splits)
qed

lemma ptw_setup_params:
  assumes "ptw_setup c ctx = Inr (Inr pp)"
  shows "pp_grainsize pp \<in> {12, 14, 16}" "pp_stride pp = pp_grainsize pp - 3"
    "0 \<le> pp_level pp" "pp_level pp \<le> 3"
proof -
  have "pp_grainsize pp \<in> {12, 14, 16} \<and> pp_stride pp = pp_grainsize pp - 3
      \<and> 0 \<le> pp_level pp \<and> pp_level pp \<le> 3"
    using assms unfolding ptw_setup_def Let_def
    by (auto dest!: ptw_granule_cases ptw_start_level_range
        split: prod.split_asm if_split_asm option.split_asm sum.split_asm)
  then show "pp_grainsize pp \<in> {12, 14, 16}" "pp_stride pp = pp_grainsize pp - 3"
    "0 \<le> pp_level pp" "pp_level pp \<le> 3" by simp_all
qed

section \<open>The descent\<close>

lemma ptw_classify_last: "ptw_classify pp 0 desc \<noteq> Ptw_table"
  by (simp add: ptw_classify_def Let_def)

lemma ptw_note_err [simp]: "rq_err (ptw_note n a d req) = rq_err req"
  by (simp add: ptw_note_def Let_def)

lemma ptw_fault_fields [simp]:
  "rq_err (ptw_fault ev l req)" "rq_event_type (ptw_fault ev l req) = ev"
  by (simp_all add: ptw_fault_def)

definition walk_events :: "u32 set" where
  "walk_events = {EVT_F_WALK_EABT, EVT_F_TRANSLATION, EVT_F_ADDR_SIZE, EVT_F_ACCESS, EVT_F_PERMISSION}"

lemma ptw_classify_event: "ptw_classify pp n d = Ptw_fault ev \<Longrightarrow> ev \<in> walk_events"
  by (auto simp: ptw_classify_def Let_def walk_events_def split: if_splits)

lemma ptw_classify_leaf: "ptw_classify pp n d = Ptw_leaf \<Longrightarrow> d AND 1 \<noteq> 0"
proof -
  assume "ptw_classify pp n d = Ptw_leaf"
  then have "d AND 3 = 1 \<or> d AND 3 = 3"
    by (auto simp: ptw_classify_def Let_def split: if_splits)
  moreover have "d AND 1 = (d AND 3) AND 1" by (simp add: and.assoc)
  ultimately show ?thesis by auto
qed

lemma ptw_loop_total:
  assumes "\<And>a s. \<exists>r s'. f a s = Inr (r, s')"
  shows "\<exists>r req' s'. ptw_loop c f iova pp n ttbr req s = Inr (r, req', s')"
proof (induction n arbitrary: ttbr req s)
  case 0
  obtain da s1 where "f (ttbr OR ptw_index pp 0 iova) s = Inr (da, s1)" using assms by blast
  then show ?case
    using ptw_classify_last
    by (subst ptw_loop.simps) (auto split: option.split prod.split ptw_next.split)
next
  case (Suc n)
  obtain da s1 where "f (ttbr OR ptw_index pp (Suc n) iova) s = Inr (da, s1)" using assms by blast
  then show ?case
    by (subst ptw_loop.simps) (auto simp: Suc.IH split: option.split prod.split ptw_next.split)
qed

lemma ptw_loop_cases:
  assumes "ptw_loop c f iova pp n ttbr req s = Inr (r, req', s')"
  obtains (fault) "r = None" "rq_err req'" "rq_event_type req' \<in> walk_events"
  | (leaf) a d where "r = Some (ptw_level n, desc_address pp d, d)" "req' = ptw_note n a d req"
      "d AND 1 \<noteq> 0"
  | (table) m a d s1 where "n = Suc m"
      "ptw_loop c f iova pp m (desc_address pp d) (ptw_note n a d req) s1 = Inr (r, req', s')"
proof (cases "f (ttbr OR ptw_index pp n iova) s")
  case (Inl e)
  with assms show ?thesis by (subst (asm) ptw_loop.simps) simp
next
  case (Inr x)
  obtain da s1 where x: "x = (da, s1)" by (cases x)
  show ?thesis
  proof (cases da)
    case None
    with assms Inr x have "r = None" "req' = ptw_fault EVT_F_TRANSLATION (ptw_level n) req"
      by (subst (asm) ptw_loop.simps, simp)+
    then show ?thesis by (intro fault) (simp_all add: walk_events_def)
  next
    case (Some a)
    obtain bo s2 where rd: "dma_read c a 8 s1 = (bo, s2)" by fastforce
    show ?thesis
    proof (cases bo)
      case None
      with assms Inr x Some rd have "r = None" "req' = ptw_fault EVT_F_WALK_EABT (ptw_level n) req"
        by (subst (asm) ptw_loop.simps, simp)+
      then show ?thesis by (intro fault) (simp_all add: walk_events_def)
    next
      case (Some buf)
      let ?d = "load_at 8 0 buf"
      note eq = assms[unfolded ptw_loop.simps[of c f iova pp n ttbr req s]]
      note eq = eq[unfolded Inr x \<open>da = Some a\<close>, simplified, unfolded rd Some, simplified]
      show ?thesis
      proof (cases "ptw_classify pp n ?d")
        case (Ptw_fault ev)
        then show ?thesis using eq ptw_classify_event[OF Ptw_fault] by (intro fault) auto
      next
        case Ptw_leaf
        then show ?thesis using eq ptw_classify_leaf[OF Ptw_leaf] by (intro leaf[of ?d a]) auto
      next
        case Ptw_table
        then show ?thesis using eq table[of _ ?d a s2] by (cases n) auto
      qed
    qed
  qed
qed

text \<open>A descent ends in a leaf whose address bits are those of its descriptor, or in a fault.\<close>

lemma ptw_loop_result:
  assumes "ptw_loop c f iova pp n ttbr req s = Inr (r, req', s')" "n \<le> 3" "\<not> rq_err req"
  shows "case r of None \<Rightarrow> rq_err req' \<and> rq_event_type req' \<in> walk_events
         | Some (level, t, d) \<Rightarrow> \<not> rq_err req' \<and> t = desc_address pp d \<and> 0 \<le> level \<and> level \<le> 3
             \<and> d AND 1 \<noteq> 0"
  using assms
proof (induction n arbitrary: ttbr req s)
  case 0
  from 0(1) show ?case
    by (cases rule: ptw_loop_cases) (use 0 in \<open>auto simp: ptw_level_def\<close>)
next
  case (Suc n)
  from Suc.prems(1) show ?case
  proof (cases rule: ptw_loop_cases)
    case (table m a d s1)
    then show ?thesis using Suc.prems Suc.IH[of _ "ptw_note (Suc n) a d req" s1] by simp
  qed (use Suc.prems in \<open>auto simp: ptw_level_def\<close>)
qed

section \<open>The walk returns\<close>

lemma base_shift:
  fixes i k :: u32
  assumes "unat k \<le> unat i + 3" "unat i \<le> 64" "unat i + 3 < unat k + 64"
  shows "\<not> 64 \<le> 3 + i - k"
proof -
  have s: "unat (3 + i) = unat i + 3"
    using assms(2) by (simp add: unat_word_ariths(1))
  then have "k \<le> 3 + i" using assms(1) by (simp add: word_le_nat_alt)
  then have "unat (3 + i - k) = unat i + 3 - unat k" using s by (simp add: unat_sub)
  then show ?thesis using assms(3) by (simp add: word_le_nat_alt)
qed

lemma ptw_base_stage1:
  assumes st: "cx_stage ctx = 1"
    and l: "ptw_start_level ctx i g (g - 3) os l0 = Some level"
    and g: "(g = 16 \<and> l0 = 3) \<or> (g = 14 \<and> l0 = 3) \<or> (g = 12 \<and> l0 = 2)"
  shows "\<exists>b. ptw_base ctx ttbr i g (g - 3) level = Inr b"
proof -
  let ?k = "word_of_int (3 - level) * (g - 3) + g :: u32"
  have i: "25 \<le> unat i" "unat i \<le> 48"
    using l st by (auto simp: ptw_start_level_def Let_def word_less_nat_alt split: if_splits)
  have "unat ?k \<le> unat i + 3"
    using l st g i by (auto simp: ptw_start_level_def Let_def word_less_nat_alt split: if_splits)
  moreover have "unat ?k \<ge> 12"
    using l st g by (auto simp: ptw_start_level_def Let_def split: if_splits)
  ultimately have "\<not> 64 \<le> 3 + i - ?k" using i by (intro base_shift) linarith+
  then show ?thesis using st by (simp add: ptw_base_def Let_def)
qed

text \<open>A stage-2 input range that reaches at least down to the entries of the first table, so that the
  alignment of the table base is not negative.\<close>

definition s2_covers :: "ptw_ctx \<Rightarrow> bool" where
  "s2_covers ctx \<longleftrightarrow> unat (cx_tsz0 ctx) < 64 \<and>
     (case ptw_granule (cx_tg0 ctx) of
        None \<Rightarrow> True
      | Some (g, _, _) \<Rightarrow>
          unat g + nat (3 - ((if g = 12 then 2 else 3) - uint (cx_sl0 ctx))) * (unat g - 3)
            \<le> unat (64 - cx_tsz0 ctx) + 3)"

lemma level_cases: "0 \<le> l \<Longrightarrow> l \<le> 3 \<Longrightarrow> l = 0 \<or> l = 1 \<or> l = 2 \<or> l = (3 :: int)"
  by linarith

lemma ptw_base_stage2:
  assumes st: "cx_stage ctx = 2"
    and l: "ptw_start_level ctx i g (g - 3) os l0 = Some level"
    and g: "g = 16 \<or> g = 14 \<or> g = 12" and l0: "l0 = 2 \<or> l0 = 3" and i: "unat i \<le> 64"
    and cov: "unat g + nat (3 - level) * (unat g - 3) \<le> unat i + 3"
  shows "\<exists>b. ptw_base ctx ttbr i g (g - 3) level = Inr b"
proof -
  let ?k = "word_of_int (3 - level) * (g - 3) + g :: u32"
  let ?c = "g + word_of_int (3 - level + 1) * (g - 3) :: u32"
  have lv: "level = 0 \<or> level = 1 \<or> level = 2 \<or> level = 3"
    by (rule level_cases) (use ptw_start_level_range[OF l l0] in auto)
  have k: "unat ?k = unat g + nat (3 - level) * (unat g - 3)" "unat ?c = unat ?k + (unat g - 3)"
    "unat g \<le> 16" "12 \<le> unat g"
    using lv g by auto
  show ?thesis
  proof (cases "?c < i \<and> 4 < i - ?c")
    case True
    then show ?thesis using st by (simp add: ptw_base_def Let_def)
  next
    case False
    have "unat i \<le> unat ?c + 4"
    proof (cases "?c < i")
      case True
      then have "?c \<le> i" by (rule order.strict_implies_order)
      then have "unat (i - ?c) = unat i - unat ?c" by (rule unat_sub)
      then show ?thesis using True False by (simp add: word_less_nat_alt)
    qed (simp add: word_less_nat_alt)
    then have "\<not> 64 \<le> 3 + i - ?k" using cov k i by (intro base_shift) linarith+
    then show ?thesis using st False by (auto simp: ptw_base_def Let_def)
  qed
qed

definition walkable :: "ptw_ctx \<Rightarrow> bool" where
  "walkable ctx \<longleftrightarrow> unat (cx_ips ctx) < 8
     \<and> (cx_stage ctx = 1 \<or> (cx_stage ctx = 2 \<and> s2_covers ctx))"

lemma ptw_setup_total:
  assumes "walkable ctx" shows "\<exists>r. ptw_setup c ctx = Inr r"
proof -
  obtain ttbr tsz tg epd where sel: "ptw_select ctx = (ttbr, tsz, tg, epd)" by (metis surj_pair)
  have ips: "\<not> length OUTPUT_SIZE_MAP \<le> unat (cx_ips ctx)"
    using assms by (simp add: walkable_def OUTPUT_SIZE_MAP_def)
  show ?thesis
  proof (cases "epd \<or> ptw_granule tg = None")
    case True
    then show ?thesis using sel by (auto simp: ptw_setup_def split: option.split)
  next
    case False
    then obtain g l0 fb where gr: "ptw_granule tg = Some (g, l0, fb)" by auto
    let ?os = "if p_pamax c < OUTPUT_SIZE_MAP ! unat (cx_ips ctx) then p_pamax c
               else OUTPUT_SIZE_MAP ! unat (cx_ips ctx)"
    have "\<exists>b. ptw_base ctx ttbr (64 - tsz) g (g - 3) level = Inr b"
      if l: "ptw_start_level ctx (64 - tsz) g (g - 3) ?os l0 = Some level" for level
    proof (cases "cx_stage ctx = 1")
      case True
      then show ?thesis using ptw_base_stage1[OF True l] ptw_granule_cases[OF gr] by blast
    next
      case False
      then have two: "cx_stage ctx = 2" and sc: "s2_covers ctx" using assms by (auto simp: walkable_def)
      have t: "tsz = cx_tsz0 ctx" "tg = cx_tg0 ctx" using sel two by (auto simp: ptw_select_def)
      have lev: "level = (if g = 12 then 2 else 3) - uint (cx_sl0 ctx)"
        using l two by (auto simp: ptw_start_level_def Let_def split: if_splits)
      have "unat (64 - tsz) \<le> 64"
        using sc by (simp add: s2_covers_def t unat_sub_if' word_le_nat_alt)
      moreover have "unat g + nat (3 - level) * (unat g - 3) \<le> unat (64 - tsz) + 3"
        using sc gr unfolding s2_covers_def t lev by auto
      ultimately show ?thesis
        using ptw_base_stage2[OF two l] ptw_granule_cases[OF gr] by blast
    qed
    note base = this
    show ?thesis
    proof (cases "ptw_start_level ctx (64 - tsz) g (g - 3) ?os l0")
      case None
      then show ?thesis
        using False ips by (simp add: ptw_setup_def sel gr Let_def split del: if_split)
    next
      case (Some level)
      obtain b where "ptw_base ctx ttbr (64 - tsz) g (g - 3) level = Inr b" using base[OF Some] by blast
      then show ?thesis
        using False ips Some by (cases b) (auto simp: ptw_setup_def sel gr Let_def split: if_split_asm)
    qed
  qed
qed

section \<open>What a successful walk grants\<close>

lemma ptw_stage1_perm_grants:
  "ptw_stage1_perm c ctx l d a req s = (Some p, s') \<Longrightarrow> cx_access ctx \<in> {ACC_RO, ACC_WO}
     \<Longrightarrow> p AND cx_access ctx = cx_access ctx"
  by (auto simp: ptw_stage1_perm_def Let_def split: if_split_asm prod.split_asm)

lemma ptw_stage2_perm_grants:
  "ptw_stage2_perm acc a = Some p \<Longrightarrow> acc \<in> {ACC_RO, ACC_WO} \<Longrightarrow> p AND acc = acc"
  by (auto simp: ptw_stage2_perm_def Let_def split: if_split_asm)

definition page_bits :: "ptw_params \<Rightarrow> int \<Rightarrow> u32" where
  "page_bits pp level = pp_stride pp * word_of_int (4 - level) + 3"

lemma ptw_leaf_result:
  assumes "ptw_leaf c ctx pp level t d req s = (ok, req', s')" "\<not> rq_err req"
    and "cx_access ctx \<in> {ACC_RO, ACC_WO}"
  shows "rq_err req' = (\<not> ok)" "\<not> ok \<Longrightarrow> rq_event_type req' \<in> walk_events"
    and "ok \<Longrightarrow> rq_prot req' AND cx_access ctx = cx_access ctx \<and> rq_descriptor req' = d
          \<and> rq_page_size req' = ucast (page_bits pp level)
          \<and> rq_pa req' = t OR (cx_iova ctx AND (push_bit (unat (page_bits pp level)) 1 - 1))
          \<and> check_out_addr t (pp_outputsize pp)"
  using assms unfolding ptw_leaf_def Let_def page_bits_def[symmetric]
  by (auto simp: walk_events_def dest: ptw_stage1_perm_grants ptw_stage2_perm_grants
      split: if_split_asm prod.split_asm option.split_asm)

lemma page_bits_range:
  assumes "pp_grainsize pp \<in> {12, 14, 16}" "pp_stride pp = pp_grainsize pp - 3" "0 \<le> l" "l \<le> 3"
  shows "unat (page_bits pp l) = (unat (pp_grainsize pp) - 3) * nat (4 - l) + 3"
  using level_cases[OF assms(3,4)] assms(1,2) by (auto simp: page_bits_def)

definition walk_grants :: "'s smmu_cfg \<Rightarrow> ptw_ctx \<Rightarrow> trans_req \<Rightarrow> bool" where
  "walk_grants c ctx req \<longleftrightarrow>
     (\<exists>pp l. ptw_setup c ctx = Inr (Inr pp) \<and> 0 \<le> l \<and> l \<le> 3
        \<and> unat (rq_page_size req) = (unat (pp_grainsize pp) - 3) * nat (4 - l) + 3
        \<and> rq_pa req = desc_address pp (rq_descriptor req)
             OR (cx_iova ctx AND (push_bit (unat (rq_page_size req)) 1 - 1))
        \<and> check_out_addr (desc_address pp (rq_descriptor req)) (pp_outputsize pp)
        \<and> rq_descriptor req AND 1 \<noteq> 0
        \<and> rq_prot req AND cx_access ctx = cx_access ctx)"

lemma unat_ucast_u32: "unat (ucast (n :: u32) :: u64) = unat n"
  by (rule unat_ucast_32_64)

lemma ptw_walk_result:
  assumes w: "ptw_walk c f ctx req s = Inr (ok, req', s')" and a: "cx_access ctx \<in> {ACC_RO, ACC_WO}"
  shows "rq_err req' = (\<not> ok) \<and> (if ok then walk_grants c ctx req' else rq_event_type req' \<in> walk_events)"
proof (cases "ptw_setup c ctx")
  case (Inl e)
  with w show ?thesis by (simp add: ptw_walk_def)
next
  case (Inr r)
  note S = Inr
  let ?req = "req\<lparr>rq_err := False, rq_tableattrs := 0, rq_fault_level := 0\<rparr>"
  show ?thesis
  proof (cases r)
    case (Inl ev)
    have "ev \<in> walk_events"
      using S unfolding Inl ptw_setup_def Let_def
      by (auto simp: walk_events_def split: prod.split_asm if_split_asm option.split_asm sum.split_asm)
    then show ?thesis using w S Inl by (auto simp: ptw_walk_def)
  next
    case (Inr pp)
    have su: "ptw_setup c ctx = Inr (Inr pp)" using S Inr by simp
    note params = ptw_setup_params[OF su]
    let ?n = "nat (3 - pp_level pp)"
    obtain lf req1 s1 where lp: "ptw_loop c f (cx_iova ctx) pp ?n (pp_ttbr pp) ?req s = Inr (lf, req1, s1)"
      using w by (auto simp: ptw_walk_def su Let_def split: sum.split_asm)
    have res: "case lf of None \<Rightarrow> rq_err req1 \<and> rq_event_type req1 \<in> walk_events
         | Some (level, t, d) \<Rightarrow> \<not> rq_err req1 \<and> t = desc_address pp d \<and> 0 \<le> level \<and> level \<le> 3
             \<and> d AND 1 \<noteq> 0"
      by (rule ptw_loop_result[OF lp]) (use params in auto)
    show ?thesis
    proof (cases lf)
      case None
      then show ?thesis using w lp res by (auto simp: ptw_walk_def su Let_def)
    next
      case (Some x)
      obtain l t d where x: "x = (l, t, d)" by (cases x)
      have leaf: "ptw_leaf c ctx pp l t d req1 s1 = (ok, req', s')"
        using w lp Some x by (simp add: ptw_walk_def su Let_def)
      have r1: "\<not> rq_err req1" "t = desc_address pp d" "0 \<le> l" "l \<le> 3" "d AND 1 \<noteq> 0"
        using res Some x by auto
      note lr = ptw_leaf_result[OF leaf r1(1) a]
      have "walk_grants c ctx req'" if ok
      proof -
        have "unat (rq_page_size req') = unat (page_bits pp l)" using lr(3) that by (simp add: unat_ucast_u32)
        then show ?thesis
          unfolding walk_grants_def
          using lr(3) that r1 su page_bits_range[OF params(1,2) r1(3,4)] by (intro exI[of _ pp] exI[of _ l]) auto
      qed
      then show ?thesis using lr by auto
    qed
  qed
qed

lemma ptw_walk_total:
  assumes "walkable ctx" "\<And>a s. \<exists>r s'. f a s = Inr (r, s')"
  shows "\<exists>ok req' s'. ptw_walk c f ctx req s = Inr (ok, req', s')"
proof -
  obtain r where r: "ptw_setup c ctx = Inr r" using ptw_setup_total[OF assms(1)] by blast
  show ?thesis
  proof (cases r)
    case (Inr pp)
    obtain lf req1 s1 where "ptw_loop c f (cx_iova ctx) pp (nat (3 - pp_level pp)) (pp_ttbr pp)
        (req\<lparr>rq_err := False, rq_tableattrs := 0, rq_fault_level := 0\<rparr>) s = Inr (lf, req1, s1)"
      using ptw_loop_total[of f, OF assms(2)] by blast
    then show ?thesis using r Inr
      by (cases "\<exists>l t d. lf = Some (l, t, d)")
         (auto simp: ptw_walk_def Let_def split: option.split intro: prod_cases3)
  next
    case (Inl ev)
    then have "ptw_walk c f ctx req s = Inr (False, req\<lparr>rq_err := True, rq_tableattrs := 0,
        rq_fault_level := 0, rq_event_type := ev\<rparr>, s)" using r by (simp add: ptw_walk_def Let_def)
    then show ?thesis by blast
  qed
qed

lemma walkable_s2: "walkable (s2_context ste a acc) \<longleftrightarrow> walkable (s2_context ste 0 ACC_RO)"
  by (auto simp: walkable_def s2_covers_def s2_context_def split: option.splits)

lemma s2_fetch_total:
  assumes "cx_ste ctx = Some ste" "walkable (s2_context ste 0 ACC_RO)"
  shows "\<exists>r s'. s2_fetch c ctx a s = Inr (r, s')"
proof -
  have "\<exists>ok req' s'. ptw_walk c no_fetch (s2_context ste a ACC_RO)
      (req_init\<lparr>rq_iova := a, rq_access := ACC_RO, rq_pa := a\<rparr>) s = Inr (ok, req', s')"
    by (rule ptw_walk_total) (use assms(2) walkable_s2[of ste a ACC_RO] in \<open>simp_all add: no_fetch_def\<close>)
  then obtain ok req' s' where "ptw_walk c no_fetch (s2_context ste a ACC_RO)
      (req_init\<lparr>rq_iova := a, rq_access := ACC_RO, rq_pa := a\<rparr>) s = Inr (ok, req', s')" by blast
  then show ?thesis using assms(1) by (simp add: s2_fetch_def)
qed

definition nested_ok :: "ptw_ctx \<Rightarrow> bool" where
  "nested_ok ctx \<longleftrightarrow> (if cx_stage ctx = 1 \<and> cx_s2_enabled ctx
     then (case cx_ste ctx of Some ste \<Rightarrow> walkable (s2_context ste 0 ACC_RO) | None \<Rightarrow> False) else True)"

lemma ptw64_result:
  assumes "walkable ctx" "nested_ok ctx" "cx_access ctx \<in> {ACC_RO, ACC_WO}"
  shows "\<exists>ok req' s'. smmuv3_ptw64 c ctx req s = Inr (ok, req', s') \<and> rq_err req' = (\<not> ok)
           \<and> (if ok then walk_grants c ctx req' else rq_event_type req' \<in> walk_events)
           \<and> dma_core s' = dma_core s"
proof -
  let ?f = "if cx_stage ctx = 1 \<and> cx_s2_enabled ctx then s2_fetch c ctx else no_fetch"
  have "\<exists>r s'. ?f a s = Inr (r, s')" for a s
    using assms(2) s2_fetch_total[of ctx _ c a s]
    by (auto simp: nested_ok_def no_fetch_def split: option.split_asm if_split_asm)
  then obtain ok req' s' where w: "ptw_walk c ?f ctx req s = Inr (ok, req', s')"
    using ptw_walk_total[OF assms(1), of ?f] by blast
  then have "smmuv3_ptw64 c ctx req s = Inr (ok, req', s')" by (simp add: smmuv3_ptw64_def)
  then show ?thesis using ptw_walk_result[OF w assms(3)] smmuv3_ptw64_frame by blast
qed



text \<open>The second table root of a context descriptor is unusable: the range check of a stage-1 walk
  requires the bits above the input size to be zero, and the second root is selected by bit 63.\<close>

lemma upper_half_faults:
  assumes "cx_stage ctx = 1" "bit (cx_iova ctx) 63" "unat (cx_ips ctx) < 8"
  shows "\<exists>ev. ptw_setup c ctx = Inr (Inl ev)"
proof -
  have no_level: "ptw_start_level ctx i g st os l0 = None" for i g st os l0
  proof (cases "i < 25 \<or> 48 < i")
    case False
    then have i: "25 \<le> unat i" "unat i \<le> 48" by (auto simp: word_less_nat_alt)
    have "unat (64 - i) = 64 - unat i" using i by (simp add: unat_sub word_le_nat_alt)
    then have "bit (extract64 (cx_iova ctx) (unat i) (unat (64 - i))) (63 - unat i)"
      using i assms(2) by (simp only: extract64_def and_exp_minus_one) (simp add: bit_simps)
    then have "extract64 (cx_iova ctx) (unat i) (unat (64 - i)) \<noteq> 0" by auto
    then show ?thesis using assms(1) by (simp add: ptw_start_level_def Let_def)
  qed (use assms(1) in \<open>auto simp: ptw_start_level_def Let_def\<close>)
  show ?thesis
    using assms(3)
    by (auto simp: ptw_setup_def Let_def no_level OUTPUT_SIZE_MAP_def split: prod.split option.split)
qed

text \<open>Concatenated first-level tables of stage 2 are taken to lie a whole table range apart instead of
  one table: with a 40-bit input and 4 KiB granule starting at level 1, the upper half is looked up
  2 MiB above the base and not in the next 4 KiB page.\<close>

lemma concatenated_tables_misplaced:
  "ptw_base (ctx_init\<lparr>cx_stage := 2, cx_iova := 0x8000000000\<rparr>) 0x40000000 40 12 9 1
     = Inr (Some 0x40200000)"
  by (simp add: ptw_base_def Let_def ctx_init_def extract64_def)

end
