(* ===== verification/SmmuQueue.thy ===== *)
theory SmmuQueue
  imports SmmuWalk
begin

text \<open>
  The queues the SMMUv3 writes: events, secure events and page requests
  (\<^verbatim>\<open>record_event\<close>, \<^verbatim>\<open>record_event_full\<close>, \<^verbatim>\<open>record_secure_event\<close>, \<^verbatim>\<open>record_pri\<close>,
  \<^verbatim>\<open>queue_full\<close>), and parking a transaction on a stallable fault (\<^verbatim>\<open>stall_and_wait\<close>).

  The four recording functions share their body; \<open>queue_record\<close> is that body over the registers of
  a queue, the error bit of its overflow, and the world's error and interrupt functions.
  \<^verbatim>\<open>stall_and_wait\<close> blocks its thread; it is cut at the wait into \<open>stall_begin\<close> and \<open>stall_end\<close>.
\<close>

definition queue_full :: "u32 \<Rightarrow> u32 \<Rightarrow> u32 \<Rightarrow> bool" where
  "queue_full prodv cons log2sz =
     (let n = unat (clamp_queue_log2size log2sz);
          m = push_bit n 1 - 1;
          wrap = push_bit n 1
      in prodv XOR cons = wrap \<and> prodv AND m = cons AND m)"

record queue_regs =
  q_base_hi :: u32
  q_base_lo :: u32
  q_log2size :: reg_field
  q_prod :: u32
  q_cons :: u32
  q_abt_bit :: nat

definition queue_base :: "queue_regs \<Rightarrow> 's smmu \<Rightarrow> u64" where
  "queue_base q s = push_bit 32 (ucast (get_reg (q_base_hi q) s))
     OR (ucast (get_reg (q_base_lo q) s) AND NOT (push_bit 5 1 - 1))"

definition queue_log2 :: "queue_regs \<Rightarrow> 's smmu \<Rightarrow> u32" where
  "queue_log2 q s = clamp_queue_log2size (fld (q_log2size q) s)"

definition queue_record ::
  "'s smmu_cfg \<Rightarrow> (nat \<Rightarrow> 's smmu \<Rightarrow> 's smmu) \<Rightarrow> ('s smmu \<Rightarrow> 's smmu) \<Rightarrow> queue_regs \<Rightarrow> u8 list
     \<Rightarrow> 's smmu \<Rightarrow> 's smmu" where
  "queue_record c gerr upd q bytes s =
     (let base = queue_base q s;
          log2size = queue_log2 q s;
          prodv = get_reg (q_prod q) s;
          cons = get_reg (q_cons q) s
      in if queue_full prodv cons log2size then gerr (q_abt_bit q) s
         else let idx = prodv AND (push_bit (unat log2size) 1 - 1);
                  addr = base + ucast idx * of_nat (length bytes);
                  (ok, s1) = dma_write c addr bytes s
              in if \<not> ok then gerr (q_abt_bit q) s1
                 else upd (set_reg (q_prod q)
                        ((prodv + 1) AND (push_bit (unat (log2size + 1)) 1 - 1)) s1))"

definition EVENTQ :: queue_regs where
  "EVENTQ = \<lparr>q_base_hi = EVENTQ_BASE_HI, q_base_lo = EVENTQ_BASE_LO,
     q_log2size = EVENTQ_BASE_LOG2SIZE, q_prod = EVENTQ_PROD, q_cons = EVENTQ_CONS,
     q_abt_bit = BIT_EVENTQ_ABT\<rparr>"

definition S_EVENTQ :: queue_regs where
  "S_EVENTQ = \<lparr>q_base_hi = S_EVENTQ_BASE_HI, q_base_lo = S_EVENTQ_BASE_LO,
     q_log2size = S_EVENTQ_BASE_LOG2SIZE, q_prod = S_EVENTQ_PROD, q_cons = S_EVENTQ_CONS,
     q_abt_bit = BIT_EVENTQ_ABT\<rparr>"

definition PRIQ :: queue_regs where
  "PRIQ = \<lparr>q_base_hi = PRIQ_BASE_HI, q_base_lo = PRIQ_BASE_LO,
     q_log2size = PRIQ_BASE_LOG2SIZE, q_prod = PRIQ_PROD, q_cons = PRIQ_CONS,
     q_abt_bit = BIT_PRIQ_ABT\<rparr>"

definition event_bytes :: "u32 \<Rightarrow> u32 \<Rightarrow> u64 \<Rightarrow> u32 \<Rightarrow> u8 list" where
  "event_bytes ty sid iova info =
     [ucast ty, 0, 0, 0] @ store_le 4 (ucast sid) @ store_le 8 iova @ store_le 4 (ucast info)
     @ replicate 12 0"

definition record_event :: "'s smmu_cfg \<Rightarrow> u32 \<Rightarrow> u32 \<Rightarrow> u64 \<Rightarrow> u32 \<Rightarrow> 's smmu \<Rightarrow> 's smmu" where
  "record_event c ty sid iova info s =
     (if fld CR0_EVENTQEN s = 0 then s
      else queue_record c (set_gerror c) (update_irq_levels c) EVENTQ
             (event_bytes ty sid iova info) s)"

definition record_secure_event :: "'s smmu_cfg \<Rightarrow> u32 \<Rightarrow> u32 \<Rightarrow> u64 \<Rightarrow> u32 \<Rightarrow> 's smmu \<Rightarrow> 's smmu" where
  "record_secure_event c ty sid iova info s =
     (if fld S_CR0_EVENTQEN s = 0 then s
      else queue_record c (set_secure_gerror c) (update_secure_irq_levels c) S_EVENTQ
             (event_bytes ty sid iova info) s)"

definition event_full_bytes ::
  "u32 \<Rightarrow> u32 \<Rightarrow> u32 \<Rightarrow> u64 \<Rightarrow> tlm_command \<Rightarrow> u32 \<Rightarrow> u32 \<Rightarrow> u32 \<Rightarrow> bool \<Rightarrow> u8 list" where
  "event_full_bytes ty sid ssid iova cmd cls fault_level stag stall =
     (let rnw = (cmd = Read_command);
          ssv = (ssid \<noteq> 0);
          w0 = (ucast ty AND 0xFF) OR (if ssv then push_bit 12 1 else 0)
                 OR push_bit 13 (ucast ssid AND 0xFFFFF) OR push_bit 32 (ucast sid);
          w1 = (ucast stag AND 0xFFFF) OR (if rnw then push_bit 17 1 else 0)
                 OR push_bit 20 (ucast cls AND 0x3) OR (if stall then push_bit 23 1 else 0)
                 OR push_bit 24 (ucast fault_level AND 0x7)
      in store_le 8 w0 @ store_le 8 w1 @ store_le 8 iova @ store_le 8 0)"

definition record_event_full ::
  "'s smmu_cfg \<Rightarrow> u32 \<Rightarrow> u32 \<Rightarrow> u32 \<Rightarrow> u64 \<Rightarrow> tlm_command \<Rightarrow> u32 \<Rightarrow> u32 \<Rightarrow> u32 \<Rightarrow> bool
     \<Rightarrow> 's smmu \<Rightarrow> 's smmu" where
  "record_event_full c ty sid ssid iova cmd cls fault_level stag stall s =
     (if fld CR0_EVENTQEN s = 0 then s
      else queue_record c (set_gerror c) (update_irq_levels c) EVENTQ
             (event_full_bytes ty sid ssid iova cmd cls fault_level stag stall) s)"

definition record_pri :: "'s smmu_cfg \<Rightarrow> u32 \<Rightarrow> u64 \<Rightarrow> u32 \<Rightarrow> 's smmu \<Rightarrow> 's smmu" where
  "record_pri c sid iova flags s =
     (if fld CR0_PRIQEN s = 0 then s
      else queue_record c (set_gerror c) (update_irq_levels c) PRIQ
             (store_le 4 (ucast sid) @ store_le 4 (ucast flags) @ store_le 8 iova) s)"

section \<open>Stalled transactions\<close>

definition stall_begin ::
  "'s smmu_cfg \<Rightarrow> u32 \<Rightarrow> u32 \<Rightarrow> u64 \<Rightarrow> u32 \<Rightarrow> u32 \<Rightarrow> u32 \<Rightarrow> tlm_command \<Rightarrow> 's smmu \<Rightarrow> u32 \<times> 's smmu" where
  "stall_begin c sid ssid iova fault_type fault_level cls cmd s =
     (let stag = sm_next_stag s;
          entry = \<lparr>st_stag = stag, st_sid = sid, st_substream_id = ssid, st_aborted = False,
                    st_notified = False\<rparr>;
          s1 = s\<lparr>sm_next_stag := stag + 1, sm_stalled := AList.update stag entry (sm_stalled s)\<rparr>
      in (stag, record_event_full c fault_type sid ssid iova cmd cls fault_level stag True s1))"

text \<open>After the wait: the thread holds a reference to the parked entry, which is gone if the map was
  cleared in the meantime.\<close>

definition stall_end :: "u32 \<Rightarrow> 's smmu \<Rightarrow> (bool \<times> 's smmu) res" where
  "stall_end stag s =
     (case map_of (sm_stalled s) stag of
        None \<Rightarrow> Inl Null_pointer
      | Some e \<Rightarrow> Inr (st_aborted e, s\<lparr>sm_stalled := AList.delete stag (sm_stalled s)\<rparr>))"

section \<open>The queues as ring buffers\<close>

text \<open>The number of entries between the indices, the slots they occupy, and the condition both indices
  and the fill level satisfy while only the device and a well-behaved driver move them.\<close>

abbreviation queue_exp :: "queue_regs \<Rightarrow> 's smmu \<Rightarrow> nat" where
  "queue_exp q s \<equiv> unat (queue_log2 q s)"

definition ring_count :: "nat \<Rightarrow> nat \<Rightarrow> nat \<Rightarrow> nat" where
  "ring_count n p c = (p + 2 ^ (n + 1) - c) mod 2 ^ (n + 1)"

definition queue_count :: "queue_regs \<Rightarrow> 's smmu \<Rightarrow> nat" where
  "queue_count q s =
     ring_count (queue_exp q s) (unat (get_reg (q_prod q) s)) (unat (get_reg (q_cons q) s))"

definition queue_slots :: "queue_regs \<Rightarrow> 's smmu \<Rightarrow> nat set" where
  "queue_slots q s = (\<lambda>i. (unat (get_reg (q_cons q) s) + i) mod 2 ^ queue_exp q s) ` {..<queue_count q s}"

definition queue_inv :: "queue_regs \<Rightarrow> 's smmu \<Rightarrow> bool" where
  "queue_inv q s \<longleftrightarrow> unat (get_reg (q_prod q) s) < 2 ^ (queue_exp q s + 1)
     \<and> unat (get_reg (q_cons q) s) < 2 ^ (queue_exp q s + 1)
     \<and> queue_count q s \<le> 2 ^ queue_exp q s"

lemma ring_count_cases:
  assumes "p < 2 ^ (n + 1)" "c < 2 ^ (n + 1)"
  shows "ring_count n p c = (if c \<le> p then p - c else p + 2 ^ (n + 1) - c)"
proof (cases "c \<le> p")
  case True
  then have "p + 2 ^ (n + 1) - c = (p - c) + 2 ^ (n + 1)" by simp
  then have "ring_count n p c = (p - c) mod 2 ^ (n + 1)" unfolding ring_count_def by (simp only: mod_add_self2)
  then show ?thesis using True assms by simp
qed (use assms in \<open>simp add: ring_count_def\<close>)

lemma ring_slot_free:
  assumes "p < 2 ^ (n + 1)" "c < 2 ^ (n + 1)" "ring_count n p c < 2 ^ n"
  shows "p mod 2 ^ n \<notin> (\<lambda>i. (c + i) mod 2 ^ n) ` {..<ring_count n p c}"
proof
  assume "p mod 2 ^ n \<in> (\<lambda>i. (c + i) mod 2 ^ n) ` {..<ring_count n p c}"
  then obtain i where i: "i < ring_count n p c" "p mod 2 ^ n = (c + i) mod 2 ^ n" by auto
  let ?k = "ring_count n p c"
  have "p mod 2 ^ n = (c + ?k) mod 2 ^ n"
  proof -
    have "(c + ?k) mod 2 ^ (n + 1) = p"
      using assms(1,2) by (auto simp: ring_count_cases)
    then show ?thesis by (metis mod_mod_cancel power_Suc2 add.commute dvd_triv_left plus_1_eq_Suc)
  qed
  with i(2) have "(c + ?k) mod 2 ^ n = (c + i) mod 2 ^ n" by simp
  moreover have "c + i \<le> c + ?k" using i(1) by simp
  ultimately have "2 ^ n dvd (c + ?k) - (c + i)" by (simp add: mod_eq_dvd_iff_nat)
  then have "2 ^ n dvd ?k - i" by simp
  moreover have "0 < ?k - i" "?k - i < 2 ^ n" using i(1) assms(3) by simp_all
  ultimately show False using nat_dvd_not_less by blast
qed

lemma ring_count_Suc:
  assumes "p < 2 ^ (n + 1)" "c < 2 ^ (n + 1)" "ring_count n p c < 2 ^ n"
  shows "ring_count n ((p + 1) mod 2 ^ (n + 1)) c = ring_count n p c + 1"
proof (cases "p + 1 < 2 ^ (n + 1)")
  case True
  then show ?thesis using assms by (auto simp: ring_count_cases)
next
  case False
  then have "p = 2 ^ (n + 1) - 1" using assms(1) by simp
  then show ?thesis using assms by (auto simp: ring_count_cases)
qed

lemma top_bit_iff:
  fixes x :: u32
  assumes "unat x < 2 ^ (n + 1)" "n < 32"
  shows "bit x n \<longleftrightarrow> 2 ^ n \<le> unat x"
proof -
  have b: "bit x n \<longleftrightarrow> odd (unat x div 2 ^ n)"
  proof -
    have "bit (unat x) n = bit x n" by (simp add: bit_unsigned_iff)
    then show ?thesis by (simp add: bit_iff_odd)
  qed
  show ?thesis
  proof (cases "2 ^ n \<le> unat x")
    case True
    then have "unat x div 2 ^ n = 1" using assms(1) by (intro div_nat_eqI) auto
    then show ?thesis using b True by simp
  next
    case False
    then show ?thesis using b by simp
  qed
qed

lemma unat_pow2_u32: "n < 32 \<Longrightarrow> unat ((2 :: u32) ^ n) = 2 ^ n"
proof -
  assume "n < 32"
  then have "(2 :: nat) ^ n < 2 ^ 32" by (intro power_strict_increasing) auto
  moreover have "(2 :: u32) ^ n = of_nat (2 ^ n)" by simp
  ultimately show ?thesis by (simp only: unat_of_nat) simp
qed

lemma flip_top_bit:
  fixes x :: u32
  assumes "unat x < 2 ^ (n + 1)" "n < 31"
  shows "unat (x XOR push_bit n 1) = (if 2 ^ n \<le> unat x then unat x - 2 ^ n else unat x + 2 ^ n)"
proof -
  have f: "x XOR push_bit n 1 = (if bit x n then x - 2 ^ n else x + 2 ^ n)"
  proof (cases "bit x n")
    case True
    then have "NOT x AND push_bit n 1 = 0" by (intro bit_eqI) (auto simp: bit_simps)
    then have "x - push_bit n 1 = x AND NOT (push_bit n 1)" "x AND NOT (push_bit n 1) = x XOR push_bit n 1"
      by (rule disjunctive_diff_eq_and_not, rule disjunctive_and_not_eq_xor)
    then show ?thesis using True by simp
  next
    case False
    then have "x AND push_bit n 1 = 0" by (intro bit_eqI) (auto simp: bit_simps)
    then have "x + push_bit n 1 = x XOR push_bit n 1" by (rule disjunctive_add_eq_xor)
    then show ?thesis using False by simp
  qed
  have e: "unat ((2 :: u32) ^ n) = 2 ^ n" using assms(2) by (simp add: unat_pow2_u32)
  show ?thesis
  proof (cases "2 ^ n \<le> unat x")
    case True
    then have "(2 :: u32) ^ n \<le> x" using e by (simp add: word_le_nat_alt)
    then show ?thesis using True f top_bit_iff[OF assms(1)] assms(2) e by (simp add: unat_sub)
  next
    case False
    have "unat x + 2 ^ n < 2 ^ (n + 1)" using False by simp
    also have "(2 :: nat) ^ (n + 1) \<le> 2 ^ 31" using assms(2) by (intro power_increasing) auto
    finally have "unat x + unat ((2 :: u32) ^ n) < 2 ^ 32" using e by simp
    then have "unat (x + 2 ^ n) = unat x + 2 ^ n" using e by (simp add: unat_word_ariths(1))
    then show ?thesis using False f top_bit_iff[OF assms(1)] assms(2) by simp
  qed
qed

lemma xor_eq_iff: "(p :: 'a::len word) XOR c = w \<longleftrightarrow> p = c XOR w"
  by (auto simp: bit_eq_iff bit_simps)

lemma queue_full_iff:
  fixes p c :: u32
  assumes "unat p < 2 ^ (n + 1)" "unat c < 2 ^ (n + 1)" "n = unat log2sz" "n \<le> 19"
  shows "queue_full p c log2sz \<longleftrightarrow> ring_count n (unat p) (unat c) = 2 ^ n"
proof -
  have clamp: "clamp_queue_log2size log2sz = log2sz"
    using assms(3,4) by (simp add: clamp_queue_log2size_def word_less_nat_alt)
  have same: "take_bit n (c XOR push_bit n 1) = take_bit n c"
    by (rule bit_eqI) (auto simp: bit_simps)
  have "queue_full p c log2sz \<longleftrightarrow> p = c XOR push_bit n 1"
    unfolding queue_full_def Let_def clamp assms(3)[symmetric] and_exp_minus_one xor_eq_iff
    using same by auto
  also have "\<dots> \<longleftrightarrow> unat p = unat (c XOR push_bit n 1)" by (simp add: word_unat_eq_iff)
  also have "\<dots> \<longleftrightarrow> ring_count n (unat p) (unat c) = 2 ^ n"
    using assms flip_top_bit[OF assms(2)] by (auto simp: ring_count_cases)
  finally show ?thesis .
qed

lemma queue_log2_le: "queue_exp q s \<le> 19"
  by (simp add: queue_log2_def clamp_queue_log2size_def word_less_nat_alt not_less)

lemma and_pow2_mod: "unat ((x :: u32) AND (push_bit n 1 - 1)) = unat x mod 2 ^ n"
proof -
  have "unat (take_bit n x) = take_bit n (unat x)" by (rule unsigned_take_bit_eq)
  then show ?thesis by (simp only: and_exp_minus_one) (simp only: take_bit_eq_mod)
qed

definition queue_ok :: "queue_regs \<Rightarrow> bool" where
  "queue_ok q \<longleftrightarrow> q_prod q \<noteq> q_cons q \<and> q_prod q \<noteq> fst (q_log2size q)
     \<and> list_all (\<lambda>r. r \<noteq> GERROR \<and> r \<noteq> S_GERROR) [q_prod q, q_cons q, fst (q_log2size q)]"

lemma queue_ok_all [simp]: "queue_ok EVENTQ" "queue_ok S_EVENTQ" "queue_ok PRIQ"
  by (simp_all add: queue_ok_def EVENTQ_def S_EVENTQ_def PRIQ_def)

lemma queue_frame:
  assumes "irq_core s' = irq_core s" "queue_ok q"
  shows "queue_log2 q s' = queue_log2 q s" "get_reg (q_prod q) s' = get_reg (q_prod q) s"
    "get_reg (q_cons q) s' = get_reg (q_cons q) s"
proof -
  obtain r st l where f: "q_log2size q = (r, st, l)" by (cases "q_log2size q")
  have "get_reg r s' = get_reg r s"
    using assms by (intro irq_core_reg) (auto simp: queue_ok_def f)
  then show "queue_log2 q s' = queue_log2 q s" by (simp add: queue_log2_def f get_field_def)
qed (use assms in \<open>auto simp: queue_ok_def intro!: irq_core_reg\<close>)

lemma queue_inv_frame:
  assumes "irq_core s' = irq_core s" "queue_ok q"
  shows "queue_inv q s' = queue_inv q s" "queue_count q s' = queue_count q s"
  unfolding queue_inv_def queue_count_def queue_frame[OF assms] by (rule refl)+

lemma queue_advance:
  assumes "queue_inv q s" "queue_count q s < 2 ^ queue_exp q s" "queue_ok q"
  defines "s' \<equiv> set_reg (q_prod q) ((get_reg (q_prod q) s + 1)
                   AND (push_bit (unat (queue_log2 q s + 1)) 1 - 1)) s"
  shows "queue_inv q s'" "queue_count q s' = Suc (queue_count q s)"
proof -
  let ?n = "queue_exp q s" and ?p = "unat (get_reg (q_prod q) s)"
  have n: "?n \<le> 19" by (rule queue_log2_le)
  have e: "unat (queue_log2 q s + 1) = ?n + 1"
    using n by (simp add: unat_word_ariths(1))
  have small: "?p < 2 ^ (?n + 1)" using assms(1) by (simp add: queue_inv_def)
  also have "(2 :: nat) ^ (?n + 1) \<le> 2 ^ 20" using n by (intro power_increasing) auto
  finally have inc: "unat (get_reg (q_prod q) s + 1) = ?p + 1" by (simp add: unat_word_ariths(1))
  have "get_reg (q_prod q) s' = (get_reg (q_prod q) s + 1) AND (push_bit (?n + 1) 1 - 1)"
    unfolding s'_def e set_reg_def by simp
  then have p': "unat (get_reg (q_prod q) s') = (?p + 1) mod 2 ^ (?n + 1)"
    by (simp only: and_pow2_mod inc)
  obtain r st l where f: "q_log2size q = (r, st, l)" by (cases "q_log2size q")
  have same: "queue_log2 q s' = queue_log2 q s" "get_reg (q_cons q) s' = get_reg (q_cons q) s"
    using assms(3) by (auto simp: s'_def set_reg_def queue_ok_def queue_log2_def get_field_def f)
  have inv: "unat (get_reg (q_cons q) s) < 2 ^ (?n + 1)" using assms(1) by (simp add: queue_inv_def)
  show cnt: "queue_count q s' = Suc (queue_count q s)"
    using ring_count_Suc[OF small inv] assms(2) unfolding queue_count_def same p' by simp
  show "queue_inv q s'"
    unfolding queue_inv_def cnt same p' using inv assms(2) by simp
qed

lemma slot_address:
  "queue_exp q s = n \<Longrightarrow> (ucast (get_reg (q_prod q) s AND (push_bit n 1 - 1)) :: u64)
     = of_nat (unat (get_reg (q_prod q) s) mod 2 ^ n)"
  by (simp only: and_pow2_mod[symmetric] of_nat_unat)


text \<open>What recording an entry does to the queue, for any queue and entry.\<close>

lemma queue_record_ring:
  fixes s :: "'s smmu" and c :: "'s smmu_cfg" and q :: queue_regs
  defines "n \<equiv> queue_exp q s" and "slot \<equiv> unat (get_reg (q_prod q) s) mod 2 ^ queue_exp q s"
  assumes inv: "queue_inv q s" and q: "queue_ok q"
    and core: "\<And>b s. irq_core (gerr b s) = irq_core s" "\<And>s. irq_core (upd s) = irq_core s"
    and w: "dma_write c (queue_base q s + of_nat slot * of_nat (length bytes)) bytes s = (ok, s1)"
  shows "queue_inv q (queue_record c gerr upd q bytes s)
    \<and> (if queue_count q s = 2 ^ n
       then queue_record c gerr upd q bytes s = gerr (q_abt_bit q) s
       else slot \<notin> queue_slots q s
         \<and> (if ok then queue_count q (queue_record c gerr upd q bytes s) = Suc (queue_count q s)
            else queue_record c gerr upd q bytes s = gerr (q_abt_bit q) s1))"
proof -
  let ?r = "queue_record c gerr upd q bytes s"
  have b: "unat (get_reg (q_prod q) s) < 2 ^ (n + 1)" "unat (get_reg (q_cons q) s) < 2 ^ (n + 1)"
    and le: "queue_count q s \<le> 2 ^ n" using inv by (simp_all add: queue_inv_def n_def)
  have full: "queue_full (get_reg (q_prod q) s) (get_reg (q_cons q) s) (queue_log2 q s)
      \<longleftrightarrow> queue_count q s = 2 ^ n"
    using queue_full_iff[OF b meta_eq_to_obj_eq[OF n_def]] queue_log2_le[of q s] by (simp add: queue_count_def n_def)
  have addr: "queue_base q s + ucast (get_reg (q_prod q) s AND (push_bit (queue_exp q s) 1 - 1))
       * of_nat (length bytes) = queue_base q s + of_nat slot * of_nat (length bytes)"
    unfolding slot_def by (simp only: slot_address[OF refl])
  show ?thesis
  proof (cases "queue_count q s = 2 ^ n")
    case True
    then have "?r = gerr (q_abt_bit q) s" by (simp add: queue_record_def Let_def full)
    then show ?thesis using True inv by (simp add: queue_inv_frame[OF core(1) q])
  next
    case False
    then have lt: "queue_count q s < 2 ^ n" using le by simp
    have free: "slot \<notin> queue_slots q s"
      using ring_slot_free[OF b] lt unfolding slot_def queue_slots_def queue_count_def n_def by simp
    have fr: "irq_core s1 = irq_core s" by (rule irq_core_of_dma_core[OF dma_core_write[OF w]])
    have r: "?r = (if ok then upd (set_reg (q_prod q) ((get_reg (q_prod q) s + 1)
          AND (push_bit (unat (queue_log2 q s + 1)) 1 - 1)) s1) else gerr (q_abt_bit q) s1)"
      unfolding queue_record_def Let_def full addr w using False by simp
    have "queue_inv q s1" "queue_count q s1 < 2 ^ queue_exp q s1"
      using inv lt queue_inv_frame[OF fr q] queue_frame[OF fr q] by (simp_all add: n_def)
    note adv = queue_advance[OF this q, unfolded queue_frame[OF fr q] queue_inv_frame[OF fr q]]
    show ?thesis
      using False free r adv inv queue_inv_frame[OF fr q] queue_inv_frame[OF core(1) q]
        queue_inv_frame[OF core(2) q] by simp
  qed
qed

text \<open>C30. The event queue is a ring buffer that loses no entry: while both indices lie within the
  queue, recording a fault either finds the queue full and only raises the queue error, or writes
  the record into a slot that no unconsumed entry occupies and adds exactly one entry; when that
  write fails the queue is unchanged and the error is raised. The indices stay within the queue.\<close>

theorem event_queue_correct:
  fixes s :: "'s smmu"
  assumes "queue_inv EVENTQ s" "fld CR0_EVENTQEN s \<noteq> 0"
    and "dma_write c (queue_base EVENTQ s
           + of_nat (unat (get_reg EVENTQ_PROD s) mod 2 ^ queue_exp EVENTQ s) * 32)
           (event_full_bytes ty sid ssid iova cmd cls lvl stag stall) s = (ok, s1)"
    and "s' = record_event_full c ty sid ssid iova cmd cls lvl stag stall s"
  shows "queue_inv EVENTQ s'
    \<and> (if queue_count EVENTQ s = 2 ^ queue_exp EVENTQ s then s' = set_gerror c BIT_EVENTQ_ABT s
       else unat (get_reg EVENTQ_PROD s) mod 2 ^ queue_exp EVENTQ s \<notin> queue_slots EVENTQ s
         \<and> (if ok then queue_count EVENTQ s' = Suc (queue_count EVENTQ s)
            else s' = set_gerror c BIT_EVENTQ_ABT s1))"
proof -
  have len: "length (store_le n v) = n" for n v by (induction n arbitrary: v) auto
  let ?b = "event_full_bytes ty sid ssid iova cmd cls lvl stag stall"
  have len: "length ?b = 32" by (simp add: event_full_bytes_def Let_def len)
  have q: "q_prod EVENTQ = EVENTQ_PROD" "q_abt_bit EVENTQ = BIT_EVENTQ_ABT" by (simp_all add: EVENTQ_def)
  have w: "dma_write c (queue_base EVENTQ s
      + of_nat (unat (get_reg (q_prod EVENTQ) s) mod 2 ^ queue_exp EVENTQ s) * of_nat (length ?b)) ?b s
      = (ok, s1)"
    using assms(3) by (simp add: len q)
  have s': "s' = queue_record c (set_gerror c) (update_irq_levels c) EVENTQ ?b s"
    using assms(2,4) by (simp add: record_event_full_def)
  show ?thesis
    using queue_record_ring[OF assms(1) queue_ok_all(1) irq_core_set_gerror irq_core_update w]
    unfolding s' q .
qed

theorem event_queue_correct_witness:
  defines "s \<equiv> set_reg CR0 4 (set_reg EVENTQ_BASE_LO 2 (smmu_init ()))"
  shows "queue_count EVENTQ (record_event_full (test_cfg (\<lambda>_. [])) EVT_F_TRANSLATION 7 0 0x1000
           Read_command 0 3 0 False s) = 1"
proof -
  let ?c = "test_cfg (\<lambda>_. [])"
  let ?b = "event_full_bytes EVT_F_TRANSLATION 7 0 0x1000 Read_command 0 3 0 False"
  have z: "get_reg EVENTQ_PROD s = 0" "get_reg EVENTQ_CONS s = 0" "queue_exp EVENTQ s = 2"
    by (simp_all add: s_def set_reg_def smmu_init_def queue_log2_def EVENTQ_def get_field_def
        clamp_queue_log2size_def mask_eq_exp_minus_1)
  have cnt: "queue_count EVENTQ s = 0"
    using z by (simp add: queue_count_def EVENTQ_def ring_count_def)
  have inv: "queue_inv EVENTQ s"
    using z cnt by (simp add: queue_inv_def EVENTQ_def)
  obtain ok s1 where w: "dma_write ?c (queue_base EVENTQ s
      + of_nat (unat (get_reg EVENTQ_PROD s) mod 2 ^ queue_exp EVENTQ s) * 32) ?b s = (ok, s1)"
    by fastforce
  then have "ok" using test_cfg_write by (metis fst_conv)
  moreover have "fld CR0_EVENTQEN s \<noteq> 0"
    by (simp add: s_def set_reg_def get_field_def mask_eq_exp_minus_1)
  ultimately show ?thesis
    using event_queue_correct[OF inv _ w refl] cnt z by simp
qed

end
