(* ===== verification/Smmu.thy ===== *)
theory Smmu
  imports SmmuQueue
begin

text \<open>
  Translation, the translation cache, the command queues and the register callbacks of
  \<^verbatim>\<open>smmuv3.h\<close>.

  The command loop ends because the distance between the producer and the consumer index falls with
  every command; it is a recursive function with that measure. A handler is a function from the
  16 bytes of a command; \<open>exec_cmd\<close> is the switch over opcodes and gives \<open>None\<close> for an unknown one.
\<close>

section \<open>The translation cache\<close>

definition iotlb_insert ::
  "'s smmu_cfg \<Rightarrow> iotlb_key \<Rightarrow> iommu_tlb_entry \<Rightarrow> 's smmu \<Rightarrow> 's smmu res" where
  "iotlb_insert c key entry s =
     bind_res
       (if map_of (sm_iotlb s) key \<noteq> None
        then Inr (s\<lparr>sm_iotlb_lru := removeAll key (sm_iotlb_lru s)\<rparr>)
        else if unat (p_iotlb_size c) \<le> length (sm_iotlb s)
        then if sm_iotlb_lru s = [] then Inl Out_of_bounds
             else Inr (s\<lparr>sm_iotlb := AList.delete (last (sm_iotlb_lru s)) (sm_iotlb s),
                         sm_iotlb_lru := butlast (sm_iotlb_lru s)\<rparr>)
        else Inr s)
       (\<lambda>s1. Inr (s1\<lparr>sm_iotlb := AList.update key entry (sm_iotlb s1),
                      sm_iotlb_lru := key # sm_iotlb_lru s1\<rparr>))"

definition iotlb_lookup :: "iotlb_key \<Rightarrow> 's smmu \<Rightarrow> iommu_tlb_entry option" where
  "iotlb_lookup key s = map_of (sm_iotlb s) key"

definition iotlb_inv_all :: "'s smmu \<Rightarrow> 's smmu" where
  "iotlb_inv_all s = s\<lparr>sm_iotlb := [], sm_iotlb_lru := []\<rparr>"

text \<open>The loop all selective invalidations share: entries whose key satisfies \<open>P\<close> leave the map and
  the list.\<close>

definition iotlb_inv_if :: "(iotlb_key \<Rightarrow> bool) \<Rightarrow> 's smmu \<Rightarrow> 's smmu" where
  "iotlb_inv_if P s =
     s\<lparr>sm_iotlb_lru := fold (\<lambda>k l. removeAll k l) (filter P (map fst (sm_iotlb s))) (sm_iotlb_lru s),
       sm_iotlb := filter (\<lambda>e. \<not> P (fst e)) (sm_iotlb s)\<rparr>"

definition iotlb_inv_asid :: "u16 \<Rightarrow> 's smmu \<Rightarrow> 's smmu" where
  "iotlb_inv_asid asid = iotlb_inv_if (\<lambda>k. k_asid k = asid)"

definition iotlb_inv_vmid :: "u16 \<Rightarrow> 's smmu \<Rightarrow> 's smmu" where
  "iotlb_inv_vmid vmid = iotlb_inv_if (\<lambda>k. k_vmid k = vmid)"

definition iotlb_inv_iova :: "u16 \<Rightarrow> u16 \<Rightarrow> u64 \<Rightarrow> u8 \<Rightarrow> u64 \<Rightarrow> 's smmu \<Rightarrow> 's smmu" where
  "iotlb_inv_iova vmid asid iova tg addr_mask =
     iotlb_inv_if (\<lambda>k. k_vmid k = vmid \<and> k_asid k = asid
       \<and> k_iova k AND NOT addr_mask = iova AND NOT addr_mask \<and> k_tg k = tg)"

section \<open>Translation\<close>

definition te_init :: "u64 \<Rightarrow> iommu_tlb_entry" where
  "te_init iova = \<lparr>te_iova = iova, te_translated_addr = iova, te_addr_mask = push_bit 12 1 - 1,
     te_perm = ACC_RW, te_descriptor = 0, te_table_attrs = 0, te_fault_type = 0,
     te_fault_level = 0, te_stallable_fault = False\<rparr>"

definition lookup_key :: "u16 \<Rightarrow> u16 \<Rightarrow> u64 \<Rightarrow> u32 \<Rightarrow> bool \<Rightarrow> u8 \<Rightarrow> iotlb_key" where
  "lookup_key vmid asid iova tg is_secure regime =
     \<lparr>k_vmid = vmid, k_asid = asid, k_iova = iova AND NOT (push_bit 12 1 - 1), k_tg = ucast tg,
      k_level = 3, k_secure = is_secure, k_regime = regime\<rparr>"

definition s1_context :: "smmu_cd \<Rightarrow> u64 \<Rightarrow> acc_flags \<Rightarrow> smmu_ste option \<Rightarrow> ptw_ctx" where
  "s1_context cd iova acc ste =
     ctx_init\<lparr>cx_ttb0 := cd_ttb0 cd, cx_ttb1 := cd_ttb1 cd, cx_tsz0 := cd_tsz0 cd,
        cx_tsz1 := cd_tsz1 cd, cx_tg0 := cd_tg0 cd, cx_tg1 := cd_tg1 cd, cx_ips := cd_ips cd,
        cx_epd0 := cd_epd0 cd, cx_epd1 := cd_epd1 cd, cx_stage := 1, cx_iova := iova,
        cx_access := acc, cx_s2_enabled := ste \<noteq> None, cx_ste := ste, cx_affd := cd_affd cd,
        cx_ha := cd_ha cd, cx_hd := cd_hd cd\<rparr>"

text \<open>The walks of the three translating configurations: stage 1, stage 2, and both. In the nested
  configuration the second walk reuses the request of the first.\<close>

definition translate_walk ::
  "'s smmu_cfg \<Rightarrow> trans_req \<Rightarrow> 's smmu \<Rightarrow> (trans_req \<times> 's smmu) res" where
  "translate_walk c req s =
     (let ste = rq_ste req; cd = rq_cd req; iova = rq_iova req; acc = rq_access req
      in if ste_config ste = 5
         then bind_res (smmuv3_ptw64 c (s1_context cd iova acc None) req s)
                (\<lambda>(_, req1, s1). Inr (req1, s1))
         else if ste_config ste = 6
         then bind_res (smmuv3_ptw64 c (s2_context ste iova acc) req s)
                (\<lambda>(_, req1, s1). Inr (req1, s1))
         else bind_res (smmuv3_ptw64 c (s1_context cd iova acc (Some ste)) req s)
                (\<lambda>(_, req1, s1).
                   if rq_err req1 then Inr (req1, s1)
                   else bind_res (smmuv3_ptw64 c (s2_context ste (rq_pa req1) acc) req1 s1)
                          (\<lambda>(_, req2, s2). Inr (req2, s2))))"

text \<open>After the walk: report the fault, or cache and return the translation.\<close>

definition translate_finish ::
  "'s smmu_cfg \<Rightarrow> tlm_command \<Rightarrow> bool \<Rightarrow> u8 \<Rightarrow> iommu_tlb_entry \<Rightarrow> trans_req \<Rightarrow> 's smmu
     \<Rightarrow> (iommu_tlb_entry \<times> 's smmu) res" where
  "translate_finish c cmd is_secure regime ret req s =
     (let ste = rq_ste req; iova = rq_iova req; ev = rq_event_type req;
          s1cfg = (ste_config ste = 5 \<or> ste_config ste = 7)
      in if rq_err req
         then let stallable = (ev = EVT_F_TRANSLATION \<or> ev = EVT_F_PERMISSION \<or> ev = EVT_F_ACCESS
                               \<or> ev = EVT_F_ADDR_SIZE) \<and> s1cfg \<and> \<not> ste_s1stalld ste;
                  lvl = word_of_int (rq_fault_level req);
                  ret1 = ret\<lparr>te_perm := ACC_NONE, te_fault_type := ev, te_fault_level := lvl,
                             te_stallable_fault := stallable\<rparr>;
                  cls = (if ste_config ste = 6 then CLASS_IN else CLASS_TT)
              in Inr (ret1, if stallable then s
                            else record_event_full c ev (rq_sid req) (rq_substream_id req) iova cmd
                                   cls lvl 0 False s)
         else let m = push_bit (unat (rq_page_size req)) 1 - 1;
                  ret1 = ret\<lparr>te_translated_addr := rq_pa req, te_perm := rq_prot req,
                             te_addr_mask := m, te_descriptor := rq_descriptor req,
                             te_table_attrs := rq_tableattrs req\<rparr>;
                  key = \<lparr>k_vmid = ste_vmid ste,
                         k_asid = (if s1cfg then cd_asid (rq_cd req) else 0),
                         k_iova = iova AND NOT m,
                         k_tg = ucast (if s1cfg then cd_tg0 (rq_cd req) else ste_s2tg ste),
                         k_level = 3, k_secure = is_secure, k_regime = regime\<rparr>
              in bind_res (iotlb_insert c key ret1 s) (\<lambda>s1. Inr (ret1, s1)))"

definition fault_entry ::
  "'s smmu_cfg \<Rightarrow> tlm_command \<Rightarrow> u32 \<Rightarrow> u32 \<Rightarrow> u32 \<Rightarrow> u32 \<Rightarrow> iommu_tlb_entry \<Rightarrow> 's smmu
     \<Rightarrow> (iommu_tlb_entry \<times> 's smmu) res" where
  "fault_entry c cmd ev cls sid ssid ret s =
     Inr (ret\<lparr>te_perm := ACC_NONE, te_fault_type := ev\<rparr>,
          record_event_full c ev sid ssid (te_iova ret) cmd cls 0 0 False s)"

text \<open>The lookup in the cache before a walk, on the key of the configuration.\<close>

definition translate_cached ::
  "'s smmu_cfg \<Rightarrow> tlm_command \<Rightarrow> bool \<Rightarrow> u8 \<Rightarrow> iotlb_key \<Rightarrow> trans_req \<Rightarrow> 's smmu
     \<Rightarrow> (iommu_tlb_entry \<times> 's smmu) res" where
  "translate_cached c cmd is_secure regime key req s =
     (case iotlb_lookup key s of
        Some e \<Rightarrow> Inr (e, s)
      | None \<Rightarrow> bind_res (translate_walk c req s) (\<lambda>(req1, s1).
                  translate_finish c cmd is_secure regime (te_init (rq_iova req)) req1 s1))"

definition translate_config ::
  "'s smmu_cfg \<Rightarrow> tlm_command \<Rightarrow> bool \<Rightarrow> trans_req \<Rightarrow> 's smmu \<Rightarrow> (iommu_tlb_entry \<times> 's smmu) res" where
  "translate_config c cmd is_secure req s =
     (let ste = rq_ste req; iova = rq_iova req; sid = rq_sid req; ssid = rq_substream_id req;
          ret = te_init iova;
          regime = compute_iotlb_regime (ste_strw ste) (fld CR2_E2H s \<noteq> 0) is_secure;
          cfg = ste_config ste
      in if cfg = 0 then fault_entry c cmd EVT_C_BAD_STE 0 sid ssid ret s
         else if cfg = 4 then Inr (ret\<lparr>te_addr_mask := - 1\<rparr>, s)
         else if cfg = 5 \<or> cfg = 7
         then (case read_cd c sid ste ssid s of (ok, cd, s1) \<Rightarrow>
                 if \<not> ok \<or> \<not> cd_valid cd
                 then fault_entry c cmd EVT_F_CD_FETCH CLASS_CD sid ssid ret s1
                 else translate_cached c cmd is_secure regime
                        (lookup_key (ste_vmid ste) (cd_asid cd) iova (cd_tg0 cd) is_secure regime)
                        (req\<lparr>rq_cd := cd\<rparr>) s1)
         else if cfg = 6
         then translate_cached c cmd is_secure regime
                (lookup_key (ste_vmid ste) 0 iova (ste_s2tg ste) is_secure regime) req s
         else fault_entry c cmd EVT_C_BAD_STE 0 sid ssid ret s)"

definition smmuv3_translate ::
  "'s smmu_cfg \<Rightarrow> tlm_command \<Rightarrow> u64 \<Rightarrow> u32 \<Rightarrow> u32 \<Rightarrow> bool \<Rightarrow> 's smmu
     \<Rightarrow> (iommu_tlb_entry \<times> 's smmu) res" where
  "smmuv3_translate c cmd iova sid ssid is_secure s =
     (let ret = te_init iova
      in if fld CR0_SMMUEN s = 0 then Inr (ret\<lparr>te_addr_mask := - 1\<rparr>, s)
         else case find_ste c sid s of (ok, ste, s1) \<Rightarrow>
           if \<not> ok \<or> \<not> ste_valid ste
           then if fld GBPA_ABORT s1 \<noteq> 0
                then fault_entry c cmd EVT_F_STE_FETCH 0 sid ssid ret s1
                else Inr (ret\<lparr>te_addr_mask := - 1\<rparr>, s1)
           else if 0 < ste_s1cdmax ste \<and> push_bit (unat (ste_s1cdmax ste)) 1 \<le> ssid
           then fault_entry c cmd EVT_C_BAD_SUBSTREAMID 0 sid ssid ret s1
           else translate_config c cmd is_secure
                  (req_init\<lparr>rq_iova := iova, rq_sid := sid, rq_substream_id := ssid,
                     rq_access := (if cmd = Write_command then ACC_WO else ACC_RO),
                     rq_ste := ste\<rparr>) s1)"

section \<open>Commands\<close>

definition decode_tlbi_tg :: "u8 \<Rightarrow> u32 \<times> u8" where
  "decode_tlbi_tg tg = (if tg = 1 then (12, 0) else if tg = 2 then (14, 2)
     else if tg = 3 then (16, 1) else (12, 0))"

definition tlbi_range :: "u64 \<Rightarrow> u64 \<times> u8" where
  "tlbi_range word0 =
     (let (page_shift, key_tg) = decode_tlbi_tg (ucast (drop_bit 10 word0 AND 0x3));
          scale = ucast (drop_bit 20 word0 AND 0xF) :: u8
      in (safe_shl1_u64 (page_shift + ucast scale) - 1, key_tg))"

definition handle_cmd_cfgi_ste :: "u8 list \<Rightarrow> 's smmu \<Rightarrow> 's smmu" where
  "handle_cmd_cfgi_ste cmd s =
     (let sid = ucast (load_at 4 4 cmd)
      in s\<lparr>sm_ste_cache := AList.delete sid (sm_ste_cache s),
           sm_ste_cache_lru := removeAll sid (sm_ste_cache_lru s)\<rparr>)"

definition handle_cmd_cfgi_ste_range :: "'s smmu \<Rightarrow> 's smmu" where
  "handle_cmd_cfgi_ste_range s = s\<lparr>sm_ste_cache := [], sm_ste_cache_lru := []\<rparr>"

definition handle_cmd_cfgi_cd :: "'s smmu \<Rightarrow> 's smmu" where
  "handle_cmd_cfgi_cd s = s\<lparr>sm_cd_cache := [], sm_cd_cache_lru := []\<rparr>"

definition handle_cmd_cfgi_cd_all :: "'s smmu \<Rightarrow> 's smmu" where
  "handle_cmd_cfgi_cd_all s = s\<lparr>sm_cd_cache := [], sm_cd_cache_lru := []\<rparr>"

definition handle_cmd_cfgi_all :: "'s smmu \<Rightarrow> 's smmu" where
  "handle_cmd_cfgi_all s =
     s\<lparr>sm_ste_cache := [], sm_ste_cache_lru := [], sm_cd_cache := [], sm_cd_cache_lru := []\<rparr>"

definition handle_cmd_tlbi_nh_all :: "'s smmu \<Rightarrow> 's smmu" where
  "handle_cmd_tlbi_nh_all s = iotlb_inv_all s"

definition handle_cmd_tlbi_nh_asid :: "u8 list \<Rightarrow> 's smmu \<Rightarrow> 's smmu" where
  "handle_cmd_tlbi_nh_asid cmd s = iotlb_inv_asid (ucast (load_at 2 6 cmd)) s"

definition handle_cmd_tlbi_nh_va :: "u8 list \<Rightarrow> 's smmu \<Rightarrow> 's smmu" where
  "handle_cmd_tlbi_nh_va cmd s =
     (let word0 = load_at 8 0 cmd; word1 = load_at 8 8 cmd;
          asid = ucast (drop_bit 48 word0 AND 0xFFFF);
          va = word1 AND NOT 0xFFF;
          (m, key_tg) = tlbi_range word0
      in iotlb_inv_iova 0 asid va key_tg m s)"

definition handle_cmd_tlbi_nh_vaa :: "u8 list \<Rightarrow> 's smmu \<Rightarrow> 's smmu" where
  "handle_cmd_tlbi_nh_vaa cmd s =
     (let word0 = load_at 8 0 cmd; word1 = load_at 8 8 cmd;
          va = word1 AND NOT 0xFFF;
          (m, key_tg) = tlbi_range word0
      in iotlb_inv_if (\<lambda>k. k_iova k AND NOT m = va AND NOT m \<and> k_tg k = key_tg) s)"

definition handle_cmd_tlbi_s12_vmall :: "u8 list \<Rightarrow> 's smmu \<Rightarrow> 's smmu" where
  "handle_cmd_tlbi_s12_vmall cmd s =
     (let word0 = load_at 8 0 cmd
      in iotlb_inv_vmid (ucast (drop_bit 32 word0 AND 0xFFFF)) s)"

definition handle_cmd_tlbi_s2_ipa :: "u8 list \<Rightarrow> 's smmu \<Rightarrow> 's smmu" where
  "handle_cmd_tlbi_s2_ipa cmd s =
     (let word0 = load_at 8 0 cmd; word1 = load_at 8 8 cmd;
          vmid = ucast (drop_bit 32 word0 AND 0xFFFF);
          ipa = word1 AND 0x000FFFFFFFFFF000;
          (m, key_tg) = tlbi_range word0
      in iotlb_inv_if (\<lambda>k. k_vmid k = vmid \<and> k_iova k AND NOT m = ipa AND NOT m
           \<and> k_tg k = key_tg) s)"

definition handle_cmd_tlbi_nsnh_all :: "'s smmu \<Rightarrow> 's smmu" where
  "handle_cmd_tlbi_nsnh_all s = iotlb_inv_all s"

definition handle_cmd_atc_inv :: "'s smmu_cfg \<Rightarrow> u8 list \<Rightarrow> 's smmu \<Rightarrow> 's smmu" where
  "handle_cmd_atc_inv c cmd s =
     (let word1 = load_at 8 8 cmd;
          sz = ucast (word1 AND 0x3F) :: u8;
          addr_lo = word1 AND NOT (push_bit 12 1 - 1);
          range = safe_shl1_u64 (ucast sz + 12);
          en = addr_lo + range - 1;
          hit = map (\<lambda>(i, b). (i, (addr_lo, en))) (filter snd (enumerate 0 (tbus_bound c)))
      in s\<lparr>sm_upstream_log := sm_upstream_log s @ hit\<rparr>)"

definition sync_msi :: "'s smmu_cfg \<Rightarrow> (nat \<Rightarrow> 's smmu \<Rightarrow> 's smmu) \<Rightarrow> u64 \<Rightarrow> u64 \<Rightarrow> 's smmu \<Rightarrow> 's smmu" where
  "sync_msi c gerr dw0 dw1 s =
     (let msiaddr = dw1 AND 0x000FFFFFFFFFFFFC;
          msidata = ucast (drop_bit 32 dw0) :: u32
      in if msiaddr \<noteq> 0
         then let (ok, s1) = dma_write c msiaddr (store_le 4 (ucast msidata)) s
              in if ok then s1 else gerr BIT_MSI_CMDQ_ABT s1
         else s)"

definition handle_cmd_sync :: "'s smmu_cfg \<Rightarrow> u8 list \<Rightarrow> 's smmu \<Rightarrow> 's smmu" where
  "handle_cmd_sync c cmd s =
     (let dw0 = load_at 8 0 cmd; dw1 = load_at 8 8 cmd;
          cs = drop_bit 12 (ucast dw0 :: u32) AND 0x3
      in if cs = 1 then trigger_irq c Irq_cmd_sync (sync_msi c (set_gerror c) dw0 dw1 s) else s)"

definition handle_cmd_resume :: "u8 list \<Rightarrow> 's smmu \<Rightarrow> 's smmu" where
  "handle_cmd_resume cmd s =
     (let stag = ucast (load_at 4 4 cmd);
          resp = cmd ! 11
      in case map_of (sm_stalled s) stag of
           None \<Rightarrow> s
         | Some e \<Rightarrow>
             s\<lparr>sm_stalled := AList.update stag
                 (e\<lparr>st_aborted := (if resp \<noteq> 0 then True else st_aborted e), st_notified := True\<rparr>)
                 (sm_stalled s)\<rparr>)"

definition exec_cmd :: "'s smmu_cfg \<Rightarrow> u8 list \<Rightarrow> 's smmu \<Rightarrow> 's smmu option" where
  "exec_cmd c cmd s =
     (let op = cmd ! 0
      in if op = 0x01 \<or> op = 0x02 then Some s
         else if op = 0x03 then Some (handle_cmd_cfgi_ste cmd s)
         else if op = 0x04 then Some (handle_cmd_cfgi_ste_range s)
         else if op = 0x05 then Some (handle_cmd_cfgi_cd s)
         else if op = 0x06 then Some (handle_cmd_cfgi_cd_all s)
         else if op = 0x07 then Some (handle_cmd_cfgi_all s)
         else if op = 0x10 \<or> op = 0x18 \<or> op = 0x20 then Some (handle_cmd_tlbi_nh_all s)
         else if op = 0x11 \<or> op = 0x21 then Some (handle_cmd_tlbi_nh_asid cmd s)
         else if op = 0x12 \<or> op = 0x1A \<or> op = 0x22 then Some (handle_cmd_tlbi_nh_va cmd s)
         else if op = 0x13 \<or> op = 0x23 then Some (handle_cmd_tlbi_nh_vaa cmd s)
         else if op = 0x28 then Some (handle_cmd_tlbi_s12_vmall cmd s)
         else if op = 0x2A then Some (handle_cmd_tlbi_s2_ipa cmd s)
         else if op = 0x30 then Some (handle_cmd_tlbi_nsnh_all s)
         else if op = 0x40 then Some (handle_cmd_atc_inv c cmd s)
         else if op = 0x41 then Some s
         else if op = 0x44 then Some (handle_cmd_resume cmd s)
         else if op = 0x45 then Some s
         else if op = 0x46 then Some (handle_cmd_sync c cmd s)
         else None)"

definition exec_secure_cmd :: "'s smmu_cfg \<Rightarrow> u8 list \<Rightarrow> 's smmu \<Rightarrow> 's smmu option" where
  "exec_secure_cmd c cmd s =
     (let op = cmd ! 0
      in if op = 0x01 \<or> op = 0x02 then Some s
         else if op = 0x03
         then Some (s\<lparr>sm_ste_cache_secure :=
                      AList.delete (ucast (load_at 4 4 cmd)) (sm_ste_cache_secure s)\<rparr>)
         else if op = 0x04 then Some (s\<lparr>sm_ste_cache_secure := []\<rparr>)
         else if op = 0x05 \<or> op = 0x06 then Some (s\<lparr>sm_cd_cache_secure := []\<rparr>)
         else if op = 0x07 then Some (s\<lparr>sm_ste_cache_secure := [], sm_cd_cache_secure := []\<rparr>)
         else if op \<in> {0x30, 0x10, 0x11, 0x12, 0x13, 0x28, 0x2A} then Some (iotlb_inv_all s)
         else if op = 0x46
         then (let dw0 = load_at 8 0 cmd; dw1 = load_at 8 8 cmd;
                   cs = drop_bit 12 (ucast dw0 :: u32) AND 0x3
               in Some (if cs = 1 then sync_msi c (set_secure_gerror c) dw0 dw1 s else s))
         else None)"

text \<open>One iteration of the command loop: \<open>Inl\<close> when it returns with an error, else the state for the
  next iteration. \<open>w\<close> gives the queue's own switch, consumer register and error function.\<close>

record 's cmdq_world =
  cw_exec :: "u8 list \<Rightarrow> 's smmu \<Rightarrow> 's smmu option"
  cw_cons :: u32
  cw_err :: "u32 \<Rightarrow> 's smmu \<Rightarrow> 's smmu"

definition cmdq_step ::
  "'s smmu_cfg \<Rightarrow> 's cmdq_world \<Rightarrow> u64 \<Rightarrow> nat \<Rightarrow> u32 \<Rightarrow> 's smmu \<Rightarrow> 's smmu + 's smmu" where
  "cmdq_step c w base n cons s =
     (let idx = cons AND (push_bit n 1 - 1);
          cmd_addr = base + ucast idx * 16
      in case dma_read c cmd_addr 16 s of
           (None, s1) \<Rightarrow> Inl (cw_err w CERROR_ABT (set_reg (cw_cons w) cons s1))
         | (Some cmd, s1) \<Rightarrow>
            (case cw_exec w cmd s1 of
               None \<Rightarrow> Inl (cw_err w CERROR_ILL (set_reg (cw_cons w) cons s1))
             | Some s2 \<Rightarrow> Inr s2))"

function cmdq_loop ::
  "'s smmu_cfg \<Rightarrow> 's cmdq_world \<Rightarrow> u64 \<Rightarrow> nat \<Rightarrow> u32 \<Rightarrow> u32 \<Rightarrow> 's smmu \<Rightarrow> 's smmu" where
  "cmdq_loop c w base n prodv cons s =
     (let wrap_mask = push_bit (n + 1) 1 - 1 :: u32
      in if prodv AND wrap_mask = cons AND wrap_mask then set_reg (cw_cons w) cons s
         else case cmdq_step c w base n cons s of
                Inl s1 \<Rightarrow> s1
              | Inr s1 \<Rightarrow> cmdq_loop c w base n prodv ((cons + 1) AND wrap_mask) s1)"
  by pat_completeness auto

termination
  by (relation "measure (\<lambda>(c, w, base, n, prodv, cons, s). unat (take_bit (n + 1) (prodv - cons)))")
     (simp, simp only: and_exp_minus_one in_measure case_prod_conv,
      rule take_bit_distance_falls, assumption)

declare cmdq_loop.simps [simp del]

definition consume_queue ::
  "'s smmu_cfg \<Rightarrow> 's cmdq_world \<Rightarrow> u32 \<Rightarrow> u32 \<Rightarrow> reg_field \<Rightarrow> u32 \<Rightarrow> 's smmu \<Rightarrow> 's smmu" where
  "consume_queue c w hi lo log2 prod_reg s =
     (let base = push_bit 32 (ucast (get_reg hi s) AND 0x000FFFFF)
                   OR (ucast (get_reg lo s) AND NOT 0x1F);
          log2size = clamp_queue_log2size (fld log2 s)
      in if log2size = 0 then s
         else cmdq_loop c w base (unat log2size) (get_reg prod_reg s) (get_reg (cw_cons w) s) s)"

definition ns_world :: "'s smmu_cfg \<Rightarrow> 's cmdq_world" where
  "ns_world c = \<lparr>cw_exec = exec_cmd c, cw_cons = CMDQ_CONS, cw_err = set_cmdq_err c\<rparr>"

definition secure_world :: "'s smmu_cfg \<Rightarrow> 's cmdq_world" where
  "secure_world c = \<lparr>cw_exec = exec_secure_cmd c, cw_cons = S_CMDQ_CONS,
     cw_err = set_secure_cmdq_err c\<rparr>"

definition consume_cmdq :: "'s smmu_cfg \<Rightarrow> 's smmu \<Rightarrow> 's smmu" where
  "consume_cmdq c = consume_queue c (ns_world c) CMDQ_BASE_HI CMDQ_BASE_LO CMDQ_BASE_LOG2SIZE
     CMDQ_PROD"

definition consume_secure_cmdq :: "'s smmu_cfg \<Rightarrow> 's smmu \<Rightarrow> 's smmu" where
  "consume_secure_cmdq c = consume_queue c (secure_world c) S_CMDQ_BASE_HI S_CMDQ_BASE_LO
     S_CMDQ_BASE_LOG2SIZE S_CMDQ_PROD"

section \<open>The address translation registers, reset and callbacks\<close>

definition do_gatos :: "'s smmu_cfg \<Rightarrow> 's smmu \<Rightarrow> 's smmu res" where
  "do_gatos c s =
     (let s0 = put_reg_field GATOS_CTRL_INPRG 1 s;
          sid = get_reg GATOS_SID s0;
          iova = reg_pair GATOS_ADDR_HI GATOS_ADDR_LO s0;
          wr = (fld GATOS_CTRL_READ_NWRITE s0 = 0)
      in bind_res (smmuv3_translate c (if wr then Write_command else Read_command) iova sid 0 False s0)
           (\<lambda>(te, s1).
             let s2 = (if te_perm te = ACC_NONE
                       then put_reg_field GATOS_PAR_FST 0x10 (put_reg_field GATOS_PAR_F 1 s1)
                       else put_reg_field GATOS_PAR_F 0
                              (set_reg GATOS_PAR_HI (ucast (drop_bit 32 (te_translated_addr te)))
                                 (set_reg GATOS_PAR_LO (ucast (te_translated_addr te)) s1)))
             in Inr (put_reg_field GATOS_CTRL_INPRG 0 (put_reg_field GATOS_CTRL_RUN 0 s2))))"

definition zeroed_regs :: "u32 list" where
  "zeroed_regs = [CR0, CR0ACK, CR1, CR2, STATUSR, AGBPA, IRQ_CTRL, IRQ_CTRL_ACK, GERROR, GERRORN,
     GERROR_IRQ_CFG0_LO, GERROR_IRQ_CFG0_HI, GERROR_IRQ_CFG1, GERROR_IRQ_CFG2, STRTAB_BASE_LO,
     STRTAB_BASE_HI, STRTAB_BASE_CFG, CMDQ_BASE_LO, CMDQ_BASE_HI, CMDQ_PROD, CMDQ_CONS,
     EVENTQ_BASE_LO, EVENTQ_BASE_HI, EVENTQ_PROD, EVENTQ_CONS, EVENTQ_IRQ_CFG0_LO,
     EVENTQ_IRQ_CFG0_HI, EVENTQ_IRQ_CFG1, EVENTQ_IRQ_CFG2, PRIQ_BASE_LO, PRIQ_BASE_HI, PRIQ_PROD,
     PRIQ_CONS, PRIQ_IRQ_CFG0_LO, PRIQ_IRQ_CFG0_HI, PRIQ_IRQ_CFG1, PRIQ_IRQ_CFG2, GATOS_CTRL,
     GATOS_SID, GATOS_ADDR_LO, GATOS_ADDR_HI, GATOS_PAR_LO, GATOS_PAR_HI,
     S_IDR0, S_IDR1, S_IDR2, S_IDR3, S_IDR4, S_CR0, S_CR0ACK, S_CR1, S_CR2, S_INIT, S_GBPA,
     S_AGBPA, S_IRQ_CTRL, S_IRQ_CTRL_ACK, S_GERROR, S_GERRORN, S_GERROR_IRQ_CFG0_LO,
     S_GERROR_IRQ_CFG0_HI, S_GERROR_IRQ_CFG1, S_GERROR_IRQ_CFG2, S_STRTAB_BASE_LO,
     S_STRTAB_BASE_HI, S_STRTAB_BASE_CFG, S_CMDQ_BASE_LO, S_CMDQ_BASE_HI, S_CMDQ_PROD,
     S_CMDQ_CONS, S_EVENTQ_BASE_LO, S_EVENTQ_BASE_HI, S_EVENTQ_PROD, S_EVENTQ_CONS,
     S_EVENTQ_IRQ_CFG0_LO, S_EVENTQ_IRQ_CFG0_HI, S_EVENTQ_IRQ_CFG1, S_EVENTQ_IRQ_CFG2,
     CMDQ_PROD_P1, CMDQ_CONS_P1, EVENTQ_PROD_P1, EVENTQ_CONS_P1, PRIQ_PROD_P1, PRIQ_CONS_P1]"

text \<open>The identification registers. Only the stream identifier size can fail the assertion of a field
  assignment, because it is a 16-bit parameter stored in a 6-bit field.\<close>

definition oas_val :: "u32 \<Rightarrow> u32" where
  "oas_val pamax = (if pamax = 32 then 0 else if pamax = 36 then 1 else if pamax = 40 then 2
     else if pamax = 42 then 3 else if pamax = 44 then 4 else 5)"

definition id_regs :: "'s smmu_cfg \<Rightarrow> smmu_regs \<Rightarrow> smmu_regs res" where
  "id_regs c rs =
     (let idr0 = fold (\<lambda>(f, v). put_field f v)
            [(IDR0_S2P, 1), (IDR0_S1P, 1), (IDR0_TTF, 2), (IDR0_COHACC, 1), (IDR0_ASID16, 1),
             (IDR0_VMID16, 1), (IDR0_PRI, 1), (IDR0_ATOS, if p_ato c then 1 else 0),
             (IDR0_HTTU, 3), (IDR0_STLEVEL, 2), (IDR0_MSI, 1), (IDR0_ATS, 1)] (rs(IDR0 := 0))
      in bind_res (set_field IDR1_SIDSIZE (ucast (p_sidsize c)) (idr0(IDR1 := 0))) (\<lambda>rs1.
           Inr (fold (\<lambda>(f, v). put_field f v)
              [(IDR5_OAS, oas_val (p_pamax c)), (IDR5_GRAN4K, 1), (IDR5_GRAN16K, 1),
               (IDR5_GRAN64K, 1)]
              ((fold (\<lambda>(f, v). put_field f v) [(IDR1_EVENTQS, 19), (IDR1_CMDQS, 19)] rs1)(IDR5 := 0)))))"

definition start_of_simulation :: "'s smmu_cfg \<Rightarrow> 's smmu \<Rightarrow> 's smmu res" where
  "start_of_simulation c s =
     bind_res (id_regs c (sm_regs s)) (\<lambda>rs.
       let rs1 = fold (\<lambda>(i, v) r. r(IDREGS i := v)) (enumerate 0 PRIMECELL_IDS) rs;
           rs2 = put_field GBPA_ABORT 1 (rs1(IIDR := p_iidr c));
           rs3 = fold (\<lambda>r f. f(r := 0)) zeroed_regs rs2
       in Inr (s\<lparr>sm_regs := rs3\<rparr>))"

definition smmu_reset :: "'s smmu_cfg \<Rightarrow> bool \<Rightarrow> 's smmu \<Rightarrow> 's smmu res" where
  "smmu_reset c v s =
     (if v then Inr (s\<lparr>sm_iotlb := [], sm_iotlb_lru := [], sm_ste_cache := [],
                       sm_ste_cache_lru := [], sm_cd_cache := [], sm_cd_cache_lru := [],
                       sm_stalled := [], sm_dma_dmi_cache := []\<rparr>)
      else start_of_simulation c s)"

definition s_init_inv_all :: "'s smmu \<Rightarrow> 's smmu" where
  "s_init_inv_all s =
     (if fld S_INIT_INV_ALL s \<noteq> 0
      then put_reg_field S_INIT_INV_ALL 0
             (s\<lparr>sm_iotlb := [], sm_iotlb_lru := [], sm_ste_cache := [], sm_ste_cache_lru := [],
                sm_cd_cache := [], sm_cd_cache_lru := [], sm_ste_cache_secure := [],
                sm_cd_cache_secure := []\<rparr>)
      else s)"

definition consume_if_enabled :: "'s smmu_cfg \<Rightarrow> 's smmu \<Rightarrow> 's smmu" where
  "consume_if_enabled c s = (if fld CR0_CMDQEN s \<noteq> 0 then consume_cmdq c s else s)"

definition secure_consume_if_enabled :: "'s smmu_cfg \<Rightarrow> 's smmu \<Rightarrow> 's smmu" where
  "secure_consume_if_enabled c s =
     (if fld S_CR0_CMDQEN s \<noteq> 0 then consume_secure_cmdq c s else s)"

text \<open>The callbacks, by register: after a bus write, with the register already updated, and before a
  bus read.\<close>

definition post_write :: "'s smmu_cfg \<Rightarrow> u32 \<Rightarrow> 's smmu \<Rightarrow> 's smmu res" where
  "post_write c r s =
     (if r = CR0 then Inr (set_reg CR0ACK (get_reg CR0 s) s)
      else if r = IRQ_CTRL
      then Inr (update_irq_levels c (set_reg IRQ_CTRL_ACK (get_reg IRQ_CTRL s) s))
      else if r = GERRORN \<or> r = EVENTQ_CONS \<or> r = PRIQ_CONS then Inr (update_irq_levels c s)
      else if r = S_CR0
      then Inr (update_secure_irq_levels c (set_reg S_CR0ACK (get_reg S_CR0 s) s))
      else if r = S_IRQ_CTRL
      then Inr (update_secure_irq_levels c (set_reg S_IRQ_CTRL_ACK (get_reg S_IRQ_CTRL s) s))
      else if r = S_GERRORN \<or> r = S_EVENTQ_CONS then Inr (update_secure_irq_levels c s)
      else if r = S_CMDQ_PROD then Inr (secure_consume_if_enabled c s)
      else if r = CMDQ_PROD then Inr (consume_if_enabled c s)
      else if r = STRTAB_BASE_CFG then Inr (s\<lparr>sm_ste_cache := [], sm_ste_cache_lru := []\<rparr>)
      else if r = GBPA then Inr (put_reg_field GBPA_UPDATE 0 s)
      else if r = S_GBPA then Inr (put_reg_field S_GBPA_UPDATE 0 s)
      else if r = S_INIT then Inr (s_init_inv_all s)
      else if r = GATOS_CTRL then (if fld GATOS_CTRL_RUN s \<noteq> 0 then do_gatos c s else Inr s)
      else if r = CMDQ_PROD_P1
      then Inr (consume_if_enabled c (set_reg CMDQ_PROD (get_reg CMDQ_PROD_P1 s) s))
      else if r = EVENTQ_CONS_P1 then Inr (set_reg EVENTQ_CONS (get_reg EVENTQ_CONS_P1 s) s)
      else if r = PRIQ_CONS_P1 then Inr (set_reg PRIQ_CONS (get_reg PRIQ_CONS_P1 s) s)
      else Inr s)"

definition pre_read :: "'s smmu_cfg \<Rightarrow> u32 \<Rightarrow> 's smmu \<Rightarrow> 's smmu" where
  "pre_read c r s =
     (if r = S_CMDQ_CONS then secure_consume_if_enabled c s
      else if r = CMDQ_CONS then consume_if_enabled c s
      else if r = CMDQ_PROD_P1 then set_reg CMDQ_PROD_P1 (get_reg CMDQ_PROD s) s
      else if r = CMDQ_CONS_P1
      then (let s1 = consume_if_enabled c s in set_reg CMDQ_CONS_P1 (get_reg CMDQ_CONS s1) s1)
      else if r = EVENTQ_PROD_P1 then set_reg EVENTQ_PROD_P1 (get_reg EVENTQ_PROD s) s
      else if r = EVENTQ_CONS_P1 then set_reg EVENTQ_CONS_P1 (get_reg EVENTQ_CONS s) s
      else if r = PRIQ_PROD_P1 then set_reg PRIQ_PROD_P1 (get_reg PRIQ_PROD s) s
      else if r = PRIQ_CONS_P1 then set_reg PRIQ_CONS_P1 (get_reg PRIQ_CONS s) s
      else s)"

definition bus_write :: "'s smmu_cfg \<Rightarrow> u32 \<Rightarrow> u32 \<Rightarrow> 's smmu \<Rightarrow> 's smmu res" where
  "bus_write c r v s = post_write c r (set_reg r v s)"

definition bus_read :: "'s smmu_cfg \<Rightarrow> u32 \<Rightarrow> 's smmu \<Rightarrow> u32 \<times> 's smmu" where
  "bus_read c r s = (let s1 = pre_read c r s in (get_reg r s1, s1))"

end
