(* ===== verification/SmmuTbu.thy ===== *)
theory SmmuTbu
  imports Smmu
begin

text \<open>
  The translation buffer unit (\<^verbatim>\<open>smmuv3_tbu\<close>), the front end between an upstream device and the
  downstream interconnect, with the transaction extensions of \<^verbatim>\<open>smmuv3_extensions.h\<close> and
  \<^verbatim>\<open>smmuv3_memory_attrs.h\<close>.

  A transaction that stalls is handed back to the scheduler: \<open>tbu_b_transport\<close> then returns
  \<open>Tbu_stalled\<close> with the stall tag, and \<open>tbu_resume\<close> is what the thread does once the tag is
  notified. The downstream calls are parameters; they run on the same environment as the DMA port.
\<close>

section \<open>Extensions\<close>

record ss_ext =
  ss_substream_id :: u32
  ss_ssv :: bool

record ats_ext =
  ats_is_translation_request :: bool
  ats_is_translated :: bool
  ats_prg_index :: u32
  ats_pa :: u64
  ats_granule_log2 :: u8
  ats_prot :: u8
  ats_fault_type :: u8
  ats_faulted :: bool

datatype memory_type = DEVICE_nGnRnE | DEVICE_nGnRE | DEVICE_nGRE | DEVICE_GRE | NORMAL_NC
  | NORMAL_WT | NORMAL_WB

record mem_attrs =
  ma_memory_type :: memory_type
  ma_shareability :: u8
  ma_access_perm :: u8
  ma_attr_indx :: u8
  ma_non_secure :: bool
  ma_pxn :: bool
  ma_uxn :: bool
  ma_contiguous :: bool
  ma_dbm :: bool

definition set_from_descriptor :: "u64 \<Rightarrow> u32 \<Rightarrow> mem_attrs" where
  "set_from_descriptor desc table_attrs =
     \<lparr>ma_memory_type = NORMAL_WB,
      ma_shareability = ucast (drop_bit 8 desc AND 0x3),
      ma_access_perm = ucast (drop_bit 6 desc AND 0x3),
      ma_attr_indx = ucast (drop_bit 2 desc AND 0xF),
      ma_non_secure = (drop_bit 5 desc AND 0x1 \<noteq> 0),
      ma_pxn = (drop_bit 53 desc AND 0x1 \<noteq> 0 \<or> drop_bit 3 table_attrs AND 0x1 \<noteq> 0),
      ma_uxn = (drop_bit 54 desc AND 0x1 \<noteq> 0 \<or> drop_bit 4 table_attrs AND 0x1 \<noteq> 0),
      ma_contiguous = (drop_bit 52 desc AND 0x1 \<noteq> 0),
      ma_dbm = (drop_bit 51 desc AND 0x1 \<noteq> 0)\<rparr>"

text \<open>The extensions a transaction carries into the unit.\<close>

record tbu_exts =
  tx_ss :: "ss_ext option"
  tx_secure :: "bool option"
  tx_ats :: "ats_ext option"

definition extract_substream_id :: "tbu_exts \<Rightarrow> u32" where
  "extract_substream_id x =
     (case tx_ss x of Some e \<Rightarrow> if ss_ssv e then ss_substream_id e else 0 | None \<Rightarrow> 0)"

definition extract_secure :: "tbu_exts \<Rightarrow> bool" where
  "extract_secure x = (case tx_secure x of Some b \<Rightarrow> b | None \<Rightarrow> False)"

section \<open>Transport\<close>

record 's tbu =
  tbu_index :: nat
  tbu_topology_id :: u32
  down_b_transport :: "mem_attrs option \<Rightarrow> 's b_transport_call"
  down_dbg :: "'s dbg_call"
  down_dmi :: "'s dmi_call"

text \<open>An invalidation from downstream: it is sent upstream once for each cached translation whose
  physical window it meets.\<close>

definition tbu_invalidate :: "'s tbu \<Rightarrow> inval \<Rightarrow> 's smmu \<Rightarrow> 's smmu" where
  "tbu_invalidate t iv s = (case iv of (st, en) \<Rightarrow>
     let hit = filter (\<lambda>(k, e). \<not> (en < te_translated_addr e
                                     \<or> te_translated_addr e OR te_addr_mask e < st)) (sm_iotlb s)
     in s\<lparr>sm_upstream_log := sm_upstream_log s
            @ map (\<lambda>(k, e). (tbu_index t, (te_iova e, te_iova e OR te_addr_mask e))) hit\<rparr>)"

function granule_loop :: "u64 \<Rightarrow> u8 \<Rightarrow> u8" where
  "granule_loop m g = (if 1 < m then granule_loop (drop_bit 1 m) (g + 1) else g)"
  by pat_completeness auto

termination
  by (relation "measure (\<lambda>(m, g). unat m)")
     (simp_all add: word_less_nat_alt drop_bit_eq_div unat_div)

declare granule_loop.simps [simp del]

datatype 's tbu_outcome =
    Tbu_done gp "ats_ext option" u64
  | Tbu_stalled u32

definition perm_denied :: "tlm_command \<Rightarrow> acc_flags \<Rightarrow> bool" where
  "perm_denied cmd perm =
     (perm = ACC_NONE \<or> (cmd = Write_command \<and> perm = ACC_RO) \<or> (cmd = Read_command \<and> perm = ACC_WO))"

definition tbu_forward ::
  "'s tbu \<Rightarrow> mem_attrs option \<Rightarrow> gp \<Rightarrow> u64 \<Rightarrow> 's smmu \<Rightarrow> gp \<times> u64 \<times> 's smmu" where
  "tbu_forward t ma txn delay s =
     (case down_b_transport t ma txn delay (sm_env s) of (txn1, delay1, ivs, e) \<Rightarrow>
        (txn1, delay1, fold (tbu_invalidate t) ivs (s\<lparr>sm_env := e\<rparr>)))"

definition tbu_answer_ats ::
  "'s smmu_cfg \<Rightarrow> 's tbu \<Rightarrow> iommu_tlb_entry \<Rightarrow> ats_ext \<Rightarrow> gp \<Rightarrow> 's smmu \<Rightarrow> ats_ext \<times> 's smmu" where
  "tbu_answer_ats c t te ats txn s =
     (if te_perm te = ACC_NONE
      then (ats\<lparr>ats_faulted := True, ats_fault_type := ucast (te_fault_type te), ats_pa := 0,
                ats_granule_log2 := 0, ats_prot := 0\<rparr>,
            if fld CR0_PRIQEN s \<noteq> 0 \<and> fld IDR0_PRI s \<noteq> 0
            then record_pri c (tbu_topology_id t) (gp_address txn)
                   ((if gp_command txn = Write_command then 0x2 else 0)
                      OR push_bit 16 (ats_prg_index ats)) s
            else s)
      else (ats\<lparr>ats_faulted := False,
                ats_pa := te_translated_addr te OR (gp_address txn AND te_addr_mask te),
                ats_granule_log2 := granule_loop (te_addr_mask te + 1) 0,
                ats_prot := ucast (te_perm te)\<rparr>, s))"

definition tbu_access ::
  "'s tbu \<Rightarrow> tbu_exts \<Rightarrow> iommu_tlb_entry \<Rightarrow> gp \<Rightarrow> u64 \<Rightarrow> 's smmu \<Rightarrow> 's tbu_outcome \<times> 's smmu" where
  "tbu_access t x te txn delay s =
     (let addr = gp_address txn
      in if perm_denied (gp_command txn) (te_perm te)
         then (Tbu_done (txn\<lparr>gp_response := Address_error_response\<rparr>) (tx_ats x) delay, s)
         else case tbu_forward t (Some (set_from_descriptor (te_descriptor te) (te_table_attrs te)))
                     (txn\<lparr>gp_address := te_translated_addr te OR (addr AND 0xFFF)\<rparr>) delay s
              of (txn1, delay1, s1) \<Rightarrow>
                (Tbu_done (txn1\<lparr>gp_address := addr\<rparr>) (tx_ats x) delay1, s1))"

definition ats_request :: "tbu_exts \<Rightarrow> ats_ext option" where
  "ats_request x = (case tx_ats x of
     Some a \<Rightarrow> if ats_is_translation_request a then Some a else None | None \<Rightarrow> None)"

text \<open>One round of the loop: translate; park on a stallable fault; else answer or forward.\<close>

definition tbu_attempt ::
  "'s smmu_cfg \<Rightarrow> 's tbu \<Rightarrow> tbu_exts \<Rightarrow> gp \<Rightarrow> u64 \<Rightarrow> 's smmu \<Rightarrow> ('s tbu_outcome \<times> 's smmu) res" where
  "tbu_attempt c t x txn delay s =
     bind_res (smmuv3_translate c (gp_command txn) (gp_address txn) (tbu_topology_id t)
                 (extract_substream_id x) (extract_secure x) s)
       (\<lambda>(te, s1).
          if te_stallable_fault te
          then case stall_begin c (tbu_topology_id t) (extract_substream_id x) (gp_address txn)
                      (te_fault_type te) (te_fault_level te) 0 (gp_command txn) s1
               of (stag, s2) \<Rightarrow> Inr (Tbu_stalled stag, s2)
          else case ats_request x of
                 Some ats \<Rightarrow>
                   (case tbu_answer_ats c t te ats txn s1 of (ats1, s2) \<Rightarrow>
                      Inr (Tbu_done (txn\<lparr>gp_response := Ok_response\<rparr>) (Some ats1) delay, s2))
               | None \<Rightarrow> Inr (tbu_access t x te txn delay s1))"

definition tbu_b_transport ::
  "'s smmu_cfg \<Rightarrow> 's tbu \<Rightarrow> tbu_exts \<Rightarrow> gp \<Rightarrow> u64 \<Rightarrow> 's smmu \<Rightarrow> ('s tbu_outcome \<times> 's smmu) res" where
  "tbu_b_transport c t x txn delay s =
     (if (case tx_ats x of Some a \<Rightarrow> ats_is_translated a | None \<Rightarrow> False)
      then case tbu_forward t None txn delay s of (txn1, delay1, s1) \<Rightarrow>
             Inr (Tbu_done txn1 (tx_ats x) delay1, s1)
      else tbu_attempt c t x txn delay s)"

definition tbu_resume ::
  "'s smmu_cfg \<Rightarrow> 's tbu \<Rightarrow> tbu_exts \<Rightarrow> u32 \<Rightarrow> gp \<Rightarrow> u64 \<Rightarrow> 's smmu
     \<Rightarrow> ('s tbu_outcome \<times> 's smmu) res" where
  "tbu_resume c t x stag txn delay s =
     bind_res (stall_end stag s) (\<lambda>(aborted, s1).
       if aborted
       then Inr (Tbu_done (txn\<lparr>gp_response := Address_error_response\<rparr>) (tx_ats x) delay, s1)
       else tbu_attempt c t x txn delay s1)"

definition tbu_transport_dbg ::
  "'s smmu_cfg \<Rightarrow> 's tbu \<Rightarrow> tbu_exts \<Rightarrow> gp \<Rightarrow> 's smmu \<Rightarrow> (u32 \<times> gp \<times> 's smmu) res" where
  "tbu_transport_dbg c t x txn s =
     bind_res (smmuv3_translate c (gp_command txn) (gp_address txn) (tbu_topology_id t)
                 (extract_substream_id x) (extract_secure x) s)
       (\<lambda>(te, s1).
          case down_dbg t (txn\<lparr>gp_address := te_translated_addr te OR (gp_address txn AND 0xFFF)\<rparr>)
                 (sm_env s1)
          of (n, txn1, e) \<Rightarrow> Inr (n, txn1\<lparr>gp_address := gp_address txn\<rparr>, s1\<lparr>sm_env := e\<rparr>))"

text \<open>The arithmetic on a granted descriptor: clamp it to the translated page, then move it to the
  input address space. \<open>None\<close> when nothing of the page is left.\<close>

definition tbu_project_dmi :: "u64 \<Rightarrow> iommu_tlb_entry \<Rightarrow> tlm_dmi \<Rightarrow> tlm_dmi option" where
  "tbu_project_dmi iova te dmi =
     (let pa_page_start = te_translated_addr te;
          pa_page_end = te_translated_addr te OR te_addr_mask te;
          clamp_pa_start = (if dmi_start dmi < pa_page_start then pa_page_start else dmi_start dmi);
          clamp_pa_end = (if pa_page_end < dmi_end dmi then pa_page_end else dmi_end dmi)
      in if clamp_pa_end < clamp_pa_start then None
         else let iova_page_start = iova AND NOT (te_addr_mask te);
                  d1 = dmi\<lparr>dmi_ptr := dmi_ptr dmi + (clamp_pa_start - dmi_start dmi),
                           dmi_start := iova_page_start + (clamp_pa_start - pa_page_start),
                           dmi_end := iova_page_start + (clamp_pa_end - pa_page_start)\<rparr>
              in Some (if te_perm te = ACC_RO then d1\<lparr>dmi_read := True, dmi_write := False\<rparr>
                       else if te_perm te = ACC_WO then d1\<lparr>dmi_read := False, dmi_write := True\<rparr>
                       else d1))"

definition dmi_refused :: "u64 \<Rightarrow> tlm_dmi \<Rightarrow> tlm_dmi" where
  "dmi_refused iova dmi = dmi\<lparr>dmi_read := False, dmi_write := False, dmi_start := iova, dmi_end := iova\<rparr>"

definition tbu_get_direct_mem_ptr ::
  "'s smmu_cfg \<Rightarrow> 's tbu \<Rightarrow> tbu_exts \<Rightarrow> gp \<Rightarrow> tlm_dmi \<Rightarrow> 's smmu \<Rightarrow> (bool \<times> gp \<times> tlm_dmi \<times> 's smmu) res" where
  "tbu_get_direct_mem_ptr c t x txn dmi s =
     (let iova = gp_address txn
      in bind_res (smmuv3_translate c (gp_command txn) iova (tbu_topology_id t)
                     (extract_substream_id x) (extract_secure x) s)
       (\<lambda>(te, s1).
          if perm_denied (gp_command txn) (te_perm te)
          then Inr (False, txn, dmi_refused iova dmi, s1)
          else case down_dmi t (txn\<lparr>gp_address := te_translated_addr te OR (iova AND te_addr_mask te)\<rparr>)
                      dmi (sm_env s1)
               of (ok, txn1, dmi1, ivs, e) \<Rightarrow>
                 (let s2 = fold (tbu_invalidate t) ivs (s1\<lparr>sm_env := e\<rparr>);
                      txn2 = txn1\<lparr>gp_address := iova\<rparr>
                  in if \<not> ok then Inr (False, txn2, dmi1, s2)
                     else case tbu_project_dmi iova te dmi1 of
                            None \<Rightarrow> Inr (False, txn2, dmi1, s2)
                          | Some d \<Rightarrow> Inr (True, txn2, d, s2))))"

end
