(* ===== verification/SmmuInv.thy ===== *)
theory SmmuInv
  imports SmmuTbu
begin

text \<open>
  The state invariant of the SMMUv3 device: its translation, stream table and context descriptor
  caches agree with their order lists and respect their bounds, and only successful translations are
  cached. The invariant is shown for every state the device can reach through register accesses,
  reset and the calls of its front ends.
\<close>

section \<open>The translation cache and its order list agree\<close>

definition tlb_ok :: "nat \<Rightarrow> ('k \<times> 'v) list \<Rightarrow> 'k list \<Rightarrow> bool" where
  "tlb_ok n al l \<longleftrightarrow> distinct (map fst al) \<and> distinct l \<and> set l = set (map fst al) \<and> length l \<le> n"

text \<open>A cached translation grants some access, is no fault, and lies under the page of its key.\<close>

definition cached_ok :: "iotlb_key \<Rightarrow> iommu_tlb_entry \<Rightarrow> bool" where
  "cached_ok k e \<longleftrightarrow> te_perm e \<noteq> ACC_NONE \<and> te_fault_type e = 0 \<and> \<not> te_stallable_fault e
     \<and> k_iova k = te_iova e AND NOT (te_addr_mask e)"

text \<open>The three caches of the device: translations, stream table entries, context descriptors.\<close>

definition caches_ok :: "'s smmu_cfg \<Rightarrow> 's smmu \<Rightarrow> bool" where
  "caches_ok c s \<longleftrightarrow> tlb_ok (unat (p_iotlb_size c)) (sm_iotlb s) (sm_iotlb_lru s)
     \<and> (\<forall>(k, e) \<in> set (sm_iotlb s). cached_ok k e)
     \<and> tlb_ok STE_CACHE_MAX (sm_ste_cache s) (sm_ste_cache_lru s)
     \<and> tlb_ok CD_CACHE_MAX (sm_cd_cache s) (sm_cd_cache_lru s)"

definition caches_of :: "'s smmu \<Rightarrow> ((iotlb_key \<times> iommu_tlb_entry) list \<times> iotlb_key list)
     \<times> ((u32 \<times> smmu_ste) list \<times> u32 list) \<times> ((u64 \<times> smmu_cd) list \<times> u64 list)" where
  "caches_of s = ((sm_iotlb s, sm_iotlb_lru s), (sm_ste_cache s, sm_ste_cache_lru s),
     (sm_cd_cache s, sm_cd_cache_lru s))"

lemma caches_ok_cong: "caches_of s' = caches_of s \<Longrightarrow> caches_ok c s' = caches_ok c s"
  by (simp add: caches_ok_def caches_of_def)

lemma caches_of_irq_core: "irq_core s' = irq_core s \<Longrightarrow> caches_of s' = caches_of s"
  using irq_coreD[of s' s] unfolding caches_of_def by blast

lemma caches_of_dma_core: "dma_core s' = dma_core s \<Longrightarrow> caches_of s' = caches_of s"
  by (rule caches_of_irq_core[OF irq_core_of_dma_core])

lemma set_butlast_distinct:
  "xs \<noteq> [] \<Longrightarrow> distinct xs \<Longrightarrow> set (butlast xs) = set xs - {last xs}"
  by (induction xs rule: rev_induct) auto

lemma update_key_set: "set (map fst (AList.update k v al)) = insert k (set (map fst al))"
  by (simp add: AList.dom_update)

lemma tlb_ok_length: "tlb_ok n al l \<Longrightarrow> length al = length l"
  unfolding tlb_ok_def by (metis distinct_card length_map)

lemma tlb_ok_mem: "tlb_ok n al l \<Longrightarrow> k \<in> set l \<longleftrightarrow> map_of al k \<noteq> None"
  unfolding tlb_ok_def by (simp add: map_of_eq_None_iff)

text \<open>Making room for a key, then putting it in front.\<close>

lemma tlb_ok_push:
  assumes "distinct (map fst al)" "distinct l" "k \<notin> set l" "length l < n"
    and "insert k (set l) = insert k (set (map fst al))"
  shows "tlb_ok n (AList.update k e al) (k # l)"
  using assms unfolding tlb_ok_def update_key_set by (simp add: AList.distinct_update)

lemma tlb_ok_touch:
  assumes ok: "tlb_ok n al l" and k: "map_of al k \<noteq> None"
  shows "tlb_ok n (AList.update k e al) (k # removeAll k l)"
proof (rule tlb_ok_push)
  have kl: "k \<in> set l" using k by (simp add: tlb_ok_mem[OF ok])
  then have "length (removeAll k l) < length l" by (rule length_removeAll_less)
  with ok show "length (removeAll k l) < n" unfolding tlb_ok_def by simp
  show "insert k (set (removeAll k l)) = insert k (set (map fst al))"
    using ok kl unfolding tlb_ok_def by auto
qed (use ok in \<open>auto simp: tlb_ok_def distinct_removeAll\<close>)

lemma tlb_ok_evict:
  assumes ok: "tlb_ok n al l" and ne: "l \<noteq> []" and k: "map_of al k = None"
  shows "tlb_ok n (AList.update k e (AList.delete (last l) al)) (k # butlast l)"
proof (rule tlb_ok_push)
  have keys: "map fst (AList.delete (last l) al) = removeAll (last l) (map fst al)"
    by (rule AList.delete_keys)
  show "distinct (map fst (AList.delete (last l) al))"
    unfolding keys using ok by (simp add: tlb_ok_def distinct_removeAll)
  show "insert k (set (butlast l)) = insert k (set (map fst (AList.delete (last l) al)))"
    unfolding keys using ok set_butlast_distinct[OF ne] by (simp add: tlb_ok_def)
  show "k \<notin> set (butlast l)" using k tlb_ok_mem[OF ok, of k] by (auto dest: in_set_butlastD)
  show "length (butlast l) < n" using ok ne by (cases l) (auto simp: tlb_ok_def)
qed (use ok in \<open>simp add: tlb_ok_def distinct_butlast\<close>)

lemma tlb_ok_new:
  assumes ok: "tlb_ok n al l" and k: "map_of al k = None" and room: "length al < n"
  shows "tlb_ok n (AList.update k e al) (k # l)"
  using ok tlb_ok_mem[OF ok, of k] k room
  by (intro tlb_ok_push) (simp_all add: tlb_ok_def tlb_ok_length[OF ok])

lemma tlb_ok_filter: "tlb_ok n al l \<Longrightarrow> tlb_ok n (filter (\<lambda>e. P (fst e)) al) (filter P l)"
proof -
  assume ok: "tlb_ok n al l"
  have "map fst (filter (\<lambda>e. P (fst e)) al) = filter P (map fst al)" by (simp add: filter_map comp_def)
  with ok show ?thesis unfolding tlb_ok_def
    by (auto intro: order_trans[OF length_filter_le])
qed

lemma iotlb_insert_ok:
  assumes inv: "caches_ok c s" and size: "0 < p_iotlb_size c"
  shows "\<exists>al l. iotlb_insert c k e s = Inr (s\<lparr>sm_iotlb := AList.update k e al, sm_iotlb_lru := k # l\<rparr>)
           \<and> tlb_ok (unat (p_iotlb_size c)) (AList.update k e al) (k # l)
           \<and> set al \<subseteq> set (sm_iotlb s)"
proof -
  let ?l = "sm_iotlb_lru s" and ?al = "sm_iotlb s" and ?n = "unat (p_iotlb_size c)"
  have ok: "tlb_ok ?n ?al ?l" using inv by (simp add: caches_ok_def)
  have pos: "0 < ?n" using size by (simp add: word_less_nat_alt)
  consider (hit) "map_of ?al k \<noteq> None" | (new) "map_of ?al k = None" "length ?al < ?n"
    | (full) "map_of ?al k = None" "?n \<le> length ?al" by linarith
  then show ?thesis
  proof cases
    case hit
    then show ?thesis
      by (intro exI[of _ ?al] exI[of _ "removeAll k ?l"] conjI tlb_ok_touch[OF ok])
        (simp_all add: iotlb_insert_def)
  next
    case new
    then show ?thesis
      by (intro exI[of _ ?al] exI[of _ ?l] conjI tlb_ok_new[OF ok]) (simp_all add: iotlb_insert_def)
  next
    case full
    then have ne: "?l \<noteq> []" using pos tlb_ok_length[OF ok] by auto
    with full show ?thesis
      by (intro exI[of _ "AList.delete (last ?l) ?al"] exI[of _ "butlast ?l"] conjI tlb_ok_evict[OF ok])
        (simp_all add: iotlb_insert_def AList.delete_eq)
  qed
qed

lemma tlb_ok_empty [simp]: "tlb_ok n [] []"
  by (simp add: tlb_ok_def)

lemma tlb_ok_delete: "tlb_ok n al l \<Longrightarrow> tlb_ok n (AList.delete k al) (removeAll k l)"
  by (auto simp: tlb_ok_def AList.delete_keys distinct_removeAll removeAll_filter_not_eq
      intro: order_trans[OF length_filter_le])

lemma fold_removeAll: "fold (\<lambda>k l. removeAll k l) ks l = filter (\<lambda>k. k \<notin> set ks) l"
  by (induction ks arbitrary: l) (auto simp: removeAll_filter_not_eq intro!: filter_cong)

lemma tlb_ok_inv_if:
  assumes "tlb_ok n al l"
  shows "tlb_ok n (filter (\<lambda>e. \<not> P (fst e)) al)
           (fold (\<lambda>k l. removeAll k l) (filter P (map fst al)) l)"
proof -
  have "fold (\<lambda>k l. removeAll k l) (filter P (map fst al)) l = filter (\<lambda>k. \<not> P k) l"
    unfolding fold_removeAll using assms by (intro filter_cong) (auto simp: tlb_ok_def)
  then show ?thesis using tlb_ok_filter[OF assms, of "\<lambda>k. \<not> P k"] by simp
qed

lemma set_update_subset: "set (AList.update k e al) \<subseteq> insert (k, e) (set al)"
  by (induction al) auto

lemma caches_ok_insert:
  assumes ok: "caches_ok c s" and i: "iotlb_insert c k e s = Inr s'" and k: "cached_ok k e"
  shows "caches_ok c s'"
proof (cases "0 < p_iotlb_size c")
  case True
  from iotlb_insert_ok[OF ok this, of k e] i obtain al l
    where s': "s' = s\<lparr>sm_iotlb := AList.update k e al, sm_iotlb_lru := k # l\<rparr>"
      and t: "tlb_ok (unat (p_iotlb_size c)) (AList.update k e al) (k # l)"
      and sub: "set al \<subseteq> set (sm_iotlb s)" by auto
  have "\<forall>(k, e) \<in> set (AList.update k e al). cached_ok k e"
    using sub k ok set_update_subset[of k e al] by (fastforce simp: caches_ok_def)
  with t ok show ?thesis unfolding s' by (simp add: caches_ok_def)
next
  case False
  then have "p_iotlb_size c = 0" by (simp add: word_neq_0_conv[symmetric])
  then show ?thesis using ok i by (auto simp: caches_ok_def tlb_ok_def iotlb_insert_def)
qed

text \<open>An insertion after a miss: with the order list full, the oldest entry leaves first.\<close>

lemma tlb_ok_insert_miss:
  assumes ok: "tlb_ok n al l" and "map_of al k = None" "0 < n"
  shows "tlb_ok n (AList.update k v (if n \<le> length al \<and> l \<noteq> [] then AList.delete (last l) al else al))
           (k # (if n \<le> length al \<and> l \<noteq> [] then butlast l else l))"
  using assms tlb_ok_length[OF ok] tlb_ok_evict[OF ok] tlb_ok_new[OF ok]
  by (auto simp: not_le)

lemma ste_cache_insert_ok:
  "caches_ok c s \<Longrightarrow> map_of (sm_ste_cache s) sid = None \<Longrightarrow> caches_ok c (ste_cache_insert sid ste s)"
  using tlb_ok_insert_miss[of STE_CACHE_MAX "sm_ste_cache s" "sm_ste_cache_lru s" sid ste]
  by (auto simp: caches_ok_def ste_cache_insert_def Let_def STE_CACHE_MAX_def)

lemma cd_cache_insert_ok:
  "caches_ok c s \<Longrightarrow> map_of (sm_cd_cache s) k = None \<Longrightarrow> caches_ok c (cd_cache_insert k cd s)"
  using tlb_ok_insert_miss[of CD_CACHE_MAX "sm_cd_cache s" "sm_cd_cache_lru s" k cd]
  by (auto simp: caches_ok_def cd_cache_insert_def Let_def CD_CACHE_MAX_def)

text \<open>What leaves the caches alone.\<close>

lemma caches_of_updates [simp]:
  "caches_of (set_reg r v s) = caches_of s" "caches_of (put_reg_field f v s) = caches_of s"
  "caches_of (s\<lparr>sm_env := e\<rparr>) = caches_of s" "caches_of (s\<lparr>sm_upstream_log := u\<rparr>) = caches_of s"
  "caches_of (s\<lparr>sm_stalled := st\<rparr>) = caches_of s" "caches_of (s\<lparr>sm_next_stag := nt\<rparr>) = caches_of s"
  "caches_of (s\<lparr>sm_regs := rs\<rparr>) = caches_of s"
  "caches_of (s\<lparr>sm_ste_cache_secure := a\<rparr>) = caches_of s"
  "caches_of (s\<lparr>sm_cd_cache_secure := b\<rparr>) = caches_of s"
  by (simp_all add: caches_of_def set_reg_def put_reg_field_def)

lemma caches_of_irq [simp]:
  "caches_of (update_irq_levels c s) = caches_of s" "caches_of (set_gerror c b s) = caches_of s"
  "caches_of (update_secure_irq_levels c s) = caches_of s"
  "caches_of (set_secure_gerror c b s) = caches_of s" "caches_of (trigger_irq c i s) = caches_of s"
  by (rule caches_of_irq_core; simp)+

lemma caches_of_dma:
  "dma_read c a n s = (r, s') \<Longrightarrow> caches_of s' = caches_of s"
  "dma_write c a bs s = (ok, s') \<Longrightarrow> caches_of s' = caches_of s"
  by (rule caches_of_dma_core, erule dma_core_read dma_core_write)+

lemma caches_of_queue_record:
  assumes "\<And>b s. caches_of (g b s) = caches_of s" "\<And>s. caches_of (u s) = caches_of s"
  shows "caches_of (queue_record c g u q bs s) = caches_of s"
  unfolding queue_record_def Let_def
  by (auto simp: assms dest: caches_of_dma split: prod.split)

lemma caches_of_record [simp]:
  "caches_of (record_event_full c ty sid ssid iova cmd cls l stag stall s) = caches_of s"
  "caches_of (record_pri c sid iova fl s) = caches_of s"
  by (simp_all add: record_event_full_def record_pri_def caches_of_queue_record)

lemma caches_of_ste_address: "ste_address c sid s = (r, s') \<Longrightarrow> caches_of s' = caches_of s"
  unfolding ste_address_def Let_def
  by (auto dest: caches_of_dma split: if_split_asm prod.split_asm option.split_asm)

lemma caches_of_cd_address: "cd_address c ste ssid s = (r, s') \<Longrightarrow> caches_of s' = caches_of s"
  unfolding cd_address_def Let_def
  by (auto dest: caches_of_dma split: if_split_asm prod.split_asm option.split_asm)

lemma caches_ofD:
  assumes "caches_of s' = caches_of s"
  shows "sm_iotlb s' = sm_iotlb s" "sm_ste_cache s' = sm_ste_cache s" "sm_cd_cache s' = sm_cd_cache s"
  using assms by (simp_all add: caches_of_def)

lemma find_ste_caches:
  assumes ok: "caches_ok c s" and f: "find_ste c sid s = (r, ste, s')"
  shows "caches_ok c s'"
proof (cases "map_of (sm_ste_cache s) sid")
  case None
  obtain a s1 where a: "ste_address c sid s = (a, s1)" by force
  have s1: "caches_of s1 = caches_of s" by (rule caches_of_ste_address[OF a])
  show ?thesis
  proof (cases a)
    case (Some addr)
    obtain b s2 where d: "dma_read c addr 64 s1 = (b, s2)" by force
    have s2: "caches_of s2 = caches_of s" using caches_of_dma(1)[OF d] s1 by simp
    have "map_of (sm_ste_cache s2) sid = None" using None caches_ofD(2)[OF s2] by simp
    with ste_cache_insert_ok[of c s2] f s2 ok caches_ok_cong[OF s2] show ?thesis
      by (cases b) (auto simp: find_ste_def None a Some d Let_def caches_ok_cong[of "set_gerror c x s2" s2 for x])
  qed (use f a None ok caches_ok_cong[OF s1] in \<open>auto simp: find_ste_def\<close>)
qed (use ok f in \<open>auto simp: find_ste_def\<close>)

lemma read_cd_caches:
  assumes ok: "caches_ok c s" and f: "read_cd c sid ste ssid s = (r, cd, s')"
  shows "caches_ok c s'"
proof -
  let ?k = "push_bit 32 (ucast sid) OR ucast ssid :: u64"
  show ?thesis
  proof (cases "map_of (sm_cd_cache s) ?k")
    case None
    obtain a s1 where a: "cd_address c ste ssid s = (a, s1)" by force
    have s1: "caches_of s1 = caches_of s" by (rule caches_of_cd_address[OF a])
    show ?thesis
    proof (cases a)
      case (Some addr)
      obtain b s2 where d: "dma_read c addr 64 s1 = (b, s2)" by force
      have s2: "caches_of s2 = caches_of s" using caches_of_dma(1)[OF d] s1 by simp
      have "map_of (sm_cd_cache s2) ?k = None" using None caches_ofD(3)[OF s2] by simp
      with cd_cache_insert_ok[of c s2 ?k] f s2 ok caches_ok_cong[OF s2] show ?thesis
        by (cases b) (auto simp: read_cd_def None a Some d Let_def caches_ok_cong[of "set_gerror c x s2" s2 for x])
    qed (use f a None ok caches_ok_cong[OF s1] in \<open>auto simp: read_cd_def Let_def\<close>)
  qed (use ok f in \<open>auto simp: read_cd_def Let_def\<close>)
qed

lemma caches_ok_updates [simp]:
  "caches_ok c (record_event_full c' ty sid ssid iova cmd cls l stag stall s) = caches_ok c s"
  "caches_ok c (record_pri c' sid iova fl s) = caches_ok c s"
  "caches_ok c (set_reg r v s) = caches_ok c s" "caches_ok c (put_reg_field f v s) = caches_ok c s"
  "caches_ok c (s\<lparr>sm_env := e\<rparr>) = caches_ok c s" "caches_ok c (s\<lparr>sm_upstream_log := u\<rparr>) = caches_ok c s"
  "caches_ok c (s\<lparr>sm_stalled := st\<rparr>) = caches_ok c s" "caches_ok c (s\<lparr>sm_next_stag := nt\<rparr>) = caches_ok c s"
  "caches_ok c (s\<lparr>sm_regs := rs\<rparr>) = caches_ok c s"
  "caches_ok c (s\<lparr>sm_ste_cache_secure := a\<rparr>) = caches_ok c s"
  "caches_ok c (s\<lparr>sm_cd_cache_secure := b\<rparr>) = caches_ok c s"
  "caches_ok c (update_irq_levels c' s) = caches_ok c s" "caches_ok c (set_gerror c' bt s) = caches_ok c s"
  "caches_ok c (update_secure_irq_levels c' s) = caches_ok c s"
  "caches_ok c (set_secure_gerror c' bt s) = caches_ok c s" "caches_ok c (trigger_irq c' i s) = caches_ok c s"
  by (rule caches_ok_cong; simp)+

definition req_core :: "trans_req \<Rightarrow> (u64 \<times> u32 \<times> u32) \<times> smmu_ste \<times> smmu_cd \<times> acc_flags" where
  "req_core req = ((rq_iova req, rq_sid req, rq_substream_id req), rq_ste req, rq_cd req, rq_access req)"

lemma req_core_updates [simp]:
  "req_core (ptw_fault ev l req) = req_core req" "req_core (ptw_note n a d req) = req_core req"
  by (simp_all add: req_core_def ptw_fault_def ptw_note_def Let_def)

lemma req_core_loop:
  "ptw_loop c f iova pp n ttbr req s = Inr (r, req', s') \<Longrightarrow> req_core req' = req_core req"
proof (induction n arbitrary: ttbr req s)
  case 0
  then show ?case
    by (subst (asm) ptw_loop.simps)
       (auto split: sum.split_asm option.split_asm prod.split_asm ptw_next.split_asm)
next
  case (Suc n)
  show ?case
    using Suc.prems
    by (subst (asm) ptw_loop.simps)
       (auto dest!: Suc.IH split: sum.split_asm option.split_asm prod.split_asm ptw_next.split_asm)
qed

lemma req_core_leaf:
  "ptw_leaf c ctx pp lv t d req s = (ok, req', s') \<Longrightarrow> req_core req' = req_core req"
  unfolding ptw_leaf_def Let_def
  by (auto simp: req_core_def ptw_fault_def split: prod.splits if_splits option.splits)

lemma req_core_ptw64:
  "smmuv3_ptw64 c ctx req s = Inr (ok, req', s') \<Longrightarrow> req_core req' = req_core req"
  unfolding smmuv3_ptw64_def ptw_walk_def Let_def
  by (auto dest!: req_core_loop req_core_leaf split: sum.split_asm option.split_asm prod.split_asm)
     (auto simp: req_core_def)

lemma ptw64_grants:
  assumes "smmuv3_ptw64 c ctx req s = Inr (ok, req', s')" "cx_access ctx \<in> {ACC_RO, ACC_WO}"
    and "\<not> rq_err req'"
  shows "rq_prot req' \<noteq> ACC_NONE"
  using ptw_walk_result[OF assms(1)[unfolded smmuv3_ptw64_def] assms(2)] assms(2,3)
  by (auto simp: walk_grants_def)

lemma translate_walk_caches: "translate_walk c req s = Inr (req', s') \<Longrightarrow> caches_of s' = caches_of s"
  unfolding translate_walk_def Let_def
  by (auto dest!: smmuv3_ptw64_frame caches_of_dma_core split: if_split_asm)

lemma context_access [simp]:
  "cx_access (s1_context cd a acc st) = acc" "cx_access (s2_context ste a acc) = acc"
  by (simp_all add: s1_context_def s2_context_def)

lemma translate_walk_req:
  "translate_walk c req s = Inr (req', s') \<Longrightarrow> req_core req' = req_core req"
  unfolding translate_walk_def Let_def by (auto dest!: req_core_ptw64 split: if_split_asm)

lemma translate_walk_grants:
  assumes "translate_walk c req s = Inr (req', s')" "rq_access req \<in> {ACC_RO, ACC_WO}"
    and "\<not> rq_err req'"
  shows "rq_prot req' \<noteq> ACC_NONE"
proof -
  note g = ptw64_grants[of c _ _ _ _ req' s', OF _ _ assms(3)]
  have "smmuv3_ptw64 c (s1_context cd a (rq_access req) st) r s1 \<noteq> Inr (ok, req', s')"
    "smmuv3_ptw64 c (s2_context ste a (rq_access req)) r s1 \<noteq> Inr (ok, req', s')"
    if "rq_prot req' = ACC_NONE" for cd a st ste r s1 ok
    using g[of "s1_context cd a (rq_access req) st"] g[of "s2_context ste a (rq_access req)"] that assms(2)
    by auto
  then show ?thesis
    using assms(1,3) unfolding translate_walk_def Let_def by (auto split: if_split_asm)
qed

lemma translate_finish_caches:
  assumes ok: "caches_ok c s"
    and f: "translate_finish c cmd sec rg (te_init (rq_iova req)) req s = Inr (te, s')"
    and p: "\<not> rq_err req \<Longrightarrow> rq_prot req \<noteq> ACC_NONE"
  shows "caches_ok c s'"
  using f ok p unfolding translate_finish_def Let_def
  by (auto simp: cached_ok_def te_init_def elim!: caches_ok_insert[rotated] split: if_split_asm)

lemma fault_entry_caches:
  "caches_ok c s \<Longrightarrow> fault_entry c cmd ev cls sid ssid ret s = Inr (te, s') \<Longrightarrow> caches_ok c s'"
  by (auto simp: fault_entry_def)

lemma translate_cached_caches:
  assumes ok: "caches_ok c s" and t: "translate_cached c cmd sec rg k req s = Inr (te, s')"
    and acc: "rq_access req \<in> {ACC_RO, ACC_WO}"
  shows "caches_ok c s'"
proof (cases "iotlb_lookup k s")
  case None
  with t obtain req1 s1 where w: "translate_walk c req s = Inr (req1, s1)"
    and f: "translate_finish c cmd sec rg (te_init (rq_iova req)) req1 s1 = Inr (te, s')"
    by (auto simp: translate_cached_def)
  have "caches_ok c s1" using w ok caches_ok_cong[OF translate_walk_caches] by blast
  moreover have "rq_iova req = rq_iova req1"
    using translate_walk_req[OF w] by (simp add: req_core_def)
  ultimately show ?thesis
    using translate_finish_caches f translate_walk_grants[OF w acc] by metis
qed (use ok t in \<open>auto simp: translate_cached_def\<close>)

lemma translate_config_caches:
  assumes "caches_ok c s" "translate_config c cmd sec req s = Inr (te, s')"
    and "rq_access req \<in> {ACC_RO, ACC_WO}"
  shows "caches_ok c s'"
  using assms unfolding translate_config_def Let_def
  by (auto split: if_split_asm prod.split_asm
      elim!: fault_entry_caches[rotated] translate_cached_caches[rotated] intro: read_cd_caches)

lemma translate_caches:
  assumes "caches_ok c s" "smmuv3_translate c cmd iova sid ssid sec s = Inr (te, s')"
  shows "caches_ok c s'"
  using assms unfolding smmuv3_translate_def Let_def
  by (auto split: if_split_asm prod.split_asm
      elim!: fault_entry_caches[rotated] translate_config_caches[rotated] intro: find_ste_caches)

section \<open>Commands and callbacks\<close>

lemma caches_ok_inv_all [simp]: "caches_ok c s \<Longrightarrow> caches_ok c (iotlb_inv_all s)"
  by (simp add: caches_ok_def iotlb_inv_all_def)

lemma caches_ok_inv_if [simp]: "caches_ok c s \<Longrightarrow> caches_ok c (iotlb_inv_if P s)"
  using tlb_ok_inv_if[of "unat (p_iotlb_size c)" "sm_iotlb s" "sm_iotlb_lru s" P]
  by (simp add: caches_ok_def iotlb_inv_if_def)

lemma caches_ok_drop [simp]:
  "caches_ok c s \<Longrightarrow> caches_ok c (s\<lparr>sm_ste_cache := [], sm_ste_cache_lru := []\<rparr>)"
  "caches_ok c s \<Longrightarrow> caches_ok c (s\<lparr>sm_cd_cache := [], sm_cd_cache_lru := []\<rparr>)"
  "caches_ok c s \<Longrightarrow> caches_ok c (s\<lparr>sm_ste_cache := AList.delete sid (sm_ste_cache s),
     sm_ste_cache_lru := removeAll sid (sm_ste_cache_lru s)\<rparr>)"
  "caches_ok c (s\<lparr>sm_iotlb := [], sm_iotlb_lru := [], sm_ste_cache := [], sm_ste_cache_lru := [],
     sm_cd_cache := [], sm_cd_cache_lru := []\<rparr>)"
  by (simp_all add: caches_ok_def tlb_ok_delete)

lemma caches_ok_dma:
  "dma_read c a n s = (r, s') \<Longrightarrow> caches_ok c' s' = caches_ok c' s"
  "dma_write c a bs s = (ok, s') \<Longrightarrow> caches_ok c' s' = caches_ok c' s"
  by (rule caches_ok_cong, erule caches_of_dma)+

lemma caches_ok_sync_msi:
  "(\<And>b s. caches_ok c (g b s) = caches_ok c s) \<Longrightarrow> caches_ok c s \<Longrightarrow> caches_ok c (sync_msi c g a b s)"
  by (auto simp: sync_msi_def Let_def caches_ok_dma split: prod.split)

lemmas command_defs = handle_cmd_cfgi_ste_def handle_cmd_cfgi_ste_range_def handle_cmd_cfgi_cd_def
  handle_cmd_cfgi_cd_all_def handle_cmd_cfgi_all_def handle_cmd_tlbi_nh_all_def
  handle_cmd_tlbi_nh_asid_def handle_cmd_tlbi_nh_va_def handle_cmd_tlbi_nh_vaa_def
  handle_cmd_tlbi_s12_vmall_def handle_cmd_tlbi_s2_ipa_def handle_cmd_tlbi_nsnh_all_def
  handle_cmd_atc_inv_def handle_cmd_sync_def handle_cmd_resume_def
  iotlb_inv_asid_def iotlb_inv_vmid_def iotlb_inv_iova_def

lemma exec_cmd_caches: "caches_ok c s \<Longrightarrow> exec_cmd c cmd s = Some s' \<Longrightarrow> caches_ok c s'"
  unfolding exec_cmd_def Let_def command_defs
  by (auto simp: caches_ok_sync_msi split: if_split_asm prod.split option.split)

lemma exec_secure_cmd_caches: "caches_ok c s \<Longrightarrow> exec_secure_cmd c cmd s = Some s' \<Longrightarrow> caches_ok c s'"
  unfolding exec_secure_cmd_def Let_def
  by (auto simp: caches_ok_sync_msi split: if_split_asm)

lemma cmdq_err_caches [simp]:
  "caches_ok c (set_cmdq_err c' v s) = caches_ok c s"
  "caches_ok c (set_secure_cmdq_err c' v s) = caches_ok c s"
  by (simp_all add: set_cmdq_err_def set_secure_cmdq_err_def)

definition world_frame :: "'s smmu_cfg \<Rightarrow> 's cmdq_world \<Rightarrow> bool" where
  "world_frame c w \<longleftrightarrow> (\<forall>v s. caches_ok c (cw_err w v s) = caches_ok c s)
     \<and> (\<forall>cmd s s'. caches_ok c s \<longrightarrow> cw_exec w cmd s = Some s' \<longrightarrow> caches_ok c s')"

lemma worlds_frame: "world_frame c (ns_world c)" "world_frame c (secure_world c)"
  by (auto simp: world_frame_def ns_world_def secure_world_def
      dest: exec_cmd_caches exec_secure_cmd_caches)

lemma cmdq_step_caches:
  assumes w: "world_frame c w" and ok: "caches_ok c s"
    and st: "cmdq_step c w base n cons s = Inl s' \<or> cmdq_step c w base n cons s = Inr s'"
  shows "caches_ok c s'"
proof -
  obtain r s1 where d: "dma_read c (base + ucast (cons AND (push_bit n 1 - 1)) * 16) 16 s = (r, s1)"
    by force
  have "caches_ok c s1" using caches_ok_dma(1)[OF d] ok by blast
  with w st show ?thesis unfolding world_frame_def cmdq_step_def Let_def d
    by (auto split: option.split_asm)
qed

lemma cmdq_loop_caches:
  "world_frame c w \<Longrightarrow> caches_ok c s \<Longrightarrow> caches_ok c (cmdq_loop c w base n prodv cons s)"
proof (induction c w base n prodv cons s rule: cmdq_loop.induct)
  case (1 c w base n prodv cons s)
  let ?m = "push_bit (n + 1) 1 - 1 :: u32"
  show ?case
  proof (cases "prodv AND ?m = cons AND ?m")
    case False
    note st = cmdq_step_caches[OF "1.prems", of base n cons]
    show ?thesis
    proof (cases "cmdq_step c w base n cons s")
      case (Inr s1)
      have "caches_ok c s1" using st Inr by blast
      from "1.IH"[OF refl False Inr "1.prems"(1) this] Inr False show ?thesis
        by (subst cmdq_loop.simps) (simp only: Let_def if_False sum.case)
    qed (use st False in \<open>subst cmdq_loop.simps, simp\<close>)
  qed (use "1.prems" in \<open>subst cmdq_loop.simps, simp\<close>)
qed

lemma consume_caches [simp]:
  "caches_ok c s \<Longrightarrow> caches_ok c (consume_if_enabled c s)"
  "caches_ok c s \<Longrightarrow> caches_ok c (secure_consume_if_enabled c s)"
  by (simp_all add: consume_if_enabled_def secure_consume_if_enabled_def consume_cmdq_def
      consume_secure_cmdq_def consume_queue_def Let_def cmdq_loop_caches worlds_frame)

lemma do_gatos_caches: "caches_ok c s \<Longrightarrow> do_gatos c s = Inr s' \<Longrightarrow> caches_ok c s'"
  unfolding do_gatos_def Let_def by (auto elim!: translate_caches[rotated] split: if_split_asm)

lemma post_write_caches: "caches_ok c s \<Longrightarrow> post_write c r s = Inr s' \<Longrightarrow> caches_ok c s'"
  unfolding post_write_def s_init_inv_all_def
  by (auto elim: do_gatos_caches[rotated] split: if_split_asm)

lemma pre_read_caches: "caches_ok c s \<Longrightarrow> caches_ok c (pre_read c r s)"
  by (simp add: pre_read_def Let_def)

lemma reset_caches: "caches_ok c s \<Longrightarrow> smmu_reset c v s = Inr s' \<Longrightarrow> caches_ok c s'"
  by (auto simp: smmu_reset_def start_of_simulation_def Let_def split: if_split_asm)
     (simp add: caches_ok_def)

section \<open>Every reachable state of the device\<close>

text \<open>What the environment can do: bus accesses to the registers, the reset input, and the calls of
  the front ends, including the continuation of a stalled transaction.\<close>

inductive smmu_step :: "'s smmu_cfg \<Rightarrow> 's smmu \<Rightarrow> 's smmu \<Rightarrow> bool" for c where
  step_write: "bus_write c r v s = Inr s' \<Longrightarrow> smmu_step c s s'"
| step_read: "bus_read c r s = (v, s') \<Longrightarrow> smmu_step c s s'"
| step_reset: "smmu_reset c v s = Inr s' \<Longrightarrow> smmu_step c s s'"
| step_transport: "tbu_b_transport c t x txn d s = Inr (out, s') \<Longrightarrow> smmu_step c s s'"
| step_resume: "tbu_resume c t x stag txn d s = Inr (out, s') \<Longrightarrow> smmu_step c s s'"
| step_dbg: "tbu_transport_dbg c t x txn s = Inr (n, txn', s') \<Longrightarrow> smmu_step c s s'"
| step_dmi: "tbu_get_direct_mem_ptr c t x txn dmi s = Inr (ok, txn', dmi', s') \<Longrightarrow> smmu_step c s s'"
| step_invalidate: "smmu_step c s (tbu_invalidate t iv s)"
| step_dma_invalidate: "smmu_step c s (dma_dmi_invalidate iv s)"

inductive smmu_reachable :: "'s smmu_cfg \<Rightarrow> 's smmu \<Rightarrow> bool" for c where
  reachable_init: "start_of_simulation c (smmu_init e) = Inr s \<Longrightarrow> smmu_reachable c s"
| reachable_step: "smmu_reachable c s \<Longrightarrow> smmu_step c s s' \<Longrightarrow> smmu_reachable c s'"

lemma tbu_invalidate_caches [simp]: "caches_ok c (tbu_invalidate t iv s) = caches_ok c s"
  by (simp add: tbu_invalidate_def Let_def split: prod.split)

lemma tbu_invalidates_caches [simp]: "caches_ok c (fold (tbu_invalidate t) ivs s) = caches_ok c s"
  by (induction ivs arbitrary: s) simp_all

lemma tbu_forward_caches: "tbu_forward t ma txn d s = (txn', d', s') \<Longrightarrow> caches_ok c s' = caches_ok c s"
  by (auto simp: tbu_forward_def split: prod.split_asm)

lemma tbu_access_caches: "tbu_access t x te txn d s = (out, s') \<Longrightarrow> caches_ok c s' = caches_ok c s"
  by (auto simp: tbu_access_def Let_def split: prod.split_asm if_split_asm dest: tbu_forward_caches)

lemma stall_begin_caches:
  "stall_begin c sid ssid iova ft fl cl cmd s = (stag, s') \<Longrightarrow> caches_ok c' s' = caches_ok c' s"
  by (auto simp: stall_begin_def Let_def)

lemma tbu_attempt_caches:
  assumes ok: "caches_ok c s" and t: "tbu_attempt c t x txn d s = Inr (out, s')"
  shows "caches_ok c s'"
proof -
  from t obtain te s1 where tr: "smmuv3_translate c (gp_command txn) (gp_address txn) (tbu_topology_id t)
                 (extract_substream_id x) (extract_secure x) s = Inr (te, s1)"
    by (auto simp: tbu_attempt_def)
  have "caches_ok c s1" by (rule translate_caches[OF ok tr])
  then show ?thesis using t tr
    by (auto simp: tbu_attempt_def tbu_answer_ats_def tbu_access_caches stall_begin_caches
        split: if_split_asm prod.split_asm option.split_asm)
qed

lemma smmu_step_caches: "smmu_step c s s' \<Longrightarrow> caches_ok c s \<Longrightarrow> caches_ok c s'"
proof (induction rule: smmu_step.induct)
  case (step_write r v s s')
  then show ?case unfolding bus_write_def by (auto elim!: post_write_caches[rotated])
next
  case (step_read r s v s')
  then show ?case by (auto simp: bus_read_def Let_def pre_read_caches)
next
  case (step_reset v s s')
  then show ?case by (rule reset_caches[rotated])
next
  case (step_transport t x txn d s out s')
  then show ?case unfolding tbu_b_transport_def
    by (auto simp: tbu_forward_caches elim: tbu_attempt_caches[rotated] split: if_split_asm prod.split_asm)
next
  case (step_resume t x stag txn d s out s')
  then show ?case unfolding tbu_resume_def stall_end_def
    by (auto elim!: tbu_attempt_caches[rotated] split: option.split_asm if_split_asm)
next
  case (step_dbg t x txn s n txn' s')
  then obtain te s1 where "smmuv3_translate c (gp_command txn) (gp_address txn) (tbu_topology_id t)
                 (extract_substream_id x) (extract_secure x) s = Inr (te, s1)"
    by (auto simp: tbu_transport_dbg_def)
  with step_dbg translate_caches[OF step_dbg.prems this] show ?case
    by (auto simp: tbu_transport_dbg_def split: prod.split_asm)
next
  case (step_dmi t x txn dmi s ok txn' dmi' s')
  then obtain te s1 where "smmuv3_translate c (gp_command txn) (gp_address txn) (tbu_topology_id t)
                 (extract_substream_id x) (extract_secure x) s = Inr (te, s1)"
    by (auto simp: tbu_get_direct_mem_ptr_def Let_def)
  with step_dmi translate_caches[OF step_dmi.prems this] show ?case
    by (auto simp: tbu_get_direct_mem_ptr_def Let_def split: prod.split_asm if_split_asm option.split_asm)
next
  case (step_invalidate s t iv)
  then show ?case by simp
next
  case (step_dma_invalidate s iv)
  then show ?case using caches_ok_cong[OF caches_of_dma_core[OF dma_core_invalidate]] by blast
qed

lemma reachable_caches: "smmu_reachable c s \<Longrightarrow> caches_ok c s"
proof (induction rule: smmu_reachable.induct)
  case (reachable_init e s)
  then show ?case by (auto simp: start_of_simulation_def Let_def) (simp add: caches_ok_def smmu_init_def)
qed (rule smmu_step_caches)

text \<open>C7. In every reachable state of the device its three caches are consistent: no key occurs twice,
  the order list names exactly the cached keys, and the sizes respect the configured bounds. No
  cached translation is a fault or withholds all access, and each lies under the page of its key.
  So an insertion into a translation cache of nonzero size always succeeds, never takes the last
  element of an empty list, and the new entry is found.\<close>

theorem reachable_caches_ok:
  assumes "smmu_reachable c s"
  shows "caches_ok c s \<and> (0 < p_iotlb_size c \<longrightarrow>
           (\<exists>s'. iotlb_insert c k e s = Inr s' \<and> iotlb_lookup k s' = Some e))"
proof -
  have ok: "caches_ok c s" by (rule reachable_caches[OF assms])
  have "\<exists>s'. iotlb_insert c k e s = Inr s' \<and> iotlb_lookup k s' = Some e" if "0 < p_iotlb_size c"
    using iotlb_insert_ok[OF ok that, of k e] by (auto simp: iotlb_lookup_def AList.update_conv')
  with ok show ?thesis by blast
qed

lemma test_cfg_starts: "\<exists>s. start_of_simulation (test_cfg rd) (smmu_init ()) = Inr s"
  by (simp add: start_of_simulation_def id_regs_def Let_def set_field_def test_cfg_def
      gs_mask_for_field_ok mask_eq_exp_minus_1)

theorem reachable_caches_ok_witness:
  "\<exists>s. smmu_reachable (test_cfg (\<lambda>_. [])) s \<and> caches_ok (test_cfg (\<lambda>_. [])) s"
proof -
  obtain s where "start_of_simulation (test_cfg (\<lambda>_. [])) (smmu_init ()) = Inr s"
    using test_cfg_starts by blast
  then have "smmu_reachable (test_cfg (\<lambda>_. [])) s" by (rule reachable_init)
  then show ?thesis using reachable_caches_ok by blast
qed

end
