(* ===== verification/SmmuAccess.thy ===== *)
theory SmmuAccess
  imports SmmuInv
begin

text \<open>
  A device access through the translation front end: what happens on a miss of the translation cache,
  the direct memory windows passed upstream, and the effects of serving a later access from the
  cache. The small configuration at the end makes the statements concrete.
\<close>

section \<open>An access through the front end\<close>

lemma translated_offset:
  "12 \<le> n \<Longrightarrow> (t OR (a AND (push_bit n 1 - 1))) OR (a AND 0xFFF) = t OR (a AND (push_bit n 1 - 1) :: u64)"
proof -
  assume n: "12 \<le> n"
  have "(0xFFF :: u64) = push_bit 12 1 - 1" by simp
  then have "a AND 0xFFF = take_bit 12 a" by (simp only: and_exp_minus_one)
  then show ?thesis
    using n by (simp only: and_exp_minus_one) (rule bit_eqI, auto simp: bit_simps)
qed

lemma walk_grants_pa:
  assumes "walk_grants c ctx req" "cx_iova ctx = a"
  shows "rq_pa req OR (a AND 0xFFF) = rq_pa req"
proof -
  obtain pp l where g: "ptw_setup c ctx = Inr (Inr pp)" "0 \<le> l" "l \<le> 3"
    "unat (rq_page_size req) = (unat (pp_grainsize pp) - 3) * nat (4 - l) + 3"
    "rq_pa req = desc_address pp (rq_descriptor req) OR (a AND (push_bit (unat (rq_page_size req)) 1 - 1))"
    using assms unfolding walk_grants_def by blast
  have "pp_grainsize pp \<in> {12, 14, 16}" using ptw_setup_params[OF g(1)] by blast
  then have "12 \<le> unat (rq_page_size req)" using g(4) level_cases[OF g(2,3)] by auto
  then show ?thesis unfolding g(5) by (rule translated_offset)
qed

text \<open>The state a device access finds when the unit is enabled, the stream table entry configures
  stage 1, the context descriptor is valid and the translation is not cached. \<open>s2\<close> is the state after
  both were fetched.\<close>

definition stage1_miss ::
  "'s smmu_cfg \<Rightarrow> u32 \<Rightarrow> u32 \<Rightarrow> bool \<Rightarrow> u64 \<Rightarrow> smmu_ste \<Rightarrow> smmu_cd \<Rightarrow> 's smmu \<Rightarrow> 's smmu \<Rightarrow> bool" where
  "stage1_miss c sid ssid sec a ste cd s s2 \<longleftrightarrow> fld CR0_SMMUEN s \<noteq> 0
     \<and> (\<exists>s1. find_ste c sid s = (True, ste, s1) \<and> ste_valid ste \<and> ste_config ste = 5
          \<and> (ste_s1cdmax ste = 0 \<or> ssid < push_bit (unat (ste_s1cdmax ste)) 1)
          \<and> read_cd c sid ste ssid s1 = (True, cd, s2) \<and> cd_valid cd
          \<and> iotlb_lookup (lookup_key (ste_vmid ste) (cd_asid cd) a (cd_tg0 cd) sec
                (compute_iotlb_regime (ste_strw ste) (fld CR2_E2H s1 \<noteq> 0) sec)) s2 = None)"

abbreviation miss_req :: "u32 \<Rightarrow> u32 \<Rightarrow> u64 \<Rightarrow> acc_flags \<Rightarrow> smmu_ste \<Rightarrow> smmu_cd \<Rightarrow> trans_req" where
  "miss_req sid ssid a acc ste cd \<equiv> req_init\<lparr>rq_iova := a, rq_sid := sid, rq_substream_id := ssid,
     rq_access := acc, rq_ste := ste, rq_cd := cd\<rparr>"

abbreviation cmd_access :: "tlm_command \<Rightarrow> acc_flags" where
  "cmd_access cmd \<equiv> (if cmd = Write_command then ACC_WO else ACC_RO)"

lemma stage1_miss_translate:
  assumes miss: "stage1_miss c sid ssid sec a ste cd s s2"
    and walk: "walkable (s1_context cd a (cmd_access cmd) None)"
  shows "\<exists>rg ok req s3. smmuv3_ptw64 c (s1_context cd a (cmd_access cmd) None)
        (miss_req sid ssid a (cmd_access cmd) ste cd) s2 = Inr (ok, req, s3)
    \<and> rq_err req = (\<not> ok)
    \<and> (if ok then walk_grants c (s1_context cd a (cmd_access cmd) None) req
       else rq_event_type req \<in> walk_events)
    \<and> rq_iova req = a \<and> rq_sid req = sid \<and> rq_substream_id req = ssid \<and> rq_ste req = ste
    \<and> rq_cd req = cd
    \<and> smmuv3_translate c cmd a sid ssid sec s = translate_finish c cmd sec rg (te_init a) req s3"
proof -
  let ?ctx = "s1_context cd a (cmd_access cmd) None" and ?req = "miss_req sid ssid a (cmd_access cmd) ste cd"
  have "nested_ok ?ctx" "cx_access ?ctx \<in> {ACC_RO, ACC_WO}"
    by (auto simp: nested_ok_def s1_context_def)
  from ptw64_result[OF walk this, of c ?req s2] obtain ok req s3
    where w: "smmuv3_ptw64 c ?ctx ?req s2 = Inr (ok, req, s3)" and err: "rq_err req = (\<not> ok)"
      and res: "if ok then walk_grants c ?ctx req else rq_event_type req \<in> walk_events" by blast
  obtain s1 where m: "fld CR0_SMMUEN s \<noteq> 0" "find_ste c sid s = (True, ste, s1)" "ste_valid ste"
    "ste_config ste = 5" "ste_s1cdmax ste = 0 \<or> ssid < push_bit (unat (ste_s1cdmax ste)) 1"
    "read_cd c sid ste ssid s1 = (True, cd, s2)" "cd_valid cd"
    "iotlb_lookup (lookup_key (ste_vmid ste) (cd_asid cd) a (cd_tg0 cd) sec
       (compute_iotlb_regime (ste_strw ste) (fld CR2_E2H s1 \<noteq> 0) sec)) s2 = None"
    using miss unfolding stage1_miss_def by blast
  have tw: "translate_walk c ?req s2 = Inr (req, s3)"
    using w m(4) by (simp add: translate_walk_def Let_def)
  have "smmuv3_translate c cmd a sid ssid sec s
      = translate_config c cmd sec (?req\<lparr>rq_cd := rq_cd req_init\<rparr>) s1"
    using m by (auto simp: smmuv3_translate_def Let_def)
  also have "\<dots> = translate_finish c cmd sec (compute_iotlb_regime (ste_strw ste) (fld CR2_E2H s1 \<noteq> 0) sec)
      (te_init a) req s3"
    using m tw by (simp add: translate_config_def Let_def translate_cached_def)
  finally have "smmuv3_translate c cmd a sid ssid sec s = translate_finish c cmd sec
      (compute_iotlb_regime (ste_strw ste) (fld CR2_E2H s1 \<noteq> 0) sec) (te_init a) req s3" .
  then show ?thesis using w err res req_core_ptw64[OF w] by (auto simp: req_core_def)
qed

lemma stage1_miss_caches:
  assumes "stage1_miss c sid ssid sec a ste cd s s2" "caches_ok c s"
    and "smmuv3_ptw64 c ctx req s2 = Inr (ok, req', s3)"
  shows "caches_ok c s3"
proof -
  have "caches_ok c s2"
    using assms(1,2) unfolding stage1_miss_def by (blast intro: find_ste_caches read_cd_caches)
  then show ?thesis
    using caches_ok_cong[OF caches_of_dma_core[OF smmuv3_ptw64_frame[OF assms(3)]]] by blast
qed

text \<open>C5. A device access that misses the translation cache, in a stream configured for stage 1: the
  unit walks the tables exactly once. When the walk succeeds, the translation is cached and exactly
  one transaction goes downstream, to the address the leaf descriptor gives with the page offset of
  the access, and the payload comes back with its original address. When the walk faults, nothing
  goes downstream: the transaction is parked under a fresh tag if the fault can be stalled, and
  otherwise an event is recorded and the transaction answered with an address error.\<close>

theorem tbu_stage1_miss:
  fixes s :: "'s smmu"
  assumes miss: "stage1_miss c (tbu_topology_id t) (extract_substream_id x) (extract_secure x)
        (gp_address txn) ste cd s s2"
    and walk: "walkable (s1_context cd (gp_address txn) (cmd_access (gp_command txn)) None)"
    and plain: "tx_ats x = None" "gp_command txn \<in> {Read_command, Write_command}"
    and caches: "caches_ok c s" "0 < p_iotlb_size c"
  shows "\<exists>ok req s3. smmuv3_ptw64 c (s1_context cd (gp_address txn) (cmd_access (gp_command txn)) None)
        (miss_req (tbu_topology_id t) (extract_substream_id x) (gp_address txn)
           (cmd_access (gp_command txn)) ste cd) s2 = Inr (ok, req, s3)
    \<and> (if ok
       then walk_grants c (s1_context cd (gp_address txn) (cmd_access (gp_command txn)) None) req
         \<and> (\<exists>k e s4. iotlb_insert c k e s3 = Inr s4 \<and> te_translated_addr e = rq_pa req
              \<and> te_perm e = rq_prot req
              \<and> tbu_b_transport c t x txn d s
                = Inr (case tbu_forward t
                              (Some (set_from_descriptor (rq_descriptor req) (rq_tableattrs req)))
                              (txn\<lparr>gp_address := rq_pa req\<rparr>) d s4 of
                         (txn1, d1, s5) \<Rightarrow>
                           (Tbu_done (txn1\<lparr>gp_address := gp_address txn\<rparr>) None d1, s5)))
       else if rq_event_type req \<noteq> EVT_F_WALK_EABT \<and> \<not> ste_s1stalld ste
       then tbu_b_transport c t x txn d s
              = Inr (case stall_begin c (tbu_topology_id t) (extract_substream_id x) (gp_address txn)
                            (rq_event_type req) (word_of_int (rq_fault_level req)) 0 (gp_command txn) s3
                     of (stag, s4) \<Rightarrow> (Tbu_stalled stag, s4))
       else tbu_b_transport c t x txn d s
              = Inr (Tbu_done (txn\<lparr>gp_response := Address_error_response\<rparr>) None d,
                     record_event_full c (rq_event_type req) (tbu_topology_id t)
                       (extract_substream_id x) (gp_address txn) (gp_command txn) CLASS_TT
                       (word_of_int (rq_fault_level req)) 0 False s3))"
proof -
  let ?a = "gp_address txn" and ?sec = "extract_secure x" and ?cmd = "gp_command txn"
  let ?ctx = "s1_context cd ?a (cmd_access ?cmd) None"
  obtain rg ok req s3 where w: "smmuv3_ptw64 c ?ctx (miss_req (tbu_topology_id t)
        (extract_substream_id x) ?a (cmd_access ?cmd) ste cd) s2 = Inr (ok, req, s3)"
    and err: "rq_err req = (\<not> ok)"
    and res: "if ok then walk_grants c ?ctx req else rq_event_type req \<in> walk_events"
    and core: "rq_iova req = ?a" "rq_sid req = tbu_topology_id t"
      "rq_substream_id req = extract_substream_id x" "rq_ste req = ste" "rq_cd req = cd"
    and tr: "smmuv3_translate c ?cmd ?a (tbu_topology_id t) (extract_substream_id x) ?sec s
      = translate_finish c ?cmd ?sec rg (te_init ?a) req s3"
    using stage1_miss_translate[OF miss walk] by blast
  have cfg: "ste_config ste = 5" using miss by (auto simp: stage1_miss_def)
  have t: "tbu_b_transport c t x txn d s = tbu_attempt c t x txn d s" "ats_request x = None"
    using plain by (simp_all add: tbu_b_transport_def ats_request_def)
  show ?thesis
  proof (cases ok)
    case True
    have g: "walk_grants c ?ctx req" using res True by simp
    then have "rq_prot req AND cmd_access ?cmd = cmd_access ?cmd"
      unfolding walk_grants_def context_access by blast
    then have perm: "\<not> perm_denied ?cmd (rq_prot req)"
      using plain(2) by (auto simp: perm_denied_def split: if_split_asm)
    have pa: "rq_pa req OR (?a AND 0xFFF) = rq_pa req"
      by (rule walk_grants_pa[OF g]) (simp add: s1_context_def)
    let ?m = "push_bit (unat (rq_page_size req)) 1 - 1"
    let ?e = "(te_init ?a)\<lparr>te_translated_addr := rq_pa req, te_perm := rq_prot req, te_addr_mask := ?m,
       te_descriptor := rq_descriptor req, te_table_attrs := rq_tableattrs req\<rparr>"
    let ?k = "\<lparr>k_vmid = ste_vmid ste, k_asid = cd_asid cd, k_iova = ?a AND NOT ?m,
       k_tg = ucast (cd_tg0 cd), k_level = 3, k_secure = ?sec, k_regime = rg\<rparr>"
    obtain s4 where ins: "iotlb_insert c ?k ?e s3 = Inr s4"
      using iotlb_insert_ok[OF stage1_miss_caches[OF miss caches(1) w] caches(2)] by blast
    have "translate_finish c ?cmd ?sec rg (te_init ?a) req s3 = Inr (?e, s4)"
      using err True core cfg ins by (simp add: translate_finish_def Let_def)
    then have "tbu_b_transport c t x txn d s = Inr (tbu_access t x ?e txn d s4)"
      using t tr by (simp add: tbu_attempt_def te_init_def)
    then show ?thesis
      using w True g ins perm pa plain(1)
      by (intro exI[of _ ok] exI[of _ req] exI[of _ s3] conjI)
        (simp, simp, intro exI[of _ ?k] exI[of _ ?e] exI[of _ s4], simp add: tbu_access_def Let_def)
  next
    case False
    have "rq_event_type req = EVT_F_WALK_EABT \<or> rq_event_type req
        \<in> {EVT_F_TRANSLATION, EVT_F_PERMISSION, EVT_F_ACCESS, EVT_F_ADDR_SIZE}"
      using res False by (auto simp: walk_events_def)
    then show ?thesis
      using False w err core cfg t tr plain(1)
      by (intro exI[of _ ok] exI[of _ req] exI[of _ s3])
        (auto simp: tbu_attempt_def translate_finish_def Let_def tbu_access_def perm_denied_def
          te_init_def split: prod.split)
  qed
qed

section \<open>Direct memory windows of the front end\<close>

text \<open>Arithmetic of a block aligned to \<open>2 ^ n\<close>.\<close>

lemma block_room:
  fixes b :: u64
  assumes "n < 64" "take_bit n b = 0"
  shows "unat b mod 2 ^ n = 0" "unat b + 2 ^ n \<le> 2 ^ 64"
proof -
  have "unat (take_bit n b) = take_bit n (unat b)" by (rule unsigned_take_bit_eq)
  with assms(2) show z: "unat b mod 2 ^ n = 0" by (simp add: take_bit_eq_mod)
  obtain k where k: "unat b = k * 2 ^ n" using z by (auto simp: mod_0_imp_dvd elim!: dvdE[OF mod_0_imp_dvd] simp: mult.commute)
  have p: "(2 :: nat) ^ 64 = 2 ^ (64 - n) * 2 ^ n"
    using assms(1) by (simp flip: power_add)
  have "unat b < 2 ^ 64" using unsigned_less[of b] by simp
  then have "k < 2 ^ (64 - n)" unfolding k p by simp
  then have "(k + 1) * 2 ^ n \<le> 2 ^ (64 - n) * 2 ^ n" by (intro mult_right_mono) auto
  then show "unat b + 2 ^ n \<le> 2 ^ 64" unfolding k p by simp
qed

lemma block_add:
  fixes b w :: u64
  assumes "n < 64" "take_bit n b = 0" "unat w < 2 ^ n"
  shows "unat (b + w) = unat b + unat w" "take_bit n (b + w) = w" "b OR w = b + w"
    "(b + w) AND NOT (mask n) = b"
proof -
  show u: "unat (b + w) = unat b + unat w"
    using block_room(2)[OF assms(1,2)] assms(3) by (subst unat_add_lem[symmetric]) simp
  have "unat (take_bit n (b + w)) = take_bit n (unat (b + w))" by (rule unsigned_take_bit_eq)
  also have "\<dots> = unat w"
    using assms(3) block_room(1)[OF assms(1,2)] by (simp add: u take_bit_eq_mod mod_add_eq[symmetric, of "unat b"])
  finally show t: "take_bit n (b + w) = w" by (simp only: word_unat_eq_iff)
  have "unat (take_bit n w) = unat w"
    unfolding unsigned_take_bit_eq using assms(3) by (simp add: take_bit_eq_mod)
  then have w: "take_bit n w = w" by (simp only: word_unat_eq_iff)
  have dis: "\<not> bit b i \<or> \<not> bit w i" for i
  proof (cases "i < n")
    case True
    then have "bit (take_bit n b) i = bit b i" by (simp add: bit_take_bit_iff)
    then show ?thesis using assms(2) by simp
  next
    case False
    then have "\<not> bit (take_bit n w) i" by (simp add: bit_take_bit_iff)
    then show ?thesis using w by simp
  qed
  then show o: "b OR w = b + w" by (simp add: disjunctive_add)
  show "(b + w) AND NOT (mask n) = b"
  proof (rule bit_word_eqI)
    fix i assume "i < LENGTH(64)"
    have "bit b i \<Longrightarrow> \<not> i < n" using assms(2) by (metis bit_0_eq bit_take_bit_iff bot_apply bot_bool_def)
    moreover have "bit w i \<Longrightarrow> i < n" using w by (metis bit_take_bit_iff)
    ultimately show "bit ((b + w) AND NOT (mask n)) i = bit b i"
      using \<open>i < LENGTH(64)\<close> by (auto simp flip: o simp: bit_simps)
  qed
qed

lemma unat_mask_u64: "n < 64 \<Longrightarrow> unat (mask n :: u64) = 2 ^ n - 1"
proof -
  assume n: "n < 64"
  then have "(2 :: nat) ^ n < 2 ^ 64" by (intro power_strict_increasing) auto
  moreover have "(2 :: u64) ^ n - 1 = of_nat (2 ^ n - 1)" by (simp add: of_nat_diff)
  ultimately show ?thesis unfolding mask_eq_exp_minus_1 by (simp only: unat_of_nat) simp
qed

text \<open>The window \<open>[lo, hi]\<close> inside the block of \<open>p\<close>, moved to the block of \<open>b\<close>.\<close>

lemma moved_window:
  fixes p b :: u64
  assumes n: "n < 64" "take_bit n p = 0" "take_bit n b = 0"
    and w: "p \<le> lo" "lo \<le> hi" "hi \<le> p OR mask n"
  shows "unat (b + (lo - p)) = unat b + (unat lo - unat p)"
    and "unat (b + (hi - p)) = unat b + (unat hi - unat p)"
    and "b + (lo - p) \<le> v \<Longrightarrow> v \<le> b + (hi - p) \<Longrightarrow> unat (v - b) < 2 ^ n
           \<and> unat lo \<le> unat p + unat (v - b) \<and> unat p + unat (v - b) \<le> unat hi"
proof -
  have pm: "unat (p OR mask n) = unat p + (2 ^ n - 1)"
    using block_add(1,3)[OF n(1,2), of "mask n"] by (simp add: unat_mask_u64[OF n(1)])
  have "p \<le> hi" using w by simp
  then have d: "unat (lo - p) = unat lo - unat p" "unat (hi - p) = unat hi - unat p"
    using w(1) by (simp_all add: unat_sub)
  have le: "unat p \<le> unat lo" "unat lo \<le> unat hi" "unat hi \<le> unat p + (2 ^ n - 1)"
    using w pm by (simp_all add: word_le_nat_alt)
  then have "unat (lo - p) < 2 ^ n" "unat (hi - p) < 2 ^ n"
    unfolding d by (auto intro: le_less_trans[of _ "2 ^ n - 1"])
  note add = this[THEN block_add(1)[OF n(1,3)], unfolded d]
  show "unat (b + (lo - p)) = unat b + (unat lo - unat p)"
    "unat (b + (hi - p)) = unat b + (unat hi - unat p)" by (rule add)+
  assume "b + (lo - p) \<le> v" "v \<le> b + (hi - p)"
  then have V: "unat b + (unat lo - unat p) \<le> unat v" "unat v \<le> unat b + (unat hi - unat p)"
    by (simp_all add: word_le_nat_alt add)
  then have "unat (v - b) = unat v - unat b" by (simp add: unat_sub word_le_nat_alt)
  then show "unat (v - b) < 2 ^ n \<and> unat lo \<le> unat p + unat (v - b) \<and> unat p + unat (v - b) \<le> unat hi"
    using V le \<open>unat (hi - p) < 2 ^ n\<close> unfolding d by auto
qed

lemma block_split:
  fixes a :: u64
  assumes "n < 64"
  shows "take_bit n (a AND NOT (mask n)) = 0" "unat (take_bit n a) < 2 ^ n"
    "(a AND NOT (mask n)) + take_bit n a = a"
proof -
  show b: "take_bit n (a AND NOT (mask n)) = 0" by (simp add: take_bit_eq_mask and.assoc)
  show t: "unat (take_bit n a) < 2 ^ n" unfolding unsigned_take_bit_eq by (simp add: take_bit_eq_mod)
  have "(a AND NOT (mask n)) OR take_bit n a = a" by (rule bit_eqI) (auto simp: bit_simps)
  then show "(a AND NOT (mask n)) + take_bit n a = a" using block_add(3)[OF assms b t] by simp
qed



text \<open>A bypassed access is not such a translation: its mask has all bits set, so the window is moved to
  start at address 0. With a grant for \<open>[0, 0xFFFF]\<close> asked for at \<open>0x1000\<close>, the address \<open>0x1000\<close> gets the
  host pointer of \<open>0x2000\<close>.\<close>

lemma bypass_dmi_shifted:
  "\<exists>d. tbu_project_dmi 0x1000 ((te_init 0x1000)\<lparr>te_addr_mask := - 1\<rparr>)
         (dmi_init\<lparr>dmi_ptr := p, dmi_start := 0, dmi_end := 0xFFFF\<rparr>) = Some d
     \<and> dmi_start d \<le> 0x1000 \<and> 0x1000 \<le> dmi_end d \<and> dmi_ptr d + (0x1000 - dmi_start d) = p + 0x2000"
  by (simp add: tbu_project_dmi_def te_init_def Let_def)

section \<open>Two effects of caching a walk\<close>

text \<open>A stream whose table entry and context descriptor are cached: a 29-bit input space in 64 KiB
  pages, with every descriptor that memory returns a read-only page at \<open>0x10000000\<close> (which, read as
  a stage-2 descriptor, grants read and write).\<close>

definition demo_ste :: "u32 \<Rightarrow> smmu_ste" where
  "demo_ste cfg = ste_init\<lparr>ste_valid := True, ste_config := cfg, ste_s2tg := 1, ste_s2t0sz := 35,
     ste_s2ps := 5\<rparr>"

definition demo_cd :: smmu_cd where
  "demo_cd = cd_init\<lparr>cd_valid := True, cd_tsz0 := 35, cd_tg0 := 1, cd_ips := 5\<rparr>"

definition demo_smmu :: "u32 \<Rightarrow> unit smmu" where
  "demo_smmu cfg = set_reg CR0 1 (smmu_init ())\<lparr>sm_ste_cache := [(5, demo_ste cfg)],
     sm_ste_cache_lru := [5], sm_cd_cache := [(0x500000000, demo_cd)],
     sm_cd_cache_lru := [0x500000000]\<rparr>"

abbreviation demo_cfg :: "unit smmu_cfg" where
  "demo_cfg \<equiv> test_cfg (\<lambda>_. [0xC3, 0x04, 0, 0x10, 0, 0, 0, 0])"

abbreviation demo_req :: "u32 \<Rightarrow> u64 \<Rightarrow> tlm_command \<Rightarrow> trans_req" where
  "demo_req cfg a cmd \<equiv> req_init\<lparr>rq_iova := a, rq_sid := 5, rq_substream_id := 0,
     rq_access := (if cmd = Write_command then ACC_WO else ACC_RO), rq_ste := demo_ste cfg,
     rq_cd := demo_cd\<rparr>"

abbreviation demo_key :: "u64 \<Rightarrow> iotlb_key" where
  "demo_key a \<equiv> lookup_key 0 0 a 1 False (compute_iotlb_regime 0 False False)"

definition demo_ready :: "u32 \<Rightarrow> unit smmu \<Rightarrow> bool" where
  "demo_ready cfg s \<longleftrightarrow> get_reg CR0 s = 1 \<and> get_reg CR2 s = 0
     \<and> sm_ste_cache s = [(5, demo_ste cfg)] \<and> sm_cd_cache s = [(0x500000000, demo_cd)]
     \<and> sm_dma_dmi_cache s = []"

lemma demo_translate:
  assumes "demo_ready cfg s" "cfg = 5 \<or> cfg = 7"
  shows "smmuv3_translate demo_cfg cmd a 5 0 False s
     = translate_cached demo_cfg cmd False (compute_iotlb_regime 0 False False) (demo_key a)
         (demo_req cfg a cmd) s"
  using assms
  by (auto simp add: demo_ready_def smmuv3_translate_def Let_def get_field_def find_ste_def
      mask_eq_exp_minus_1 demo_ste_def ste_init_def translate_config_def read_cd_def demo_cd_def cd_init_def)

lemmas walk_eval = smmuv3_ptw64_def ptw_walk_def s1_context_def s2_context_def ctx_init_def
  ptw_setup_def Let_def ptw_select_def ptw_granule_def ptw_start_level_def ptw_base_def
  check_out_addr_def OUTPUT_SIZE_MAP_def extract64_def extract32_def ptw_loop.simps no_fetch_def
  ptw_index_def ptw_classify_def desc_address_def ptw_level_def ptw_note_def ptw_leaf_def
  leaf_attrs_def ptw_access_flag_def ptw_stage1_perm_def ptw_stage2_perm_def ptw_fault_def
  s2_fetch_def check_s2_startlevel_def demo_cd_def cd_init_def demo_ste_def ste_init_def

lemma demo_desc: "load_at 8 0 [0xC3, 0x04, 0, 0x10, 0, 0, 0, 0] = 0x100004C3"
  by (simp add: load_at_def)

lemma demo_walks:
  assumes "sm_dma_dmi_cache s = []"
  shows "smmuv3_ptw64 demo_cfg (s1_context demo_cd 0xFF0 ACC_RO None) req s
    = Inr (True, req\<lparr>rq_err := False, rq_tableattrs := 0, rq_fault_level := 0, rq_leaf_desc_addr := 0,
        rq_page_size := 16, rq_pa := 0x10000FF0, rq_descriptor := 0x100004C3, rq_prot := ACC_RO\<rparr>, s)"
    and "smmuv3_ptw64 demo_cfg (s1_context demo_cd 0xFF0 ACC_RO (Some (demo_ste 7))) req s
    = Inr (True, req\<lparr>rq_err := False, rq_tableattrs := 0, rq_fault_level := 0,
        rq_leaf_desc_addr := 0x10000000, rq_page_size := 16, rq_pa := 0x10000FF0,
        rq_descriptor := 0x100004C3, rq_prot := ACC_RO\<rparr>, s)"
    and "smmuv3_ptw64 demo_cfg (s2_context (demo_ste 7) 0x10000FF0 ACC_RO) req s
    = Inr (True, req\<lparr>rq_err := False, rq_tableattrs := 0, rq_fault_level := 0, rq_leaf_desc_addr := 0x8000,
        rq_page_size := 16, rq_pa := 0x10000FF0, rq_descriptor := 0x100004C3, rq_prot := ACC_RW\<rparr>, s)"
    and "\<exists>req'. smmuv3_ptw64 demo_cfg (s1_context demo_cd 0xFF0 ACC_WO (Some (demo_ste 7))) req s
    = Inr (False, req', s) \<and> rq_err req' \<and> rq_event_type req' = EVT_F_PERMISSION \<and> rq_ste req' = rq_ste req"
  by (simp_all add: walk_eval test_cfg_read[OF assms] demo_desc)

text \<open>A translation that hits the cache is not aligned to the page: it carries the page offset of the
  access that filled the entry, and the front end combines it with the new offset by a bitwise or.
  After a read of \<open>0xFF0\<close>, a read of \<open>0x00F\<close> of the same page goes to \<open>0x10000FFF\<close>.\<close>

lemma iotlb_hit_keeps_first_offset:
  "\<exists>e s1. smmuv3_translate demo_cfg Read_command 0xFF0 5 0 False (demo_smmu 5) = Inr (e, s1)
     \<and> smmuv3_translate demo_cfg Read_command 0x00F 5 0 False s1 = Inr (e, s1)
     \<and> te_translated_addr e OR (0x00F AND 0xFFF) = 0x10000FFF"
proof -
  let ?s = "demo_smmu 5"
  have r: "demo_ready 5 ?s" "sm_dma_dmi_cache ?s = []" "sm_iotlb ?s = []" "sm_iotlb_lru ?s = []"
    by (simp_all add: demo_ready_def demo_smmu_def set_reg_def smmu_init_def)
  let ?e = "(te_init 0xFF0)\<lparr>te_translated_addr := 0x10000FF0, te_perm := ACC_RO, te_addr_mask := 0xFFFF,
     te_descriptor := 0x100004C3, te_table_attrs := 0\<rparr>"
  let ?s1 = "?s\<lparr>sm_iotlb := [(demo_key 0xFF0, ?e)], sm_iotlb_lru := [demo_key 0xFF0]\<rparr>"
  let ?req = "demo_req 5 0xFF0 Read_command"
  have "ste_config (demo_ste 5) = 5" by (simp add: demo_ste_def)
  then have "translate_walk demo_cfg ?req ?s
     = Inr (?req\<lparr>rq_err := False, rq_tableattrs := 0, rq_fault_level := 0, rq_leaf_desc_addr := 0,
         rq_page_size := 16, rq_pa := 0x10000FF0, rq_descriptor := 0x100004C3, rq_prot := ACC_RO\<rparr>, ?s)"
    by (simp add: translate_walk_def Let_def demo_walks(1)[OF r(2)])
  then have 1: "smmuv3_translate demo_cfg Read_command 0xFF0 5 0 False ?s = Inr (?e, ?s1)"
    unfolding demo_translate[OF r(1) disjI1[OF refl]] translate_cached_def
    using r by (simp add: iotlb_lookup_def demo_ste_def ste_init_def translate_finish_def
        iotlb_insert_def Let_def lookup_key_def demo_cd_def cd_init_def)
  have "demo_ready 5 ?s1" using r(1) by (simp add: demo_ready_def)
  then have 2: "smmuv3_translate demo_cfg Read_command 0x00F 5 0 False ?s1 = Inr (?e, ?s1)"
    by (simp add: demo_translate translate_cached_def iotlb_lookup_def lookup_key_def)
  from 1 2 show ?thesis by (intro exI[of _ ?e] exI[of _ ?s1]) simp
qed

text \<open>With both stages enabled, the second walk replaces the permissions of the first in the request.
  A write to a page that stage 1 makes read-only faults; but once a read has filled the cache, the
  entry carries the permissions of stage 2 and the same write is let through.\<close>

lemma nested_read_unlocks_write:
  "(\<exists>e s1. smmuv3_translate demo_cfg Write_command 0xFF0 5 0 False (demo_smmu 7) = Inr (e, s1)
      \<and> te_perm e = ACC_NONE)
   \<and> (\<exists>e s1. smmuv3_translate demo_cfg Read_command 0xFF0 5 0 False (demo_smmu 7) = Inr (e, s1)
      \<and> smmuv3_translate demo_cfg Write_command 0xFF0 5 0 False s1 = Inr (e, s1)
      \<and> \<not> perm_denied Write_command (te_perm e))"
proof -
  let ?s = "demo_smmu 7"
  have r: "demo_ready 7 ?s" "sm_dma_dmi_cache ?s = []" "sm_iotlb ?s = []" "sm_iotlb_lru ?s = []"
    by (simp_all add: demo_ready_def demo_smmu_def set_reg_def smmu_init_def)
  have cfg: "ste_config (demo_ste 7) = 7" "ste_s1stalld (demo_ste 7) = False" by (simp_all add: demo_ste_def ste_init_def)
  note t = demo_translate[OF r(1) disjI2[OF refl]]
  obtain req' where w: "smmuv3_ptw64 demo_cfg (s1_context demo_cd 0xFF0 ACC_WO (Some (demo_ste 7)))
      (demo_req 7 0xFF0 Write_command) ?s = Inr (False, req', ?s)" "rq_err req'"
      "rq_event_type req' = EVT_F_PERMISSION" "rq_ste req' = demo_ste 7"
    using demo_walks(4)[OF r(2), of "demo_req 7 0xFF0 Write_command"] by auto
  have 0: "\<exists>e s1. smmuv3_translate demo_cfg Write_command 0xFF0 5 0 False ?s = Inr (e, s1) \<and> te_perm e = ACC_NONE"
    unfolding t translate_cached_def
    using r(3) w cfg by (simp add: iotlb_lookup_def translate_walk_def Let_def translate_finish_def)
  let ?e = "(te_init 0xFF0)\<lparr>te_translated_addr := 0x10000FF0, te_perm := ACC_RW, te_addr_mask := 0xFFFF,
     te_descriptor := 0x100004C3, te_table_attrs := 0\<rparr>"
  let ?s1 = "?s\<lparr>sm_iotlb := [(demo_key 0xFF0, ?e)], sm_iotlb_lru := [demo_key 0xFF0]\<rparr>"
  let ?req = "demo_req 7 0xFF0 Read_command"
  have "translate_walk demo_cfg ?req ?s
     = Inr (?req\<lparr>rq_err := False, rq_tableattrs := 0, rq_fault_level := 0, rq_leaf_desc_addr := 0x8000,
         rq_page_size := 16, rq_pa := 0x10000FF0, rq_descriptor := 0x100004C3, rq_prot := ACC_RW\<rparr>, ?s)"
    by (simp add: translate_walk_def Let_def cfg demo_walks(2,3)[OF r(2)])
  then have 1: "smmuv3_translate demo_cfg Read_command 0xFF0 5 0 False ?s = Inr (?e, ?s1)"
    unfolding t translate_cached_def
    using r by (auto simp add: iotlb_lookup_def demo_ste_def ste_init_def translate_finish_def
        iotlb_insert_def Let_def lookup_key_def demo_cd_def cd_init_def)
  have "demo_ready 7 ?s1" using r(1) by (simp add: demo_ready_def)
  then have 2: "smmuv3_translate demo_cfg Write_command 0xFF0 5 0 False ?s1 = Inr (?e, ?s1)"
    by (simp add: demo_translate translate_cached_def iotlb_lookup_def lookup_key_def)
  have "\<not> perm_denied Write_command (te_perm ?e)" by (simp add: perm_denied_def)
  with 0 1 2 show ?thesis by blast
qed

definition demo_tbu :: "unit tbu" where
  "demo_tbu = \<lparr>tbu_index = 0, tbu_topology_id = 5,
     down_b_transport = (\<lambda>ma txn d e. (txn\<lparr>gp_response := Ok_response\<rparr>, d, [], e)),
     down_dbg = (\<lambda>txn e. (0, txn, e)), down_dmi = (\<lambda>txn dmi e. (False, txn, dmi, [], e))\<rparr>"

lemma demo_caches: "caches_ok demo_cfg (demo_smmu cfg)"
  by (simp add: caches_ok_def tlb_ok_def demo_smmu_def set_reg_def smmu_init_def STE_CACHE_MAX_def
      CD_CACHE_MAX_def)

theorem tbu_stage1_miss_witness:
  "\<exists>s'. tbu_b_transport demo_cfg demo_tbu \<lparr>tx_ss = None, tx_secure = None, tx_ats = None\<rparr>
      (gp_init\<lparr>gp_command := Read_command, gp_address := 0xFF0\<rparr>) 0 (demo_smmu 5)
    = Inr (Tbu_done (gp_init\<lparr>gp_command := Read_command, gp_address := 0xFF0,
             gp_response := Ok_response\<rparr>) None 0, s')"
proof -
  let ?x = "\<lparr>tx_ss = None, tx_secure = None, tx_ats = None\<rparr>"
  let ?txn = "gp_init\<lparr>gp_command := Read_command, gp_address := 0xFF0\<rparr>"
  have m: "stage1_miss demo_cfg (tbu_topology_id demo_tbu) (extract_substream_id ?x) (extract_secure ?x)
      (gp_address ?txn) (demo_ste 5) demo_cd (demo_smmu 5) (demo_smmu 5)"
    by (simp add: stage1_miss_def demo_tbu_def extract_substream_id_def extract_secure_def find_ste_def
        read_cd_def iotlb_lookup_def demo_smmu_def demo_ste_def ste_init_def demo_cd_def
        set_reg_def smmu_init_def get_field_def mask_eq_exp_minus_1)
  have w: "walkable (s1_context demo_cd (gp_address ?txn) (cmd_access (gp_command ?txn)) None)"
    by (simp add: walkable_def s1_context_def ctx_init_def demo_cd_def cd_init_def)
  have "tx_ats ?x = None" "gp_command ?txn \<in> {Read_command, Write_command}" "0 < p_iotlb_size demo_cfg"
    by simp_all
  note out = tbu_stage1_miss[OF m w this(1,2) demo_caches this(3), of 0]
  have "sm_dma_dmi_cache (demo_smmu 5) = []" by (simp add: demo_smmu_def set_reg_def smmu_init_def)
  from out demo_walks(1)[OF this] show ?thesis
    by (auto simp: tbu_forward_def demo_tbu_def)
qed

text \<open>The consumer index of the event queue can be written through two registers. Through the register
  of page 1 the index moves but the interrupt line is not re-evaluated: it keeps its level even when
  the write empties the queue, and the next event finds no edge.\<close>

lemma page1_ack_keeps_line:
  "\<exists>s'. bus_write c EVENTQ_CONS_P1 v s = Inr s' \<and> get_reg EVENTQ_CONS s' = v
     \<and> sm_last_irq_eventq_level s' = sm_last_irq_eventq_level s
     \<and> sm_prev_eventq_pending s' = sm_prev_eventq_pending s \<and> sm_irq_log s' = sm_irq_log s"
  by (simp add: bus_write_def post_write_def set_reg_def)

text \<open>Invalidation by address only finds entries of virtual machine 0: the command carries no other
  identifier to the lookup.\<close>

lemma iotlb_inv_if_lookup: "\<not> P k \<Longrightarrow> iotlb_lookup k (iotlb_inv_if P s) = iotlb_lookup k s"
proof -
  assume P: "\<not> P k"
  have "map_of (filter (\<lambda>e. \<not> P (fst e)) al) k = map_of al k" for al :: "(iotlb_key \<times> iommu_tlb_entry) list"
    using P by (induction al) auto
  then show ?thesis by (simp add: iotlb_inv_if_def iotlb_lookup_def)
qed

lemma tlbi_va_misses_vmid:
  assumes "k_vmid k \<noteq> 0"
  shows "iotlb_lookup k (handle_cmd_tlbi_nh_va cmd s) = iotlb_lookup k s"
  using assms unfolding handle_cmd_tlbi_nh_va_def Let_def iotlb_inv_iova_def
  by (simp add: iotlb_inv_if_lookup split: prod.split)

end
