(* ===== verification/SmmuCmdq.thy ===== *)
theory SmmuCmdq
  imports Smmu
begin

text \<open>
  What a pass over the command queue does, against a specification that executes the pending
  commands one by one. The loop ends because every iteration brings the consumer index one step
  closer to the producer index; the number of pending commands is that distance modulo twice the
  queue size.
\<close>

section \<open>What a pass over the command queue does\<close>

text \<open>The consumer index after \<open>k\<close> commands, and the commands executed from an index on: each is read
  from its slot and executed in the state the previous one left.\<close>

definition cons_after :: "nat \<Rightarrow> u32 \<Rightarrow> nat \<Rightarrow> u32" where
  "cons_after n cons k = (if k = 0 then cons else take_bit (n + 1) (cons + of_nat k))"

definition cmd_address :: "u64 \<Rightarrow> nat \<Rightarrow> u32 \<Rightarrow> u64" where
  "cmd_address base n cons = base + ucast (cons AND (push_bit n 1 - 1)) * 16"

inductive cmds_done ::
  "'s smmu_cfg \<Rightarrow> 's cmdq_world \<Rightarrow> u64 \<Rightarrow> nat \<Rightarrow> u32 \<Rightarrow> 's smmu \<Rightarrow> u8 list list \<Rightarrow> 's smmu \<Rightarrow> bool"
  for c w base n where
  done_none: "cmds_done c w base n cons s [] s"
| done_more: "dma_read c (cmd_address base n cons) 16 s = (Some cmd, s1) \<Longrightarrow> cw_exec w cmd s1 = Some s2
     \<Longrightarrow> cmds_done c w base n (cons_after n cons 1) s2 cmds s'
     \<Longrightarrow> cmds_done c w base n cons s (cmd # cmds) s'"

text \<open>The outcome of a pass with \<open>d\<close> commands pending: some number of them is executed; then either
  none is left, or the next one cannot be read or is illegal and the queue stops there.\<close>

definition cmdq_outcome ::
  "'s smmu_cfg \<Rightarrow> 's cmdq_world \<Rightarrow> u64 \<Rightarrow> nat \<Rightarrow> u32 \<Rightarrow> nat \<Rightarrow> 's smmu \<Rightarrow> 's smmu \<Rightarrow> u8 list list \<Rightarrow> bool" where
  "cmdq_outcome c w base n cons d s s' cmds \<longleftrightarrow>
     (\<exists>s1. cmds_done c w base n cons s cmds s1 \<and>
       (let cons' = cons_after n cons (length cmds)
        in if length cmds = d then s' = set_reg (cw_cons w) cons' s1
           else length cmds < d \<and>
             (case dma_read c (cmd_address base n cons') 16 s1 of
                (None, s2) \<Rightarrow> s' = cw_err w CERROR_ABT (set_reg (cw_cons w) cons' s2)
              | (Some cmd, s2) \<Rightarrow> cw_exec w cmd s2 = None
                  \<and> s' = cw_err w CERROR_ILL (set_reg (cw_cons w) cons' s2))))"

lemma take_bit_add_u32: "take_bit k (take_bit k a + b) = take_bit k (a + b :: u32)"
proof -
  have dvd: "(2 :: int) ^ min k 32 dvd 2 ^ 32" by (rule le_imp_power_dvd) simp
  have "uint (take_bit k (take_bit k a + b)) = uint (take_bit k (a + b))"
    using dvd by (simp add: uint_take_bit_u32 uint_word_ariths mod_mod_cancel mod_add_left_eq)
  then show ?thesis by (simp only: word_uint_eq_iff)
qed

lemma cons_after_Suc: "cons_after n (cons_after n cons 1) k = cons_after n cons (Suc k)"
  by (simp add: cons_after_def take_bit_add_u32 add.assoc)

lemma cmdq_outcome_more:
  assumes rd: "dma_read c (cmd_address base n cons) 16 s = (Some cmd, s1)" "cw_exec w cmd s1 = Some s2"
    and out: "cmdq_outcome c w base n (cons_after n cons 1) d s2 s' cmds"
  shows "cmdq_outcome c w base n cons (Suc d) s s' (cmd # cmds)"
proof -
  from out obtain s3 where d: "cmds_done c w base n (cons_after n cons 1) s2 cmds s3"
    and r: "let cons' = cons_after n cons (Suc (length cmds))
        in if length cmds = d then s' = set_reg (cw_cons w) cons' s3
           else length cmds < d \<and>
             (case dma_read c (cmd_address base n cons') 16 s3 of
                (None, s2) \<Rightarrow> s' = cw_err w CERROR_ABT (set_reg (cw_cons w) cons' s2)
              | (Some cmd, s2) \<Rightarrow> cw_exec w cmd s2 = None
                  \<and> s' = cw_err w CERROR_ILL (set_reg (cw_cons w) cons' s2))"
    unfolding cmdq_outcome_def cons_after_Suc by blast
  from done_more[OF rd d] r show ?thesis
    unfolding cmdq_outcome_def length_Cons nat.inject Suc_less_eq by (intro exI conjI)
qed

lemma cmdq_loop_outcome:
  "\<exists>cmds. cmdq_outcome c w base n cons (unat (take_bit (n + 1) (prodv - cons))) s
            (cmdq_loop c w base n prodv cons s) cmds"
proof (induction c w base n prodv cons s rule: cmdq_loop.induct)
  case (1 c w base n prodv cons s)
  let ?m = "push_bit (n + 1) 1 - 1 :: u32"
  let ?d = "\<lambda>cons. unat (take_bit (n + 1) (prodv - cons))"
  let ?r = "cmdq_loop c w base n prodv cons s"
  show ?case
  proof (cases "prodv AND ?m = cons AND ?m")
    case True
    then have "?d cons = 0"
      by (simp only: and_exp_minus_one) (simp only: take_bit_distance_0 unat_0)
    moreover have "?r = set_reg (cw_cons w) cons s"
      using True by (subst cmdq_loop.simps) (simp only: Let_def simp_thms if_True)
    ultimately have "cmdq_outcome c w base n cons (?d cons) s ?r []"
      by (auto simp: cmdq_outcome_def cons_after_def intro: done_none)
    then show ?thesis by blast
  next
    case False
    then have d: "?d cons = Suc (?d (cons_after n cons 1))"
      by (simp only: and_exp_minus_one cons_after_def if_False one_neq_zero of_nat_1)
        (rule take_bit_distance_Suc)
    obtain r s1 where rd: "dma_read c (cmd_address base n cons) 16 s = (r, s1)" by force
    note step = cmdq_step_def[of c w base n cons s, unfolded Let_def cmd_address_def[symmetric] rd]
    have stop: "\<exists>cmds. cmdq_outcome c w base n cons (?d cons) s ?r cmds"
      if "r = None \<or> (\<exists>cmd. r = Some cmd \<and> cw_exec w cmd s1 = None)"
    proof -
      have "?r = (case cmdq_step c w base n cons s of Inl s1 \<Rightarrow> s1
          | Inr s1 \<Rightarrow> cmdq_loop c w base n prodv ((cons + 1) AND ?m) s1)"
        using False by (subst cmdq_loop.simps) (simp only: Let_def if_False)
      then have "cmdq_outcome c w base n cons (?d cons) s ?r []"
        unfolding cmdq_outcome_def d using that rd step
        by (auto simp: cons_after_def Let_def intro!: exI[of _ s] done_none)
      then show ?thesis ..
    qed
    show ?thesis
    proof (cases "r = None \<or> (\<exists>cmd. r = Some cmd \<and> cw_exec w cmd s1 = None)")
      case False
      note F = \<open>prodv AND ?m \<noteq> cons AND ?m\<close>
      from False obtain cmd s2 where ex: "r = Some cmd" "cw_exec w cmd s1 = Some s2" by auto
      have nx: "cmdq_step c w base n cons s = Inr s2" using step ex by simp
      have adv: "(cons + 1) AND ?m = cons_after n cons 1"
        by (simp only: and_exp_minus_one cons_after_def if_False one_neq_zero of_nat_1)
      have r: "?r = cmdq_loop c w base n prodv (cons_after n cons 1) s2"
        using F nx by (subst cmdq_loop.simps) (simp only: Let_def if_False sum.case adv)
      from "1.IH"[OF refl F nx] obtain cmds
        where "cmdq_outcome c w base n (cons_after n cons 1) (?d (cons_after n cons 1)) s2 ?r cmds"
        unfolding r adv by blast
      then have "cmdq_outcome c w base n cons (?d cons) s ?r (cmd # cmds)"
        unfolding d using cmdq_outcome_more ex rd by blast
      then show ?thesis ..
    qed (rule stop)
  qed
qed

text \<open>The registers after a pass: the consumer index, and on an error the code and the global error.\<close>

lemma cmdq_err_regs:
  assumes "code = CERROR_ILL \<or> code = CERROR_ABT" "m \<le> 23"
  shows "fld CMDQ_CONS_ERR (set_cmdq_err c code s) = code"
    and "take_bit m (get_reg CMDQ_CONS (set_cmdq_err c code s)) = take_bit m (get_reg CMDQ_CONS s)"
    and "gerror_live BIT_CMDQ_ERR (set_cmdq_err c code s)"
proof -
  let ?s = "put_reg_field CMDQ_CONS_ERR code s"
  have cons: "get_reg CMDQ_CONS (set_cmdq_err c code s) = get_reg CMDQ_CONS ?s"
    unfolding set_cmdq_err_def by (rule irq_core_reg) simp_all
  have "fld CMDQ_CONS_ERR (set_cmdq_err c code s) = fld CMDQ_CONS_ERR ?s"
    unfolding get_field_def using cons by simp
  also have "\<dots> = code AND mask 7" by (simp add: put_reg_field_def get_put_field field_ok_def)
  also have "\<dots> = code" using assms(1) by (auto simp: mask_eq_exp_minus_1)
  finally show "fld CMDQ_CONS_ERR (set_cmdq_err c code s) = code" .
  show "take_bit m (get_reg CMDQ_CONS (set_cmdq_err c code s)) = take_bit m (get_reg CMDQ_CONS s)"
    unfolding cons put_reg_field_def put_field_def
    using assms(2) by (intro bit_eqI) (auto simp: bit_simps)
  show "gerror_live BIT_CMDQ_ERR (set_cmdq_err c code s)"
    unfolding set_cmdq_err_def set_gerror_def raise_gerror_alt update_irq_levels_def
    by (simp add: update_irq_mono gerror_live_toggled)
qed

lemma ns_world_simps:
  "cw_exec (ns_world c) = exec_cmd c" "cw_cons (ns_world c) = CMDQ_CONS"
  "cw_err (ns_world c) = set_cmdq_err c"
  by (simp_all add: ns_world_def)

text \<open>The pending commands of the non-secure queue, and the memory condition under which none of them
  stops it.\<close>

definition cmdq_exp :: "'s smmu \<Rightarrow> nat" where
  "cmdq_exp s = unat (clamp_queue_log2size (fld CMDQ_BASE_LOG2SIZE s))"

definition cmdq_base :: "'s smmu \<Rightarrow> u64" where
  "cmdq_base s = push_bit 32 (ucast (get_reg CMDQ_BASE_HI s) AND 0x000FFFFF)
     OR (ucast (get_reg CMDQ_BASE_LO s) AND NOT 0x1F)"

definition cmdq_pending :: "'s smmu \<Rightarrow> nat" where
  "cmdq_pending s = unat (take_bit (cmdq_exp s + 1) (get_reg CMDQ_PROD s - get_reg CMDQ_CONS s))"

definition commands_legal :: "'s smmu_cfg \<Rightarrow> bool" where
  "commands_legal c \<longleftrightarrow> (\<forall>a s. \<exists>cmd s1. dma_read c a 16 s = (Some cmd, s1) \<and> exec_cmd c cmd s1 \<noteq> None)"

lemma cons_after_end:
  assumes "k = unat (take_bit (n + 1) (prodv - cons))"
  shows "take_bit (n + 1) (cons_after n cons k) = take_bit (n + 1) prodv"
proof -
  have "take_bit (n + 1) (cons_after n cons k) = take_bit (n + 1) (take_bit (n + 1) (prodv - cons) + cons)"
    by (auto simp: cons_after_def assms add.commute unat_eq_0)
  also have "\<dots> = take_bit (n + 1) prodv" by (simp only: take_bit_add_u32) simp
  finally show ?thesis .
qed

lemma consume_cmdq_outcome:
  assumes "cmdq_exp s \<noteq> 0"
  shows "\<exists>cmds. cmdq_outcome c (ns_world c) (cmdq_base s) (cmdq_exp s) (get_reg CMDQ_CONS s)
                  (cmdq_pending s) s (consume_cmdq c s) cmds"
proof -
  have "consume_cmdq c s = cmdq_loop c (ns_world c) (cmdq_base s) (cmdq_exp s) (get_reg CMDQ_PROD s)
      (get_reg CMDQ_CONS s) s"
    using assms by (simp add: consume_cmdq_def consume_queue_def Let_def cmdq_exp_def cmdq_base_def
        ns_world_def unat_eq_0)
  then show ?thesis
    using cmdq_loop_outcome[of c "ns_world c" "cmdq_base s" "cmdq_exp s" "get_reg CMDQ_CONS s"]
    unfolding cmdq_pending_def by simp
qed

lemma cmdq_exp_le: "cmdq_exp s \<le> 19"
  by (simp add: cmdq_exp_def clamp_queue_log2size_def word_less_nat_alt not_less)

text \<open>C9. When the producer index is written and the queue is enabled, the pending commands are executed
  in order, each once and in the state the previous one left. Either all of them are, and then the
  consumer index has caught up with the producer; or the first one that cannot be read or has an
  unknown opcode stops the queue: the consumer index designates that command, the error field says
  why, and the command queue error is active. If memory answers and every command read is legal,
  all pending commands are executed.\<close>

theorem cmdq_consumed:
  fixes s :: "'s smmu" and v :: u32
  assumes en: "fld CR0_CMDQEN s \<noteq> 0" and size: "cmdq_exp s \<noteq> 0"
  defines "s0 \<equiv> set_reg CMDQ_PROD v s"
  shows "\<exists>s' cmds. bus_write c CMDQ_PROD v s = Inr s'
    \<and> cmdq_outcome c (ns_world c) (cmdq_base s) (cmdq_exp s) (get_reg CMDQ_CONS s) (cmdq_pending s0)
        s0 s' cmds
    \<and> (if length cmds = cmdq_pending s0
       then take_bit (cmdq_exp s + 1) (get_reg CMDQ_CONS s') = take_bit (cmdq_exp s + 1) v
       else take_bit (cmdq_exp s + 1) (get_reg CMDQ_CONS s')
              = take_bit (cmdq_exp s + 1) (get_reg CMDQ_CONS s + of_nat (length cmds))
            \<and> fld CMDQ_CONS_ERR s' \<in> {CERROR_ILL, CERROR_ABT} \<and> gerror_live BIT_CMDQ_ERR s')
    \<and> (commands_legal c \<longrightarrow> length cmds = cmdq_pending s0)"
proof -
  let ?n = "cmdq_exp s" and ?cons = "get_reg CMDQ_CONS s" and ?d = "cmdq_pending s0"
  have fr: "cmdq_exp s0 = ?n" "cmdq_base s0 = cmdq_base s" "get_reg CMDQ_CONS s0 = ?cons"
    "get_reg CMDQ_PROD s0 = v"
    by (simp_all add: s0_def set_reg_def cmdq_exp_def cmdq_base_def get_field_def)
  have "fld CR0_CMDQEN s0 \<noteq> 0" using en by (simp add: s0_def set_reg_def get_field_def)
  then have w: "bus_write c CMDQ_PROD v s = Inr (consume_cmdq c s0)"
    by (simp add: bus_write_def post_write_def consume_if_enabled_def s0_def)
  obtain cmds where out: "cmdq_outcome c (ns_world c) (cmdq_base s) ?n ?cons ?d s0 (consume_cmdq c s0) cmds"
    using consume_cmdq_outcome[of s0 c] size by (auto simp: fr)
  let ?c' = "cons_after ?n ?cons (length cmds)"
  have idx: "take_bit (?n + 1) ?c' = take_bit (?n + 1) (?cons + of_nat (length cmds))"
    by (simp add: cons_after_def)
  have m: "?n + 1 \<le> 23" using cmdq_exp_le[of s] by simp
  from out obtain s1 where r: "if length cmds = ?d then consume_cmdq c s0 = set_reg CMDQ_CONS ?c' s1
      else length cmds < ?d \<and> (case dma_read c (cmd_address (cmdq_base s) ?n ?c') 16 s1 of
              (None, s2) \<Rightarrow> consume_cmdq c s0 = set_cmdq_err c CERROR_ABT (set_reg CMDQ_CONS ?c' s2)
            | (Some cmd, s2) \<Rightarrow> exec_cmd c cmd s2 = None
                \<and> consume_cmdq c s0 = set_cmdq_err c CERROR_ILL (set_reg CMDQ_CONS ?c' s2))"
    unfolding cmdq_outcome_def Let_def ns_world_simps by blast
  have all: "take_bit (?n + 1) (get_reg CMDQ_CONS (consume_cmdq c s0)) = take_bit (?n + 1) v"
    if "length cmds = ?d"
    using r that cons_after_end[of ?d ?n v ?cons] by (simp add: cmdq_pending_def fr set_reg_def)
  have some: "take_bit (?n + 1) (get_reg CMDQ_CONS (consume_cmdq c s0))
              = take_bit (?n + 1) (?cons + of_nat (length cmds))
            \<and> fld CMDQ_CONS_ERR (consume_cmdq c s0) \<in> {CERROR_ILL, CERROR_ABT}
            \<and> gerror_live BIT_CMDQ_ERR (consume_cmdq c s0)" if "length cmds \<noteq> ?d"
  proof -
    from r that obtain code s2 where "code = CERROR_ILL \<or> code = CERROR_ABT"
      and e: "consume_cmdq c s0 = set_cmdq_err c code (set_reg CMDQ_CONS ?c' s2)"
      by (auto split: prod.split_asm option.split_asm)
    note regs = cmdq_err_regs[OF this(1) m, of c "set_reg CMDQ_CONS ?c' s2"]
    have "get_reg CMDQ_CONS (set_reg CMDQ_CONS ?c' s2) = ?c'" by (simp add: set_reg_def)
    with regs(2) idx have "take_bit (?n + 1) (get_reg CMDQ_CONS (consume_cmdq c s0))
        = take_bit (?n + 1) (?cons + of_nat (length cmds))" unfolding e by (simp only:)
    moreover have "fld CMDQ_CONS_ERR (consume_cmdq c s0) \<in> {CERROR_ILL, CERROR_ABT}"
      unfolding e regs(1) using \<open>code = CERROR_ILL \<or> code = CERROR_ABT\<close> by blast
    ultimately show ?thesis using regs(3) unfolding e by blast
  qed
  have "length cmds = ?d" if "commands_legal c"
  proof (rule ccontr)
    assume "length cmds \<noteq> ?d"
    with r that show False unfolding commands_legal_def
      by (auto split: prod.split_asm option.split_asm)
        (metis option.distinct(1) option.inject prod.inject)+
  qed
  with w out all some show ?thesis by (intro exI[of _ "consume_cmdq c s0"] exI[of _ cmds]) auto
qed

lemma test_cfg_reads: "\<exists>a' s1. dma_read (test_cfg rd) a n s = (Some (rd a'), s1)"
  by (auto simp: dma_read_def dma_txn_def test_cfg_def split: prod.split option.split)

theorem cmdq_consumed_witness:
  "\<exists>s'. bus_write (test_cfg (\<lambda>_. 7 # replicate 15 0)) CMDQ_PROD 3
          (set_reg CR0 8 (set_reg CMDQ_BASE_LO 4 (smmu_init ()))) = Inr s'
     \<and> take_bit 5 (get_reg CMDQ_CONS s') = 3"
proof -
  let ?c = "test_cfg (\<lambda>_. 7 # replicate 15 0)"
  let ?s = "set_reg CR0 8 (set_reg CMDQ_BASE_LO 4 (smmu_init ()))"
  have leg: "commands_legal ?c"
    unfolding commands_legal_def
  proof (intro allI)
    fix a s
    obtain a' s1 where "dma_read ?c a 16 s = (Some ((\<lambda>_. 7 # replicate 15 0) a'), s1)"
      using test_cfg_reads by blast
    moreover have "exec_cmd ?c (7 # replicate 15 0) s1 \<noteq> None" by (simp add: exec_cmd_def Let_def)
    ultimately show "\<exists>cmd s1. dma_read ?c a 16 s = (Some cmd, s1) \<and> exec_cmd ?c cmd s1 \<noteq> None"
      by blast
  qed
  have en: "fld CR0_CMDQEN ?s \<noteq> 0" and ex: "cmdq_exp ?s = 4"
    by (simp_all add: get_field_def set_reg_def cmdq_exp_def clamp_queue_log2size_def mask_eq_exp_minus_1)
  have "cmdq_exp ?s \<noteq> 0" using ex by simp
  from cmdq_consumed[OF en this, of ?c 3] leg show ?thesis unfolding ex by auto
qed

end
