(* ===== verification/RegRouter.thy ===== *)
theory RegRouter
  imports RouterIf StdMap CciUtils
begin

text \<open>
  \<^verbatim>\<open>reg_router/include/reg_router.h\<close>: the router in front of the registers of a model. A target is
  either a memory, which holds the values, or the callback socket of a register. A transaction first
  goes to the callbacks that claim its address, then to the memory, and then to the callbacks again.

  The sockets are a parameter over the state \<open>'s\<close> of everything behind them; a call through them may
  fail, since registers assert. Warnings about overlapping memories are part of the result of the
  initialisation.
\<close>

section \<open>State\<close>

text \<open>\<^verbatim>\<open>cb_targets\<close> is a multimap: entries in key order, equal keys in the order of insertion.\<close>

record reg_router =
  rr_name :: string
  rr_bound :: "target_info list"
  rr_mem_targets :: "target_info list"
  rr_cb_targets :: "(u64 \<times> target_info) list"
  rr_mod_addr_name :: "(u64, u64 \<times> string) smap"
  rr_initialized :: bool

type_synonym 's socket_call = "gp \<Rightarrow> u64 \<Rightarrow> 's \<Rightarrow> (gp \<times> u64 \<times> inval list \<times> 's) res"

definition reg_router_init :: "string \<Rightarrow> (u64, u64 \<times> string) smap \<Rightarrow> reg_router" where
  "reg_router_init nm mods = \<lparr>rr_name = nm, rr_bound = [], rr_mem_targets = [], rr_cb_targets = [],
     rr_mod_addr_name = mods, rr_initialized = False\<rparr>"

fun mmap_insert :: "'k::linorder \<Rightarrow> 'v \<Rightarrow> ('k \<times> 'v) list \<Rightarrow> ('k \<times> 'v) list" where
  "mmap_insert k v [] = [(k, v)]"
| "mmap_insert k v ((k', v') # m) = (if k < k' then (k, v) # (k', v') # m else (k', v') # mmap_insert k v m)"

definition rr_register_boundto :: "string \<Rightarrow> reg_router \<Rightarrow> reg_router" where
  "rr_register_boundto s r =
     r\<lparr>rr_bound := rr_bound r @
        [target_init\<lparr>ti_name := s, ti_index := length (rr_bound r),
           ti_shortname := drop (common_prefix s (rr_name r)) s\<rparr>]\<rparr>"

definition rename_last :: "string \<Rightarrow> reg_router \<Rightarrow> reg_router res" where
  "rename_last s r =
     (if rr_bound r = [] then Inl Out_of_bounds
      else Inr (r\<lparr>rr_bound := butlast (rr_bound r) @ [(last (rr_bound r))\<lparr>ti_name := s\<rparr>]\<rparr>))"

section \<open>Configuration\<close>

text \<open>
  \<^verbatim>\<open>std::stoull\<close> with base 0: white space, a sign, a prefix that selects the base, digits. The
  result is the value and the number of characters used.
\<close>

definition is_space :: "char \<Rightarrow> bool" where
  "is_space c \<longleftrightarrow> of_char c \<in> {32, 9, 10, 11, 12, 13 :: nat}"

definition digit_val :: "char \<Rightarrow> nat option" where
  "digit_val c =
     (let n = of_char c
      in if 48 \<le> n \<and> n \<le> 57 then Some (n - 48)
         else if 97 \<le> n \<and> n \<le> 122 then Some (n - 87)
         else if 65 \<le> n \<and> n \<le> 90 then Some (n - 55)
         else None)"

fun take_digits :: "nat \<Rightarrow> string \<Rightarrow> nat list" where
  "take_digits base [] = []"
| "take_digits base (c # cs) =
     (case digit_val c of Some d \<Rightarrow> if d < base then d # take_digits base cs else [] | None \<Rightarrow> [])"

definition digits_val :: "nat \<Rightarrow> nat list \<Rightarrow> nat" where
  "digits_val base ds = foldl (\<lambda>v d. v * base + d) 0 ds"

text \<open>Base, and the length of the prefix.\<close>

fun number_base :: "string \<Rightarrow> nat \<times> nat" where
  "number_base (c # x # d # cs) =
     (if c = CHR ''0'' \<and> (x = CHR ''x'' \<or> x = CHR ''X'') \<and> take_digits 16 [d] \<noteq> [] then (16, 2)
      else if c = CHR ''0'' then (8, 0) else (10, 0))"
| "number_base (c # cs) = (if c = CHR ''0'' then (8, 0) else (10, 0))"
| "number_base [] = (10, 0)"

definition stoull :: "string \<Rightarrow> (u64 \<times> nat) res" where
  "stoull s =
     (let ws = length (takeWhile is_space s); t = drop ws s;
          sgn = (case t of c # _ \<Rightarrow> if c = CHR ''-'' \<or> c = CHR ''+'' then 1 else 0 | [] \<Rightarrow> 0);
          neg = (sgn = 1 \<and> hd t = CHR ''-'');
          (base, pre) = number_base (drop sgn t);
          ds = take_digits base (drop (sgn + pre) t);
          v = digits_val base ds
      in if ds = [] then Inl Bad_argument
         else if 2 ^ 64 \<le> v then Inl Out_of_bounds
         else Inr (if neg then - of_nat v else of_nat v, ws + sgn + pre + length ds))"

lemma stoull_consumes: "stoull s = Inr (v, k) \<Longrightarrow> 0 < k"
  by (auto simp: stoull_def Let_def split: prod.splits if_splits)

function parse_u64_csv :: "string \<Rightarrow> u64 list res" where
  "parse_u64_csv s =
     (let t = dropWhile (\<lambda>c. c = CHR '' '' \<or> c = CHR '','') s
      in if t = [] then Inr []
         else case stoull t of
           Inl e \<Rightarrow> Inl e
         | Inr (v, k) \<Rightarrow>
             (case parse_u64_csv (drop k t) of Inl e \<Rightarrow> Inl e | Inr vs \<Rightarrow> Inr (v # vs)))"
  by auto
termination
proof (relation "measure length")
  fix s t :: string and p v k
  assume "t = dropWhile (\<lambda>c. c = CHR '' '' \<or> c = CHR '','') s" "t \<noteq> []" "stoull t = Inr p" "(v, k) = p"
  then have "0 < k" "0 < length t" "length t \<le> length s"
    using stoull_consumes[of t v k] by (auto simp: length_dropWhile_le)
  then have "length t - k < length s" by linarith
  then show "(drop k t, s) \<in> measure length" by simp
qed simp

declare parse_u64_csv.simps [simp del]

text \<open>The walk over the elements of a bank.\<close>

fun odo_step :: "nat list \<Rightarrow> u64 list \<Rightarrow> nat list option" where
  "odo_step (i # is) (c # cs) =
     (case odo_step is cs of
        Some is' \<Rightarrow> Some (i # is')
      | None \<Rightarrow> if Suc i < unat c then Some (Suc i # map (\<lambda>_. 0) is) else None)"
| "odo_step _ _ = None"

fun grid_offset :: "nat list \<Rightarrow> u64 list \<Rightarrow> u64" where
  "grid_offset (i # is) (s # ss) = of_nat i * s + grid_offset is ss"
| "grid_offset _ _ = 0"

fun any_claimed :: "target_info \<Rightarrow> u64 \<Rightarrow> nat \<Rightarrow> bool res" where
  "any_claimed b a 0 = Inr False"
| "any_claimed b a (Suc n) =
     bind_res (claims b a) (\<lambda>c. if c then Inr True else any_claimed b (a + 1) n)"

lemma odo_step_lex:
  "odo_step is cs = Some is' \<Longrightarrow> length is' = length is \<and>
     (map2 (\<lambda>i c. unat c - i) is' cs, map2 (\<lambda>i c. unat c - i) is cs) \<in> lex less_than"
  by (induction "is" cs arbitrary: is' rule: odo_step.induct) (auto split: option.splits if_splits)

function overlap_loop :: "target_info \<Rightarrow> u64 list \<Rightarrow> u64 list \<Rightarrow> target_info \<Rightarrow> nat list \<Rightarrow> bool res" where
  "overlap_loop a s c b idx =
     (case any_claimed b (ti_address a + grid_offset idx s) (unat (ti_elem_size a)) of
        Inl e \<Rightarrow> Inl e
      | Inr True \<Rightarrow> Inr True
      | Inr False \<Rightarrow> (case odo_step idx c of None \<Rightarrow> Inr False | Some idx' \<Rightarrow> overlap_loop a s c b idx'))"
  by pat_completeness auto
termination
  by (relation "inv_image (lex less_than) (\<lambda>(a, s, c, b, idx). map2 (\<lambda>i c. unat c - i) idx c)")
    (auto intro: wf_lex dest: odo_step_lex)

declare overlap_loop.simps [simp del]

definition banks_element_overlap :: "target_info \<Rightarrow> target_info \<Rightarrow> bool res" where
  "banks_element_overlap a b =
     (let s = (if ti_dim_strides a = [] then [ti_stride a] else ti_dim_strides a);
          c = (if ti_dim_counts a = [] then [1] else ti_dim_counts a)
      in overlap_loop a s c b (map (\<lambda>_. 0) s))"

text \<open>What the initialisation reads for one target.\<close>

definition rr_configure_target :: "cci_broker \<Rightarrow> target_info \<Rightarrow> target_info res" where
  "rr_configure_target b ti =
     (let name = ti_name ti
      in bind_res (cci_get_T try_get_u64 b (name @ ''.address'')) (\<lambda>address.
         bind_res (cci_get_T try_get_u64 b (name @ ''.size'')) (\<lambda>sz.
         let ti1 = ti\<lparr>ti_address := address, ti_size := sz,
               ti_use_offset := cci_get_d try_get_bool b (name @ ''.relative_addresses'') True,
               ti_is_callback := cci_get_d try_get_bool b (name @ ''.is_callback'') False,
               ti_priority := cci_get_d try_get_u32 b (name @ ''.priority'') 0,
               ti_stride := cci_get_d try_get_u64 b (name @ ''.stride'') 0,
               ti_elem_size := cci_get_d try_get_u64 b (name @ ''.elem_size'') 0\<rparr>;
             strides_str = cci_get_d try_get_string b (name @ ''.dim_strides'') [];
             counts_str = cci_get_d try_get_string b (name @ ''.dim_counts'') []
         in if strides_str \<noteq> [] \<and> counts_str \<noteq> [] then
              bind_res (parse_u64_csv strides_str) (\<lambda>ss.
              bind_res (parse_u64_csv counts_str) (\<lambda>cs.
                if length ss \<noteq> length cs then Inl Fatal
                else Inr (ti1\<lparr>ti_dim_strides := ss, ti_dim_counts := cs\<rparr>)))
            else Inr ti1)))"

definition overlaps_range :: "target_info \<Rightarrow> target_info \<Rightarrow> bool" where
  "overlaps_range ti mem \<longleftrightarrow>
     ti_address ti \<ge> ti_address mem \<and> ti_address ti - ti_address mem < ti_size mem \<or>
     ti_address ti < ti_address mem \<and> ti_address ti + ti_size ti > ti_address mem"

definition gapped :: "target_info \<Rightarrow> bool" where
  "gapped ti \<longleftrightarrow> ti_stride ti \<noteq> 0 \<or> ti_dim_strides ti \<noteq> []"

fun overlap_warnings :: "target_info \<Rightarrow> target_info list \<Rightarrow> (string \<times> string) list res" where
  "overlap_warnings ti [] = Inr []"
| "overlap_warnings ti (mem # mems) =
     bind_res
       (if \<not> overlaps_range ti mem then Inr False
        else if \<not> gapped ti \<or> \<not> gapped mem then Inr True
        else banks_element_overlap ti mem)
       (\<lambda>w. bind_res (overlap_warnings ti mems) (\<lambda>ws.
          Inr (if w then (ti_name ti, ti_name mem) # ws else ws)))"

fun rr_init_targets :: "cci_broker \<Rightarrow> target_info list \<Rightarrow> reg_router \<Rightarrow>
    (reg_router \<times> (string \<times> string) list) res" where
  "rr_init_targets b [] r = Inr (r, [])"
| "rr_init_targets b (t # ts) r =
     bind_res (rr_configure_target b t) (\<lambda>ti.
       let r0 = r\<lparr>rr_bound := rr_bound r @ [ti]\<rparr>
       in if ti_is_callback ti
          then rr_init_targets b ts (r0\<lparr>rr_cb_targets := mmap_insert (ti_address ti) ti (rr_cb_targets r0)\<rparr>)
          else bind_res (overlap_warnings ti (rr_mem_targets r0)) (\<lambda>ws.
               bind_res (rr_init_targets b ts (r0\<lparr>rr_mem_targets := rr_mem_targets r0 @ [ti]\<rparr>)) (\<lambda>(r1, ws1).
                 Inr (r1, ws @ ws1))))"

definition rr_lazy_initialize :: "cci_broker \<Rightarrow> reg_router \<Rightarrow> (reg_router \<times> (string \<times> string) list) res" where
  "rr_lazy_initialize b r =
     (if rr_initialized r then Inr (r, [])
      else rr_init_targets b (rr_bound r) (r\<lparr>rr_initialized := True, rr_bound := []\<rparr>))"

definition rr_before_end_of_elaboration :: "bool \<Rightarrow> cci_broker \<Rightarrow> reg_router \<Rightarrow>
    (reg_router \<times> (string \<times> string) list) res" where
  "rr_before_end_of_elaboration lazy_init b r =
     (if \<not> lazy_init then rr_lazy_initialize b r else Inr (r, []))"

section \<open>Decoding\<close>

fun best_mem :: "u64 \<Rightarrow> target_info list \<Rightarrow> target_info option \<Rightarrow> target_info option res" where
  "best_mem addr [] best = Inr best"
| "best_mem addr (ti # ts) best =
     bind_res (claims ti addr) (\<lambda>c.
       if \<not> c then best_mem addr ts best
       else case best of
         None \<Rightarrow> best_mem addr ts (Some ti)
       | Some t \<Rightarrow>
           if ti_priority ti < ti_priority t then best_mem addr ts (Some ti)
           else if ti_priority ti = ti_priority t then Inl Fatal
           else best_mem addr ts best)"

definition rr_decode_address :: "cci_broker \<Rightarrow> gp \<Rightarrow> reg_router \<Rightarrow> (target_info option \<times> reg_router) res" where
  "rr_decode_address b txn r =
     bind_res (rr_lazy_initialize b r) (\<lambda>(r1, _).
     bind_res (best_mem (gp_address txn) (rr_mem_targets r1) None) (\<lambda>ti. Inr (ti, r1)))"

text \<open>The module an address belongs to: its name, its address, and whether there is one.\<close>

definition get_module_name :: "u64 \<Rightarrow> (u64, u64 \<times> string) smap \<Rightarrow> string \<times> u64 \<times> bool" where
  "get_module_name addr m =
     (case map_of m addr of
        Some (sz, n) \<Rightarrow> if 0 < sz then (n, addr, True) else ([], 0, False)
      | None \<Rightarrow>
          (case smap_pred addr m of
             Some (a, sz, n) \<Rightarrow> if addr - a < sz then (n, a, True) else ([], 0, False)
           | None \<Rightarrow> ([], 0, False)))"

section \<open>Transport\<close>

fun claimants_loop :: "u64 \<Rightarrow> (u64 \<times> target_info) list \<Rightarrow> target_info list \<Rightarrow> u32 \<Rightarrow> target_info list res" where
  "claimants_loop addr [] cl best_prio = Inr cl"
| "claimants_loop addr ((_, cand) # ts) cl best_prio =
     bind_res (claims cand addr) (\<lambda>c.
       if \<not> c then claimants_loop addr ts cl best_prio
       else if cl = [] \<or> ti_priority cand < best_prio then claimants_loop addr ts [cand] (ti_priority cand)
       else if ti_priority cand = best_prio then claimants_loop addr ts (cl @ [cand]) best_prio
       else claimants_loop addr ts cl best_prio)"

text \<open>One call through a socket, at the target's own addresses.\<close>

definition call_target :: "(nat \<Rightarrow> 's socket_call) \<Rightarrow> target_info \<Rightarrow> u64 \<Rightarrow> gp \<Rightarrow> u64 \<Rightarrow> 's \<Rightarrow> (gp \<times> u64 \<times> 's) res" where
  "call_target socket ti addr txn delay s =
     (let txn1 = (if ti_use_offset ti then txn\<lparr>gp_address := addr - ti_address ti\<rparr> else txn)
      in bind_res (socket (ti_index ti) txn1 delay s) (\<lambda>(txn2, delay1, _, s1).
           Inr (if ti_use_offset ti then txn2\<lparr>gp_address := addr\<rparr> else txn2, delay1, s1)))"

fun fan_out :: "(nat \<Rightarrow> 's socket_call) \<Rightarrow> target_info list \<Rightarrow> u64 \<Rightarrow> gp \<Rightarrow> u64 \<Rightarrow> 's \<Rightarrow> (gp \<times> u64 \<times> 's) res" where
  "fan_out socket [] addr txn delay s = Inr (txn, delay, s)"
| "fan_out socket (ti # ts) addr txn delay s =
     bind_res (call_target socket ti addr txn delay s) (\<lambda>(txn1, delay1, s1).
       if status_val (gp_response txn1) \<le> status_val Generic_error_response
       then Inr (txn1, delay1, s1)
       else fan_out socket ts addr txn1 delay1 s1)"

definition do_callbacks :: "(nat \<Rightarrow> 's socket_call) \<Rightarrow> reg_router \<Rightarrow> gp \<Rightarrow> u64 \<Rightarrow> 's \<Rightarrow>
    (bool \<times> gp \<times> u64 \<times> 's) res" where
  "do_callbacks socket r txn delay s =
     (if rr_cb_targets r = [] then Inr (False, txn, delay, s)
      else bind_res (claimants_loop (gp_address txn) (rr_cb_targets r) [] 0) (\<lambda>cl.
        if cl = [] then Inr (False, txn, delay, s)
        else bind_res (fan_out socket cl (gp_address txn) txn delay s) (\<lambda>(txn1, delay1, s1).
          Inr (True, txn1, delay1, s1))))"

text \<open>The optional hook of the owner is told the module before every access.\<close>

definition pre_b_transport :: "(bool \<Rightarrow> u64 \<Rightarrow> 's \<Rightarrow> 's) option \<Rightarrow> reg_router \<Rightarrow> gp \<Rightarrow> 's \<Rightarrow> 's" where
  "pre_b_transport hook r txn s =
     (case hook of
        None \<Rightarrow> s
      | Some h \<Rightarrow> (case get_module_name (gp_address txn) (rr_mod_addr_name r) of
                    (_, mod_addr, mod_found) \<Rightarrow> h mod_found mod_addr s))"

definition rr_b_transport :: "cci_broker \<Rightarrow> (bool \<Rightarrow> u64 \<Rightarrow> 's \<Rightarrow> 's) option \<Rightarrow> (nat \<Rightarrow> 's socket_call) \<Rightarrow>
    gp \<Rightarrow> u64 \<Rightarrow> reg_router \<Rightarrow> 's \<Rightarrow> (gp \<times> u64 \<times> reg_router \<times> 's) res" where
  "rr_b_transport b hook socket txn delay r s =
     (let addr = gp_address txn
      in bind_res (rr_decode_address b txn r) (\<lambda>(found, r1).
         case found of
           None \<Rightarrow> Inr (txn\<lparr>gp_response := Address_error_response\<rparr>, delay, r1, s)
         | Some ti \<Rightarrow>
             bind_res (do_callbacks socket r1 txn delay (pre_b_transport hook r1 txn s))
               (\<lambda>(_, txn1, delay1, s1).
             bind_res
               (if status_val (gp_response txn1) \<ge> status_val Incomplete_response
                then call_target socket ti addr txn1 delay1 s1 else Inr (txn1, delay1, s1))
               (\<lambda>(txn2, delay2, s2).
             bind_res
               (if status_val (gp_response txn2) \<ge> status_val Ok_response
                then do_callbacks socket r1 txn2 delay2 s2 else Inr (False, txn2, delay2, s2))
               (\<lambda>(_, txn3, delay3, s3).
             Inr (if rr_cb_targets r1 \<noteq> [] then txn3\<lparr>gp_dmi_allowed := False\<rparr> else txn3,
                  delay3, r1, s3))))))"

definition rr_transport_dbg :: "cci_broker \<Rightarrow> (bool \<Rightarrow> u64 \<Rightarrow> 's \<Rightarrow> 's) option \<Rightarrow> (nat \<Rightarrow> gp \<Rightarrow> 's \<Rightarrow> (u32 \<times> gp \<times> 's) res) \<Rightarrow>
    gp \<Rightarrow> reg_router \<Rightarrow> 's \<Rightarrow> (u32 \<times> gp \<times> reg_router \<times> 's) res" where
  "rr_transport_dbg b hook socket txn r s =
     (let addr = gp_address txn
      in bind_res (rr_decode_address b txn r) (\<lambda>(found, r1).
         case found of
           None \<Rightarrow> Inr (0, txn\<lparr>gp_response := Address_error_response\<rparr>, r1, s)
         | Some ti \<Rightarrow>
             (let txn1 = (if ti_use_offset ti then txn\<lparr>gp_address := addr - ti_address ti\<rparr> else txn)
              in bind_res (socket (ti_index ti) txn1 (pre_b_transport hook r1 txn s)) (\<lambda>(n, txn2, s1).
                   Inr (n, if ti_use_offset ti then txn2\<lparr>gp_address := addr\<rparr> else txn2, r1, s1)))))"

definition rr_get_direct_mem_ptr :: "gp \<Rightarrow> tlm_dmi \<Rightarrow> bool \<times> gp \<times> tlm_dmi" where
  "rr_get_direct_mem_ptr txn dmi = (False, txn, dmi)"

section \<open>Which targets are served\<close>

definition claimed :: "u64 \<Rightarrow> target_info \<Rightarrow> bool" where
  "claimed a t \<longleftrightarrow> claims t a = Inr True"

definition claims_ok :: "u64 \<Rightarrow> target_info \<Rightarrow> bool" where
  "claims_ok a t \<longleftrightarrow> claims t a \<in> {Inr True, Inr False}"

lemma claims_cases: "claims_ok a t \<Longrightarrow> claims t a = Inr (claimed a t)"
  by (auto simp: claims_ok_def claimed_def)

fun strongest :: "target_info list \<Rightarrow> target_info option" where
  "strongest [] = None"
| "strongest (t # ts) =
     (case strongest ts of None \<Rightarrow> Some t | Some u \<Rightarrow> if ti_priority u < ti_priority t then Some u else Some t)"

definition no_stronger :: "target_info list \<Rightarrow> target_info \<Rightarrow> bool" where
  "no_stronger ts t \<longleftrightarrow> list_all (\<lambda>u. ti_priority t \<le> ti_priority u) ts"

definition strongest_all :: "target_info list \<Rightarrow> target_info list" where
  "strongest_all ts = filter (no_stronger ts) ts"

lemma strongest_None: "strongest ts = None \<longleftrightarrow> ts = []"
  by (cases ts) (auto split: option.splits)

lemma strongest_Some:
  "strongest ts = Some t \<Longrightarrow> t \<in> set ts \<and> (\<forall>u \<in> set ts. ti_priority t \<le> ti_priority u)"
  by (induction ts arbitrary: t) (auto simp: strongest_None split: option.splits if_splits)

lemma strongest_drop_weaker:
  "ti_priority t < ti_priority u \<Longrightarrow> strongest (t # u # ts) = strongest (t # ts)"
  "ti_priority u < ti_priority t \<Longrightarrow> strongest (t # u # ts) = strongest (u # ts)"
  by (auto split: option.splits)

lemma best_mem_strongest:
  assumes "list_all (claims_ok a) ts"
    and "distinct (map ti_priority ((case best of None \<Rightarrow> [] | Some t \<Rightarrow> [t]) @ filter (claimed a) ts))"
  shows "best_mem a ts best = Inr (strongest ((case best of None \<Rightarrow> [] | Some t \<Rightarrow> [t]) @ filter (claimed a) ts))"
  using assms
proof (induction ts arbitrary: best)
  case (Cons u ts)
  have c: "claims u a = Inr (claimed a u)" using Cons.prems(1) by (simp add: claims_cases)
  show ?case
  proof (cases "claimed a u")
    case False
    then show ?thesis using Cons c by simp
  next
    case True
    show ?thesis
    proof (cases best)
      case None
      then show ?thesis using Cons.IH[of "Some u"] Cons.prems c True by simp
    next
      case (Some t)
      then have "ti_priority u \<noteq> ti_priority t" using Cons.prems(2) True by auto
      then show ?thesis
        using Cons.IH[of "Some u"] Cons.IH[of "Some t"] Cons.prems c True Some
          strongest_drop_weaker[of t u] strongest_drop_weaker(2)[of u t]
        by (cases "ti_priority u < ti_priority t") (auto simp del: strongest.simps)
    qed
  qed
qed (auto split: option.splits)

lemma strongest_all_snoc:
  assumes "\<forall>t \<in> set cl. ti_priority t = p" "cl \<noteq> []"
  shows "ti_priority u < p \<Longrightarrow> strongest_all (cl @ u # ts) = strongest_all (u # ts)"
    and "p < ti_priority u \<Longrightarrow> strongest_all (cl @ u # ts) = strongest_all (cl @ ts)"
proof -
  assume a: "ti_priority u < p"
  have "no_stronger (cl @ u # ts) = no_stronger (u # ts)"
    using a assms by (auto simp: no_stronger_def list_all_iff fun_eq_iff)
  moreover have "filter (no_stronger (u # ts)) cl = []"
    using a assms by (auto simp: filter_empty_conv no_stronger_def)
  ultimately show "strongest_all (cl @ u # ts) = strongest_all (u # ts)" by (simp add: strongest_all_def)
next
  assume a: "p < ti_priority u"
  then obtain v where v: "v \<in> set cl" "ti_priority v < ti_priority u" using assms by (cases cl) auto
  then have "no_stronger (cl @ u # ts) = no_stronger (cl @ ts)"
    by (auto simp: no_stronger_def list_all_iff fun_eq_iff) (meson UnI1 less_imp_le order_trans)
  moreover have "\<not> no_stronger (cl @ ts) u" using v by (force simp: no_stronger_def list_all_iff)
  ultimately show "strongest_all (cl @ u # ts) = strongest_all (cl @ ts)" by (simp add: strongest_all_def)
qed

lemma strongest_all_same: "\<forall>t \<in> set cl. ti_priority t = p \<Longrightarrow> strongest_all cl = cl"
  unfolding strongest_all_def by (rule filter_True) (auto simp: no_stronger_def list_all_iff)

lemma claimants_strongest:
  assumes "list_all (\<lambda>(_, t). claims_ok a t) ts" "\<forall>t \<in> set cl. ti_priority t = p"
  shows "claimants_loop a ts cl p = Inr (strongest_all (cl @ filter (claimed a) (map snd ts)))"
  using assms
proof (induction ts arbitrary: cl p)
  case Nil
  then show ?case by (simp add: strongest_all_same[OF Nil(2)])
next
  case (Cons x ts)
  obtain k u where x: "x = (k, u)" by (cases x)
  have c: "claims u a = Inr (claimed a u)" using Cons.prems(1) x by (simp add: claims_cases)
  consider "\<not> claimed a u" | "claimed a u" "cl = []" | "claimed a u" "cl \<noteq> []" "ti_priority u < p"
    | "claimed a u" "cl \<noteq> []" "ti_priority u = p" | "claimed a u" "cl \<noteq> []" "p < ti_priority u"
    by fastforce
  then show ?case
    by cases (use Cons.IH[of cl p] Cons.IH[of "[u]" "ti_priority u"] Cons.IH[of "cl @ [u]" p] Cons.prems x c
        strongest_all_snoc[OF Cons.prems(2), of u] in auto)
qed

section \<open>The order of the calls\<close>

text \<open>A socket that keeps a log of the calls: the target and the address it is called with.\<close>

definition logged :: "(nat \<Rightarrow> 's socket_call) \<Rightarrow> nat \<Rightarrow> ('s \<times> (nat \<times> u64) list) socket_call" where
  "logged socket i txn d x =
     bind_res (socket i txn d (fst x)) (\<lambda>(txn1, d1, iv, s1).
       Inr (txn1, d1, iv, (s1, snd x @ [(i, gp_address txn)])))"

definition called_as :: "u64 \<Rightarrow> target_info \<Rightarrow> nat \<times> u64" where
  "called_as a t = (ti_index t, if ti_use_offset t then a - ti_address t else a)"

text \<open>A target that answers every transaction of some response with another response, and changes
  neither command nor address.\<close>

definition answers :: "(nat \<Rightarrow> 's socket_call) \<Rightarrow> target_info \<Rightarrow> tlm_response \<Rightarrow> tlm_response \<Rightarrow> bool" where
  "answers socket t r1 r2 \<longleftrightarrow> (\<forall>txn d s. gp_response txn = r1 \<longrightarrow>
     (\<exists>txn' d' iv s'. socket (ti_index t) txn d s = Inr (txn', d', iv, s') \<and> gp_response txn' = r2
        \<and> gp_address txn' = gp_address txn))"

lemma call_logged:
  assumes "answers socket t r1 r2" "gp_response txn = r1" "gp_address txn = a"
  shows "\<exists>txn' d' s'. call_target (logged socket) t a txn d (s, l) = Inr (txn', d', s', l @ [called_as a t])
      \<and> gp_response txn' = r2 \<and> gp_address txn' = a"
proof -
  let ?t = "if ti_use_offset t then txn\<lparr>gp_address := a - ti_address t\<rparr> else txn"
  obtain txn' d' iv s' where "socket (ti_index t) ?t d s = Inr (txn', d', iv, s')"
    "gp_response txn' = r2" "gp_address txn' = gp_address ?t"
    using assms(1)[unfolded answers_def, THEN spec[of _ ?t], THEN spec[of _ d], THEN spec[of _ s]] assms(2)
    by (auto split: if_splits)
  then show ?thesis using assms(3) by (auto simp: call_target_def logged_def called_as_def)
qed

lemma fan_out_logged:
  assumes "\<forall>t \<in> set ts. answers socket t r r" "r \<in> {Incomplete_response, Ok_response}"
    and "gp_response txn = r" "gp_address txn = a"
  shows "\<exists>txn' d' s'. fan_out (logged socket) ts a txn d (s, l) = Inr (txn', d', s', l @ map (called_as a) ts)
      \<and> gp_response txn' = r \<and> gp_address txn' = a"
  using assms
proof (induction ts arbitrary: txn d s l)
  case (Cons t ts)
  obtain txn1 d1 s1 where c: "call_target (logged socket) t a txn d (s, l) = Inr (txn1, d1, s1, l @ [called_as a t])"
    "gp_response txn1 = r" "gp_address txn1 = a"
    using call_logged[of socket t r r txn a d s l] Cons.prems by auto
  have "status_val r \<ge> 0" using Cons.prems(2) by auto
  then show ?case
    using Cons.IH[of txn1 d1 s1 "l @ [called_as a t]"] Cons.prems c by auto
qed simp

lemma callbacks_logged:
  assumes "list_all (\<lambda>(_, t). claims_ok a t) (rr_cb_targets r)"
    and "cl = strongest_all (filter (claimed a) (map snd (rr_cb_targets r)))"
    and "\<forall>t \<in> set cl. answers socket t rs rs" "rs \<in> {Incomplete_response, Ok_response}"
    and "gp_response txn = rs" "gp_address txn = a"
  shows "\<exists>f txn' d' s'. do_callbacks (logged socket) r txn d (s, l) = Inr (f, txn', d', s', l @ map (called_as a) cl)
      \<and> gp_response txn' = rs \<and> gp_address txn' = a"
proof -
  have c: "claimants_loop a (rr_cb_targets r) [] 0 = Inr cl"
    using claimants_strongest[OF assms(1), of "[]" 0] assms(2) by simp
  have "cl = []" if "rr_cb_targets r = []" using assms(2) that by (simp add: strongest_all_def)
  then show ?thesis
    using fan_out_logged[OF assms(3,4,5,6), of d s l] c assms(5,6)
    by (cases "cl = []") (auto simp: do_callbacks_def)
qed

lemma decode_initialized:
  assumes "rr_initialized r" "list_all (claims_ok (gp_address txn)) (rr_mem_targets r)"
    and "distinct (map ti_priority (filter (claimed (gp_address txn)) (rr_mem_targets r)))"
  shows "rr_decode_address b txn r = Inr (strongest (filter (claimed (gp_address txn)) (rr_mem_targets r)), r)"
  using best_mem_strongest[OF assms(2), of None] assms
  by (simp add: rr_decode_address_def rr_lazy_initialize_def)

text \<open>C10. The register router serves an access in a fixed order. The callbacks of the strongest
  priority among those that claim the address come first, in the order of their addresses; then the
  one memory of strongest priority; then the same callbacks again. Every target is called at its own
  addresses and the payload comes back with its original address; direct access is refused as soon
  as there are callbacks. An address no memory claims is answered with an address error and nothing
  is called.\<close>

theorem rr_access_order:
  assumes "rr_initialized r" "list_all (claims_ok (gp_address txn)) (rr_mem_targets r)"
    and "list_all (\<lambda>(_, t). claims_ok (gp_address txn) t) (rr_cb_targets r)"
    and "distinct (map ti_priority (filter (claimed (gp_address txn)) (rr_mem_targets r)))"
    and "cl = strongest_all (filter (claimed (gp_address txn)) (map snd (rr_cb_targets r)))"
    and "\<forall>t \<in> set cl. answers socket t Incomplete_response Incomplete_response
           \<and> answers socket t Ok_response Ok_response"
    and "\<forall>t \<in> set (rr_mem_targets r). answers socket t Incomplete_response Ok_response"
    and "gp_response txn = Incomplete_response" "pre_b_transport hook r txn (s, l) = (s0, l0)"
  shows "case strongest (filter (claimed (gp_address txn)) (rr_mem_targets r)) of
      None \<Rightarrow> rr_b_transport b hook (logged socket) txn d r (s, l)
               = Inr (txn\<lparr>gp_response := Address_error_response\<rparr>, d, r, s, l)
    | Some m \<Rightarrow> \<exists>txn' d' s'. rr_b_transport b hook (logged socket) txn d r (s, l)
          = Inr (txn', d', r, s', l0 @ map (called_as (gp_address txn)) cl @ [called_as (gp_address txn) m]
                                    @ map (called_as (gp_address txn)) cl)
        \<and> gp_response txn' = Ok_response \<and> gp_address txn' = gp_address txn
        \<and> (rr_cb_targets r \<noteq> [] \<longrightarrow> \<not> gp_dmi_allowed txn')"
proof (cases "strongest (filter (claimed (gp_address txn)) (rr_mem_targets r))")
  case None
  then show ?thesis using decode_initialized[OF assms(1,2,4)] by (simp add: rr_b_transport_def)
next
  case (Some m)
  let ?a = "gp_address txn"
  note dec = decode_initialized[OF assms(1,2,4), of b, unfolded Some]
  have m: "answers socket m Incomplete_response Ok_response"
    using strongest_Some[OF Some] assms(7) by simp
  obtain f txn1 d1 s1 where p1: "do_callbacks (logged socket) r txn d (s0, l0)
      = Inr (f, txn1, d1, s1, l0 @ map (called_as ?a) cl)" "gp_response txn1 = Incomplete_response" "gp_address txn1 = ?a"
    using callbacks_logged[OF assms(3,5), of socket Incomplete_response txn d s0 l0] assms(6,8) by auto
  obtain txn2 d2 s2 where p2: "call_target (logged socket) m ?a txn1 d1 (s1, l0 @ map (called_as ?a) cl)
      = Inr (txn2, d2, s2, l0 @ map (called_as ?a) cl @ [called_as ?a m])"
    "gp_response txn2 = Ok_response" "gp_address txn2 = ?a"
    using call_logged[OF m p1(2,3), of d1 s1 "l0 @ map (called_as ?a) cl"] by auto
  obtain f' txn3 d3 s3 where p3: "do_callbacks (logged socket) r txn2 d2 (s2, l0 @ map (called_as ?a) cl @ [called_as ?a m])
      = Inr (f', txn3, d3, s3, l0 @ map (called_as ?a) cl @ [called_as ?a m] @ map (called_as ?a) cl)"
    "gp_response txn3 = Ok_response" "gp_address txn3 = ?a"
    using callbacks_logged[OF assms(3,5), of socket Ok_response txn2 d2 s2
        "l0 @ map (called_as ?a) cl @ [called_as ?a m]"] assms(6) p2 by auto
  show ?thesis
    using Some dec assms(9) p1 p2 p3 by (simp add: rr_b_transport_def)
qed


section \<open>Examples\<close>

definition reg_window :: "nat \<Rightarrow> u64 \<Rightarrow> u64 \<Rightarrow> target_info" where
  "reg_window i a n = (plain_target i a n 0)\<lparr>ti_is_callback := True\<rparr>"

definition example_reg_router :: reg_router where
  "example_reg_router = (reg_router_init ''r'' [])\<lparr>rr_initialized := True,
     rr_mem_targets := [plain_target 0 0 0x100 0],
     rr_cb_targets := [(0x10, reg_window 1 0x10 4), (0x10, reg_window 2 0x10 8)]\<rparr>"

text \<open>Target 0 is a memory; the others are callbacks, which reject a new access when told to.\<close>

definition example_sockets :: "bool \<Rightarrow> nat \<Rightarrow> unit socket_call" where
  "example_sockets reject i txn d s =
     Inr (if i = 0 then txn\<lparr>gp_response := Ok_response\<rparr>
          else if reject \<and> gp_response txn = Incomplete_response then txn\<lparr>gp_response := Command_error_response\<rparr>
          else txn, d, [], s)"

lemma example_claims:
  "list_all (claims_ok 0x12) (rr_mem_targets example_reg_router)"
  "list_all (\<lambda>(_, t). claims_ok 0x12 t) (rr_cb_targets example_reg_router)"
  "filter (claimed 0x12) (rr_mem_targets example_reg_router) = [plain_target 0 0 0x100 0]"
  "strongest_all (filter (claimed 0x12) (map snd (rr_cb_targets example_reg_router)))
     = [reg_window 1 0x10 4, reg_window 2 0x10 8]"
  by (simp_all add: example_reg_router_def reg_router_init_def claims_ok_def claimed_def claims_def reg_window_def
      plain_target_def strongest_all_def no_stronger_def)

theorem rr_access_order_witness:
  "\<exists>txn' d' s'. rr_b_transport \<lparr>br_param = Map.empty, br_preset = Map.empty, br_unconsumed = []\<rparr> None
      (logged (example_sockets False)) (gp_init\<lparr>gp_address := 0x12\<rparr>) 0 example_reg_router ((), [])
    = Inr (txn', d', example_reg_router, s', [(1, 2), (2, 2), (0, 0x12), (1, 2), (2, 2)])
   \<and> gp_response txn' = Ok_response"
  using rr_access_order[of example_reg_router "gp_init\<lparr>gp_address := 0x12\<rparr>"
      "[reg_window 1 0x10 4, reg_window 2 0x10 8]" "example_sockets False" None "()" "[]" "()" "[]"
      "\<lparr>br_param = Map.empty, br_preset = Map.empty, br_unconsumed = []\<rparr>" 0]
  by (simp add: example_claims gp_init_def pre_b_transport_def answers_def example_sockets_def called_as_def
      reg_window_def plain_target_def) (auto simp: example_reg_router_def plain_target_def)


end
