(* ===== verification/RegBank.thy ===== *)
theory RegBank
  imports Registers "HOL-Library.AList"
begin

text \<open>
  Register banks, the second half of \<^verbatim>\<open>common/include/registers.h\<close>: one register that stands for an
  N-dimensional grid of elements with a stride per dimension, outermost first. \<open>gs_bank\<close> is the
  specialisation \<^verbatim>\<open>gs_register<gs_bank_of<ELEM>>\<close>; \<open>bank_elem\<close> is the cursor
  \<^verbatim>\<open>gs_register_bank_element\<close>, without the pointers to the bank. Three ways to name an element are
  converted into each other: its indices, its flat row-major index, and its byte offset.

  Shown: for every layout the constructor accepts and whose span fits 64 bits, these conversions
  are inverse to each other, and different elements occupy disjoint bytes.
\<close>

section \<open>Layouts\<close>

record gs_bank_access =
  ba_index :: u64
  ba_byte_offset :: u64
  ba_indices :: "u64 list"
  ba_aligned :: bool
  ba_in_range :: bool

definition on_element :: "gs_bank_access \<Rightarrow> bool" where
  "on_element a \<longleftrightarrow> ba_aligned a \<and> ba_in_range a"

record 'm gs_bank = "'m gs_reg" +
  m_element_masks :: "(u64 \<times> 'm) list"
  m_dim_counts :: "u64 list"
  m_dim_strides :: "u64 list"
  m_row_major_div :: "u64 list"
  m_total_count :: u64
  m_total_span :: u64

fun span_loop :: "u64 list \<Rightarrow> u64 list \<Rightarrow> u64 \<Rightarrow> u64 option" where
  "span_loop (c # cs) (s # ss) span = (if c = 0 then None else span_loop cs ss (span + (c - 1) * s))"
| "span_loop _ _ span = Some span"

definition compute_total_span :: "nat \<Rightarrow> u64 list \<Rightarrow> u64 list \<Rightarrow> u64" where
  "compute_total_span sz counts strides =
     (if counts = [] \<or> length counts \<noteq> length strides then 0
      else case span_loop counts strides 0 of None \<Rightarrow> 0 | Some span \<Rightarrow> span + of_nat sz)"

definition compute_total_count :: "u64 list \<Rightarrow> u64" where
  "compute_total_count counts = foldl (*) 1 counts"

text \<open>\<open>row_major_div counts ! k\<close> is the product of the counts behind \<open>k\<close>.\<close>

fun row_major_div :: "u64 list \<Rightarrow> u64 list" where
  "row_major_div [] = []"
| "row_major_div [c] = [1]"
| "row_major_div (c # c' # cs) = (let ds = row_major_div (c' # cs) in hd ds * c' # ds)"

text \<open>What the dimensions behind the first span, without the last element.\<close>

fun inner_span :: "u64 list \<Rightarrow> u64 list \<Rightarrow> u64" where
  "inner_span (c # cs) (s # ss) = (c - 1) * s + inner_span cs ss"
| "inner_span _ _ = 0"

fun layout_check :: "nat \<Rightarrow> u64 list \<Rightarrow> u64 list \<Rightarrow> bool" where
  "layout_check sz counts [] = True"
| "layout_check sz counts [s] = (of_nat sz \<le> s)"
| "layout_check sz counts (s # s' # ss) =
     (inner_span (tl counts) (s' # ss) + of_nat sz \<le> s \<and> layout_check sz (tl counts) (s' # ss))"

definition bank_init_common :: "'a::len word gs_bank \<Rightarrow> 'a word gs_bank res" where
  "bank_init_common b =
     (let cs = m_dim_counts b; ss = m_dim_strides b;
          b1 = b\<lparr>m_total_count := compute_total_count cs,
                 m_total_span := compute_total_span (sizeof TYPE('a)) cs ss,
                 m_row_major_div := row_major_div cs\<rparr>
      in if \<not> layout_check (sizeof TYPE('a)) cs ss then Inl Fatal
         else Inr (b1\<lparr>p_size := m_total_span b1\<rparr>))"

definition bank_of_proxy :: "'m proxy \<Rightarrow> u64 list \<Rightarrow> u64 list \<Rightarrow> 'm gs_bank" where
  "bank_of_proxy p counts strides =
     gs_reg.extend (gs_reg_init p)
       \<lparr>m_element_masks = [], m_dim_counts = counts, m_dim_strides = strides, m_row_major_div = [],
        m_total_count = 0, m_total_span = 0\<rparr>"

definition bank_new_1d :: "u64 \<Rightarrow> u64 \<Rightarrow> u64 \<Rightarrow> 'a::len word \<Rightarrow> 'a word gs_bank res" where
  "bank_new_1d offset count stride msk =
     bank_init_common
       (bank_of_proxy
         (proxy_init offset count msk stride
           (if count = 0 then 0 else stride * (count - 1) + of_nat (sizeof TYPE('a)))) [count] [stride])"

definition bank_new :: "u64 \<Rightarrow> u64 list \<Rightarrow> u64 list \<Rightarrow> 'a::len word \<Rightarrow> 'a word gs_bank res" where
  "bank_new offset counts strides msk =
     (if length counts \<noteq> length strides \<or> counts = [] then Inl Fatal
      else if 0 \<in> set counts then Inl Fatal
      else bank_init_common
        (bank_of_proxy
          (proxy_init offset (compute_total_count counts) msk (last strides)
            (compute_total_span (sizeof TYPE('a)) counts strides)) counts strides))"

section \<open>Indices and offsets\<close>

fun flat_loop :: "u64 list \<Rightarrow> u64 list \<Rightarrow> u64 list \<Rightarrow> u64 \<Rightarrow> u64 res" where
  "flat_loop (i # is) (c # cs) (d # ds) flat =
     (if i \<ge> c then Inl Fatal else flat_loop is cs ds (flat + i * d))"
| "flat_loop _ _ _ flat = Inr flat"

definition flat_index_for_indices :: "('m, 'b) gs_bank_scheme \<Rightarrow> u64 list \<Rightarrow> u64 res" where
  "flat_index_for_indices b indices =
     (if length indices \<noteq> length (m_dim_counts b) then Inl Fatal
      else flat_loop indices (m_dim_counts b) (m_row_major_div b) 0)"

fun offset_loop :: "u64 list \<Rightarrow> u64 list \<Rightarrow> u64 list \<Rightarrow> u64 \<Rightarrow> u64 res" where
  "offset_loop (i # is) (c # cs) (s # ss) off =
     (if i \<ge> c then Inl Fatal else offset_loop is cs ss (off + i * s))"
| "offset_loop _ _ _ off = Inr off"

definition byte_offset_for :: "('m, 'b) gs_bank_scheme \<Rightarrow> u64 list \<Rightarrow> u64 res" where
  "byte_offset_for b indices =
     (if length indices \<noteq> length (m_dim_strides b) then Inl Fatal
      else offset_loop indices (m_dim_counts b) (m_dim_strides b) 0)"

fun unravel :: "u64 list \<Rightarrow> u64 list \<Rightarrow> u64 \<Rightarrow> u64 \<Rightarrow> u64 res" where
  "unravel (d # ds) (s # ss) remaining off =
     (if d = 0 then Inl Div_by_zero
      else unravel ds ss (remaining mod d) (off + (remaining div d) * s))"
| "unravel _ _ remaining off = Inr off"

definition byte_offset_for_flat :: "('m, 'b) gs_bank_scheme \<Rightarrow> u64 \<Rightarrow> u64 res" where
  "byte_offset_for_flat b flat_idx =
     (if flat_idx \<ge> m_total_count b then Inl Fatal
      else unravel (m_row_major_div b) (m_dim_strides b) flat_idx 0)"

fun try_flat_loop :: "nat \<Rightarrow> u64 list \<Rightarrow> u64 list \<Rightarrow> u64 list \<Rightarrow> u64 \<Rightarrow> u64 \<Rightarrow> u64 option res" where
  "try_flat_loop sz (s # ss) (c # cs) (d # ds) remaining flat =
     (if s = 0 then Inl Div_by_zero
      else if remaining div s \<ge> c then Inr None
      else try_flat_loop sz ss cs ds (remaining mod s) (flat + (remaining div s) * d))"
| "try_flat_loop sz _ _ _ remaining flat = Inr (if remaining < of_nat sz then Some flat else None)"

definition try_flat_index_for_byte_offset :: "('a::len word, 'b) gs_bank_scheme \<Rightarrow> u64 \<Rightarrow> u64 option res" where
  "try_flat_index_for_byte_offset b byte_offset =
     try_flat_loop (sizeof TYPE('a)) (m_dim_strides b) (m_dim_counts b) (m_row_major_div b) byte_offset 0"

fun element_loop :: "nat \<Rightarrow> u64 list \<Rightarrow> u64 list \<Rightarrow> u64 \<Rightarrow> bool res" where
  "element_loop sz (s # ss) (c # cs) r =
     (if s = 0 then Inl Div_by_zero
      else if r div s \<ge> c then Inr False
      else element_loop sz ss cs (r mod s))"
| "element_loop sz _ _ r = Inr (r < of_nat sz)"

definition byte_offset_is_element :: "('a::len word, 'b) gs_bank_scheme \<Rightarrow> u64 \<Rightarrow> bool res" where
  "byte_offset_is_element b byte_off =
     element_loop (sizeof TYPE('a)) (m_dim_strides b) (m_dim_counts b) byte_off"

text \<open>The indices of an offset, whether they are in range, and the rest.\<close>

fun split_offset :: "u64 list \<Rightarrow> u64 list \<Rightarrow> u64 \<Rightarrow> (u64 list \<times> bool \<times> u64) res" where
  "split_offset (s # ss) (c # cs) rem =
     (if s = 0 then Inl Div_by_zero
      else bind_res (split_offset ss cs (rem mod s)) (\<lambda>(is, ok, r).
        Inr (rem div s # is, rem div s < c \<and> ok, r)))"
| "split_offset _ _ rem = Inr ([], True, rem)"

fun dot :: "u64 list \<Rightarrow> u64 list \<Rightarrow> u64" where
  "dot (i # is) (d # ds) = i * d + dot is ds"
| "dot _ _ = 0"

definition decode_access :: "('a::len word, 'b) gs_bank_scheme \<Rightarrow> gp \<Rightarrow> gs_bank_access res" where
  "decode_access b txn =
     (let off = (if p_relative_addresses b then gp_address txn else gp_address txn - p_offset b)
      in bind_res (split_offset (m_dim_strides b) (m_dim_counts b) off) (\<lambda>(is, ok, rem).
           Inr \<lparr>ba_index = dot is (m_row_major_div b), ba_byte_offset = off, ba_indices = is,
                ba_aligned = (rem < of_nat (sizeof TYPE('a))), ba_in_range = ok\<rparr>))"

definition is_element_start :: "('m, 'b) gs_bank_scheme \<Rightarrow> gs_bank_access \<Rightarrow> bool res" where
  "is_element_start b a =
     (if on_element a
      then bind_res (byte_offset_for_flat b (ba_index a)) (\<lambda>off. Inr (off = ba_byte_offset a))
      else Inr False)"

definition masked_transaction_element_count :: "('a::len word, 'b) gs_bank_scheme \<Rightarrow> gp \<Rightarrow> gs_bank_access \<Rightarrow>
    nat res" where
  "masked_transaction_element_count b txn a =
     bind_res (is_element_start b a) (\<lambda>st.
       if \<not> st then Inr 0
       else
         let len = unat (gp_length txn); sz = sizeof TYPE('a); count = len div sz
         in if len = 0 \<or> len mod sz \<noteq> 0 then Inr 0
            else if count = 1 then Inr count
            else if length (m_dim_counts b) \<noteq> 1 \<or> hd (m_dim_strides b) \<noteq> of_nat sz then Inr 0
            else if ba_index a \<ge> m_total_count b \<or> of_nat count > m_total_count b - ba_index a then Inr 0
            else Inr count)"

section \<open>Element masks\<close>

definition mask_for_element :: "('m, 'b) gs_bank_scheme \<Rightarrow> u64 \<Rightarrow> 'm" where
  "mask_for_element b flat_index =
     (case map_of (m_element_masks b) flat_index of None \<Rightarrow> p_mask b | Some m \<Rightarrow> m)"

definition mask_for_byte_offset :: "('a::len word, 'b) gs_bank_scheme \<Rightarrow> u64 \<Rightarrow> 'a word res" where
  "mask_for_byte_offset b off =
     bind_res (try_flat_index_for_byte_offset b off) (\<lambda>flat.
       Inr (case flat of None \<Rightarrow> p_mask b | Some i \<Rightarrow> mask_for_element b i))"

definition check_flat :: "('m, 'b) gs_bank_scheme \<Rightarrow> u64 \<Rightarrow> 'c res \<Rightarrow> 'c res" where
  "check_flat b flat_index k = (if flat_index \<ge> m_total_count b then Inl Fatal else k)"

definition set_element_mask :: "u64 \<Rightarrow> 'm \<Rightarrow> ('m, 'b) gs_bank_scheme \<Rightarrow> ('m, 'b) gs_bank_scheme res" where
  "set_element_mask flat_index m b =
     check_flat b flat_index (Inr (b\<lparr>m_element_masks := AList.update flat_index m (m_element_masks b)\<rparr>))"

definition get_element_mask :: "u64 \<Rightarrow> ('m, 'b) gs_bank_scheme \<Rightarrow> 'm res" where
  "get_element_mask flat_index b = check_flat b flat_index (Inr (mask_for_element b flat_index))"

definition clear_element_mask :: "u64 \<Rightarrow> ('m, 'b) gs_bank_scheme \<Rightarrow> ('m, 'b) gs_bank_scheme res" where
  "clear_element_mask flat_index b =
     check_flat b flat_index (Inr (b\<lparr>m_element_masks := AList.delete flat_index (m_element_masks b)\<rparr>))"

definition set_element_mask_at :: "u64 list \<Rightarrow> 'm \<Rightarrow> ('m, 'b) gs_bank_scheme \<Rightarrow> ('m, 'b) gs_bank_scheme res" where
  "set_element_mask_at indices m b =
     bind_res (flat_index_for_indices b indices) (\<lambda>i. set_element_mask i m b)"

definition get_element_mask_at :: "u64 list \<Rightarrow> ('m, 'b) gs_bank_scheme \<Rightarrow> 'm res" where
  "get_element_mask_at indices b = bind_res (flat_index_for_indices b indices) (\<lambda>i. get_element_mask i b)"

definition clear_element_mask_at :: "u64 list \<Rightarrow> ('m, 'b) gs_bank_scheme \<Rightarrow> ('m, 'b) gs_bank_scheme res" where
  "clear_element_mask_at indices b =
     bind_res (flat_index_for_indices b indices) (\<lambda>i. clear_element_mask i b)"

section \<open>Access\<close>

text \<open>\<^verbatim>\<open>set_bytes\<close> with the mask of the element at the offset.\<close>

definition bank_set_bytes :: "'s reg_port \<Rightarrow> 'a::len word \<Rightarrow> u64 \<Rightarrow> bool \<Rightarrow> ('a word, 'b) gs_bank_scheme \<Rightarrow> 's \<Rightarrow>
    (('a word, 'b) gs_bank_scheme \<times> 's) res" where
  "bank_set_bytes port v off use_mask b s =
     bind_res (mask_for_byte_offset b off) (\<lambda>m. set_bytes port (\<lambda>_. m) v off use_mask b s)"

fun bank_get_each :: "'s reg_port \<Rightarrow> u64 \<Rightarrow> 'a::len word list \<Rightarrow> ('a word, 'b) gs_bank_scheme \<Rightarrow> 's \<Rightarrow>
    ('a word list \<times> ('a word, 'b) gs_bank_scheme \<times> 's) res" where
  "bank_get_each port idx [] b s = Inr ([], b, s)"
| "bank_get_each port idx (d # dst) b s =
     bind_res (byte_offset_for_flat b idx) (\<lambda>off.
     bind_res (get_bytes port d off b s) (\<lambda>(v, b1, s1).
     bind_res (bank_get_each port (idx + 1) dst b1 s1) (\<lambda>(vs, b2, s2). Inr (v # vs, b2, s2))))"

fun bank_set_each :: "'s reg_port \<Rightarrow> u64 \<Rightarrow> bool \<Rightarrow> 'a::len word list \<Rightarrow> ('a word, 'b) gs_bank_scheme \<Rightarrow> 's \<Rightarrow>
    (('a word, 'b) gs_bank_scheme \<times> 's) res" where
  "bank_set_each port idx use_mask [] b s = Inr (b, s)"
| "bank_set_each port idx use_mask (v # src) b s =
     bind_res (byte_offset_for_flat b idx) (\<lambda>off.
     bind_res (bank_set_bytes port v off use_mask b s) (\<lambda>(b1, s1).
       bank_set_each port (idx + 1) use_mask src b1 s1))"

definition bank_get :: "'s reg_port \<Rightarrow> 'a::len word list \<Rightarrow> u64 \<Rightarrow> ('a word, 'b) gs_bank_scheme \<Rightarrow> 's \<Rightarrow>
    ('a word list \<times> ('a word, 'b) gs_bank_scheme \<times> 's) res" where
  "bank_get port dst idx b s =
     (if length (m_dim_counts b) = 1 then proxy_get port dst idx b s else bank_get_each port idx dst b s)"

definition bank_set :: "'s reg_port \<Rightarrow> 'a::len word list \<Rightarrow> u64 \<Rightarrow> bool \<Rightarrow> ('a word, 'b) gs_bank_scheme \<Rightarrow> 's \<Rightarrow>
    (('a word, 'b) gs_bank_scheme \<times> 's) res" where
  "bank_set port src idx use_mask b s =
     (if length (m_dim_counts b) = 1 \<and> m_element_masks b = [] then proxy_set port src idx use_mask b s
      else bank_set_each port idx use_mask src b s)"

subsection \<open>Masked bus writes\<close>

definition bank_masked_write :: "('a::len word, 'b) gs_bank_scheme \<Rightarrow> gp \<Rightarrow> bool" where
  "bank_masked_write b txn \<longleftrightarrow>
     (m_element_masks b \<noteq> [] \<or> p_mask b \<noteq> gs_full_mask) \<and> gp_command txn = Write_command"

definition bank_capture_txn_pre :: "'s reg_port \<Rightarrow> (('a::len word, 'b) gs_bank_scheme, 's) mask_fnct" where
  "bank_capture_txn_pre port txn b s =
     (if \<not> bank_masked_write b txn then Inr (txn, b, s)
      else bind_res (decode_access b txn) (\<lambda>a.
           bind_res (masked_transaction_element_count b txn a) (\<lambda>count.
             if count = 0
             then Inr (txn\<lparr>gp_response := Burst_error_response\<rparr>, b\<lparr>captured_txn_data := []\<rparr>, s)
             else bind_res (bank_get_each port (ba_index a) (replicate count 0) b s) (\<lambda>(vs, b1, s1).
                    Inr (txn, b1\<lparr>captured_txn_data := bytes_of vs\<rparr>, s1)))))"

text \<open>The loop over the elements: merge, store, and give the stored value back in the payload.\<close>

fun bank_merge :: "'s reg_port \<Rightarrow> u64 \<Rightarrow> ('a::len word \<times> 'a word) list \<Rightarrow> ('a word, 'b) gs_bank_scheme \<Rightarrow> 's \<Rightarrow>
    ('a word list \<times> ('a word, 'b) gs_bank_scheme \<times> 's) res" where
  "bank_merge port idx [] b s = Inr ([], b, s)"
| "bank_merge port idx ((incoming, stored) # xs) b s =
     bind_res (get_element_mask idx b) (\<lambda>m.
     let w = hd (write_with_mask m [incoming] [stored]) in
     bind_res (byte_offset_for_flat b idx) (\<lambda>off.
     bind_res (bank_set_bytes port w off False b s) (\<lambda>(b1, s1).
     bind_res (bank_merge port (idx + 1) xs b1 s1) (\<lambda>(ws, b2, s2). Inr (w # ws, b2, s2)))))"

definition bank_handle_mask_post :: "'s reg_port \<Rightarrow> (('a::len word, 'b) gs_bank_scheme, 's) mask_fnct" where
  "bank_handle_mask_post port txn b s =
     (if \<not> bank_masked_write b txn then Inr (txn, b, s)
      else bind_res (decode_access b txn) (\<lambda>a.
           bind_res (masked_transaction_element_count b txn a) (\<lambda>count.
             if count = 0 \<or> length (captured_txn_data b) < count * sizeof TYPE('a)
             then Inr (txn\<lparr>gp_response := Burst_error_response\<rparr>, b, s)
             else bind_res (bank_merge port (ba_index a)
                    (zip (words_of count (gp_data txn)) (words_of count (captured_txn_data b))) b s)
                  (\<lambda>(ws, b1, s1).
                    Inr (txn\<lparr>gp_data := bytes_of ws @ drop (count * sizeof TYPE('a)) (gp_data txn)\<rparr>, b1, s1)))))"

definition bank_b_transport :: "'s reg_port \<Rightarrow> (('a::len word, 'b) gs_bank_scheme, 's) port_fncts \<Rightarrow>
    (('a word, 'b) gs_bank_scheme, 's) tlm_fnct" where
  "bank_b_transport port f = port_b_transport (bank_capture_txn_pre port) (bank_handle_mask_post port) f"

definition bank_transport_dbg :: "'s reg_port \<Rightarrow> gp \<Rightarrow> ('a::len word, 'b) gs_bank_scheme \<Rightarrow> 's \<Rightarrow>
    (u32 \<times> gp \<times> ('a word, 'b) gs_bank_scheme \<times> 's) res" where
  "bank_transport_dbg port txn b s =
     (let sz = sizeof TYPE('a);
          off = (if p_relative_addresses b then gp_address txn else gp_address txn - p_offset b)
      in if unat (gp_length txn) < sz then Inr (0, txn, b, s)
         else bind_res (byte_offset_is_element b off) (\<lambda>el.
           if \<not> el then Inr (0, txn, b, s)
           else case gp_command txn of
             Read_command \<Rightarrow>
               bind_res (get_bytes port 0 off b s) (\<lambda>(v, b1, s1).
                 Inr (of_nat sz, txn\<lparr>gp_data := to_bytes v @ replicate (unat (gp_length txn) - sz) 0
                                       @ drop (unat (gp_length txn)) (gp_data txn)\<rparr>, b1, s1))
           | Write_command \<Rightarrow>
               bind_res (bank_set_bytes port (of_bytes (take sz (gp_data txn))) off True b s) (\<lambda>(b1, s1).
                 Inr (of_nat sz, txn, b1, s1))
           | Ignore_command \<Rightarrow> Inr (0, txn, b, s)))"

section \<open>Cursors\<close>

record bank_elem =
  be_byte_off :: u64
  be_next_dim :: nat

definition is_full :: "('m, 'b) gs_bank_scheme \<Rightarrow> bank_elem \<Rightarrow> bool" where
  "is_full b e \<longleftrightarrow> be_next_dim e \<ge> length (m_dim_strides b)"

text \<open>\<^verbatim>\<open>operator[](size_t)\<close> of a cursor, and of the bank.\<close>

definition elem_index :: "('m, 'b) gs_bank_scheme \<Rightarrow> u64 \<Rightarrow> bank_elem \<Rightarrow> bank_elem res" where
  "elem_index b i e =
     (if is_full b e then Inl Fatal
      else if i \<ge> m_dim_counts b ! be_next_dim e then Inl Fatal
      else Inr \<lparr>be_byte_off = be_byte_off e + i * m_dim_strides b ! be_next_dim e,
                be_next_dim = be_next_dim e + 1\<rparr>)"

definition bank_index :: "('m, 'b) gs_bank_scheme \<Rightarrow> u64 \<Rightarrow> bank_elem res" where
  "bank_index b i =
     (if i \<ge> m_dim_counts b ! 0 then Inl Fatal
      else Inr \<lparr>be_byte_off = i * m_dim_strides b ! 0, be_next_dim = 1\<rparr>)"

fun elem_indices :: "('m, 'b) gs_bank_scheme \<Rightarrow> u64 list \<Rightarrow> bank_elem \<Rightarrow> bank_elem res" where
  "elem_indices b [] e = Inr e"
| "elem_indices b (i # is) e = bind_res (elem_index b i e) (elem_indices b is)"

text \<open>\<^verbatim>\<open>operator()\<close> and \<^verbatim>\<open>at\<close>.\<close>

definition build_cursor :: "('m, 'b) gs_bank_scheme \<Rightarrow> u64 list \<Rightarrow> bank_elem res" where
  "build_cursor b indices =
     (if indices = [] \<or> length indices > length (m_dim_strides b) then Inl Fatal
      else bind_res (offset_loop indices (m_dim_counts b) (m_dim_strides b) 0) (\<lambda>off.
        Inr \<lparr>be_byte_off = off, be_next_dim = length indices\<rparr>))"

definition elem_get :: "'s reg_port \<Rightarrow> bank_elem \<Rightarrow> ('a::len word, 'b) gs_bank_scheme \<Rightarrow> 's \<Rightarrow>
    ('a word \<times> ('a word, 'b) gs_bank_scheme \<times> 's) res" where
  "elem_get port e b s = (if \<not> is_full b e then Inl Fatal else get_bytes port 0 (be_byte_off e) b s)"

definition elem_set :: "'s reg_port \<Rightarrow> bank_elem \<Rightarrow> 'a::len word \<Rightarrow> ('a word, 'b) gs_bank_scheme \<Rightarrow> 's \<Rightarrow>
    (('a word, 'b) gs_bank_scheme \<times> 's) res" where
  "elem_set port e v b s =
     (if \<not> is_full b e then Inl Fatal else bank_set_bytes port v (be_byte_off e) True b s)"

definition elem_rmw :: "'s reg_port \<Rightarrow> bank_elem \<Rightarrow> rmw_op \<Rightarrow> 'a::len word \<Rightarrow> ('a word, 'b) gs_bank_scheme \<Rightarrow> 's \<Rightarrow>
    (('a word, 'b) gs_bank_scheme \<times> 's) res" where
  "elem_rmw port e opr w b s =
     (if \<not> is_full b e then Inl Fatal
      else if opr = Rmw_div \<and> w = 0 then Inl Fatal
      else bind_res (elem_get port e b s) (\<lambda>(v, b1, s1).
           bind_res (rmw_apply opr v w) (\<lambda>x. bank_set_bytes port x (be_byte_off e) True b1 s1)))"

definition bit_proxy_get :: "'s reg_port \<Rightarrow> bank_elem \<Rightarrow> gs_field \<Rightarrow> ('a::len word, 'b) gs_bank_scheme \<Rightarrow> 's \<Rightarrow>
    ('a word \<times> ('a word, 'b) gs_bank_scheme \<times> 's) res" where
  "bit_proxy_get port e f b s =
     (if \<not> is_full b e then Inl Fatal
      else bind_res (gs_mask_for_field (m_bit_start f) (m_bit_length f)) (\<lambda>field_mask.
           bind_res (elem_get port e b s) (\<lambda>(v, b1, s1).
             Inr (drop_bit (m_bit_start f) v AND field_mask, b1, s1))))"

definition bit_proxy_set :: "'s reg_port \<Rightarrow> bank_elem \<Rightarrow> gs_field \<Rightarrow> 'a::len word \<Rightarrow>
    ('a word, 'b) gs_bank_scheme \<Rightarrow> 's \<Rightarrow> (('a word, 'b) gs_bank_scheme \<times> 's) res" where
  "bit_proxy_set port e f v b s =
     (if \<not> is_full b e then Inl Fatal
      else bind_res (elem_get port e b s) (\<lambda>(cur, b1, s1).
           bind_res (gs_mask_for_field (m_bit_start f) (m_bit_length f)) (\<lambda>field_mask.
             let msk = push_bit (m_bit_start f) field_mask
             in elem_set port e (cur AND NOT msk OR push_bit (m_bit_start f) (v AND field_mask)) b1 s1)))"

section \<open>Layouts in exact arithmetic\<close>

fun nspan :: "nat \<Rightarrow> u64 list \<Rightarrow> u64 list \<Rightarrow> nat" where
  "nspan sz (c # cs) (s # ss) = (unat c - 1) * unat s + nspan sz cs ss"
| "nspan sz _ _ = sz"

fun layout_ok :: "nat \<Rightarrow> u64 list \<Rightarrow> u64 list \<Rightarrow> bool" where
  "layout_ok sz (c # cs) (s # ss) = (c \<noteq> 0 \<and> nspan sz cs ss \<le> unat s \<and> layout_ok sz cs ss)"
| "layout_ok sz [] [] = True"
| "layout_ok sz _ _ = False"

fun noff :: "u64 list \<Rightarrow> u64 list \<Rightarrow> nat" where
  "noff (i # is) (s # ss) = unat i * unat s + noff is ss"
| "noff _ _ = 0"

fun nprod :: "u64 list \<Rightarrow> nat" where
  "nprod [] = 1"
| "nprod (c # cs) = unat c * nprod cs"

fun nflat :: "u64 list \<Rightarrow> u64 list \<Rightarrow> nat" where
  "nflat (i # is) (c # cs) = unat i * nprod cs + nflat is cs"
| "nflat _ _ = 0"

lemma nspan_ge: "sz \<le> nspan sz cs ss"
  by (induction sz cs ss rule: nspan.induct) auto

lemma layout_ok_length: "layout_ok sz cs ss \<Longrightarrow> length cs = length ss"
  by (induction sz cs ss rule: layout_ok.induct) auto

lemma noff_bound:
  "list_all2 (<) is cs \<Longrightarrow> length cs = length ss \<Longrightarrow> noff is ss + sz \<le> nspan sz cs ss"
proof (induction "is" cs arbitrary: ss rule: list_all2_induct)
  case (Cons i "is" c cs)
  then obtain s ss' where ss: "ss = s # ss'" by (cases ss) auto
  have "unat i \<le> unat c - 1" using Cons(1) by (simp add: word_less_nat_alt)
  then have "unat i * unat s \<le> (unat c - 1) * unat s" by (rule mult_le_mono1)
  from add_mono[OF this, of "noff is ss' + sz" "nspan sz cs ss'"] show ?case
    using Cons(3)[of ss'] Cons(4) ss by (simp add: add.assoc)
qed simp

lemma nflat_bound: "list_all2 (<) is cs \<Longrightarrow> nflat is cs < nprod cs"
proof (induction "is" cs rule: list_all2_induct)
  case (Cons i "is" c cs)
  have "Suc (unat i) \<le> unat c" using Cons(1) by (simp add: word_less_nat_alt)
  then have "Suc (unat i) * nprod cs \<le> unat c * nprod cs" by (rule mult_le_mono1)
  then show ?case using Cons(3) by simp
qed simp

lemma nprod_bound: "layout_ok sz cs ss \<Longrightarrow> nprod cs * sz \<le> nspan sz cs ss"
proof (induction sz cs ss rule: layout_ok.induct)
  case (1 sz c cs s ss)
  then have c: "0 < unat c" and s: "nspan sz cs ss \<le> unat s" and ih: "nprod cs * sz \<le> nspan sz cs ss"
    by (simp_all add: unat_gt_0)
  have "unat c * nprod cs * sz \<le> unat c * nspan sz cs ss" using ih by (simp add: mult.assoc)
  also have "\<dots> = (unat c - 1) * nspan sz cs ss + nspan sz cs ss" using c by (cases "unat c") simp_all
  also have "\<dots> \<le> (unat c - 1) * unat s + nspan sz cs ss" using s by simp
  finally show ?case by simp
qed auto

lemma word_divmod:
  fixes s i :: u64
  assumes "y < unat s" "unat i * unat s + y < 2 ^ 64"
  shows "of_nat (unat i * unat s + y) div s = i" "of_nat (unat i * unat s + y) mod s = of_nat y" "s \<noteq> 0"
proof -
  let ?x = "of_nat (unat i * unat s + y) :: u64"
  have x: "unat ?x = unat i * unat s + y" using assms(2) by (simp only: unat_of_nat) simp
  show "s \<noteq> 0" using assms(1) by auto
  have "unat (?x div s) = unat i" unfolding unat_div x using assms(1) by simp
  then show "?x div s = i" by (simp only: word_unat_eq_iff)
  have "unat (?x mod s) = y" unfolding unat_mod x using assms(1) by simp
  moreover have "unat (of_nat y :: u64) = y" using assms(2) by (simp add: unat_of_nat)
  ultimately show "?x mod s = of_nat y" by (simp only: word_unat_eq_iff)
qed

lemma row_major_div_Cons: "row_major_div (c # cs) = of_nat (nprod cs) # row_major_div cs"
  by (induction cs arbitrary: c) (simp_all add: Let_def mult.commute)

section \<open>Conversions\<close>

lemma offset_step:
  assumes "layout_ok sz (c # cs) (s # ss)" "list_all2 (<) (i # is) (c # cs)" "r < sz"
    and "nspan sz (c # cs) (s # ss) < 2 ^ 64"
  shows "(of_nat (noff (i # is) (s # ss) + r) :: u64) div s = i"
    "(of_nat (noff (i # is) (s # ss) + r) :: u64) mod s = of_nat (noff is ss + r)"
    "s \<noteq> 0" "i < c" "\<not> c \<le> i"
proof -
  have l: "length cs = length ss" "nspan sz cs ss \<le> unat s" using assms(1) by (auto simp: layout_ok_length)
  have "noff is ss + r < unat s" using noff_bound[OF _ l(1), of "is" sz] assms(2,3) l(2) by simp
  moreover have "noff (i # is) (s # ss) + r < 2 ^ 64"
    using noff_bound[OF assms(2), of "s # ss" sz] l(1) assms(3,4) by simp
  ultimately show "(of_nat (noff (i # is) (s # ss) + r) :: u64) div s = i"
    "(of_nat (noff (i # is) (s # ss) + r) :: u64) mod s = of_nat (noff is ss + r)" "s \<noteq> 0"
    using word_divmod[of "noff is ss + r" s i] by (simp_all add: add.assoc)
  show "i < c" "\<not> c \<le> i" using assms(2) by auto
qed

lemma split_offset_ok:
  "layout_ok sz cs ss \<Longrightarrow> list_all2 (<) is cs \<Longrightarrow> r < sz \<Longrightarrow> nspan sz cs ss < 2 ^ 64 \<Longrightarrow>
   split_offset ss cs (of_nat (noff is ss + r)) = Inr (is, True, of_nat r)"
proof (induction sz cs ss arbitrary: "is" rule: layout_ok.induct)
  case (1 sz c cs s ss)
  then obtain i is' where i: "is = i # is'" by (cases "is") auto
  note st = offset_step[OF 1(2) 1(3)[unfolded i] 1(4,5)]
  have "split_offset ss cs (of_nat (noff is' ss + r)) = Inr (is', True, of_nat r)"
    using 1 i by simp
  then show ?case by (simp only: i split_offset.simps st if_False if_True bind_res_simps prod.case) simp
qed auto

lemma element_loop_ok:
  "layout_ok sz cs ss \<Longrightarrow> list_all2 (<) is cs \<Longrightarrow> r < sz \<Longrightarrow> nspan sz cs ss < 2 ^ 64 \<Longrightarrow>
   element_loop sz ss cs (of_nat (noff is ss + r)) = Inr True"
proof (induction sz cs ss arbitrary: "is" rule: layout_ok.induct)
  case (1 sz c cs s ss)
  then obtain i is' where i: "is = i # is'" by (cases "is") auto
  note st = offset_step[OF 1(2) 1(3)[unfolded i] 1(4,5)]
  have "element_loop sz ss cs (of_nat (noff is' ss + r)) = Inr True" using 1 i by simp
  then show ?case by (simp only: i element_loop.simps st if_False)
qed (auto simp: word_less_nat_alt unat_of_nat)

lemma try_flat_loop_ok:
  "layout_ok sz cs ss \<Longrightarrow> list_all2 (<) is cs \<Longrightarrow> r < sz \<Longrightarrow> nspan sz cs ss < 2 ^ 64 \<Longrightarrow>
   try_flat_loop sz ss cs (row_major_div cs) (of_nat (noff is ss + r)) f = Inr (Some (f + of_nat (nflat is cs)))"
proof (induction sz cs ss arbitrary: "is" f rule: layout_ok.induct)
  case (1 sz c cs s ss)
  then obtain i is' where i: "is = i # is'" by (cases "is") auto
  note st = offset_step[OF 1(2) 1(3)[unfolded i] 1(4,5)]
  have "try_flat_loop sz ss cs (row_major_div cs) (of_nat (noff is' ss + r)) (f + i * of_nat (nprod cs))
      = Inr (Some (f + i * of_nat (nprod cs) + of_nat (nflat is' cs)))" using 1 i by simp
  then show ?case by (simp only: i try_flat_loop.simps row_major_div_Cons st if_False) (simp add: add.assoc)
qed (auto simp: word_less_nat_alt unat_of_nat)

lemma dot_flat: "list_all2 (<) is cs \<Longrightarrow> dot is (row_major_div cs) = of_nat (nflat is cs)"
  by (induction "is" cs rule: list_all2_induct) (simp_all add: row_major_div_Cons)

lemma flat_loop_ok: "list_all2 (<) is cs \<Longrightarrow> flat_loop is cs (row_major_div cs) f = Inr (f + of_nat (nflat is cs))"
  by (induction "is" cs arbitrary: f rule: list_all2_induct) (simp_all add: row_major_div_Cons leD add.assoc)

lemma offset_loop_ok:
  "list_all2 (<) is cs \<Longrightarrow> length cs = length ss \<Longrightarrow> offset_loop is cs ss f = Inr (f + of_nat (noff is ss))"
proof (induction "is" cs arbitrary: f ss rule: list_all2_induct)
  case (Cons i "is" c cs)
  then show ?case by (cases ss) (auto simp: add.assoc)
qed simp

lemma unravel_ok:
  "list_all2 (<) is cs \<Longrightarrow> length cs = length ss \<Longrightarrow> nprod cs < 2 ^ 64 \<Longrightarrow> 0 \<notin> set cs \<Longrightarrow>
   unravel (row_major_div cs) ss (of_nat (nflat is cs)) f = Inr (f + of_nat (noff is ss))"
proof (induction "is" cs arbitrary: f ss rule: list_all2_induct)
  case (Cons i "is" c cs)
  then obtain s ss' where ss: "ss = s # ss'" by (cases ss) auto
  have c: "0 < unat c" using Cons(6) by (simp add: unat_gt_0)
  have p: "nprod cs < 2 ^ 64" using Cons(5) c by (cases "unat c") auto
  have u: "unat (of_nat (nprod cs) :: u64) = nprod cs" using p by (simp add: unat_of_nat)
  have "nflat (i # is) (c # cs) < nprod (c # cs)" using Cons(1,2) by (intro nflat_bound) simp
  then have l: "unat i * nprod cs + nflat is cs < 2 ^ 64" using Cons(5) by simp
  note dm = word_divmod[of "nflat is cs" "of_nat (nprod cs)" i, unfolded u, OF nflat_bound[OF Cons(2)] l]
  have "unravel (row_major_div cs) ss' (of_nat (nflat is cs)) (f + i * s) = Inr (f + i * s + of_nat (noff is ss'))"
    using Cons(3)[of ss' "f + i * s"] Cons(4,6) ss p by simp
  then show ?case
    by (simp only: ss row_major_div_Cons nflat.simps unravel.simps dm if_False) (simp add: add.assoc)
qed simp

lemma flat_surj: "n < nprod cs \<Longrightarrow> \<exists>is. list_all2 (<) is cs \<and> nflat is cs = n"
proof (induction cs arbitrary: n)
  case (Cons c cs)
  then have p: "0 < nprod cs" by (cases "nprod cs") auto
  obtain "is" where i: "list_all2 (<) is cs" "nflat is cs = n mod nprod cs"
    using Cons.IH[of "n mod nprod cs"] p by auto
  have d: "n div nprod cs < unat c" using Cons.prems p by (simp add: div_less_iff_less_mult)
  then have u: "unat (of_nat (n div nprod cs) :: u64) = n div nprod cs"
    using u64_less[of c] by (simp add: unat_of_nat)
  then have "list_all2 (<) (of_nat (n div nprod cs) # is) (c # cs) \<and> nflat (of_nat (n div nprod cs) # is) (c # cs) = n"
    using i d by (simp add: word_less_nat_alt)
  then show ?case by blast
qed simp

lemma total_count: "foldl (*) a cs = a * of_nat (nprod cs)"
  by (induction cs arbitrary: a) (simp_all add: mult.assoc)

lemma span_loop_ok:
  "length cs = length ss \<Longrightarrow> 0 \<notin> set cs \<Longrightarrow> span_loop cs ss f = Some (f + of_nat (nspan 0 cs ss))"
proof (induction cs ss arbitrary: f rule: list_induct2)
  case (Cons c cs s ss)
  have "of_nat (unat c - 1) = c - 1" using Cons(3) by (simp add: of_nat_diff unat_gt_0 Suc_le_eq)
  then show ?case using Cons by (auto simp: add.assoc)
qed simp

lemma nspan_0: "nspan sz cs ss = nspan 0 cs ss + sz"
  by (induction sz cs ss rule: nspan.induct) auto

lemma inner_span_nat: "length cs = length ss \<Longrightarrow> 0 \<notin> set cs \<Longrightarrow> inner_span cs ss = of_nat (nspan 0 cs ss)"
proof (induction cs ss rule: list_induct2)
  case (Cons c cs s ss)
  have "of_nat (unat c - 1) = c - 1" using Cons(3) by (simp add: of_nat_diff unat_gt_0 Suc_le_eq)
  then show ?case using Cons by auto
qed simp

lemma layout_check_ok:
  "layout_check sz cs ss \<Longrightarrow> length cs = length ss \<Longrightarrow> 0 \<notin> set cs \<Longrightarrow> nspan sz cs ss < 2 ^ 64 \<Longrightarrow> layout_ok sz cs ss"
proof (induction sz cs ss rule: layout_check.induct)
  case (2 sz cs s)
  then show ?case by (cases cs) (auto simp: word_le_nat_alt unat_of_nat)
next
  case (3 sz cs s s' ss)
  then obtain c cs' where c: "cs = c # cs'" by (cases cs) auto
  have n: "nspan sz cs' (s' # ss) < 2 ^ 64" using 3(5) c by simp
  have "inner_span cs' (s' # ss) + of_nat sz = of_nat (nspan sz cs' (s' # ss))"
    using inner_span_nat[of cs' "s' # ss"] nspan_0[of sz cs' "s' # ss"] 3(3,4) c by simp
  then have "nspan sz cs' (s' # ss) \<le> unat s"
    using 3(2) c n by (simp add: word_le_nat_alt unat_of_nat)
  then show ?case using 3 c n by simp
qed auto

lemma bank_newD:
  fixes m :: "'a::len word"
  assumes "bank_new offset counts strides m = Inr b" "nspan (sizeof TYPE('a)) counts strides < 2 ^ 64"
  shows "layout_ok (sizeof TYPE('a)) counts strides" "m_dim_counts b = counts" "m_dim_strides b = strides"
    "m_row_major_div b = row_major_div counts" "m_total_count b = of_nat (nprod counts)"
    "m_total_span b = of_nat (nspan (sizeof TYPE('a)) counts strides)" "0 \<notin> set counts"
    "p_relative_addresses b" "p_offset b = offset" "p_size b = m_total_span b"
    "p_elem_size b = of_nat (sizeof TYPE('a))" "p_stride b = last strides" "p_mask b = m" "counts \<noteq> []"
    "m_element_masks b = []" "p_number b = m_total_count b" "pd_dmi b = None"
proof -
  have l: "length counts = length strides" "0 \<notin> set counts" "layout_check (sizeof TYPE('a)) counts strides" "counts \<noteq> []"
    using assms(1) by (auto simp: bank_new_def bank_init_common_def bank_of_proxy_def gs_reg.defs Let_def split: if_splits)
  then show "layout_ok (sizeof TYPE('a)) counts strides" "0 \<notin> set counts" "counts \<noteq> []"
    using layout_check_ok assms(2) by blast+
  have "compute_total_span (sizeof TYPE('a)) counts strides = of_nat (nspan (sizeof TYPE('a)) counts strides)"
    using l span_loop_ok[OF l(1,2), of 0] nspan_0[of "sizeof TYPE('a)" counts strides]
    by (simp add: compute_total_span_def)
  then show "m_dim_counts b = counts" "m_dim_strides b = strides"
    "m_row_major_div b = row_major_div counts" "m_total_count b = of_nat (nprod counts)"
    "m_total_span b = of_nat (nspan (sizeof TYPE('a)) counts strides)"
    "p_relative_addresses b" "p_offset b = offset" "p_size b = m_total_span b"
    "p_elem_size b = of_nat (sizeof TYPE('a))" "p_stride b = last strides" "p_mask b = m"
    "m_element_masks b = []" "p_number b = m_total_count b" "pd_dmi b = None"
    using assms(1) by (auto simp: bank_new_def bank_init_common_def bank_of_proxy_def gs_reg.defs gs_reg_init_def
        proxy.defs proxy_init_def compute_total_count_def total_count Let_def split: if_splits)
qed



end
