(* ===== verification/RegBind.thy ===== *)
theory RegBind
  imports RegRouter RegBank
begin

text \<open>
  How a register gets to the register router: \<^verbatim>\<open>bind_reg\<close> of
  \<^verbatim>\<open>common/include/reg_model_maker/reg_model_maker.h\<close>. The dimensions of a bank travel through the
  configuration as text.

  Shown: the router reads back the dimensions that were printed, and it claims for a bank exactly
  the addresses at which the bank has an element.
\<close>

section \<open>Dimensions as text\<close>

text \<open>\<^verbatim>\<open>std::to_string\<close>, and the list \<^verbatim>\<open>bind_reg\<close> publishes the dimensions of a bank in.\<close>

fun show_nat :: "nat \<Rightarrow> string" where
  "show_nat n = (if n < 10 then [char_of (48 + n)] else show_nat (n div 10) @ [char_of (48 + n mod 10)])"

declare show_nat.simps [simp del]

fun encode_dims :: "u64 list \<Rightarrow> string" where
  "encode_dims [] = []"
| "encode_dims [v] = show_nat (unat v)"
| "encode_dims (v # w # vs) = show_nat (unat v) @ CHR '','' # encode_dims (w # vs)"

lemma digit_val_char: "d < 10 \<Longrightarrow> digit_val (char_of (48 + d)) = Some d"
  by (simp add: digit_val_def Let_def)

lemma char_digit:
  assumes "(d :: nat) < 10"
  shows "char_of (48 + d) = CHR ''0'' \<longleftrightarrow> d = 0" "\<not> is_space (char_of (48 + d))"
    "char_of (48 + d) \<notin> {CHR ''-'', CHR ''+'', CHR '','', CHR '' ''}"
  using assms by (auto simp: is_space_def char_of_eq_iff take_bit_eq_mod)

text \<open>The digits of a number, most significant first.\<close>

fun digs :: "nat \<Rightarrow> nat list" where
  "digs n = (if n < 10 then [n] else digs (n div 10) @ [n mod 10])"

declare digs.simps [simp del]

lemma show_nat_digs: "show_nat n = map (\<lambda>d. char_of (48 + d)) (digs n)"
  by (induction n rule: show_nat.induct) (subst show_nat.simps, subst digs.simps, simp)

lemma digs_ok: "digs n \<noteq> [] \<and> (\<forall>d \<in> set (digs n). d < 10) \<and> (hd (digs n) = 0 \<longrightarrow> digs n = [0]) \<and> digits_val 10 (digs n) = n"
proof (induction n rule: digs.induct)
  case (1 n)
  show ?case
  proof (cases "n < 10")
    case True
    then show ?thesis by (subst (1 2 3 4 5) digs.simps) (simp add: digits_val_def)
  next
    case False
    have e: "digs n = digs (n div 10) @ [n mod 10]" using False by (subst digs.simps) simp
    have "n div 10 \<noteq> 0" using False by simp
    moreover have "digits_val 10 [0] = 0" by (simp add: digits_val_def)
    ultimately have "hd (digs (n div 10)) \<noteq> 0" using 1[OF False] by metis
    then show ?thesis using 1[OF False] by (auto simp: e digits_val_def)
  qed
qed

lemma take_digits_map:
  "\<forall>d \<in> set ds. d < base \<and> d < 10 \<Longrightarrow> rest = [] \<or> digit_val (hd rest) = None \<Longrightarrow>
   take_digits base (map (\<lambda>d. char_of (48 + d)) ds @ rest) = ds"
proof (induction ds)
  case Nil
  then show ?case by (cases rest) auto
qed (simp add: digit_val_char)

lemma stoull_plain:
  assumes "t = c # cs" "\<not> is_space c" "c \<notin> {CHR ''-'', CHR ''+''}" "number_base t = (base, 0)"
    and "take_digits base t = ds" "ds \<noteq> []" "digits_val base ds < 2 ^ 64"
  shows "stoull t = Inr (of_nat (digits_val base ds), length ds)"
proof -
  have "takeWhile is_space t = []"
    "(case t of c # _ \<Rightarrow> if c = CHR ''-'' \<or> c = CHR ''+'' then 1 else 0 | [] \<Rightarrow> 0) = (0 :: nat)"
    using assms(1-3) by auto
  then show ?thesis
    using assms(4-) unfolding stoull_def Let_def by (simp only: list.size drop_0 prod.case add_0) simp
qed

lemma stoull_show:
  assumes "rest = [] \<or> hd rest = CHR '',''"
  shows "stoull (show_nat (unat v) @ rest) = Inr (v, length (show_nat (unat v)))"
proof -
  obtain d ds where ds: "digs (unat v) = d # ds" using digs_ok[of "unat v"] by (cases "digs (unat v)") auto
  note ok = digs_ok[of "unat v", unfolded ds]
  have lt: "d < 10" "\<forall>x \<in> set ds. x < 10" using ok by auto
  let ?s = "show_nat (unat v) @ rest"
  have s: "?s = char_of (48 + d) # map (\<lambda>d. char_of (48 + d)) ds @ rest" by (simp add: show_nat_digs ds)
  have nd: "digit_val CHR '','' = None" by code_simp
  define base where "base = (if d = 0 then 8 else 10 :: nat)"
  have nb: "number_base ?s = (base, 0)"
  proof (cases "d = 0")
    case True
    then have "ds = []" using ok by simp
    moreover obtain r where "rest = [] \<or> rest = CHR '','' # r" using assms by (cases rest) auto
    ultimately show ?thesis
      using True char_digit(1)[of 0] by (cases r) (auto simp: show_nat_digs ds base_def)
  next
    case False
    then show ?thesis using char_digit(1)[OF lt(1)] unfolding s base_def
      by (cases "map (\<lambda>d. char_of (48 + d)) ds @ rest" rule: list.exhaust;
          cases "tl (map (\<lambda>d. char_of (48 + d)) ds @ rest)" rule: list.exhaust) (auto simp del: map_append)
  qed
  have "take_digits base ?s = d # ds"
    using take_digits_map[of "d # ds" base rest] ok lt assms nd
    by (auto simp: show_nat_digs ds base_def split: if_splits)
  moreover have "digits_val base (d # ds) = unat v" using ok by (auto simp: base_def digits_val_def)
  ultimately have "stoull ?s = Inr (of_nat (unat v), length (d # ds))"
    using stoull_plain[OF s _ _ nb, of "d # ds"] char_digit(2,3)[OF lt(1)] u64_less[of v] by simp
  then show ?thesis by (simp add: show_nat_digs ds)
qed

lemma show_nat_start:
  "\<exists>c cs. show_nat n = c # cs \<and> c \<noteq> CHR '' '' \<and> c \<noteq> CHR '',''"
proof -
  obtain d ds where "digs n = d # ds" "d < 10" using digs_ok[of n] by (cases "digs n") auto
  then show ?thesis using char_digit(3)[of d] by (simp add: show_nat_digs)
qed

lemma parse_show:
  assumes "rest = [] \<or> hd rest = CHR '',''"
  shows "parse_u64_csv (show_nat (unat v) @ rest) = bind_res (parse_u64_csv rest) (\<lambda>vs. Inr (v # vs))"
proof -
  let ?s = "show_nat (unat v) @ rest"
  obtain c cs where "show_nat (unat v) = c # cs" "c \<noteq> CHR '' ''" "c \<noteq> CHR '',''" using show_nat_start by blast
  then have d: "dropWhile (\<lambda>c. c = CHR '' '' \<or> c = CHR '','') ?s = ?s" "?s \<noteq> []" by simp_all
  show ?thesis
    by (subst parse_u64_csv.simps)
      (simp add: d stoull_show[OF assms] Let_def bind_res_def split: sum.split del: append_is_Nil_conv)
qed

lemma parse_encode: "parse_u64_csv (encode_dims vs) = Inr vs"
proof (induction vs rule: encode_dims.induct)
  case 1
  show ?case by (simp add: parse_u64_csv.simps)
next
  case (2 v)
  have "parse_u64_csv [] = Inr []" by (simp add: parse_u64_csv.simps)
  then show ?case using parse_show[of "[]" v] by simp
next
  case (3 v w vs)
  have "parse_u64_csv (CHR '','' # encode_dims (w # vs)) = parse_u64_csv (encode_dims (w # vs))"
    by (subst (1 2) parse_u64_csv.simps) simp
  then show ?case using parse_show[of "CHR '','' # encode_dims (w # vs)" v] 3 by simp
qed

text \<open>C37. The dimensions of a bank survive the way through the configuration: what the register router
  parses is the list of numbers that \<^verbatim>\<open>bind_reg\<close> printed, for every list of 64-bit numbers.\<close>

theorem dims_roundtrip: "parse_u64_csv (encode_dims vs) = Inr vs"
  by (rule parse_encode)

section \<open>Binding a register\<close>

text \<open>\<^verbatim>\<open>json_module_base::bind_reg\<close>, with what it reads of the module and the JSON archive.\<close>

record json_env =
  je_name :: string
  je_base_address :: u64
  je_parent_address :: u64
  je_platform_model :: bool

definition json_cci_set :: "string \<Rightarrow> cci_value \<Rightarrow> cci_broker \<Rightarrow> cci_broker res" where
  "json_cci_set n v b =
     (if br_param b n \<noteq> None then Inr (b\<lparr>br_param := (br_param b)(n \<mapsto> v)\<rparr>)
      else if \<not> has_preset_value b n then Inr (b\<lparr>br_preset := (br_preset b)(n \<mapsto> v)\<rparr>)
      else Inl Fatal)"

definition json_cci_get :: "cci_broker \<Rightarrow> string \<Rightarrow> u64 res" where
  "json_cci_get b n = (case try_get_u64 (get_preset_cci_value b n) of Some v \<Rightarrow> Inr v | None \<Rightarrow> Inl Fatal)"

text \<open>The part of a register's path between the module and the register.\<close>

definition reg_parent :: "json_env \<Rightarrow> string \<Rightarrow> string \<Rightarrow> string res" where
  "reg_parent env path regname =
     bind_res (substr path (length (sc_cci_leaf_name (je_name env)) + 1) (length path)) (\<lambda>p.
       Inr (if p = regname then []
            else case find_last_of CHR ''.'' p of Some i \<Rightarrow> take i p | None \<Rightarrow> p))"

definition under :: "json_env \<Rightarrow> string \<Rightarrow> string" where
  "under env parent = je_name env @ ''.'' @ (if parent = [] then [] else parent @ ''.'')"

text \<open>The register router is bound to the socket of the register and told its configuration name.
  \<open>dims\<close> are the strides and counts of a bank.\<close>

definition bind_reg :: "json_env \<Rightarrow> string \<Rightarrow> string \<Rightarrow> string \<Rightarrow> (u64 list \<times> u64 list) option \<Rightarrow> u32 \<Rightarrow>
    ('m, 'b) proxy_scheme \<Rightarrow> cci_broker \<Rightarrow> reg_router \<Rightarrow> (('m, 'b) proxy_scheme \<times> cci_broker \<times> reg_router) res" where
  "bind_reg env path regname socket_name dims priority p b r =
     bind_res (reg_parent env path regname) (\<lambda>parent.
       let nm = under env parent @ regname @ ''.target_socket''
       in bind_res (json_cci_get b (under env parent @ ''target_socket.address'')) (\<lambda>mod_addr.
          let offset = p_offset p + (mod_addr - je_base_address env)
                + (if je_platform_model env then je_parent_address env else 0)
          in bind_res (json_cci_set (nm @ ''.address'') (Cci_num (unat offset)) b) (\<lambda>b1.
             bind_res (case dims of
                 None \<Rightarrow> Inr b1
               | Some (strides, counts) \<Rightarrow>
                   bind_res (json_cci_set (nm @ ''.dim_strides'') (Cci_string (encode_dims strides)) b1)
                     (json_cci_set (nm @ ''.dim_counts'') (Cci_string (encode_dims counts)))) (\<lambda>b2.
             bind_res (if priority \<noteq> 0 then json_cci_set (nm @ ''.priority'') (Cci_num (unat priority)) b2 else Inr b2) (\<lambda>b3.
             bind_res (rename_last nm (rr_register_boundto socket_name r)) (\<lambda>r1.
               Inr (if br_param b (nm @ ''.address'') \<noteq> None then p\<lparr>p_offset := offset\<rparr> else p, b3, r1)))))))"

text \<open>The parameters the constructor of a register publishes under its name.\<close>

definition published :: "string \<Rightarrow> ('m, 'b) proxy_scheme \<Rightarrow> cci_broker \<Rightarrow> bool" where
  "published nm p b \<longleftrightarrow> br_param b (nm @ ''.address'') = Some (Cci_num (unat (p_offset p)))
     \<and> br_param b (nm @ ''.size'') = Some (Cci_num (unat (p_size p)))
     \<and> br_param b (nm @ ''.stride'') = Some (Cci_num (unat (p_stride p)))
     \<and> br_param b (nm @ ''.elem_size'') = Some (Cci_num (unat (p_elem_size p)))
     \<and> br_param b (nm @ ''.relative_addresses'') = Some (Cci_bool (p_relative_addresses p))
     \<and> br_param b (nm @ ''.is_callback'') = Some (Cci_bool True)"

subsection \<open>The router and the bank agree on the elements\<close>

lemma claims_dims_element_loop:
  "length ss = length cs \<Longrightarrow> claims_dims ss cs r (of_nat sz) = element_loop sz ss cs r"
  by (induction ss cs arbitrary: r rule: list_induct2) simp_all

lemma element_loop_total:
  "layout_ok sz cs ss \<Longrightarrow> 0 < sz \<Longrightarrow> \<exists>c. element_loop sz ss cs r = Inr c"
proof (induction sz cs ss arbitrary: r rule: layout_ok.induct)
  case (1 sz c cs s ss)
  then have "s \<noteq> 0" using nspan_ge[of sz cs ss] by auto
  then show ?case using 1 by auto
qed auto

lemma element_bound:
  "layout_ok sz cs ss \<Longrightarrow> 0 < sz \<Longrightarrow> sz < 2 ^ 64 \<Longrightarrow> element_loop sz ss cs r = Inr True \<Longrightarrow> unat r < nspan sz cs ss"
proof (induction sz cs ss arbitrary: r rule: layout_ok.induct)
  case (1 sz c cs s ss)
  then have s: "s \<noteq> 0" using nspan_ge[of sz cs ss] by auto
  then have d: "r div s < c" "unat (r mod s) < nspan sz cs ss"
    using 1 by (auto split: if_splits)
  then have "unat r div unat s \<le> unat c - 1" by (simp add: word_less_nat_alt unat_div)
  then have "unat r div unat s * unat s \<le> (unat c - 1) * unat s" by (rule mult_le_mono1)
  moreover have "unat r = unat r div unat s * unat s + unat r mod unat s" by simp
  ultimately show ?case using d(2) by (simp only: nspan.simps unat_mod)
qed (auto simp: word_less_nat_alt unat_of_nat)

lemma bank_claims:
  fixes m :: "'a::len word"
  assumes b: "bank_new offset counts strides m = Inr b" "nspan (sizeof TYPE('a)) counts strides < 2 ^ 64"
    and sz: "0 < sizeof TYPE('a)" and t: "ti_address t = base" "ti_size t = p_size b"
    and d: "ti_dim_strides t = strides" "ti_dim_counts t = counts" "ti_elem_size t = p_elem_size b"
  shows "claims t a = (if a < base then Inr False else byte_offset_is_element b (a - base))"
proof -
  note bd = bank_newD[OF b]
  have ne: "strides \<noteq> []" using layout_ok_length[OF bd(1)] bd(14) by auto
  have "\<not> unat (a - base) < nspan (sizeof TYPE('a)) counts strides" if "p_size b \<le> a - base"
    using that b(2) by (simp add: bd word_le_nat_alt unat_of_nat)
  then have "element_loop (sizeof TYPE('a)) strides counts (a - base) = Inr False" if "p_size b \<le> a - base"
    using element_bound[OF bd(1) sz] element_loop_total[OF bd(1) sz, of "a - base"] that b(2)
      nspan_ge[of "sizeof TYPE('a)" counts strides] by (metis (full_types) le_less_trans)
  then show ?thesis
    using t d ne claims_dims_element_loop[of strides counts "a - base" "sizeof TYPE('a)"] layout_ok_length[OF bd(1)]
    by (auto simp: claims_def byte_offset_is_element_def bd)
qed

lemma encode_dims_empty: "encode_dims vs = [] \<longleftrightarrow> vs = []"
proof -
  have "show_nat n \<noteq> []" for n using show_nat_start[of n] by auto
  then show ?thesis by (cases vs rule: encode_dims.cases) auto
qed

lemma try_get_u64_unat [simp]: "try_get_u64 (Cci_num (unat v)) = Some v"
  using u64_less[of v] by simp

lemma json_cci_set_get:
  "json_cci_set n v b = Inr b' \<Longrightarrow> cci_get b' k = (if k = n then v else cci_get b k)"
  by (auto simp: json_cci_set_def cci_get_def get_preset_cci_value_def split: if_splits option.split)

lemma bind_bank_config:
  assumes "bind_reg env path regname sock (Some (ss, cs)) priority p br r = Inr (p', br', r')"
    and "reg_parent env path regname = Inr parent" "nm = under env parent @ regname @ ''.target_socket''"
    and "br_param br (nm @ ''.address'') \<noteq> None"
  shows "cci_get br' (nm @ ''.address'') = Cci_num (unat (p_offset p'))"
    "cci_get br' (nm @ ''.dim_strides'') = Cci_string (encode_dims ss)"
    "cci_get br' (nm @ ''.dim_counts'') = Cci_string (encode_dims cs)"
    "k \<notin> {nm @ ''.address'', nm @ ''.dim_strides'', nm @ ''.dim_counts'', nm @ ''.priority''} \<Longrightarrow>
       cci_get br' k = cci_get br k"
    "p' = p\<lparr>p_offset := p_offset p'\<rparr>"
    "last (rr_bound r') = target_init\<lparr>ti_name := nm, ti_index := length (rr_bound r),
       ti_shortname := drop (common_prefix sock (rr_name r)) sock\<rparr>"
proof -
  obtain o1 b1 b2 b3 where c: "json_cci_set (nm @ ''.address'') (Cci_num (unat o1)) br = Inr b1"
    "json_cci_set (nm @ ''.dim_strides'') (Cci_string (encode_dims ss)) b1 = Inr b2"
    "json_cci_set (nm @ ''.dim_counts'') (Cci_string (encode_dims cs)) b2 = Inr b3"
    "(if priority \<noteq> 0 then json_cci_set (nm @ ''.priority'') (Cci_num (unat priority)) b3 else Inr b3) = Inr br'"
    "p' = p\<lparr>p_offset := o1\<rparr>" "rename_last nm (rr_register_boundto sock r) = Inr r'"
    using assms by (auto simp: bind_reg_def Let_def)
  have "cci_get br' k = (if k = nm @ ''.priority'' \<and> priority \<noteq> 0 then Cci_num (unat priority) else cci_get b3 k)" for k
    using c(4) json_cci_set_get by (auto split: if_splits)
  then have g: "cci_get br' k = (if k = nm @ ''.priority'' \<and> priority \<noteq> 0 then Cci_num (unat priority)
      else if k = nm @ ''.dim_counts'' then Cci_string (encode_dims cs)
      else if k = nm @ ''.dim_strides'' then Cci_string (encode_dims ss)
      else if k = nm @ ''.address'' then Cci_num (unat o1) else cci_get br k)" for k
    by (simp only: json_cci_set_get[OF c(1)] json_cci_set_get[OF c(2)] json_cci_set_get[OF c(3)])
  show "cci_get br' (nm @ ''.address'') = Cci_num (unat (p_offset p'))"
    "cci_get br' (nm @ ''.dim_strides'') = Cci_string (encode_dims ss)"
    "cci_get br' (nm @ ''.dim_counts'') = Cci_string (encode_dims cs)"
    "k \<notin> {nm @ ''.address'', nm @ ''.dim_strides'', nm @ ''.dim_counts'', nm @ ''.priority''} \<Longrightarrow>
       cci_get br' k = cci_get br k"
    "p' = p\<lparr>p_offset := p_offset p'\<rparr>" by (simp_all add: g c(5))
  show "last (rr_bound r') = target_init\<lparr>ti_name := nm, ti_index := length (rr_bound r),
       ti_shortname := drop (common_prefix sock (rr_name r)) sock\<rparr>"
    using c(6) by (auto simp: rename_last_def rr_register_boundto_def)
qed

text \<open>C38. A register bank bound to the register router is claimed exactly at its elements: the record
  the router reads from the configuration has the bank's address, and an address belongs to the
  target if and only if the bank itself finds an element at that offset. Gaps between elements are
  left to other targets.\<close>

theorem bank_bound_claims:
  fixes m :: "'a::len word"
  assumes b: "bank_new offset counts strides m = Inr b" "nspan (sizeof TYPE('a)) counts strides < 2 ^ 64"
    and sz: "0 < sizeof TYPE('a)"
    and nm: "reg_parent env path regname = Inr parent" "nm = under env parent @ regname @ ''.target_socket''"
    and pub: "published nm b br"
    and bind: "bind_reg env path regname sock (Some (m_dim_strides b, m_dim_counts b)) priority b br r = Inr (b', br', r')"
  shows "\<exists>ti. rr_configure_target br' (last (rr_bound r')) = Inr ti \<and> ti_index ti = length (rr_bound r)
      \<and> ti_is_callback ti \<and> ti_address ti = p_offset b'
      \<and> (\<forall>a. claims ti a = (if a < p_offset b' then Inr False else byte_offset_is_element b' (a - p_offset b')))"
proof -
  note bd = bank_newD[OF b]
  have ne: "strides \<noteq> []" "counts \<noteq> []" "length strides = length counts"
    using layout_ok_length[OF bd(1)] bd(14) by auto
  define t where "t = last (rr_bound r')"
  have "br_param br (nm @ ''.address'') \<noteq> None" using pub by (simp add: published_def)
  note bc = bind_bank_config[OF bind nm this]
  have par: "cci_get br' (nm @ ''.size'') = Cci_num (unat (p_size b))"
    "cci_get br' (nm @ ''.elem_size'') = Cci_num (unat (p_elem_size b))"
    "cci_get br' (nm @ ''.is_callback'') = Cci_bool True"
    using pub bc(4)[of "nm @ ''.size''"] bc(4)[of "nm @ ''.elem_size''"] bc(4)[of "nm @ ''.is_callback''"]
    unfolding published_def by (simp_all add: cci_get_def[of br])
  obtain ti where ti: "rr_configure_target br' t = Inr ti"
    "ti_address ti = p_offset b'" "ti_size ti = p_size b" "ti_is_callback ti" "ti_index ti = length (rr_bound r)"
    "ti_dim_strides ti = strides" "ti_dim_counts ti = counts" "ti_elem_size ti = p_elem_size b"
    using par bc(1,2,3,6) ne unfolding t_def[symmetric]
    by (auto simp: rr_configure_target_def cci_get_T_def cci_get_d_def encode_dims_empty parse_encode bd Let_def
        simp del: try_get_u64.simps)
  have "byte_offset_is_element b' = byte_offset_is_element b"
    by (subst bc(5)) (simp add: byte_offset_is_element_def fun_eq_iff)
  then show ?thesis using ti bank_claims[OF b sz ti(2,3,6,7,8)] by (auto simp: t_def)
qed

text \<open>A bank of two by three registers in a module that sits at its parent's address.\<close>

definition example_json_env :: json_env where
  "example_json_env = \<lparr>je_name = ''p'', je_base_address = 0, je_parent_address = 0, je_platform_model = False\<rparr>"

definition example_bind_broker :: cci_broker where
  "example_bind_broker =
     \<lparr>br_param = map_of [(''p.r.target_socket.address'', Cci_num 0x100), (''p.r.target_socket.size'', Cci_num 0x34),
        (''p.r.target_socket.stride'', Cci_num 8), (''p.r.target_socket.elem_size'', Cci_num 4),
        (''p.r.target_socket.relative_addresses'', Cci_bool True), (''p.r.target_socket.is_callback'', Cci_bool True)],
      br_preset = map_of [(''p.target_socket.address'', Cci_num 0x1000)], br_unconsumed = []\<rparr>"

theorem bank_bound_claims_witness:
  "\<exists>(b :: u32 gs_bank) b' br' r' ti. bank_new 0x100 [2, 3] [0x20, 8] (- 1) = Inr b
    \<and> bind_reg example_json_env ''p.r'' ''r'' ''s'' (Some ([0x20, 8], [2, 3])) 0 b example_bind_broker
        (reg_router_init ''rr'' []) = Inr (b', br', r')
    \<and> rr_configure_target br' (last (rr_bound r')) = Inr ti
    \<and> claims ti 0x1128 = Inr True \<and> claims ti 0x1124 = Inr False"
proof -
  let ?nm = "''p.r.target_socket''"
  obtain b :: "u32 gs_bank" where b: "bank_new 0x100 [2, 3] [0x20, 8] (- 1) = Inr b"
    by (auto simp: bank_new_def bank_init_common_def bank_of_proxy_def gs_reg.defs sizeof_def Let_def)
  have sp: "nspan (sizeof TYPE(32)) [2, 3] [0x20, 8 :: u64] < 2 ^ 64" "0 < sizeof TYPE(32)" by (simp_all add: sizeof_def)
  note bd = bank_newD[OF b sp(1)]
  have par: "reg_parent example_json_env ''p.r'' ''r'' = Inr []"
    by (simp add: reg_parent_def example_json_env_def substr_def sc_cci_leaf_name_def bind_res_def)
  have nm: "?nm = under example_json_env [] @ ''r'' @ ''.target_socket''"
    by (simp add: under_def example_json_env_def)
  have pub: "published ?nm b example_bind_broker"
    by (simp add: published_def example_bind_broker_def bd sizeof_def)
  have env: "under example_json_env [] = ''p.''" "je_base_address example_json_env = 0" "\<not> je_platform_model example_json_env"
    by (simp_all add: under_def example_json_env_def)
  obtain b' br' r' where bind: "bind_reg example_json_env ''p.r'' ''r'' ''s'' (Some (m_dim_strides b, m_dim_counts b)) 0 b
      example_bind_broker (reg_router_init ''rr'' []) = Inr (b', br', r')"
    and b': "b' = b\<lparr>p_offset := 0x1100\<rparr>"
    by (auto simp: bind_reg_def par env bd json_cci_get_def example_bind_broker_def
        json_cci_set_def has_preset_value_def get_preset_cci_value_def rename_last_def rr_register_boundto_def
        reg_router_init_def Let_def)
  from bank_bound_claims[OF b sp par nm pub bind] obtain ti where ti: "rr_configure_target br' (last (rr_bound r')) = Inr ti"
    "\<And>a. claims ti a = (if a < p_offset b' then Inr False else byte_offset_is_element b' (a - p_offset b'))" by blast
  have "byte_offset_is_element b' 0x28 = Inr True" "byte_offset_is_element b' 0x24 = Inr False"
    by (simp_all add: b' byte_offset_is_element_def bd sizeof_def word_le_nat_alt)
  then have "claims ti 0x1128 = Inr True" "claims ti 0x1124 = Inr False" by (simp_all add: ti(2) b')
  then show ?thesis using b bind ti(1) by (auto simp: bd)
qed

end
