(* ===== verification/RegStore.thy ===== *)
theory RegStore
  imports Registers
begin

text \<open>
  What a register needs from the memory that holds its value, as a contract (\<open>reg_store\<close>), and what
  the accesses of \<open>Registers\<close> do over any memory that keeps it. The memory is seen as a function
  from byte addresses to bytes; an access through the socket, element by element or in one
  transaction, and an access through the pointer all have the same effect on it. The contract is
  met by the memory of the program in \<open>RegMemory\<close>.
\<close>

section \<open>Byte stores\<close>

definition bytes_at :: "(nat \<Rightarrow> u8) \<Rightarrow> nat \<Rightarrow> nat \<Rightarrow> u8 list" where
  "bytes_at f a n = map f [a..<a + n]"

definition put_bytes :: "nat \<Rightarrow> u8 list \<Rightarrow> (nat \<Rightarrow> u8) \<Rightarrow> nat \<Rightarrow> u8" where
  "put_bytes a bs f = (\<lambda>x. if a \<le> x \<and> x < a + length bs then bs ! (x - a) else f x)"

lemma length_bytes_at [simp]: "length (bytes_at f a n) = n"
  by (simp add: bytes_at_def)

lemma put_bytes_Nil [simp]: "put_bytes a [] f = f"
  by (rule ext) (auto simp: put_bytes_def)

lemma bytes_at_put [simp]: "bytes_at (put_bytes a bs f) a (length bs) = bs"
  by (rule nth_equalityI) (simp_all add: bytes_at_def put_bytes_def)

lemma bytes_at_put_other:
  "b + n \<le> a \<or> a + length bs \<le> b \<Longrightarrow> bytes_at (put_bytes a bs f) b n = bytes_at f b n"
  by (auto simp: bytes_at_def put_bytes_def)

lemma put_bytes_append: "put_bytes a (xs @ ys) f = put_bytes (a + length xs) ys (put_bytes a xs f)"
  by (auto simp: put_bytes_def fun_eq_iff nth_append)

lemma bytes_at_add: "bytes_at f a (m + n) = bytes_at f a m @ bytes_at f (a + m) n"
  using upt_add_eq_append[of a "a + m" n] by (simp add: bytes_at_def add.assoc)

lemma take_bytes_at: "take m (bytes_at f a n) = bytes_at f a (min m n)"
  by (rule nth_equalityI) (simp_all add: bytes_at_def)

lemma drop_bytes_at: "drop m (bytes_at f a n) = bytes_at f (a + m) (n - m)"
  by (rule nth_equalityI) (simp_all add: bytes_at_def add.assoc)

section \<open>Elements in a store\<close>

text \<open>Where element \<open>i\<close> of a register is, its value, and storing consecutive elements.\<close>

definition elem_addr :: "('m, 'b) proxy_scheme \<Rightarrow> nat \<Rightarrow> nat" where
  "elem_addr p i = unat (p_offset p) + unat (p_stride p) * i"

definition elem_val :: "('a::len word, 'b) proxy_scheme \<Rightarrow> (nat \<Rightarrow> u8) \<Rightarrow> nat \<Rightarrow> 'a word" where
  "elem_val p f i = of_bytes (bytes_at f (elem_addr p i) (sizeof TYPE('a)))"

abbreviation elem_vals :: "('a::len word, 'b) proxy_scheme \<Rightarrow> (nat \<Rightarrow> u8) \<Rightarrow> nat \<Rightarrow> nat \<Rightarrow> 'a word list" where
  "elem_vals p f i n \<equiv> map (elem_val p f) [i..<i + n]"

fun put_elems :: "('a::len word, 'b) proxy_scheme \<Rightarrow> nat \<Rightarrow> 'a word list \<Rightarrow> (nat \<Rightarrow> u8) \<Rightarrow> nat \<Rightarrow> u8" where
  "put_elems p i [] f = f"
| "put_elems p i (w # ws) f = put_elems p (Suc i) ws (put_bytes (elem_addr p i) (to_bytes w) f)"

text \<open>A register that lies inside a store of the given size, with a pointer into it or none. One
  byte must follow the register: the assertion in \<^verbatim>\<open>check_dmi\<close> fails otherwise.\<close>

definition reg_ok :: "nat \<Rightarrow> u64 \<Rightarrow> ('a::len word, 'b) proxy_scheme \<Rightarrow> bool" where
  "reg_ok n base p \<longleftrightarrow> 8 dvd LENGTH('a) \<and> sizeof TYPE('a) \<le> unat (p_stride p) \<and> p_number p \<noteq> 0
     \<and> unat (p_stride p) * (unat (p_number p) - 1) + sizeof TYPE('a) = unat (p_size p)
     \<and> unat (p_size p) < 2 ^ 32 \<and> unat (p_offset p) + unat (p_size p) < n
     \<and> pd_dmi p \<in> {None, Some (base + p_offset p)}"

definition same_reg :: "('m, 'b) proxy_scheme \<Rightarrow> ('m, 'b) proxy_scheme \<Rightarrow> bool" where
  "same_reg p p' \<longleftrightarrow> (\<exists>q. p' = p\<lparr>pd_dmi := q\<rparr>)"

lemma same_reg_refl [simp]: "same_reg p p"
  unfolding same_reg_def by (rule exI[of _ "pd_dmi p"]) simp

lemma same_reg_update [simp]: "same_reg p (p\<lparr>pd_dmi := q\<rparr>)"
  by (auto simp: same_reg_def)

lemma same_reg_trans [trans]: "same_reg p q \<Longrightarrow> same_reg q r \<Longrightarrow> same_reg p r"
  by (auto simp: same_reg_def)

lemma same_regD:
  assumes "same_reg p p'"
  shows "p_number p' = p_number p" "p_offset p' = p_offset p" "p_size p' = p_size p"
    "p_stride p' = p_stride p" "p_mask p' = p_mask p" "p_relative_addresses p' = p_relative_addresses p"
    "elem_addr p' = elem_addr p"
  using assms by (auto simp: same_reg_def elem_addr_def fun_eq_iff)

lemma same_reg_vals:
  fixes p :: "('a::len word, 'b) proxy_scheme"
  assumes "same_reg p p'"
  shows "elem_val p' = elem_val p" "put_elems p' i ws f = put_elems p i ws f"
proof -
  show "elem_val p' = elem_val p" by (intro ext) (simp add: elem_val_def same_regD[OF assms])
  show "put_elems p' i ws f = put_elems p i ws f"
    by (induction ws arbitrary: i f) (simp_all add: same_regD[OF assms])
qed

subsection \<open>Addresses of elements\<close>

lemma elem_addr_mono: "i \<le> j \<Longrightarrow> elem_addr p i \<le> elem_addr p j"
  by (simp add: elem_addr_def)

lemma elem_addr_gap: "reg_ok n base (p :: ('a::len word, 'b) proxy_scheme) \<Longrightarrow> i < j \<Longrightarrow>
    elem_addr p i + sizeof TYPE('a) \<le> elem_addr p j"
proof -
  assume "reg_ok n base p" "i < j"
  then have "unat (p_stride p) * i + sizeof TYPE('a) \<le> unat (p_stride p) * Suc i"
    "unat (p_stride p) * Suc i \<le> unat (p_stride p) * j"
    by (simp add: reg_ok_def) (rule mult_le_mono2, simp add: \<open>i < j\<close> Suc_le_eq)
  then show ?thesis by (simp add: elem_addr_def)
qed

lemma elem_addr_in:
  fixes p :: "('a::len word, 'b) proxy_scheme"
  assumes "reg_ok n base p" "i < unat (p_number p)"
  shows "elem_addr p i + sizeof TYPE('a) \<le> unat (p_offset p) + unat (p_size p)"
    "elem_addr p i + sizeof TYPE('a) \<le> n"
proof -
  have "unat (p_stride p) * i \<le> unat (p_stride p) * (unat (p_number p) - 1)"
    using assms(2) by (intro mult_le_mono2) simp
  then show "elem_addr p i + sizeof TYPE('a) \<le> unat (p_offset p) + unat (p_size p)"
    using assms(1) unfolding elem_addr_def reg_ok_def by linarith
  then show "elem_addr p i + sizeof TYPE('a) \<le> n" using assms(1) by (simp add: reg_ok_def)
qed

lemma elem_word_addr:
  fixes p :: "('a::len word, 'b) proxy_scheme"
  assumes "reg_ok n base p" "n \<le> 2 ^ 64" "unat idx < unat (p_number p)"
  shows "p_offset p + p_stride p * idx = of_nat (elem_addr p (unat idx))"
    "unat (p_offset p + p_stride p * idx) = elem_addr p (unat idx)"
proof -
  show e: "p_offset p + p_stride p * idx = of_nat (elem_addr p (unat idx))"
    by (simp add: elem_addr_def)
  have "elem_addr p (unat idx) < 2 ^ 64"
    using elem_addr_in(1)[OF assms(1,3)] assms(1,2) by (simp add: reg_ok_def)
  then show "unat (p_offset p + p_stride p * idx) = elem_addr p (unat idx)"
    unfolding e by (simp add: unat_of_nat)
qed

lemma elem_val_put_other:
  fixes p :: "('a::len word, 'b) proxy_scheme"
  assumes "reg_ok n base p" "i < j"
  shows "elem_val p (put_bytes (elem_addr p i) (to_bytes (w :: 'a word)) f) j = elem_val p f j"
  using elem_addr_gap[OF assms] by (simp add: elem_val_def bytes_at_put_other)

text \<open>Elements without gaps are one range of bytes.\<close>

lemma dense_elem_addr:
  fixes p :: "('a::len word, 'b) proxy_scheme"
  assumes "p_stride p = of_nat (sizeof TYPE('a))" "sizeof TYPE('a) < 2 ^ 64"
  shows "elem_addr p (Suc i) = elem_addr p i + sizeof TYPE('a)"
  using assms by (simp add: elem_addr_def unat_of_nat)

lemma dense_elem_vals:
  fixes p :: "('a::len word, 'b) proxy_scheme"
  assumes "p_stride p = of_nat (sizeof TYPE('a))" "sizeof TYPE('a) < 2 ^ 64"
  shows "words_of n (bytes_at f (elem_addr p i) (n * sizeof TYPE('a))) = elem_vals p f i n"
proof (induction n arbitrary: i)
  case (Suc n)
  have "words_of n (bytes_at f (elem_addr p i + sizeof TYPE('a)) (n * sizeof TYPE('a))) = elem_vals p f (Suc i) n"
    using Suc[of "Suc i"] by (simp only: dense_elem_addr[OF assms])
  then show ?case
    by (simp add: words_of_Suc take_bytes_at drop_bytes_at elem_val_def upt_conv_Cons del: upt_Suc)
qed simp

lemma dense_put_elems:
  fixes p :: "('a::len word, 'b) proxy_scheme"
  assumes "p_stride p = of_nat (sizeof TYPE('a))" "sizeof TYPE('a) < 2 ^ 64"
  shows "put_bytes (elem_addr p i) (bytes_of ws) f = put_elems p i ws f"
  by (induction ws arbitrary: i f) (simp_all add: put_bytes_append flip: dense_elem_addr[OF assms])

section \<open>The contract of a store\<close>

text \<open>
  What a register relies on: a memory of \<open>bytes\<close> bytes that answers reads and writes inside it, and
  that grants, if it grants direct access, one window over all its bytes. \<open>view\<close> is what it holds
  and \<open>base\<close> the host address of its first byte.
\<close>

locale reg_store =
  fixes port :: "'s reg_port" and inv :: "'s \<Rightarrow> bool" and view :: "'s \<Rightarrow> nat \<Rightarrow> u8"
    and base :: "'s \<Rightarrow> u64" and bytes :: nat
  assumes bytes_lt: "bytes < 2 ^ 64"
    and read_law: "\<lbrakk>inv s; gp_command g = Read_command; gp_byte_enable g = None;
        gp_length g \<le> gp_streaming_width g; unat (gp_length g) = length (gp_data g);
        unat (gp_address g) + length (gp_data g) \<le> bytes\<rbrakk> \<Longrightarrow>
      \<exists>d' da s'. rp_b_transport port g d s =
          Inr (g\<lparr>gp_data := bytes_at (view s) (unat (gp_address g)) (length (gp_data g)),
                 gp_response := Ok_response, gp_dmi_allowed := da\<rparr>, d', [], s')
        \<and> inv s' \<and> view s' = view s \<and> base s' = base s"
    and write_law: "\<lbrakk>inv s; gp_command g = Write_command; gp_byte_enable g = None;
        gp_length g \<le> gp_streaming_width g; unat (gp_length g) = length (gp_data g);
        unat (gp_address g) + length (gp_data g) \<le> bytes\<rbrakk> \<Longrightarrow>
      \<exists>d' da s'. rp_b_transport port g d s =
          Inr (g\<lparr>gp_response := Ok_response, gp_dmi_allowed := da\<rparr>, d', [], s')
        \<and> inv s' \<and> view s' = put_bytes (unat (gp_address g)) (gp_data g) (view s) \<and> base s' = base s"
    and dmi_law: "\<lbrakk>inv s; unat (gp_address g) < bytes\<rbrakk> \<Longrightarrow>
      \<exists>ok dmi' s'. rp_dmi port g dmi s = Inr (ok, g, dmi', [], s')
        \<and> inv s' \<and> view s' = view s \<and> base s' = base s
        \<and> (ok \<longrightarrow> dmi_ptr dmi' = base s \<and> dmi_start dmi' = 0 \<and> unat (dmi_end dmi') = bytes - 1)"
    and peek_law: "\<lbrakk>inv s; a + n \<le> bytes\<rbrakk> \<Longrightarrow> rp_peek port (base s + of_nat a) n s = bytes_at (view s) a n"
    and poke_law: "\<lbrakk>inv s; a + length bs \<le> bytes; s' = rp_poke port (base s + of_nat a) bs s\<rbrakk> \<Longrightarrow>
      inv s' \<and> view s' = put_bytes a bs (view s) \<and> base s' = base s"
begin

lemma bytes_le: "bytes \<le> 2 ^ 64"
  using bytes_lt by simp

definition at_store :: "('a::len word, 'b) proxy_scheme \<Rightarrow> 's \<Rightarrow> bool" where
  "at_store p s \<longleftrightarrow> inv s \<and> reg_ok bytes (base s) p"

definition moved :: "('a::len word, 'b) proxy_scheme \<Rightarrow> 's \<Rightarrow> (nat \<Rightarrow> u8) \<Rightarrow> ('a word, 'b) proxy_scheme \<Rightarrow> 's \<Rightarrow> bool" where
  "moved p s f p' s' \<longleftrightarrow> at_store p' s' \<and> same_reg p p' \<and> base s' = base s \<and> view s' = f"

lemma moved_refl: "at_store p s \<Longrightarrow> moved p s (view s) p s"
  by (simp add: moved_def)

lemma moved_trans: "moved p s f p1 s1 \<Longrightarrow> moved p1 s1 g p2 s2 \<Longrightarrow> moved p s g p2 s2"
  by (auto simp: moved_def intro: same_reg_trans)

lemma check_dmi_ok:
  assumes "at_store p s"
  shows "\<exists>p' s'. check_dmi port p s = Inr (p', s') \<and> moved p s (view s) p' s'"
proof -
  have ok: "inv s" "reg_ok bytes (base s) p" using assms by (simp_all add: at_store_def)
  then have lt: "unat (p_offset p) + unat (p_size p) < bytes" by (simp add: reg_ok_def)
  let ?g = "gp_init\<lparr>gp_command := Ignore_command, gp_address := p_offset p,
      gp_length := ucast (p_size p), gp_streaming_width := ucast (p_size p)\<rparr>"
  obtain granted dmi' s' where d: "rp_dmi port ?g dmi_init s = Inr (granted, ?g, dmi', [], s')"
    "inv s'" "view s' = view s" "base s' = base s"
    "granted \<longrightarrow> dmi_ptr dmi' = base s \<and> dmi_start dmi' = 0 \<and> unat (dmi_end dmi') = bytes - 1"
    using dmi_law[OF ok(1), of ?g dmi_init] lt by auto
  have "dmi_start dmi' + p_offset p + p_size p \<le> dmi_end dmi'" if granted
    using d(5) that lt bytes_le by (simp add: word_le_nat_alt unat_word_ariths(1))
  then show ?thesis
    using d ok by (cases granted) (auto simp: check_dmi_def moved_def at_store_def
        proxy_invalidate_def reg_ok_def Let_def)
qed

lemma proxy_txn_fields [simp]:
  "gp_command (proxy_txn c a bs) = c" "gp_address (proxy_txn c a bs) = a" "gp_data (proxy_txn c a bs) = bs"
  "gp_byte_enable (proxy_txn c a bs) = None" "gp_length (proxy_txn c a bs) = of_nat (length bs)"
  "gp_streaming_width (proxy_txn c a bs) = of_nat (length bs)"
  by (simp_all add: proxy_txn_def gp_init_def)

lemma after_transport:
  assumes "at_store p s1" "base s1 = base s0"
    and "rp_b_transport port g 0 s0 = Inr (g1, d1, [], s1)" "gp_response g1 = Ok_response"
  shows "\<exists>p' s'. proxy_transport port g p s0 = Inr (gp_data g1, p', s') \<and> moved p s0 (view s1) p' s'"
proof -
  obtain p' s' where "check_dmi port p s1 = Inr (p', s')" "moved p s1 (view s1) p' s'"
    using check_dmi_ok[OF assms(1)] by blast
  then show ?thesis
    using assms by (auto simp: proxy_transport_def proxy_invalidate_def moved_def Let_def)
qed

lemma transport_read:
  assumes "at_store p s" "length data < 2 ^ 32" "unat a + length data \<le> bytes"
  shows "\<exists>p' s'. proxy_transport port (proxy_txn Read_command a data) p s
      = Inr (bytes_at (view s) (unat a) (length data), p', s') \<and> moved p s (view s) p' s'"
proof -
  let ?g = "proxy_txn Read_command a data"
  obtain d' da s1 where r: "rp_b_transport port ?g 0 s =
      Inr (?g\<lparr>gp_data := bytes_at (view s) (unat a) (length data), gp_response := Ok_response, gp_dmi_allowed := da\<rparr>, d', [], s1)"
    "inv s1" "view s1 = view s" "base s1 = base s"
    using read_law[of s ?g 0] assms by (auto simp: at_store_def unat_of_nat)
  have "at_store p s1" using assms(1) r by (simp add: at_store_def)
  from after_transport[OF this r(4,1)] show ?thesis using r(3) by simp
qed

lemma transport_write:
  assumes "at_store p s" "length data < 2 ^ 32" "unat a + length data \<le> bytes"
  shows "\<exists>p' s'. proxy_transport port (proxy_txn Write_command a data) p s = Inr (data, p', s')
      \<and> moved p s (put_bytes (unat a) data (view s)) p' s'"
proof -
  let ?g = "proxy_txn Write_command a data"
  obtain d' da s1 where r: "rp_b_transport port ?g 0 s =
      Inr (?g\<lparr>gp_response := Ok_response, gp_dmi_allowed := da\<rparr>, d', [], s1)"
    "inv s1" "view s1 = put_bytes (unat a) data (view s)" "base s1 = base s"
    using write_law[of s ?g 0] assms by (auto simp: at_store_def unat_of_nat)
  have "at_store p s1" using assms(1) r by (simp add: at_store_def)
  from after_transport[OF this r(4,1)] show ?thesis using r(3) by simp
qed

lemma at_storeD:
  assumes "at_store (p :: ('a::len word, 'b) proxy_scheme) s"
  shows "inv s" "reg_ok bytes (base s) p" "8 dvd LENGTH('a)" "sizeof TYPE('a) < 2 ^ 32" "sizeof TYPE('a) < 2 ^ 64"
  using assms by (auto simp: at_store_def reg_ok_def)

lemma movedD:
  assumes "moved p s f p' s'"
  shows "at_store p' s'" "same_reg p p'" "view s' = f"
  using assms by (simp_all add: moved_def)

lemma read_elem:
  fixes p :: "('a::len word, 'b) proxy_scheme"
  assumes "at_store p s" "unat idx < unat (p_number p)"
  shows "\<exists>p' s'. proxy_transport port
        (proxy_txn Read_command (p_offset p + p_stride p * idx) (to_bytes (d :: 'a word))) p s
      = Inr (bytes_at (view s) (elem_addr p (unat idx)) (sizeof TYPE('a)), p', s') \<and> moved p s (view s) p' s'"
  using transport_read[OF assms(1), of "to_bytes d" "p_offset p + p_stride p * idx"]
    at_storeD[OF assms(1)] elem_addr_in(2)[OF at_storeD(2)[OF assms(1)] assms(2)]
    elem_word_addr(2)[OF at_storeD(2)[OF assms(1)] bytes_le assms(2)] by simp

lemma write_elem:
  fixes p :: "('a::len word, 'b) proxy_scheme"
  assumes "at_store p s" "unat idx < unat (p_number p)"
  shows "\<exists>p' s'. proxy_transport port
        (proxy_txn Write_command (p_offset p + p_stride p * idx) (to_bytes (w :: 'a word))) p s
      = Inr (to_bytes w, p', s') \<and> moved p s (put_bytes (elem_addr p (unat idx)) (to_bytes w) (view s)) p' s'"
  using transport_write[OF assms(1), of "to_bytes w" "p_offset p + p_stride p * idx"]
    at_storeD[OF assms(1)] elem_addr_in(2)[OF at_storeD(2)[OF assms(1)] assms(2)]
    elem_word_addr(2)[OF at_storeD(2)[OF assms(1)] bytes_le assms(2)] by simp

lemma peek_elem:
  fixes p :: "('a::len word, 'b) proxy_scheme"
  assumes "at_store p s" "unat idx < unat (p_number p)" "pd_dmi p = Some q"
  shows "rp_peek port (q + p_stride p * idx) (sizeof TYPE('a)) s
      = bytes_at (view s) (elem_addr p (unat idx)) (sizeof TYPE('a))"
proof -
  have "q = base s + p_offset p" using at_storeD(2)[OF assms(1)] assms(3) by (simp add: reg_ok_def)
  then have "q + p_stride p * idx = base s + of_nat (elem_addr p (unat idx))"
    using elem_word_addr(1)[OF at_storeD(2)[OF assms(1)] bytes_le assms(2)] by (simp add: add.assoc)
  then show ?thesis
    using peek_law[OF at_storeD(1)[OF assms(1)] elem_addr_in(2)[OF at_storeD(2)[OF assms(1)] assms(2)]] by simp
qed

lemma poke_elem:
  fixes p :: "('a::len word, 'b) proxy_scheme"
  assumes "at_store p s" "unat idx < unat (p_number p)" "pd_dmi p = Some q"
  shows "moved p s (put_bytes (elem_addr p (unat idx)) (to_bytes (w :: 'a word)) (view s)) p
      (rp_poke port (q + p_stride p * idx) (to_bytes w) s)"
proof -
  have "q = base s + p_offset p" using at_storeD(2)[OF assms(1)] assms(3) by (simp add: reg_ok_def)
  then have "q + p_stride p * idx = base s + of_nat (elem_addr p (unat idx))"
    using elem_word_addr(1)[OF at_storeD(2)[OF assms(1)] bytes_le assms(2)] by (simp add: add.assoc)
  then show ?thesis
    using poke_law[OF at_storeD(1)[OF assms(1)], of "elem_addr p (unat idx)" "to_bytes w"]
      elem_addr_in(2)[OF at_storeD(2)[OF assms(1)] assms(2)] at_storeD(2)[OF assms(1)]
    by (simp add: moved_def at_store_def)
qed

end

lemma unat_Suc_less: "unat (i :: u64) < unat (n :: u64) \<Longrightarrow> unat (i + 1) = Suc (unat i)"
  using u64_less[of n] by (simp add: unat_word_ariths(1))

lemma unat_add_of_nat_le:
  "unat (i :: u64) + n \<le> unat (m :: u64) \<Longrightarrow> unat (i + of_nat n) = unat i + n"
  using u64_less[of m] by (simp add: unat_word_ariths(1) unat_of_nat)

lemma elem_vals_put:
  fixes p :: "('a::len word, 'b) proxy_scheme"
  assumes "reg_ok n base p"
  shows "elem_vals p (put_bytes (elem_addr p i) (to_bytes (w :: 'a word)) f) (Suc i) k = elem_vals p f (Suc i) k"
  using elem_val_put_other[OF assms] by (auto simp: Suc_le_eq)

lemma elem_vals_Suc: "elem_vals p f i (Suc n) = elem_val p f i # elem_vals p f (Suc i) n"
  by (simp add: upt_conv_Cons del: upt_Suc)

lemma dense_elem_addr_add:
  fixes p :: "('a::len word, 'b) proxy_scheme"
  assumes "p_stride p = of_nat (sizeof TYPE('a))" "sizeof TYPE('a) < 2 ^ 64"
  shows "elem_addr p (i + k) = elem_addr p i + k * sizeof TYPE('a)"
  by (induction k) (simp_all add: dense_elem_addr[OF assms])

lemma dense_bound:
  fixes p :: "('a::len word, 'b) proxy_scheme"
  assumes "reg_ok n base p" "p_stride p = of_nat (sizeof TYPE('a))" "i + k \<le> unat (p_number p)"
  shows "k \<noteq> 0 \<Longrightarrow> k * sizeof TYPE('a) < 2 ^ 32" "k \<noteq> 0 \<Longrightarrow> elem_addr p i + k * sizeof TYPE('a) \<le> n"
proof -
  assume "k \<noteq> 0"
  then obtain j where k: "k = Suc j" by (cases k) auto
  have sz: "sizeof TYPE('a) < 2 ^ 64"
    using assms(1) u64_less[of "p_size p"] by (simp add: reg_ok_def)
  have "elem_addr p (i + j) + sizeof TYPE('a) \<le> unat (p_offset p) + unat (p_size p)"
    using elem_addr_in(1)[OF assms(1), of "i + j"] assms(3) k by simp
  then have le: "elem_addr p i + k * sizeof TYPE('a) \<le> unat (p_offset p) + unat (p_size p)"
    unfolding dense_elem_addr_add[OF assms(2) sz] k by simp
  then show "elem_addr p i + k * sizeof TYPE('a) \<le> n" using assms(1) by (simp add: reg_ok_def)
  have "unat (p_offset p) \<le> elem_addr p i" by (simp add: elem_addr_def)
  then show "k * sizeof TYPE('a) < 2 ^ 32" using le assms(1) by (simp add: reg_ok_def)
qed

definition merged :: "bool \<Rightarrow> 'a::len word \<Rightarrow> 'a word list \<Rightarrow> 'a word list \<Rightarrow> 'a word list" where
  "merged msk m src old = (if msk then write_with_mask m src old else src)"

lemma merged_simps [simp]:
  "merged msk m [] [] = []"
  "merged msk m (x # xs) (y # ys) = (if msk then x AND m OR y AND NOT m else x) # merged msk m xs ys"
  by (simp_all add: merged_def)

context reg_store
begin

lemma get_elems_ok:
  "at_store p s \<Longrightarrow> unat idx + length dst \<le> unat (p_number p) \<Longrightarrow>
   \<exists>p' s'. get_elems port idx dst p s = Inr (elem_vals p (view s) (unat idx) (length dst), p', s')
     \<and> moved p s (view s) p' s'"
proof (induction dst arbitrary: idx p s)
  case Nil
  then show ?case by (simp add: moved_refl)
next
  case (Cons d dst)
  have lt: "unat idx < unat (p_number p)" using Cons.prems by simp
  obtain p1 s1 where r: "proxy_transport port
        (proxy_txn Read_command (p_offset p + p_stride p * idx) (to_bytes d)) p s
      = Inr (bytes_at (view s) (elem_addr p (unat idx)) (sizeof TYPE('a)), p1, s1)" "moved p s (view s) p1 s1"
    using read_elem[OF Cons.prems(1) lt] by blast
  note m = movedD[OF r(2)]
  obtain p2 s2 where g: "get_elems port (idx + 1) dst p1 s1 =
      Inr (elem_vals p1 (view s1) (unat (idx + 1)) (length dst), p2, s2)" "moved p1 s1 (view s1) p2 s2"
    using Cons.IH[OF m(1), of "idx + 1"] Cons.prems unat_Suc_less[OF lt] same_regD[OF m(2)] by auto
  have "elem_vals p1 (view s1) (unat (idx + 1)) (length dst) = elem_vals p (view s) (Suc (unat idx)) (length dst)"
    using m unat_Suc_less[OF lt] by (simp add: same_reg_vals[OF m(2)])
  then show ?case
    using r(1) g moved_trans[OF r(2) g(2)] m(3)
    by (simp add: upt_conv_Cons elem_val_def del: upt_Suc)
qed

lemma proxy_get_ok:
  fixes p :: "('a::len word, 'b) proxy_scheme"
  assumes st: "at_store p s" and le: "unat idx + length dst \<le> unat (p_number p)" and ne: "dst \<noteq> []"
  shows "\<exists>p' s'. proxy_get port dst idx p s = Inr (elem_vals p (view s) (unat idx) (length dst), p', s')
     \<and> moved p s (view s) p' s'"
proof -
  let ?n = "length dst" and ?sz = "sizeof TYPE('a)"
  note st' = at_storeD[OF st]
  have a: "idx + of_nat ?n \<le> p_number p" using le unat_add_of_nat_le[OF le] by (simp add: word_le_nat_alt)
  have lt: "unat idx < unat (p_number p)" using le ne by (cases dst) auto
  consider (dmi) q where "pd_dmi p = Some q" | (one) "pd_dmi p = None" "?n = 1"
    | (dense) "pd_dmi p = None" "p_stride p = of_nat ?sz" | (each) "pd_dmi p = None" "?n \<noteq> 1" "p_stride p \<noteq> of_nat ?sz"
    by (cases "pd_dmi p") auto
  then show ?thesis
  proof cases
    case dmi
    have "rp_peek port (q + p_stride p * (idx + of_nat i)) ?sz s = bytes_at (view s) (elem_addr p (unat idx + i)) ?sz"
      if "i < ?n" for i
      using peek_elem[OF st _ dmi, of "idx + of_nat i"] that le unat_add_of_nat_le[of idx i "p_number p"] by simp
    then have "map (\<lambda>i. of_bytes (rp_peek port (q + p_stride p * (idx + of_nat i)) ?sz s)) [0..<?n]
        = elem_vals p (view s) (unat idx) ?n"
      by (intro nth_equalityI) (simp_all add: elem_val_def)
    then show ?thesis using dmi a moved_refl[OF st] by (simp add: proxy_get_def)
  next
    case one
    then obtain d where d: "dst = [d]" by (cases dst) auto
    then show ?thesis
      using read_elem[OF st lt, of d] one a by (auto simp: proxy_get_def elem_val_def words_of_Suc)
  next
    case dense
    note b = dense_bound[OF st'(2) dense(2) le] and w = elem_word_addr(2)[OF st'(2) bytes_le lt]
    have "length (bytes_of dst) < 2 ^ 32" "unat (p_offset p + p_stride p * idx) + length (bytes_of dst) \<le> bytes"
      using b ne w by auto
    from transport_read[OF st this] show ?thesis
      using dense a w dense_elem_vals[OF dense(2) st'(5), of ?n "view s" "unat idx"]
      by (auto simp: proxy_get_def)
  next
    case each
    then show ?thesis using get_elems_ok[OF st le] a by (simp add: proxy_get_def)
  qed
qed

end

lemma put_merged_Cons:
  fixes p :: "('a::len word, 'b) proxy_scheme"
  assumes "reg_ok n base p" "w = (if msk then v AND m OR elem_val p f i AND NOT m else v)"
    and "f' = put_bytes (elem_addr p i) (to_bytes w) f"
  shows "put_elems p i (merged msk m (v # src) (elem_vals p f i (length (v # src)))) f
      = put_elems p (Suc i) (merged msk m src (elem_vals p f' (Suc i) (length src))) f'"
proof -
  have "elem_vals p f i (length (v # src)) = elem_val p f i # elem_vals p f' (Suc i) (length src)"
    unfolding assms(3) elem_vals_put[OF assms(1)] by (simp add: upt_conv_Cons del: upt_Suc)
  then show ?thesis by (simp only: merged_simps put_elems.simps assms(2,3) refl)
qed

context reg_store
begin

lemma poke_elems_ok:
  "at_store p s \<Longrightarrow> pd_dmi p = Some q \<Longrightarrow> unat idx + length src \<le> unat (p_number p) \<Longrightarrow>
   moved p s (put_elems p (unat idx)
      (merged msk (p_mask p) src (elem_vals p (view s) (unat idx) (length src))) (view s)) p
     (poke_elems port msk q idx src p s)"
proof (induction src arbitrary: idx s)
  case Nil
  then show ?case by (simp add: moved_refl)
next
  case (Cons v src)
  let ?i = "unat idx"
  have lt: "?i < unat (p_number p)" using Cons.prems by simp
  define w where "w = (if msk then v AND p_mask p OR elem_val p (view s) ?i AND NOT (p_mask p) else v)"
  define s1 where "s1 = rp_poke port (q + p_stride p * idx) (to_bytes w) s"
  have m: "moved p s (put_bytes (elem_addr p ?i) (to_bytes w) (view s)) p s1"
    unfolding s1_def by (rule poke_elem[OF Cons.prems(1) lt Cons.prems(2)])
  note v1 = movedD(3)[OF m] and r = at_storeD(2)[OF Cons.prems(1)]
  have "moved p s1 (put_elems p (Suc ?i)
      (merged msk (p_mask p) src (elem_vals p (view s1) (Suc ?i) (length src))) (view s1)) p
     (poke_elems port msk q (idx + 1) src p s1)"
    using Cons.IH[OF movedD(1)[OF m] Cons.prems(2), of "idx + 1"] Cons.prems(3) unat_Suc_less[OF lt] by simp
  moreover have "poke_elems port msk q idx (v # src) p s = poke_elems port msk q (idx + 1) src p s1"
    using peek_elem[OF Cons.prems(1) lt Cons.prems(2)]
    by (simp add: s1_def w_def Let_def elem_val_def)
  ultimately show ?case
    using moved_trans[OF m] by (simp only: put_merged_Cons[OF r w_def v1])
qed

lemma set_elems_ok:
  "at_store p s \<Longrightarrow> unat idx + length src \<le> unat (p_number p) \<Longrightarrow>
   \<exists>p' s'. set_elems port msk idx src p s = Inr (p', s') \<and>
     moved p s (put_elems p (unat idx)
      (merged msk (p_mask p) src (elem_vals p (view s) (unat idx) (length src))) (view s)) p' s'"
proof (induction src arbitrary: idx p s)
  case Nil
  then show ?case by (simp add: moved_refl)
next
  case (Cons v src)
  let ?i = "unat idx"
  have lt: "?i < unat (p_number p)" using Cons.prems by simp
  define w where "w = (if msk then v AND p_mask p OR elem_val p (view s) ?i AND NOT (p_mask p) else v)"
  obtain p1 s1 where g: "(if msk
        then bind_res (proxy_get port [0] idx p s) (\<lambda>(cur, p1, s1).
          Inr (hd (write_with_mask (p_mask p) [v] cur), p1, s1))
        else Inr (v, p, s)) = Inr (w, p1, s1)" "moved p s (view s) p1 s1"
    using proxy_get_ok[OF Cons.prems(1), of idx "[0]"] lt moved_refl[OF Cons.prems(1)]
    by (cases msk) (auto simp: w_def)
  note m1 = movedD[OF g(2)]
  have lt1: "?i < unat (p_number p1)" using lt same_regD[OF m1(2)] by simp
  obtain p2 s2 where t: "proxy_transport port
      (proxy_txn Write_command (p_offset p1 + p_stride p1 * idx) (to_bytes w)) p1 s1 = Inr (to_bytes w, p2, s2)"
    "moved p1 s1 (put_bytes (elem_addr p1 ?i) (to_bytes w) (view s1)) p2 s2"
    using write_elem[OF m1(1) lt1] by blast
  note m2 = movedD[OF t(2)] and r = at_storeD(2)[OF Cons.prems(1)]
  note sm = same_reg_trans[OF m1(2) m2(2)]
  have v2: "view s2 = put_bytes (elem_addr p ?i) (to_bytes w) (view s)"
    using m2(3) m1(3) same_regD[OF m1(2)] by simp
  obtain p3 s3 where f: "set_elems port msk (idx + 1) src p2 s2 = Inr (p3, s3)"
    "moved p2 s2 (put_elems p2 (Suc ?i)
      (merged msk (p_mask p2) src (elem_vals p2 (view s2) (Suc ?i) (length src))) (view s2)) p3 s3"
    using Cons.IH[OF m2(1), of "idx + 1"] Cons.prems(2) unat_Suc_less[OF lt] same_regD[OF sm] by auto
  have "moved p s (put_elems p ?i
      (merged msk (p_mask p) (v # src) (elem_vals p (view s) ?i (length (v # src)))) (view s)) p3 s3"
    using moved_trans[OF moved_trans[OF g(2) t(2)] f(2)]
    by (simp only: same_reg_vals[OF sm] same_regD[OF sm] put_merged_Cons[OF r w_def v2])
  then show ?case using g(1) t(1) f(1) by auto
qed

lemma proxy_set_ok:
  fixes p :: "('a::len word, 'b) proxy_scheme"
  assumes st: "at_store p s" and le: "unat idx + length src \<le> unat (p_number p)" and ne: "src \<noteq> []"
    and msk_def: "msk = (use_mask \<and> p_mask p \<noteq> gs_full_mask)"
  shows "\<exists>p' s'. proxy_set port src idx use_mask p s = Inr (p', s') \<and>
     moved p s (put_elems p (unat idx)
      (merged msk (p_mask p) src (elem_vals p (view s) (unat idx) (length src))) (view s)) p' s'"
proof -
  let ?n = "length src" and ?sz = "sizeof TYPE('a)"
  note st' = at_storeD[OF st]
  have a: "idx + of_nat ?n \<le> p_number p" using le unat_add_of_nat_le[OF le] by (simp add: word_le_nat_alt)
  have lt: "unat idx < unat (p_number p)" using le ne by (cases src) auto
  note w = elem_word_addr(2)[OF st'(2) bytes_le lt]
  consider (dmi) q where "pd_dmi p = Some q" | (one) "pd_dmi p = None" "?n = 1" "\<not> msk"
    | (dense) "pd_dmi p = None" "p_stride p = of_nat ?sz" "\<not> msk"
    | (each) "pd_dmi p = None" "\<not> ((?n = 1 \<or> p_stride p = of_nat ?sz) \<and> \<not> msk)"
    by (cases "pd_dmi p") auto
  then show ?thesis
  proof cases
    case dmi
    then show ?thesis
      using poke_elems_ok[OF st dmi le, of msk] a by (simp add: proxy_set_def msk_def)
  next
    case one
    then obtain d where d: "src = [d]" by (cases src) auto
    then show ?thesis
      using write_elem[OF st lt, of d] one a
      by (auto simp: proxy_set_def msk_def[symmetric] merged_def Let_def)
  next
    case dense
    have "length (bytes_of src) < 2 ^ 32" "unat (p_offset p + p_stride p * idx) + length (bytes_of src) \<le> bytes"
      using dense_bound[OF st'(2) dense(2) le] ne w by auto
    from transport_write[OF st this] show ?thesis
      unfolding w dense_put_elems[OF dense(2) st'(5)]
      using dense a by (auto simp: proxy_set_def msk_def[symmetric] merged_def Let_def)
  next
    case each
    then have "proxy_set port src idx use_mask p s = set_elems port msk idx src p s"
      using a by (simp add: proxy_set_def msk_def) blast
    then show ?thesis using set_elems_ok[OF st le, of msk] by simp
  qed
qed

end

section \<open>Masked bus writes\<close>

text \<open>A bus write of \<open>k\<close> elements of a register from element \<open>idx\<close> on, as the register sees it.\<close>

definition reg_write_txn :: "('a::len word, 'b) proxy_scheme \<Rightarrow> u64 \<Rightarrow> nat \<Rightarrow> gp \<Rightarrow> bool" where
  "reg_write_txn r idx k txn \<longleftrightarrow> gp_command txn = Write_command \<and> p_relative_addresses r
     \<and> gp_address txn = p_stride r * idx \<and> 0 < k \<and> unat (gp_length txn) = k * sizeof TYPE('a)
     \<and> length (gp_data txn) = k * sizeof TYPE('a) \<and> unat idx + k \<le> unat (p_number r)"

lemma sizeof_pos: "8 dvd LENGTH('a) \<Longrightarrow> 0 < sizeof TYPE('a::len)"
proof -
  assume "8 dvd LENGTH('a)"
  then have "8 \<le> LENGTH('a)" by (rule dvd_imp_le) simp
  then show ?thesis by (simp add: sizeof_def)
qed

lemma reg_write_elems:
  fixes r :: "('a::len word, 'b) proxy_scheme"
  assumes "reg_ok n base r" "reg_write_txn r idx k txn"
  shows "txn_elems r txn = Inr (idx, k)"
proof -
  have sz: "0 < sizeof TYPE('a)" using assms(1) by (simp add: reg_ok_def sizeof_pos)
  then have s: "0 < unat (p_stride r)" "p_stride r \<noteq> 0" using assms(1) by (auto simp: reg_ok_def)
  have lt: "unat idx < unat (p_number r)" using assms(2) by (simp add: reg_write_txn_def)
  then have "unat (p_stride r) * unat idx \<le> unat (p_stride r) * (unat (p_number r) - 1)"
    by (intro mult_le_mono2) simp
  then have "unat (p_stride r) * unat idx \<le> unat (p_size r)" using assms(1) unfolding reg_ok_def by linarith
  then have "unat (p_stride r * idx) = unat (p_stride r) * unat idx"
    using u64_less[of "p_size r"] by (simp add: unat_word_ariths(2))
  then have "unat (p_stride r * idx div p_stride r) = unat idx" using s(1) by (simp add: unat_div)
  then have "p_stride r * idx div p_stride r = idx" by (simp only: word_unat_eq_iff)
  then show ?thesis using assms(2) sz s by (auto simp: txn_elems_def reg_write_txn_def Let_def)
qed

lemma reg_ok_update [simp]:
  "reg_ok n base (r\<lparr>captured_txn_data := bs\<rparr>) = reg_ok n base r" "reg_ok n base (r\<lparr>m_in_callback := c\<rparr>) = reg_ok n base r"
  by (simp_all add: reg_ok_def)

lemma elem_val_update [simp]:
  "elem_val (r\<lparr>captured_txn_data := bs\<rparr>) = elem_val r" "elem_val (r\<lparr>m_in_callback := c\<rparr>) = elem_val r"
  "elem_addr (r\<lparr>captured_txn_data := bs\<rparr>) = elem_addr r" "elem_addr (r\<lparr>m_in_callback := c\<rparr>) = elem_addr r"
  by (simp_all add: elem_val_def elem_addr_def fun_eq_iff)

lemma put_elems_update [simp]:
  "put_elems (r\<lparr>captured_txn_data := bs\<rparr>) i ws f = put_elems r i ws f"
  "put_elems (r\<lparr>m_in_callback := c\<rparr>) i ws f = put_elems r i ws f"
  by (induction ws arbitrary: i f) simp_all

lemma same_reg_keeps:
  "same_reg r r' \<Longrightarrow> captured_txn_data r' = captured_txn_data r \<and> m_in_callback r' = m_in_callback r"
  by (auto simp: same_reg_def)

text \<open>Storing elements over elements.\<close>

lemma put_bytes_twice: "length ys = length xs \<Longrightarrow> put_bytes a ys (put_bytes a xs f) = put_bytes a ys f"
  by (auto simp: put_bytes_def fun_eq_iff)

lemma put_bytes_swap:
  "a + length xs \<le> b \<or> b + length ys \<le> a \<Longrightarrow>
     put_bytes a xs (put_bytes b ys f) = put_bytes b ys (put_bytes a xs f)"
  by (auto simp: put_bytes_def fun_eq_iff)

lemma put_elems_swap:
  fixes p :: "('a::len word, 'b) proxy_scheme"
  assumes "reg_ok n base p" "i < j"
  shows "put_elems p j ws (put_bytes (elem_addr p i) (to_bytes (w :: 'a word)) f)
      = put_bytes (elem_addr p i) (to_bytes w) (put_elems p j ws f)"
  using assms(2)
proof (induction ws arbitrary: j f)
  case (Cons x ws)
  have "put_bytes (elem_addr p j) (to_bytes x) (put_bytes (elem_addr p i) (to_bytes w) f)
      = put_bytes (elem_addr p i) (to_bytes w) (put_bytes (elem_addr p j) (to_bytes x) f)"
    using elem_addr_gap[OF assms(1) Cons.prems] by (intro put_bytes_swap) simp
  then show ?case using Cons.IH[of "Suc j"] Cons.prems by simp
qed simp

lemma put_elems_twice:
  fixes p :: "('a::len word, 'b) proxy_scheme"
  assumes "reg_ok n base p" "length ys = length xs"
  shows "put_elems p i ys (put_elems p i xs f) = put_elems p i ys f"
  using assms(2)
proof (induction ys xs arbitrary: i f rule: list_induct2)
  case (Cons y ys x xs)
  show ?case
    using put_elems_swap[OF assms(1), of i "Suc i"] Cons.IH[of "Suc i"]
    by (simp add: put_bytes_twice flip: put_elems_swap[OF assms(1), of i "Suc i"])
qed simp

lemma write_with_full_mask: "length xs = length ys \<Longrightarrow> write_with_mask gs_full_mask xs ys = xs"
  by (induction xs ys rule: list_induct2) (simp_all add: gs_full_mask_def)

text \<open>Callbacks that only look, and what an access leaves of the description of a register.\<close>

definition observers :: "('r, 's) tlm_fnct list \<Rightarrow> bool" where
  "observers fs \<longleftrightarrow> (\<forall>f \<in> set fs. \<forall>txn d r s. \<exists>d'. f txn d r s = Inr (txn, d', r, s))"

lemma run_observers: "observers fs \<Longrightarrow> \<exists>d'. run_fncts fs txn d r s = Inr (txn, d', r, s)"
proof (induction fs arbitrary: d)
  case (Cons f fs)
  obtain d1 where "f txn d r s = Inr (txn, d1, r, s)" using Cons.prems unfolding observers_def by fastforce
  then show ?case using Cons by (simp add: observers_def)
qed simp

definition same_setup :: "('m, 'b) proxy_scheme \<Rightarrow> ('m, 'b) proxy_scheme \<Rightarrow> bool" where
  "same_setup r r' \<longleftrightarrow> p_number r' = p_number r \<and> p_offset r' = p_offset r \<and> p_stride r' = p_stride r
     \<and> p_mask r' = p_mask r \<and> p_relative_addresses r' = p_relative_addresses r"

context reg_store
begin

lemma capture_ok:
  fixes r :: "('a::len word, 'b) gs_reg_scheme"
  assumes "at_store r s" "reg_write_txn r idx k txn" "p_mask r \<noteq> gs_full_mask"
  shows "\<exists>r' s'. capture_txn_pre port txn r s = Inr (txn, r'\<lparr>captured_txn_data :=
        bytes_of (elem_vals r (view s) (unat idx) k)\<rparr>, s') \<and> moved r s (view s) r' s'"
proof -
  have "unat idx + length (replicate k (0 :: 'a word)) \<le> unat (p_number r)" "replicate k (0 :: 'a word) \<noteq> []"
    using assms(2) by (auto simp: reg_write_txn_def)
  from proxy_get_ok[OF assms(1) this] show ?thesis
    using assms reg_write_elems[OF at_storeD(2)[OF assms(1)] assms(2)]
    by (auto simp: capture_txn_pre_def masked_write_def reg_write_txn_def)
qed

lemma mask_post_ok:
  fixes r :: "('a::len word, 'b) gs_reg_scheme"
  assumes st: "at_store r s" and tx: "reg_write_txn r idx k txn" and m: "p_mask r \<noteq> gs_full_mask"
    and cap: "captured_txn_data r = bytes_of old" "length old = k"
  defines "ws \<equiv> write_with_mask (p_mask r) (words_of k (gp_data txn)) old"
  shows "\<exists>r' s'. handle_mask_post port txn r s = Inr (txn\<lparr>gp_data := bytes_of ws\<rparr>, r', s')
      \<and> moved (r\<lparr>captured_txn_data := bytes_of ws\<rparr>) s (put_elems r (unat idx) ws (view s)) r' s'"
proof -
  note st' = at_storeD[OF st]
  have old: "words_of k (captured_txn_data r) = old" using words_of_bytes_of[OF st'(3), of old "[]"] cap by simp
  have len: "length ws = k" using cap(2) by (simp add: ws_def)
  let ?r = "r\<lparr>captured_txn_data := bytes_of ws\<rparr>"
  have st1: "at_store ?r s" using st by (simp add: at_store_def)
  have "unat idx + length ws \<le> unat (p_number ?r)" "ws \<noteq> []"
    using tx len by (auto simp: reg_write_txn_def)
  from proxy_set_ok[OF st1 this, of False False] obtain r' s' where
    "proxy_set port ws idx False ?r s = Inr (r', s')" "moved ?r s (put_elems ?r (unat idx) ws (view s)) r' s'"
    by (auto simp: merged_def)
  then show ?thesis
    using reg_write_elems[OF st'(2) tx] tx m cap old len
    by (auto simp: handle_mask_post_def masked_write_def reg_write_txn_def ws_def[symmetric] Let_def)
qed

lemma port_pre_ok:
  fixes r :: "('a::len word, 'b) gs_reg_scheme"
  assumes st: "at_store r s" and tx: "reg_write_txn r idx k txn" and inc: "gp_response txn = Incomplete_response"
    and f: "has_fncts f" "\<not> m_in_callback r" "observers (m_pre_write_fncts f)"
  shows "\<exists>d' r' s'. reg_b_transport port f txn d r s = Inr (txn\<lparr>gp_dmi_allowed := False\<rparr>, d', r', s')
      \<and> at_store r' s' \<and> base s' = base s \<and> view s' = view s \<and> same_setup r r' \<and> \<not> m_in_callback r'
      \<and> (p_mask r \<noteq> gs_full_mask \<longrightarrow> captured_txn_data r' = bytes_of (elem_vals r (view s) (unat idx) k))"
proof -
  let ?r = "r\<lparr>m_in_callback := True\<rparr>"
  have st1: "at_store ?r s" using st by (simp add: at_store_def)
  have tx1: "reg_write_txn ?r idx k txn" using tx by (simp add: reg_write_txn_def)
  have w: "gp_command txn = Write_command" using tx by (simp add: reg_write_txn_def)
  obtain d1 where o: "run_fncts (m_pre_write_fncts f) txn d ?r s = Inr (txn, d1, ?r, s)"
    using run_observers[OF f(3)] by blast
  show ?thesis
  proof (cases "p_mask r = gs_full_mask")
    case True
    then show ?thesis using o w inc f st
      by (auto simp: reg_b_transport_def port_b_transport_def pre_fncts_def capture_txn_pre_def masked_write_def
          same_setup_def at_store_def Let_def)
  next
    case False
    then have "p_mask ?r \<noteq> gs_full_mask" by simp
    from capture_ok[OF st1 tx1 this] obtain r' s' where c: "capture_txn_pre port txn ?r s =
        Inr (txn, r'\<lparr>captured_txn_data := bytes_of (elem_vals ?r (view s) (unat idx) k)\<rparr>, s')" "moved ?r s (view s) r' s'"
      by blast
    note m = movedD[OF c(2)]
    have "base s' = base s" "at_store (r'\<lparr>captured_txn_data := x, m_in_callback := y\<rparr>) s'" for x y
      using c(2) by (auto simp: moved_def at_store_def)
    then show ?thesis using o w inc f c(1) m same_regD[OF m(2)]
      by (auto simp: reg_b_transport_def port_b_transport_def pre_fncts_def same_setup_def Let_def)
  qed
qed

lemma port_post_ok:
  fixes r :: "('a::len word, 'b) gs_reg_scheme"
  assumes st: "at_store r s" and tx: "reg_write_txn r idx k txn" and ok: "gp_response txn = Ok_response"
    and f: "has_fncts f" "\<not> m_in_callback r" "observers (m_post_write_fncts f)"
    and cap: "p_mask r \<noteq> gs_full_mask \<longrightarrow> captured_txn_data r = bytes_of old" "length old = k"
  defines "ws \<equiv> write_with_mask (p_mask r) (words_of k (gp_data txn)) old"
  shows "\<exists>d' r' s'. reg_b_transport port f txn d r s
        = Inr (txn\<lparr>gp_data := bytes_of ws, gp_dmi_allowed := False\<rparr>, d', r', s')
      \<and> at_store r' s' \<and> base s' = base s \<and> same_setup r r' \<and> \<not> m_in_callback r'
      \<and> view s' = (if p_mask r = gs_full_mask then view s else put_elems r (unat idx) ws (view s))"
proof -
  let ?r = "r\<lparr>m_in_callback := True\<rparr>"
  have st1: "at_store ?r s" using st by (simp add: at_store_def)
  have tx1: "reg_write_txn ?r idx k txn" using tx by (simp add: reg_write_txn_def)
  have w: "gp_command txn = Write_command" using tx by (simp add: reg_write_txn_def)
  note obs = run_observers[OF f(3)]
  show ?thesis
  proof (cases "p_mask r = gs_full_mask")
    case True
    have "ws = words_of k (gp_data txn)" using write_with_full_mask[of "words_of k (gp_data txn)" old] cap(2) True
      by (simp add: ws_def)
    moreover have "bytes_of (words_of k (gp_data txn) :: 'a word list) = gp_data txn"
      using bytes_of_words_of[OF at_storeD(3)[OF st], of k "gp_data txn"] tx by (simp add: reg_write_txn_def)
    ultimately have d: "txn\<lparr>gp_data := bytes_of ws\<rparr> = txn" by simp
    obtain d1 where o: "run_fncts (m_post_write_fncts f) txn d ?r s = Inr (txn, d1, ?r, s)"
      using obs by blast
    then show ?thesis using True w ok f st unfolding d
      by (auto simp: reg_b_transport_def port_b_transport_def post_fncts_def handle_mask_post_def masked_write_def
          same_setup_def at_store_def Let_def)
  next
    case False
    then have p: "p_mask ?r \<noteq> gs_full_mask" "captured_txn_data ?r = bytes_of old" using cap by simp_all
    from mask_post_ok[OF st1 tx1 p cap(2)] obtain r' s' where
      h: "handle_mask_post port txn ?r s = Inr (txn\<lparr>gp_data := bytes_of ws\<rparr>, r', s')"
      "moved (?r\<lparr>captured_txn_data := bytes_of ws\<rparr>) s (put_elems ?r (unat idx) ws (view s)) r' s'"
      by (auto simp: ws_def)
    note m = movedD[OF h(2)]
    have b: "base s' = base s" "at_store (r'\<lparr>m_in_callback := y\<rparr>) s'" for y
      using h(2) by (auto simp: moved_def at_store_def)
    obtain d1 where o: "run_fncts (m_post_write_fncts f) (txn\<lparr>gp_data := bytes_of ws\<rparr>) d r' s'
        = Inr (txn\<lparr>gp_data := bytes_of ws\<rparr>, d1, r', s')"
      using obs by blast
    show ?thesis using False o w ok f h(1) m(3) b same_regD[OF m(2)]
      by (auto simp: reg_b_transport_def port_b_transport_def post_fncts_def same_setup_def Let_def)
  qed
qed

end

end
