(* ===== verification/RegSystem.thy ===== *)
theory RegSystem
  imports RegStore RegRouter
begin

text \<open>
  Registers behind the register router: \<^verbatim>\<open>reg_router.h\<close> with the callbacks of one register of
  \<^verbatim>\<open>registers.h\<close> and the memory the register lives in as its two targets. Over the contract
  \<open>reg_store\<close> of the memory, a routed bus write stores the masked elements.
\<close>

section \<open>A register behind the register router\<close>

text \<open>The sockets of a register router with a memory (target 0) and the callbacks of one register.\<close>

definition reg_sockets :: "'s reg_port \<Rightarrow> (('a::len word, 'b) gs_reg_scheme, 's) port_fncts \<Rightarrow> nat \<Rightarrow>
    ('s \<times> ('a word, 'b) gs_reg_scheme) socket_call" where
  "reg_sockets port f i txn d x =
     (if i = 0
      then bind_res (rp_b_transport port txn d (fst x)) (\<lambda>(txn1, d1, iv, s1). Inr (txn1, d1, iv, (s1, snd x)))
      else bind_res (reg_b_transport port f txn d (snd x) (fst x)) (\<lambda>(txn1, d1, r1, s1). Inr (txn1, d1, [], (s1, r1))))"

text \<open>The router decodes the address to the memory and to the register alone.\<close>

definition routes_to :: "reg_router \<Rightarrow> u64 \<Rightarrow> u64 \<Rightarrow> bool" where
  "routes_to rr a off \<longleftrightarrow> rr_initialized rr \<and>
     (\<exists>mt rt. best_mem a (rr_mem_targets rr) None = Inr (Some mt) \<and> ti_index mt = 0 \<and> ti_address mt = 0
        \<and> claimants_loop a (rr_cb_targets rr) [] 0 = Inr [rt] \<and> rr_cb_targets rr \<noteq> []
        \<and> ti_index rt \<noteq> 0 \<and> ti_address rt = off \<and> ti_use_offset rt)"

text \<open>A bus write of \<open>k\<close> elements at absolute addresses.\<close>

definition bus_elems_write :: "('a::len word, 'b) proxy_scheme \<Rightarrow> u64 \<Rightarrow> nat \<Rightarrow> gp \<Rightarrow> bool" where
  "bus_elems_write r idx k txn \<longleftrightarrow> gp_command txn = Write_command \<and> p_relative_addresses r
     \<and> gp_address txn = p_offset r + p_stride r * idx \<and> 0 < k \<and> unat idx + k \<le> unat (p_number r)
     \<and> unat (gp_length txn) = k * sizeof TYPE('a) \<and> length (gp_data txn) = k * sizeof TYPE('a)
     \<and> gp_length txn \<le> gp_streaming_width txn \<and> gp_byte_enable txn = None
     \<and> (k = 1 \<or> p_stride r = of_nat (sizeof TYPE('a))) \<and> gp_response txn = Incomplete_response"

lemma call_reg:
  assumes "ti_index t \<noteq> 0" "ti_use_offset t" "ti_address t = off"
    and "reg_b_transport port f (txn\<lparr>gp_address := a - off\<rparr>) d r s = Inr (txn1, d1, r1, s1)"
  shows "call_target (reg_sockets port f) t a txn d (s, r) = Inr (txn1\<lparr>gp_address := a\<rparr>, d1, s1, r1)"
  using assms by (simp add: call_target_def reg_sockets_def)

lemma call_mem:
  assumes "ti_index t = 0" "ti_address t = 0" "gp_address txn = a"
    and "rp_b_transport port txn d s = Inr (txn1, d1, iv, s1)" "gp_address txn1 = a"
  shows "call_target (reg_sockets port f) t a txn d (s, r) = Inr (txn1, d1, s1, r)"
proof -
  have "txn\<lparr>gp_address := a\<rparr> = txn" "txn1\<lparr>gp_address := a\<rparr> = txn1" using assms(3,5) by auto
  then show ?thesis
    using assms(1,2,4) by (cases "ti_use_offset t") (simp_all add: call_target_def reg_sockets_def)
qed

lemma one_callback:
  assumes "claimants_loop (gp_address txn) (rr_cb_targets rr) [] 0 = Inr [t]" "rr_cb_targets rr \<noteq> []"
    and "call_target socket t (gp_address txn) txn d x = Inr (txn1, d1, x1)"
  shows "do_callbacks socket rr txn d x = Inr (True, txn1, d1, x1)"
  using assms by (simp add: do_callbacks_def)

lemma same_setup_put:
  assumes "same_setup r r'"
  shows "put_elems r' i ws g = put_elems r i ws g"
proof -
  have "elem_addr r' = elem_addr r" using assms by (auto simp: same_setup_def elem_addr_def)
  then show ?thesis by (induction ws arbitrary: i g) simp_all
qed

context reg_store
begin

lemma elems_written:
  fixes r :: "('a::len word, 'b) proxy_scheme"
  assumes "reg_ok bytes bs r" "bus_elems_write r idx k txn" "length ws = k" "sizeof TYPE('a) < 2 ^ 64"
  shows "put_bytes (unat (gp_address txn)) (gp_data txn) v = put_elems r (unat idx) (words_of k (gp_data txn)) v"
    "put_elems r (unat idx) ws (put_bytes (unat (gp_address txn)) (gp_data txn) v) = put_elems r (unat idx) ws v"
    "unat (gp_address txn) + length (gp_data txn) \<le> bytes"
proof -
  have lt: "unat idx < unat (p_number r)" using assms(2) by (simp add: bus_elems_write_def)
  have a: "unat (gp_address txn) = elem_addr r (unat idx)"
    using elem_word_addr(2)[OF assms(1) bytes_le lt] assms(2) by (simp add: bus_elems_write_def)
  have "bytes_of (words_of k (gp_data txn) :: 'a word list) = gp_data txn"
    using bytes_of_words_of[where 'a = 'a, of k "gp_data txn"] assms(1,2) by (simp add: bus_elems_write_def reg_ok_def)
  moreover have "put_bytes (elem_addr r (unat idx)) (bytes_of ws') v = put_elems r (unat idx) ws' v"
    if lk: "length ws' = k" for ws'
  proof (cases "k = 1")
    case True
    then obtain w where "ws' = [w]" using lk by (cases ws') auto
    then show ?thesis by simp
  next
    case False
    then show ?thesis using dense_put_elems[of r] assms(2,4) by (simp add: bus_elems_write_def)
  qed
  ultimately show e: "put_bytes (unat (gp_address txn)) (gp_data txn) v
      = put_elems r (unat idx) (words_of k (gp_data txn)) v"
    using a by (metis length_words_of)
  then show "put_elems r (unat idx) ws (put_bytes (unat (gp_address txn)) (gp_data txn) v) = put_elems r (unat idx) ws v"
    using put_elems_twice[OF assms(1), of ws "words_of k (gp_data txn)"] assms(3) by simp
  have le: "unat idx + k \<le> unat (p_number r)" "0 < k" using assms(2) by (simp_all add: bus_elems_write_def)
  show "unat (gp_address txn) + length (gp_data txn) \<le> bytes"
    using a assms(2) elem_addr_in(2)[OF assms(1) lt] dense_bound(2)[OF assms(1) _ le(1)] le(2)
    by (auto simp: bus_elems_write_def)
qed

lemma routed_write:
  fixes r :: "('a::len word, 'b) gs_reg_scheme"
  assumes st: "at_store r s" and tx: "bus_elems_write r idx k txn"
    and rt: "routes_to rr (gp_address txn) (p_offset r)"
    and f: "has_fncts f" "\<not> m_in_callback r" "observers (m_pre_write_fncts f)" "observers (m_post_write_fncts f)"
  defines "ws \<equiv> write_with_mask (p_mask r) (words_of k (gp_data txn)) (elem_vals r (view s) (unat idx) k)"
  shows "\<exists>txn' d' s' r'. rr_b_transport b None (reg_sockets port f) txn d rr (s, r) = Inr (txn', d', rr, s', r')
      \<and> txn' = txn\<lparr>gp_data := bytes_of ws, gp_response := Ok_response, gp_dmi_allowed := False\<rparr>
      \<and> at_store r' s' \<and> same_setup r r' \<and> view s' = put_elems r (unat idx) ws (view s)"
proof -
  let ?a = "gp_address txn" and ?old = "elem_vals r (view s) (unat idx) k"
  obtain mt t where R: "best_mem ?a (rr_mem_targets rr) None = Inr (Some mt)" "ti_index mt = 0" "ti_address mt = 0"
    "claimants_loop ?a (rr_cb_targets rr) [] 0 = Inr [t]" "rr_cb_targets rr \<noteq> []" "ti_index t \<noteq> 0"
    "ti_address t = p_offset r" "ti_use_offset t" "rr_initialized rr"
    using rt unfolding routes_to_def by blast
  have dec: "rr_decode_address b txn rr = Inr (Some mt, rr)"
    using R by (simp add: rr_decode_address_def rr_lazy_initialize_def)
  have rel: "reg_write_txn r idx k (g\<lparr>gp_address := ?a - p_offset r\<rparr>)"
    if "gp_command g = Write_command" "gp_length g = gp_length txn" "gp_data g = gp_data txn" for g
    using tx that by (simp add: bus_elems_write_def reg_write_txn_def)
  have w: "gp_command txn = Write_command" "gp_response txn = Incomplete_response" "gp_byte_enable txn = None"
    "gp_length txn \<le> gp_streaming_width txn" "unat (gp_length txn) = length (gp_data txn)"
    using tx by (simp_all add: bus_elems_write_def)
  note sz = at_storeD[OF st]
  have lw: "length ws = k" by (simp add: ws_def)
  note ew = elems_written[OF sz(2) tx lw sz(5)]
  \<comment> \<open>before the memory\<close>
  obtain d1 r1 s1 where p1: "reg_b_transport port f (txn\<lparr>gp_address := ?a - p_offset r\<rparr>) d r s
      = Inr (txn\<lparr>gp_address := ?a - p_offset r, gp_dmi_allowed := False\<rparr>, d1, r1, s1)"
    "at_store r1 s1" "base s1 = base s" "view s1 = view s" "same_setup r r1" "\<not> m_in_callback r1"
    "p_mask r \<noteq> gs_full_mask \<longrightarrow> captured_txn_data r1 = bytes_of ?old"
    using port_pre_ok[OF st rel[of txn] _ f(1-3), of d] w by auto
  let ?t1 = "txn\<lparr>gp_dmi_allowed := False\<rparr>"
  have c1: "do_callbacks (reg_sockets port f) rr txn d (s, r) = Inr (True, ?t1, d1, s1, r1)"
    using one_callback[OF R(4,5) call_reg[OF R(6,8,7) p1(1)]] by simp
  \<comment> \<open>the memory\<close>
  have i1: "inv s1" using at_storeD(1)[OF p1(2)] .
  obtain d2 da s2 where p2: "rp_b_transport port ?t1 d1 s1
      = Inr (?t1\<lparr>gp_response := Ok_response, gp_dmi_allowed := da\<rparr>, d2, [], s2)"
    "inv s2" "view s2 = put_bytes (unat ?a) (gp_data txn) (view s)" "base s2 = base s1"
    using write_law[OF i1, of ?t1 d1] w ew(3) p1(4) by auto
  let ?t2 = "?t1\<lparr>gp_response := Ok_response, gp_dmi_allowed := da\<rparr>"
  have c2: "call_target (reg_sockets port f) mt ?a ?t1 d1 (s1, r1) = Inr (?t2, d2, s2, r1)"
    by (rule call_mem[OF R(2,3) _ p2(1)]) simp_all
  have st2: "at_store r1 s2" using p1(2) p2(2,4) by (simp add: at_store_def)
  \<comment> \<open>after the memory\<close>
  have o: "p_offset r1 = p_offset r" "p_mask r1 = p_mask r" using p1(5) by (simp_all add: same_setup_def)
  have tx2: "reg_write_txn r1 idx k (?t2\<lparr>gp_address := ?a - p_offset r\<rparr>)"
    using rel[of ?t2] w p1(5) by (simp add: reg_write_txn_def same_setup_def)
  obtain d3 r3 s3 where p3: "reg_b_transport port f (?t2\<lparr>gp_address := ?a - p_offset r\<rparr>) d2 r1 s2
      = Inr (?t2\<lparr>gp_address := ?a - p_offset r, gp_data := bytes_of ws, gp_dmi_allowed := False\<rparr>, d3, r3, s3)"
    "at_store r3 s3" "same_setup r1 r3"
    "view s3 = (if p_mask r1 = gs_full_mask then view s2 else put_elems r1 (unat idx) ws (view s2))"
    using port_post_ok[OF st2 tx2 _ f(1) p1(6) f(4), of ?old d2] p1(7) by (auto simp: ws_def o)
  have c3: "do_callbacks (reg_sockets port f) rr ?t2 d2 (s2, r1)
      = Inr (True, ?t2\<lparr>gp_data := bytes_of ws, gp_dmi_allowed := False\<rparr>, d3, s3, r3)"
    using one_callback[of ?t2 rr t "reg_sockets port f" d2 "(s2, r1)"] R(4,5) call_reg[OF R(6,8,7) p3(1)] by simp
  have "put_elems r1 (unat idx) ws g = put_elems r (unat idx) ws g" for g
    using p1(5) by (rule same_setup_put)
  moreover have "ws = words_of k (gp_data txn)" if "p_mask r = gs_full_mask"
    using that write_with_full_mask[of "words_of k (gp_data txn)" ?old] by (simp add: ws_def)
  ultimately have "view s3 = put_elems r (unat idx) ws (view s)"
    using p3(4) p2(3) ew(1,2) o by auto
  moreover have "same_setup r r3" using p1(5) p3(3) by (simp add: same_setup_def)
  ultimately show ?thesis
    using dec c1 c2 c3 w(2) R(5) p3(2) by (auto simp: rr_b_transport_def pre_b_transport_def)
qed

end

lemma elem_val_put_elems:
  fixes p :: "('a::len word, 'b) proxy_scheme"
  assumes "reg_ok n base p" "j < length ws"
  shows "elem_val p (put_elems p i ws f) (i + j) = ws ! j"
  using assms(2)
proof (induction ws arbitrary: i j f)
  case (Cons w ws)
  have d: "8 dvd LENGTH('a)" using assms(1) by (simp add: reg_ok_def)
  show ?case
  proof (cases j)
    case 0
    have "elem_val p (put_elems p i (w # ws) f) i
        = of_bytes (bytes_at (put_bytes (elem_addr p i) (to_bytes w) (put_elems p (Suc i) ws f)) (elem_addr p i) (length (to_bytes w)))"
      using put_elems_swap[OF assms(1), of i "Suc i" ws w f] by (simp add: elem_val_def)
    then show ?thesis using 0 by (simp only: bytes_at_put of_to_bytes[OF d]) simp
  next
    case (Suc j')
    then show ?thesis using Cons.IH[of j' "Suc i" "put_bytes (elem_addr p i) (to_bytes w) f"] Cons.prems by simp
  qed
qed simp

lemma put_elems_outside:
  fixes p :: "('a::len word, 'b) proxy_scheme"
  assumes "\<forall>j < length ws. a < elem_addr p (i + j) \<or> elem_addr p (i + j) + sizeof TYPE('a) \<le> a"
  shows "put_elems p i ws f a = f a"
  using assms
proof (induction ws arbitrary: i f)
  case (Cons w ws)
  have "put_bytes (elem_addr p i) (to_bytes w) f a = f a"
    using Cons.prems[rule_format, of 0] by (auto simp: put_bytes_def)
  moreover have "\<forall>j < length ws. a < elem_addr p (Suc i + j) \<or> elem_addr p (Suc i + j) + sizeof TYPE('a) \<le> a"
    using Cons.prems by (metis Suc_less_eq add_Suc add_Suc_right length_Cons)
  ultimately show ?case using Cons.IH by simp
qed simp

end
