(* ===== verification/GsMemory.thy ===== *)
theory GsMemory
  imports Tlm CciUtils "HOL-Library.Multiset"
begin

text \<open>
  \<^verbatim>\<open>gs_memory/include/gs_memory.h\<close>: a memory whose storage is allocated on first use, as one block or,
  when the block would be too large, as a tree of blocks each divided in four.

  Host memory is explicit: \<open>host\<close> holds the bytes and the allocated ranges, and a block refers to
  its bytes by a host pointer, so that accesses through a direct memory pointer and through
  \<^verbatim>\<open>b_transport\<close> act on the same bytes. The allocator (\<^verbatim>\<open>MemoryServices\<close>: anonymous memory, mapped
  files, shared memory) belongs to the operating system; it is a parameter, with the properties
  \<open>services_ok\<close> that its documentation gives: a non-null result is a range that does not wrap
  around and is disjoint from every range handed out before, and nothing else is written.
\<close>

section \<open>Host memory and configuration\<close>

record host =
  h_mem :: "u64 \<Rightarrow> u8"
  h_allocs :: "(u64 \<times> u64) list"

record mem_services =
  ms_map_file :: "string \<Rightarrow> u64 \<Rightarrow> u64 \<Rightarrow> host \<Rightarrow> u64 \<times> host"
  ms_map_mem_create :: "u64 \<Rightarrow> host \<Rightarrow> u64 \<times> host"
  ms_alloc :: "u64 \<Rightarrow> host \<Rightarrow> u64 \<times> bool \<times> host"

record mem_cfg =
  p_rom :: bool
  p_dmi :: bool
  p_latency :: u64
  p_mapfile :: string
  p_max_block_size :: u64
  p_min_block_size :: u64
  p_shmem :: bool
  p_init_mem :: bool
  p_init_mem_val :: u8

section \<open>Blocks\<close>

datatype sub_block =
  SubBlock (sb_len: u64) (sb_address: u64) (sb_ptr: u64) (sb_use_sub_blocks: bool)
    (sb_mapped: bool) (sb_aligned: bool) (sb_subs: "sub_block option list")

definition mk_sub_block :: "u64 \<Rightarrow> u64 \<Rightarrow> sub_block" where
  "mk_sub_block address len = SubBlock len address 0 False False False [None, None, None, None]"

definition host_memset :: "u64 \<Rightarrow> u8 \<Rightarrow> u64 \<Rightarrow> host \<Rightarrow> host" where
  "host_memset p v n h = h\<lparr>h_mem := (\<lambda>a. if a - p < n then v else h_mem h a)\<rparr>"

text \<open>
  The part of \<^verbatim>\<open>access\<close> that obtains storage for the block: the file mapping first, then shared
  memory, then plain memory, which alone is initialized. \<open>None\<close>: no storage.
\<close>

definition obtain_storage :: "mem_services \<Rightarrow> mem_cfg \<Rightarrow> u64 \<Rightarrow> u64 \<Rightarrow> host \<Rightarrow> (u64 \<times> bool \<times> bool) option \<times> host" where
  "obtain_storage ms cfg len address h =
     (let (p1, h1) = (if p_mapfile cfg \<noteq> [] then ms_map_file ms (p_mapfile cfg) len address h else (0, h))
      in if p1 \<noteq> 0 then (Some (p1, True, False), h1)
         else
           let (p2, h2) = (if p_shmem cfg then ms_map_mem_create ms len h1 else (0, h1))
           in if p2 \<noteq> 0 then (Some (p2, True, False), h2)
              else
                let (p3, al, h3) = ms_alloc ms len h2
                in if p3 \<noteq> 0
                   then (Some (p3, False, al), if p_init_mem cfg then host_memset p3 (p_init_mem_val cfg) len h3 else h3)
                   else (None, h3))"

text \<open>
  \<^verbatim>\<open>SubBlock::access\<close>, by fuel: the length shrinks by a factor of four at every level, so that 33 levels
  are enough for 64-bit lengths. Result: the block that holds the address, the updated tree, the host.
\<close>

fun access :: "nat \<Rightarrow> mem_services \<Rightarrow> mem_cfg \<Rightarrow> u64 \<Rightarrow> sub_block \<Rightarrow> host \<Rightarrow>
    (sub_block \<times> sub_block \<times> host) res" where
  "access 0 ms cfg a b h = Inl No_return"
| "access (Suc n) ms cfg a (SubBlock len address p use_sub mapped aligned subs) h =
     (if p \<noteq> 0 \<and> \<not> use_sub then
        assert_res (a \<ge> address)
          (let b = SubBlock len address p use_sub mapped aligned subs in Inr (b, b, h))
      else
        let use1 = (use_sub \<or> len > p_max_block_size cfg);
            (storage, h1) = (if use1 then (None, h) else obtain_storage ms cfg len address h)
        in case storage of
             Some (q, mp, al) \<Rightarrow>
               (let b = SubBlock len address q use1 mp al subs in Inr (b, b, h1))
           | None \<Rightarrow>
               if len < p_min_block_size cfg then Inl Fatal
               else assert_res (len AND 3 = 0)
                 (let sub_size = drop_bit 2 len
                  in if sub_size = 0 then Inl Div_by_zero
                     else
                       let i = ucast ((a - address) div sub_size) :: u32
                       in if i \<ge> 4 then Inl Out_of_bounds
                          else
                            let child = (case subs ! unat i of
                                           Some c \<Rightarrow> c
                                         | None \<Rightarrow> mk_sub_block (ucast i * sub_size + address) sub_size)
                            in bind_res (access n ms cfg a child h1) (\<lambda>(leaf, c1, h2).
                                 Inr (leaf, SubBlock len address p True mapped aligned (subs[unat i := Some c1]), h2))))"

definition remaining_in_block :: "sub_block \<Rightarrow> u64 \<Rightarrow> u64 \<Rightarrow> u64" where
  "remaining_in_block b offset len =
     (let block_len = sb_len b - (offset - sb_address b) in if len < block_len then len else block_len)"

text \<open>\<^verbatim>\<open>memcpy\<close> from and to host memory.\<close>

definition host_read :: "u64 \<Rightarrow> nat \<Rightarrow> host \<Rightarrow> u8 list" where
  "host_read p n h = map (\<lambda>i. h_mem h (p + of_nat i)) [0..<n]"

fun host_write :: "u64 \<Rightarrow> u8 list \<Rightarrow> host \<Rightarrow> host" where
  "host_write p [] h = h"
| "host_write p (x # xs) h = host_write (p + 1) xs (h\<lparr>h_mem := (h_mem h)(p := x)\<rparr>)"

definition read_sub_blocks :: "sub_block \<Rightarrow> u64 \<Rightarrow> u64 \<Rightarrow> host \<Rightarrow> u8 list" where
  "read_sub_blocks b offset len h =
     host_read (sb_ptr b + (offset - sb_address b)) (unat (remaining_in_block b offset len)) h"

definition write_sub_blocks :: "sub_block \<Rightarrow> u8 list \<Rightarrow> u64 \<Rightarrow> u64 \<Rightarrow> host \<Rightarrow> host" where
  "write_sub_blocks b data offset len h =
     host_write (sb_ptr b + (offset - sb_address b)) (take (unat (remaining_in_block b offset len)) data) h"

text \<open>
  \<^verbatim>\<open>doreset\<close>, with the bound of the loop in the source: the first N = 2 entries of the array of
  1 << N = 4 sub-blocks.
\<close>

lemma sub_block_size_take [termination_simp]:
  assumes "Some c \<in> set (take n subs)"
  shows "size c < Suc (size_list (size_option size) subs)"
proof -
  have "Some c \<in> set subs"
    using assms by (rule in_set_takeD)
  then have "size_option size (Some c) \<le> size_list (size_option size) subs"
    using size_list_estimation'[of "Some c" subs "size_option size (Some c)" "size_option size"] by simp
  then show ?thesis
    by simp
qed

fun sb_doreset :: "mem_cfg \<Rightarrow> sub_block \<Rightarrow> host \<Rightarrow> host" where
  "sb_doreset cfg (SubBlock len address p use_sub mapped aligned subs) h =
     (let h1 = fold (\<lambda>x h. case x of None \<Rightarrow> h | Some c \<Rightarrow> sb_doreset cfg c h) (take 2 subs) h
      in if p_init_mem cfg \<and> p \<noteq> 0 then host_memset p (p_init_mem_val cfg) len h1 else h1)"

section \<open>The memory\<close>

record gs_memory =
  mem_size :: u64
  mem_address :: u64
  mem_address_valid :: bool
  mem_relative :: bool
  mem_sub_block :: "sub_block option"

definition mem_new :: gs_memory where
  "mem_new = \<lparr>mem_size = 0, mem_address = 0, mem_address_valid = False, mem_relative = False, mem_sub_block = None\<rparr>"

text \<open>The constructor: a size given there is a preset unless the configuration has one.\<close>

definition mem_construct :: "string \<Rightarrow> u64 \<Rightarrow> cci_broker \<Rightarrow> cci_broker \<times> gs_memory" where
  "mem_construct nm sz b =
     (let n = nm @ ''.target_socket'' @ ''.size''
      in (if sz \<noteq> 0 \<and> \<not> has_preset_value b n then b\<lparr>br_preset := (br_preset b)(n \<mapsto> Cci_num (unat sz))\<rparr> else b, mem_new))"

definition alias_name :: "string \<Rightarrow> string" where
  "alias_name s = (case s of c # cs \<Rightarrow> if c = CHR ''&'' then cs @ ''.target_socket'' else s | [] \<Rightarrow> s)"

definition mem_config_size :: "cci_broker \<Rightarrow> string \<Rightarrow> gs_memory \<Rightarrow> gs_memory res" where
  "mem_config_size b nm m =
     (if mem_size m \<noteq> 0 then Inr m
      else
        let ts = nm @ ''.target_socket'';
            ts1 = (case cci_get_opt try_get_string b (ts @ ''.0'') of
                     None \<Rightarrow> ts
                   | Some al \<Rightarrow>
                       if has_preset_value b (ts @ ''.size'') \<and> is_number (get_preset_cci_value b (ts @ ''.size''))
                       then ts else alias_name al)
        in bind_res (cci_get_T try_get_u64 b (ts1 @ ''.size'')) (\<lambda>sz. Inr (m\<lparr>mem_size := sz\<rparr>)))"

definition mem_config_base :: "cci_broker \<Rightarrow> string \<Rightarrow> gs_memory \<Rightarrow> gs_memory res" where
  "mem_config_base b nm m =
     (if mem_address_valid m then Inr m
      else
        let ts = nm @ ''.target_socket'';
            ts1 = (case cci_get_opt try_get_string b (ts @ ''.0'') of
                     None \<Rightarrow> ts
                   | Some al \<Rightarrow>
                       if cci_get_opt try_get_u64 b (ts @ ''.address'') \<noteq> None then ts else alias_name al)
        in bind_res
             (if \<not> has_preset_value b (ts1 @ ''.address'') then Inr 0
              else cci_get_T try_get_u64 b (ts1 @ ''.address''))
             (\<lambda>a. Inr (m\<lparr>mem_address := a, mem_address_valid := True\<rparr>)))"

definition mem_before_end_of_elaboration :: "cci_broker \<Rightarrow> string \<Rightarrow> gs_memory \<Rightarrow> gs_memory res" where
  "mem_before_end_of_elaboration b nm m =
     (case mem_sub_block m of
        Some _ \<Rightarrow> Inr m
      | None \<Rightarrow>
          bind_res (mem_config_base b nm m) (\<lambda>m1.
          bind_res (mem_config_size b nm m1) (\<lambda>m2.
            Inr (m2\<lparr>mem_sub_block := Some (mk_sub_block 0 (mem_size m2)),
                    mem_relative := cci_get_d try_get_bool b (nm @ ''.target_socket.relative_addresses'') True\<rparr>))))"

definition access_fuel :: nat where
  "access_fuel = 33"

text \<open>The loops of \<^verbatim>\<open>read\<close> and \<^verbatim>\<open>write\<close>; every round moves at least one byte.\<close>

fun read_loop :: "nat \<Rightarrow> mem_services \<Rightarrow> mem_cfg \<Rightarrow> u64 \<Rightarrow> u64 \<Rightarrow> sub_block \<Rightarrow> host \<Rightarrow>
    (u8 list \<times> sub_block \<times> host) res" where
  "read_loop n ms cfg offset len b h =
     (if len = 0 then Inr ([], b, h)
      else case n of
          0 \<Rightarrow> Inl No_return
        | Suc n1 \<Rightarrow>
            bind_res (access access_fuel ms cfg offset b h) (\<lambda>(leaf, b1, h1).
              let r = remaining_in_block leaf offset len
              in bind_res (read_loop n1 ms cfg (offset + r) (len - r) b1 h1) (\<lambda>(xs, b2, h2).
                   Inr (read_sub_blocks leaf offset len h1 @ xs, b2, h2))))"

fun write_loop :: "nat \<Rightarrow> mem_services \<Rightarrow> mem_cfg \<Rightarrow> u8 list \<Rightarrow> u64 \<Rightarrow> u64 \<Rightarrow> sub_block \<Rightarrow> host \<Rightarrow>
    (sub_block \<times> host) res" where
  "write_loop n ms cfg data offset len b h =
     (if len = 0 then Inr (b, h)
      else case n of
          0 \<Rightarrow> Inl No_return
        | Suc n1 \<Rightarrow>
            bind_res (access access_fuel ms cfg offset b h) (\<lambda>(leaf, b1, h1).
              let r = remaining_in_block leaf offset len
              in write_loop n1 ms cfg (drop (unat r) data) (offset + r) (len - r) b1
                   (write_sub_blocks leaf data offset len h1)))"

text \<open>The environment of a memory: its services, configuration, broker and module name.\<close>

record mem_env =
  me_services :: mem_services
  me_cfg :: mem_cfg
  me_broker :: cci_broker
  me_name :: string

definition mem_read :: "mem_env \<Rightarrow> u64 \<Rightarrow> u64 \<Rightarrow> gs_memory \<Rightarrow> host \<Rightarrow>
    (u8 list option \<times> gs_memory \<times> host) res" where
  "mem_read env offset len m h =
     bind_res (mem_before_end_of_elaboration (me_broker env) (me_name env) m) (\<lambda>m1.
       if offset + len > mem_size m1 then Inr (None, m1, h)
       else bind_res (read_loop (unat len) (me_services env) (me_cfg env) offset len (the (mem_sub_block m1)) h)
         (\<lambda>(xs, b, h1). Inr (Some xs, m1\<lparr>mem_sub_block := Some b\<rparr>, h1)))"

definition mem_write :: "mem_env \<Rightarrow> u8 list \<Rightarrow> u64 \<Rightarrow> u64 \<Rightarrow> gs_memory \<Rightarrow> host \<Rightarrow>
    (bool \<times> gs_memory \<times> host) res" where
  "mem_write env data offset len m h =
     bind_res (mem_before_end_of_elaboration (me_broker env) (me_name env) m) (\<lambda>m1.
       if offset + len > mem_size m1 then Inr (False, m1, h)
       else bind_res (write_loop (unat len) (me_services env) (me_cfg env) data offset len (the (mem_sub_block m1)) h)
         (\<lambda>(b, h1). Inr (True, m1\<lparr>mem_sub_block := Some b\<rparr>, h1)))"

text \<open>The byte-enable loops of \<^verbatim>\<open>b_transport\<close>: the indices still to do, the data buffer.\<close>

definition byte_enabled :: "u8 list \<Rightarrow> u32 \<Rightarrow> nat \<Rightarrow> bool res" where
  "byte_enabled byt bel i =
     (if bel = 0 then Inl Div_by_zero
      else if i mod unat bel \<ge> length byt then Inl Out_of_bounds
      else Inr (byt ! (i mod unat bel) = 0xff))"

fun be_read_loop :: "mem_env \<Rightarrow> u8 list \<Rightarrow> u32 \<Rightarrow> u64 \<Rightarrow> nat list \<Rightarrow> u8 list \<Rightarrow> gs_memory \<Rightarrow> host \<Rightarrow>
    (u8 list \<times> gs_memory \<times> host) res" where
  "be_read_loop env byt bel addr [] data m h = Inr (data, m, h)"
| "be_read_loop env byt bel addr (i # js) data m h =
     bind_res (byte_enabled byt bel i) (\<lambda>en.
       if en then
         if i \<ge> length data then Inl Out_of_bounds
         else bind_res (mem_read env (addr + of_nat i) 1 m h) (\<lambda>(r, m1, h1).
           case r of
             None \<Rightarrow> Inl Fatal
           | Some xs \<Rightarrow> be_read_loop env byt bel addr js (data[i := hd xs]) m1 h1)
       else be_read_loop env byt bel addr js data m h)"

fun be_write_loop :: "mem_env \<Rightarrow> u8 list \<Rightarrow> u32 \<Rightarrow> u64 \<Rightarrow> nat list \<Rightarrow> u8 list \<Rightarrow> gs_memory \<Rightarrow> host \<Rightarrow>
    (gs_memory \<times> host) res" where
  "be_write_loop env byt bel addr [] data m h = Inr (m, h)"
| "be_write_loop env byt bel addr (i # js) data m h =
     bind_res (byte_enabled byt bel i) (\<lambda>en.
       if en then
         if i \<ge> length data then Inl Out_of_bounds
         else bind_res (mem_write env [data ! i] (addr + of_nat i) 1 m h) (\<lambda>(ok, m1, h1).
           if ok then be_write_loop env byt bel addr js data m1 h1 else Inl Fatal)
       else be_write_loop env byt bel addr js data m h)"

text \<open>The body of the switch of \<^verbatim>\<open>b_transport\<close>. Result: the data buffer, the memory, the host.\<close>

definition mem_do_read :: "mem_env \<Rightarrow> gp \<Rightarrow> u64 \<Rightarrow> gs_memory \<Rightarrow> host \<Rightarrow> (u8 list \<times> gs_memory \<times> host) res" where
  "mem_do_read env g addr m h =
     (let len = gp_length g; data = gp_data g
      in case gp_byte_enable g of
           Some byt \<Rightarrow> be_read_loop env byt (gp_byte_enable_length g) addr [0..<unat len] data m h
         | None \<Rightarrow>
             if length data < unat len then Inl Out_of_bounds
             else bind_res (mem_read env addr (ucast len) m h) (\<lambda>(r, m1, h1).
               case r of None \<Rightarrow> Inl Fatal | Some xs \<Rightarrow> Inr (xs @ drop (unat len) data, m1, h1)))"

definition mem_do_write :: "mem_env \<Rightarrow> gp \<Rightarrow> u64 \<Rightarrow> gs_memory \<Rightarrow> host \<Rightarrow> (gs_memory \<times> host) res" where
  "mem_do_write env g addr m h =
     (let len = gp_length g; data = gp_data g
      in case gp_byte_enable g of
           Some byt \<Rightarrow> be_write_loop env byt (gp_byte_enable_length g) addr [0..<unat len] data m h
         | None \<Rightarrow>
             if length data < unat len then Inl Out_of_bounds
             else bind_res (mem_write env data addr (ucast len) m h) (\<lambda>(ok, m1, h1).
               if ok then Inr (m1, h1) else Inl Fatal))"

text \<open>The address inside the memory; \<open>None\<close>: below the base of a memory that sees absolute addresses.\<close>

definition mem_local_addr :: "gs_memory \<Rightarrow> u64 \<Rightarrow> u64 option" where
  "mem_local_addr m a =
     (if mem_relative m then Some a else if a < mem_address m then None else Some (a - mem_address m))"

definition mem_complete :: "mem_env \<Rightarrow> gp \<Rightarrow> u64 \<Rightarrow> gp \<times> u64" where
  "mem_complete env g delay =
     (g\<lparr>gp_response := Ok_response, gp_dmi_allowed := (p_dmi (me_cfg env) \<or> gp_dmi_allowed g)\<rparr>,
      delay + p_latency (me_cfg env))"

definition mem_b_transport :: "mem_env \<Rightarrow> gp \<Rightarrow> u64 \<Rightarrow> gs_memory \<Rightarrow> host \<Rightarrow>
    (gp \<times> u64 \<times> gs_memory \<times> host) res" where
  "mem_b_transport env g delay m h =
     (if gp_streaming_width g < gp_length g then Inl Fatal
      else case mem_local_addr m (gp_address g) of
          None \<Rightarrow> Inr (g\<lparr>gp_response := Address_error_response\<rparr>, delay, m, h)
        | Some addr \<Rightarrow>
            if addr + ucast (gp_length g) > mem_size m
            then Inr (g\<lparr>gp_response := Address_error_response\<rparr>, delay, m, h)
            else case gp_command g of
                Read_command \<Rightarrow>
                  bind_res (mem_do_read env g addr m h) (\<lambda>(data, m1, h1).
                    let (g1, d1) = mem_complete env (g\<lparr>gp_data := data\<rparr>) delay in Inr (g1, d1, m1, h1))
              | Write_command \<Rightarrow>
                  if p_rom (me_cfg env)
                  then Inr (g\<lparr>gp_response := Command_error_response\<rparr>, delay, m, h)
                  else bind_res (mem_do_write env g addr m h) (\<lambda>(m1, h1).
                    let (g1, d1) = mem_complete env g delay in Inr (g1, d1, m1, h1))
              | Ignore_command \<Rightarrow> Inl Fatal)"

definition mem_transport_dbg :: "mem_env \<Rightarrow> gp \<Rightarrow> gs_memory \<Rightarrow> host \<Rightarrow> (u32 \<times> gp \<times> gs_memory \<times> host) res" where
  "mem_transport_dbg env g m h =
     bind_res (mem_b_transport env g 0 m h) (\<lambda>(g1, d1, m1, h1).
       Inr (if gp_response g1 = Ok_response then gp_length g else 0, g1, m1, h1))"

definition mem_get_direct_mem_ptr :: "mem_env \<Rightarrow> gp \<Rightarrow> tlm_dmi \<Rightarrow> gs_memory \<Rightarrow> host \<Rightarrow>
    (bool \<times> gp \<times> tlm_dmi \<times> gs_memory \<times> host) res" where
  "mem_get_direct_mem_ptr env g dmi m h =
     (if \<not> p_dmi (me_cfg env) then Inr (False, g, dmi, m, h)
      else case mem_local_addr m (gp_address g) of
          None \<Rightarrow> Inr (False, g\<lparr>gp_response := Address_error_response\<rparr>, dmi, m, h)
        | Some addr \<Rightarrow>
            if addr \<ge> mem_size m
            then Inr (False, g\<lparr>gp_response := Address_error_response\<rparr>, dmi, m, h)
            else case mem_sub_block m of
                None \<Rightarrow> Inl Null_pointer
              | Some b \<Rightarrow>
                  bind_res (access access_fuel (me_services env) (me_cfg env) addr b h) (\<lambda>(blk, b1, h1).
                    let start = (if mem_relative m then sb_address blk else sb_address blk + mem_address m)
                    in Inr (True, g,
                         dmi\<lparr>dmi_read := True, dmi_write := \<not> p_rom (me_cfg env), dmi_ptr := sb_ptr blk,
                             dmi_start := start, dmi_end := (start + sb_len blk) - 1,
                             dmi_read_latency := p_latency (me_cfg env),
                             dmi_write_latency := p_latency (me_cfg env)\<rparr>,
                         m\<lparr>mem_sub_block := Some b1\<rparr>, h1)))"

text \<open>
  The reset callback. Reloading the images (\<^verbatim>\<open>load.doreset\<close>) is the business of the loader, a parameter
  here.
\<close>

definition mem_reset :: "mem_env \<Rightarrow> (gs_memory \<Rightarrow> host \<Rightarrow> (gs_memory \<times> host) res) \<Rightarrow> bool \<Rightarrow>
    gs_memory \<Rightarrow> host \<Rightarrow> (gs_memory \<times> host) res" where
  "mem_reset env reload v m h =
     (if v then
        case mem_sub_block m of
          None \<Rightarrow> Inl Null_pointer
        | Some b \<Rightarrow> reload m (sb_doreset (me_cfg env) b h)
      else Inr (m, h))"

section \<open>What the allocator promises\<close>

definition disjoint_ranges :: "u64 \<Rightarrow> u64 \<Rightarrow> u64 \<Rightarrow> u64 \<Rightarrow> bool" where
  "disjoint_ranges p n q m \<longleftrightarrow> unat p + unat n \<le> unat q \<or> unat q + unat m \<le> unat p"

text \<open>
  The outcome \<open>p\<close>, \<open>h'\<close> of a request for \<open>len\<close> bytes in the host state \<open>h\<close>: nothing happened, or a
  fresh range is handed out and nothing outside it is written. \<open>room\<close> measures what the host can still
  give.
\<close>

definition storage_ok :: "((u64 \<times> u64) list \<Rightarrow> nat) \<Rightarrow> u64 \<Rightarrow> host \<Rightarrow> u64 \<Rightarrow> host \<Rightarrow> bool" where
  "storage_ok room len h p h' \<longleftrightarrow>
     (if p = 0 then h' = h
      else unat p + unat len \<le> 2 ^ 64 \<and>
        (\<forall>(q, n) \<in> set (h_allocs h). disjoint_ranges p len q n) \<and>
        h_allocs h' = (p, len) # h_allocs h \<and>
        (\<forall>a. \<not> (p \<le> a \<and> a - p < len) \<longrightarrow> h_mem h' a = h_mem h a) \<and>
        room (h_allocs h) \<le> room (h_allocs h') + unat len)"

definition services_ok :: "((u64 \<times> u64) list \<Rightarrow> nat) \<Rightarrow> mem_services \<Rightarrow> bool" where
  "services_ok room ms \<longleftrightarrow>
     (\<forall>f len off h. len \<noteq> 0 \<longrightarrow> (case ms_map_file ms f len off h of (p, h') \<Rightarrow> storage_ok room len h p h')) \<and>
     (\<forall>len h. len \<noteq> 0 \<longrightarrow> (case ms_map_mem_create ms len h of (p, h') \<Rightarrow> storage_ok room len h p h')) \<and>
     (\<forall>len h. len \<noteq> 0 \<longrightarrow> (case ms_alloc ms len h of (p, al, h') \<Rightarrow>
        storage_ok room len h p h' \<and> (unat len \<le> room (h_allocs h) \<longrightarrow> p \<noteq> 0)))"

lemma storage_ok_memset:
  assumes "storage_ok room len h p h'" "p \<noteq> 0"
  shows "storage_ok room len h p (host_memset p v len h')"
proof -
  have "a - p < len \<longrightarrow> p \<le> a" if "unat p + unat len \<le> 2 ^ 64" for a
    using that by (auto simp: word_less_nat_alt word_le_nat_alt unat_sub_if' split: if_splits)
  then show ?thesis
    using assms by (auto simp: storage_ok_def host_memset_def)
qed

lemma obtain_storage_ok:
  assumes "services_ok room ms" "len \<noteq> 0" "unat len \<le> room (h_allocs h)"
  shows "\<exists>p mp al h'. obtain_storage ms cfg len address h = (Some (p, mp, al), h') \<and> p \<noteq> 0 \<and> storage_ok room len h p h'"
proof -
  obtain p1 h1 where 1: "(if p_mapfile cfg \<noteq> [] then ms_map_file ms (p_mapfile cfg) len address h else (0, h)) = (p1, h1)"
    by fastforce
  obtain p2 h2 where 2: "(if p_shmem cfg then ms_map_mem_create ms len h1 else (0, h1)) = (p2, h2)"
    by fastforce
  obtain p3 al h3 where 3: "ms_alloc ms len h2 = (p3, al, h3)"
    by (cases "ms_alloc ms len h2") auto
  have s1: "storage_ok room len h p1 h1"
    using assms(1,2) 1 unfolding services_ok_def by (auto split: if_splits prod.splits simp: storage_ok_def[of _ _ _ 0])
  have s2: "storage_ok room len h1 p2 h2"
    using assms(1,2) 2 unfolding services_ok_def by (auto split: if_splits prod.splits simp: storage_ok_def[of _ _ _ 0])
  have s3: "storage_ok room len h2 p3 h3 \<and> (unat len \<le> room (h_allocs h2) \<longrightarrow> p3 \<noteq> 0)"
    using assms(1,2) 3 unfolding services_ok_def by (metis (mono_tags, lifting) case_prod_conv)
  consider "p1 \<noteq> 0" | "p1 = 0" "p2 \<noteq> 0" | "p1 = 0" "p2 = 0" by blast
  then show ?thesis
  proof cases
    case 1 then show ?thesis using s1 \<open>_ = (p1, h1)\<close> by (auto simp: obtain_storage_def Let_def)
  next
    case 2
    then have "h1 = h" using s1 by (simp add: storage_ok_def)
    with 2 show ?thesis using s2 \<open>_ = (p1, h1)\<close> \<open>_ = (p2, h2)\<close> by (auto simp: obtain_storage_def Let_def)
  next
    case 3
    then have "h2 = h" using s1 s2 by (simp add: storage_ok_def)
    with 3 show ?thesis using s3 assms(3) \<open>_ = (p1, h1)\<close> \<open>_ = (p2, h2)\<close> \<open>_ = (p3, al, h3)\<close>
      by (auto simp: obtain_storage_def Let_def storage_ok_memset)
  qed
qed

section \<open>The tree as a set of allocated ranges\<close>

text \<open>The block sizes that can be divided down to the maximal block size.\<close>

function splittable :: "mem_cfg \<Rightarrow> u64 \<Rightarrow> bool" where
  "splittable cfg len =
     (if len = 0 then False
      else if len \<le> p_max_block_size cfg then True
      else p_min_block_size cfg \<le> len \<and> len AND 3 = 0 \<and> splittable cfg (drop_bit 2 len))"
  by pat_completeness auto

lemma unat_drop_bit2: "unat (drop_bit 2 (len :: u64)) = unat len div 4"
proof -
  have "drop_bit 2 len = len div 4"
    by (simp add: drop_bit_eq_div)
  then show ?thesis
    by (simp only: unat_div) simp
qed

termination splittable
  by (relation "measure (\<lambda>(cfg, len). unat len)")
     (auto simp: unat_drop_bit2 unat_gt_0 intro!: div_less_dividend)

declare splittable.simps [simp del]

primrec leaves :: "sub_block \<Rightarrow> (u64 \<times> u64 \<times> u64) list" where
  "leaves (SubBlock len address p u mp al subs) =
     (if p \<noteq> 0 \<and> \<not> u then [(address, len, p)]
      else concat (map (case_option [] id) (map (map_option leaves) subs)))"

text \<open>Well-formed blocks: a block is divided exactly when it exceeds the maximal size.\<close>

primrec block_wf :: "mem_cfg \<Rightarrow> sub_block \<Rightarrow> bool" where
  "block_wf cfg (SubBlock len address p u mp al subs) \<longleftrightarrow>
     splittable cfg len \<and> unat address + unat len \<le> 2 ^ 64 \<and> length subs = 4 \<and>
     (u \<longrightarrow> p = 0 \<and> p_max_block_size cfg < len) \<and>
     (\<not> u \<longrightarrow> subs = [None, None, None, None] \<and> (p \<noteq> 0 \<longrightarrow> len \<le> p_max_block_size cfg)) \<and>
     (\<forall>i < 4. \<forall>c. subs ! i = Some c \<longrightarrow>
        sb_len c = drop_bit 2 len \<and> sb_address c = of_nat i * drop_bit 2 len + address) \<and>
     (\<forall>x \<in> set (map (map_option (block_wf cfg)) subs). x \<noteq> Some False)"

lemma and_3_eq_0: "(len :: u64) AND 3 = 0 \<longleftrightarrow> unat len mod 4 = 0"
proof -
  have "len AND 3 = take_bit 2 len"
    by (simp add: take_bit_eq_mask mask_eq_exp_minus_1)
  moreover have "take_bit 2 len = len mod 4"
    by (simp add: take_bit_eq_mod)
  ultimately have "unat (len AND 3) = unat len mod unat (4 :: u64)"
    by (simp only: unat_mod)
  then show ?thesis
    by (simp add: unat_eq_0[symmetric])
qed

lemma split_position:
  assumes "unat address + unat len \<le> 2 ^ 64" "unat len mod 4 = 0" "i < 4"
  shows "unat (of_nat i * drop_bit 2 len + address :: u64) = unat address + i * (unat len div 4)"
proof -
  define q where "q = unat len div 4"
  have l: "unat len = 4 * q"
    using assms(2) by (auto simp: q_def)
  have "i * q \<le> 3 * q"
    using assms(3) by simp
  then have lt: "unat address + i * q < 2 ^ 64"
  proof (cases "q = 0")
    case True then show ?thesis using unsigned_less[of address] by simp
  next
    case False then show ?thesis using \<open>i * q \<le> 3 * q\<close> assms(1) l by linarith
  qed
  have "unat (of_nat i :: u64) = i"
    using assms(3) by (simp add: unat_of_nat)
  then have "unat (of_nat i * drop_bit 2 len :: u64) = i * q"
    using lt by (simp add: unat_word_ariths unat_drop_bit2 q_def[symmetric])
  then have "unat (of_nat i * drop_bit 2 len + address) = (i * q + unat address) mod 2 ^ 64"
    by (simp add: unat_word_ariths(1))
  then show ?thesis
    using lt unfolding q_def[symmetric] by (simp add: add.commute)
qed

definition sub_leaves :: "sub_block option \<Rightarrow> (u64 \<times> u64 \<times> u64) list" where
  "sub_leaves x = (case x of None \<Rightarrow> [] | Some c \<Rightarrow> leaves c)"

lemma leaves_divided: "\<not> (p \<noteq> 0 \<and> \<not> u) \<Longrightarrow> leaves (SubBlock len address p u mp al subs) = concat (map sub_leaves subs)"
  by (auto simp: sub_leaves_def comp_def intro!: arg_cong[where f = concat] split: option.splits)

lemma block_wf_child:
  assumes "block_wf cfg (SubBlock len address p u mp al subs)" "i < 4" "subs ! i = Some c"
  shows "block_wf cfg c \<and> sb_len c = drop_bit 2 len \<and> unat (sb_len c) = unat len div 4 \<and>
    unat (sb_address c) = unat address + i * (unat len div 4) \<and> unat len = 4 * (unat len div 4) \<and> u"
proof -
  have u: u
    using assms by (cases u) (auto simp: nth_Cons split: nat.splits)
  then have big: "p_max_block_size cfg < len"
    using assms(1) by simp
  have "splittable cfg len"
    using assms(1) by simp
  then have "unat len mod 4 = 0"
    using big by (subst (asm) splittable.simps) (auto simp: and_3_eq_0 split: if_splits)
  then have m: "unat len mod 4 = 0" "unat len = 4 * (unat len div 4)"
    by auto
  have "Some c \<in> set subs"
    using assms by (metis block_wf.simps nth_mem)
  then have "block_wf cfg c"
    using assms(1) by force
  then show ?thesis
    using assms m u split_position[of address len i] by (auto simp: unat_drop_bit2)
qed

lemma length_4E:
  assumes "length xs = 4"
  obtains a b c d where "xs = [a, b, c, d]"
  using assms by (auto simp: numeral_eq_Suc length_Suc_conv)

definition before :: "u64 \<times> u64 \<times> u64 \<Rightarrow> u64 \<times> u64 \<times> u64 \<Rightarrow> bool" where
  "before x y \<longleftrightarrow> unat (fst x) + unat (fst (snd x)) \<le> unat (fst y)"

definition leaf_within :: "nat \<Rightarrow> nat \<Rightarrow> u64 \<times> u64 \<times> u64 \<Rightarrow> bool" where
  "leaf_within lo hi x \<longleftrightarrow> lo \<le> unat (fst x) \<and> unat (fst x) + unat (fst (snd x)) \<le> hi \<and> fst (snd x) \<noteq> 0 \<and> snd (snd x) \<noteq> 0"

definition leaves_ok :: "nat \<Rightarrow> nat \<Rightarrow> (u64 \<times> u64 \<times> u64) list \<Rightarrow> bool" where
  "leaves_ok lo hi xs \<longleftrightarrow> sorted_wrt before xs \<and> (\<forall>x \<in> set xs. leaf_within lo hi x)"

lemma leaves_ok_append:
  assumes "leaves_ok lo mid xs" "leaves_ok mid hi ys" "lo \<le> mid" "mid \<le> hi"
  shows "leaves_ok lo hi (xs @ ys)"
  using assms by (fastforce simp: leaves_ok_def sorted_wrt_append before_def leaf_within_def)

lemma leaves_ok_mono:
  assumes "leaves_ok lo hi xs" "hi \<le> hi'"
  shows "leaves_ok lo hi' xs"
  using assms by (auto simp: leaves_ok_def leaf_within_def intro: le_trans)

lemma leaves_ok_block: "block_wf cfg b \<Longrightarrow> leaves_ok (unat (sb_address b)) (unat (sb_address b) + unat (sb_len b)) (leaves b)"
proof (induction b)
  case (SubBlock len address p u mp al subs)
  show ?case
  proof (cases "p \<noteq> 0 \<and> \<not> u")
    case True
    then show ?thesis
      using SubBlock.prems by (auto simp: leaves_ok_def leaf_within_def splittable.simps[of _ len])
  next
    case False
    define q where "q = unat len div 4"
    have slot: "leaves_ok (unat address + i * q) (unat address + i * q + q) (sub_leaves (subs ! i))" if "i < 4" for i
    proof (cases "subs ! i")
      case None then show ?thesis by (simp add: sub_leaves_def leaves_ok_def)
    next
      case (Some c)
      have "subs ! i \<in> set subs" using SubBlock.prems that by simp
      then show ?thesis
        using SubBlock.IH[of "subs ! i" c] block_wf_child[OF SubBlock.prems that Some] Some
        by (simp add: sub_leaves_def q_def unat_drop_bit2)
    qed
    obtain a b c d where s: "subs = [a, b, c, d]"
      using SubBlock.prems by (auto elim: length_4E)
    have l: "leaves_ok (unat address) (unat address + 4 * q) (sub_leaves a @ sub_leaves b @ sub_leaves c @ sub_leaves d)"
    proof -
      have 0: "leaves_ok (unat address) (unat address + q) (sub_leaves a)"
        and 1: "leaves_ok (unat address + q) (unat address + 2 * q) (sub_leaves b)"
        and 2: "leaves_ok (unat address + 2 * q) (unat address + 3 * q) (sub_leaves c)"
        and 3: "leaves_ok (unat address + 3 * q) (unat address + 4 * q) (sub_leaves d)"
        using slot[of 0] slot[of 1] slot[of 2] slot[of 3] unfolding s by (simp_all add: numeral_eq_Suc algebra_simps)
      show ?thesis
        by (rule leaves_ok_append[OF 0 leaves_ok_append[OF 1 leaves_ok_append[OF 2 3]]]) simp_all
    qed
    have "4 * q \<le> unat len" by (simp add: q_def)
    then have "leaves_ok (unat address) (unat address + unat len) (sub_leaves a @ sub_leaves b @ sub_leaves c @ sub_leaves d)"
      using leaves_ok_mono[OF l] by simp
    then show ?thesis
      unfolding leaves_divided[OF False] sub_block.sel s by simp
  qed
qed

definition allocated :: "sub_block \<Rightarrow> nat" where
  "allocated b = sum_list (map (\<lambda>x. unat (fst (snd x))) (leaves b))"

lemma leaves_ok_sum: "leaves_ok lo hi xs \<Longrightarrow> lo \<le> hi \<Longrightarrow> sum_list (map (\<lambda>x. unat (fst (snd x))) xs) \<le> hi - lo"
proof (induction xs arbitrary: lo)
  case (Cons x xs)
  let ?m = "unat (fst x) + unat (fst (snd x))"
  have "leaves_ok ?m hi xs" "?m \<le> hi" "lo \<le> unat (fst x)"
    using Cons.prems by (auto simp: leaves_ok_def before_def leaf_within_def)
  then show ?case
    using Cons.IH[of ?m] by simp
qed simp

lemma allocated_le: "block_wf cfg b \<Longrightarrow> allocated b \<le> unat (sb_len b)"
  using leaves_ok_sum[OF leaves_ok_block] by (fastforce simp: allocated_def)

lemma mk_sub_block_wf:
  assumes "splittable cfg len" "unat address + unat len \<le> 2 ^ 64"
  shows "block_wf cfg (mk_sub_block address len)" "leaves (mk_sub_block address len) = []"
  using assms by (auto simp: mk_sub_block_def nth_Cons split: nat.splits)

abbreviation leaf_sum :: "(u64 \<times> u64 \<times> u64) list \<Rightarrow> nat" where
  "leaf_sum xs \<equiv> sum_list (map (\<lambda>x. unat (fst (snd x))) xs)"

definition leaf_key :: "sub_block \<Rightarrow> u64 \<times> u64 \<times> u64" where
  "leaf_key b = (sb_address b, sb_len b, sb_ptr b)"

definition leaf_holds :: "u64 \<Rightarrow> u64 \<times> u64 \<times> u64 \<Rightarrow> bool" where
  "leaf_holds a x \<longleftrightarrow> unat (fst x) \<le> unat a \<and> unat a < unat (fst x) + unat (fst (snd x))"

definition access_post :: "mem_cfg \<Rightarrow> ((u64 \<times> u64) list \<Rightarrow> nat) \<Rightarrow> u64 \<Rightarrow> sub_block \<Rightarrow> host \<Rightarrow>
    sub_block \<Rightarrow> sub_block \<Rightarrow> host \<Rightarrow> bool" where
  "access_post cfg room a b h leaf b' h' \<longleftrightarrow>
     block_wf cfg b' \<and> sb_len b' = sb_len b \<and> sb_address b' = sb_address b \<and>
     leaf_key leaf \<in> set (leaves b') \<and> leaf_holds a (leaf_key leaf) \<and>
     (mset (leaves b') = mset (leaves b) \<and> h' = h \<or>
      mset (leaves b') = add_mset (leaf_key leaf) (mset (leaves b)) \<and> sb_ptr leaf \<noteq> 0 \<and>
        storage_ok room (sb_len leaf) h (sb_ptr leaf) h')"

lemma mset_concat_update:
  "i < length xs \<Longrightarrow> mset (concat (map f (xs[i := y]))) + mset (f (xs ! i)) = mset (concat (map f xs)) + mset (f y)"
proof (induction xs arbitrary: i)
  case (Cons x xs)
  then show ?case by (cases i) (auto simp: add.assoc add.left_commute add.commute)
qed simp

lemma sub_leaves_sum:
  assumes "block_wf cfg (SubBlock len address p u mp al subs)" "i < 4"
  shows "leaf_sum (sub_leaves (subs ! i)) \<le> unat len div 4"
proof (cases "subs ! i")
  case (Some c)
  then show ?thesis
    using block_wf_child[OF assms Some] allocated_le[of cfg c] by (simp add: sub_leaves_def allocated_def unat_drop_bit2)
qed (simp add: sub_leaves_def)

lemma allocated_child:
  assumes "block_wf cfg (SubBlock len address p u mp al subs)" "\<not> (p \<noteq> 0 \<and> \<not> u)" "i < 4"
  shows "allocated (SubBlock len address p u mp al subs) \<le> leaf_sum (sub_leaves (subs ! i)) + 3 * (unat len div 4)"
proof -
  obtain a b c d where s: "subs = [a, b, c, d]"
    using assms(1) by (auto elim: length_4E)
  have "i = 0 \<or> i = 1 \<or> i = 2 \<or> i = 3"
    using assms(3) by auto
  moreover have "leaf_sum (sub_leaves a) \<le> unat len div 4" "leaf_sum (sub_leaves b) \<le> unat len div 4"
    "leaf_sum (sub_leaves c) \<le> unat len div 4" "leaf_sum (sub_leaves d) \<le> unat len div 4"
    using sub_leaves_sum[OF assms(1), of 0] sub_leaves_sum[OF assms(1), of 1]
      sub_leaves_sum[OF assms(1), of 2] sub_leaves_sum[OF assms(1), of 3] s by simp_all
  ultimately show ?thesis
    unfolding allocated_def leaves_divided[OF assms(2)] s by auto
qed

lemma divided_size:
  assumes "splittable cfg len" "p_max_block_size cfg < len"
  shows "p_min_block_size cfg \<le> len" "len AND 3 = 0" "splittable cfg (drop_bit 2 len)" "unat len = 4 * (unat len div 4)"
    "0 < unat len div 4" "drop_bit 2 len \<noteq> 0"
proof -
  show 1: "p_min_block_size cfg \<le> len" "len AND 3 = 0" and 2: "splittable cfg (drop_bit 2 len)"
    using assms by (subst (asm) splittable.simps, auto split: if_splits)+
  then show 3: "unat len = 4 * (unat len div 4)"
    by (auto simp: and_3_eq_0)
  show "drop_bit 2 len \<noteq> 0"
    using 2 by (subst (asm) splittable.simps) (auto split: if_splits)
  then show "0 < unat len div 4"
    by (metis unat_drop_bit2 unat_gt_0)
qed

lemma child_index:
  fixes a address len :: u64
  assumes "unat address \<le> unat a" "unat a < unat address + unat len" "unat len = 4 * q" "q = unat len div 4" "0 < q"
  defines "i \<equiv> (unat a - unat address) div q"
  shows "unat (ucast ((a - address) div drop_bit 2 len) :: u32) = i" "i < 4"
    "unat address + i * q \<le> unat a" "unat a < unat address + i * q + q"
proof -
  have d: "unat (a - address) = unat a - unat address"
    using assms(1) by (simp add: unat_sub word_le_nat_alt)
  have v: "unat ((a - address) div drop_bit 2 len) = i"
    unfolding unat_div d unat_drop_bit2 i_def using assms(4) by simp
  have "unat a - unat address < 4 * q"
    using assms(1-3) by linarith
  then show i: "i < 4"
    unfolding i_def by (simp add: less_mult_imp_div_less)
  then show "unat (ucast ((a - address) div drop_bit 2 len) :: u32) = i"
    using v by (simp add: unsigned_ucast_eq take_bit_nat_eq_self_iff)
  have m: "(unat a - unat address) = i * q + (unat a - unat address) mod q"
    by (simp add: i_def)
  have "(unat a - unat address) mod q < q"
    using assms(5) by simp
  then show "unat address + i * q \<le> unat a" "unat a < unat address + i * q + q"
    using m assms(1) by linarith+
qed


lemma splittable_nonzero: "splittable cfg len \<Longrightarrow> len \<noteq> 0"
  by (subst (asm) splittable.simps) (auto split: if_splits)

definition child_of :: "sub_block \<Rightarrow> nat \<Rightarrow> sub_block" where
  "child_of b i = (case sb_subs b ! i of
     Some c \<Rightarrow> c
   | None \<Rightarrow> mk_sub_block (of_nat i * drop_bit 2 (sb_len b) + sb_address b) (drop_bit 2 (sb_len b)))"

lemma child_of_ok:
  assumes "block_wf cfg (SubBlock len address p u mp al subs)" "p_max_block_size cfg < len" "i < 4"
  shows "block_wf cfg (child_of (SubBlock len address p u mp al subs) i)"
    "sb_len (child_of (SubBlock len address p u mp al subs) i) = drop_bit 2 len"
    "sb_address (child_of (SubBlock len address p u mp al subs) i) = of_nat i * drop_bit 2 len + address"
    "unat (sb_address (child_of (SubBlock len address p u mp al subs) i)) = unat address + i * (unat len div 4)"
    "leaves (child_of (SubBlock len address p u mp al subs) i) = sub_leaves (subs ! i)"
proof -
  have sp: "splittable cfg len" and bd: "unat address + unat len \<le> 2 ^ 64"
    using assms(1) by simp_all
  note d = divided_size[OF sp assms(2)]
  have pos: "unat (of_nat i * drop_bit 2 len + address) = unat address + i * (unat len div 4)"
    by (rule split_position[OF bd _ assms(3)]) (use d(2) and_3_eq_0 in blast)
  have "i * (unat len div 4) + unat len div 4 \<le> 4 * (unat len div 4)"
    using assms(3) by (metis Suc_leI mult_Suc mult_le_mono1 add.commute)
  then have bd': "unat (of_nat i * drop_bit 2 len + address) + unat (drop_bit 2 len) \<le> 2 ^ 64"
    unfolding pos unat_drop_bit2 using bd d(4) by linarith
  note mk = mk_sub_block_wf[OF d(3) bd']
  show "block_wf cfg (child_of (SubBlock len address p u mp al subs) i)"
    "sb_len (child_of (SubBlock len address p u mp al subs) i) = drop_bit 2 len"
    "sb_address (child_of (SubBlock len address p u mp al subs) i) = of_nat i * drop_bit 2 len + address"
    "leaves (child_of (SubBlock len address p u mp al subs) i) = sub_leaves (subs ! i)"
    using mk block_wf_child[OF assms(1,3)] assms(1,3)
    by (auto simp: child_of_def sub_leaves_def mk_sub_block_def[of "_ + _"] split: option.splits)
  then show "unat (sb_address (child_of (SubBlock len address p u mp al subs) i)) = unat address + i * (unat len div 4)"
    using pos by simp
qed

lemma block_wf_update:
  assumes "block_wf cfg (SubBlock len address p u mp al subs)" "\<not> (p \<noteq> 0 \<and> \<not> u)" "p_max_block_size cfg < len" "i < 4"
    and "block_wf cfg c" "sb_len c = drop_bit 2 len" "sb_address c = of_nat i * drop_bit 2 len + address"
  shows "block_wf cfg (SubBlock len address p True mp al (subs[i := Some c]))"
proof -
  have "x \<noteq> Some False" if x: "x \<in> set (map (map_option (block_wf cfg)) (subs[i := Some c]))" for x
  proof -
    obtain y where "y \<in> set (subs[i := Some c])" "x = map_option (block_wf cfg) y"
      using x by auto
    then have "y = Some c \<or> y \<in> set subs" "x = map_option (block_wf cfg) y"
      using set_update_subset_insert[of subs i "Some c"] by auto
    then show ?thesis
      using assms(1,5) by fastforce
  qed
  moreover have "p = 0"
    using assms(1,2) by auto
  ultimately show ?thesis
    using assms by (auto simp: nth_list_update)
qed

lemma access_divided:
  assumes wf: "block_wf cfg (SubBlock len address p u mp al subs)"
    and nl: "\<not> (p \<noteq> 0 \<and> \<not> u)" "p_max_block_size cfg < len"
    and i: "unat (ucast ((a - address) div drop_bit 2 len) :: u32) = i" "i < 4"
    and acc: "access n ms cfg a (child_of (SubBlock len address p u mp al subs) i) h = Inr (leaf, c1, h1)"
    and post: "access_post cfg room a (child_of (SubBlock len address p u mp al subs) i) h leaf c1 h1"
  shows "access (Suc n) ms cfg a (SubBlock len address p u mp al subs) h =
      Inr (leaf, SubBlock len address p True mp al (subs[i := Some c1]), h1) \<and>
    access_post cfg room a (SubBlock len address p u mp al subs) h leaf (SubBlock len address p True mp al (subs[i := Some c1])) h1"
proof
  let ?b = "SubBlock len address p u mp al subs" and ?b' = "SubBlock len address p True mp al (subs[i := Some c1])"
  have sp: "splittable cfg len" and l4: "length subs = 4"
    using wf by simp_all
  note d = divided_size[OF sp nl(2)] and c = child_of_ok[OF wf nl(2) i(2)]
  let ?i = "ucast ((a - address) div drop_bit 2 len) :: u32"
  have "?i < 4"
    using i by (simp add: word_less_nat_alt)
  have "(ucast ?i :: u64) = of_nat (unat ?i)"
    by simp
  then have ci: "(ucast ?i :: u64) = of_nat i"
    using i(1) by (simp only:)
  have "(case subs ! unat ?i of Some c \<Rightarrow> c | None \<Rightarrow> mk_sub_block (ucast ?i * drop_bit 2 len + address) (drop_bit 2 len)) =
      child_of ?b i"
    unfolding ci i(1) by (simp add: child_of_def split: option.split)
  then show "access (Suc n) ms cfg a ?b h = Inr (leaf, ?b', h1)"
    using \<open>?i < 4\<close> nl d acc unfolding access.simps by (simp add: Let_def i(1) not_le)
  have pu: "\<not> (p \<noteq> 0 \<and> \<not> True)"
    by simp
  have ms: "mset (leaves ?b') + mset (sub_leaves (subs ! i)) = mset (leaves ?b) + mset (leaves c1)"
    unfolding leaves_divided[OF nl(1)] leaves_divided[OF pu]
    using mset_concat_update[of i subs sub_leaves "Some c1"] i(2) l4 by (simp add: sub_leaves_def)
  have "block_wf cfg ?b'"
    by (rule block_wf_update[OF wf nl i(2)]) (use post c(2,3) in \<open>simp_all add: access_post_def\<close>)
  moreover have "leaf_key leaf \<in> set (leaves ?b')"
  proof -
    have "Some c1 \<in> set (subs[i := Some c1])"
      using i(2) l4 by (simp add: set_update_memI)
    then have "set (sub_leaves (Some c1)) \<subseteq> set (leaves ?b')"
      unfolding leaves_divided[OF pu] by auto
    then show ?thesis
      using post unfolding access_post_def by (auto simp: sub_leaves_def)
  qed
  moreover have "mset (leaves c1) = mset (sub_leaves (subs ! i)) \<Longrightarrow> mset (leaves ?b') = mset (leaves ?b)"
    using ms by simp
  moreover have "mset (leaves c1) = add_mset k (mset (sub_leaves (subs ! i))) \<Longrightarrow> mset (leaves ?b') = add_mset k (mset (leaves ?b))" for k
    using ms by simp
  ultimately show "access_post cfg room a ?b h leaf ?b' h1"
    using post unfolding access_post_def c(5) sub_block.sel by blast
qed

lemma access_ok:
  assumes ms: "services_ok room ms"
  shows "block_wf cfg b \<Longrightarrow> unat (sb_address b) \<le> unat a \<Longrightarrow> unat a < unat (sb_address b) + unat (sb_len b) \<Longrightarrow>
    unat (sb_len b) < 4 ^ n \<Longrightarrow> unat (sb_len b) \<le> allocated b + room (h_allocs h) \<Longrightarrow>
    \<exists>leaf b' h'. access n ms cfg a b h = Inr (leaf, b', h') \<and> access_post cfg room a b h leaf b' h'"
proof (induction n arbitrary: b)
  case 0
  then show ?case by (cases b) (auto dest: splittable_nonzero)
next
  case (Suc n)
  obtain len address p u mp al subs where b: "b = SubBlock len address p u mp al subs"
    by (cases b)
  have wf: "block_wf cfg (SubBlock len address p u mp al subs)"
    using Suc.prems(1) b by simp
  then have sp: "splittable cfg len" by simp
  consider (leaf) "p \<noteq> 0 \<and> \<not> u" | (fresh) "p = 0" "\<not> u" "len \<le> p_max_block_size cfg"
    | (divided) "\<not> (p \<noteq> 0 \<and> \<not> u)" "p_max_block_size cfg < len"
    using wf by fastforce
  then show ?case
  proof cases
    case leaf
    then show ?thesis
      using Suc.prems b by (simp add: access_post_def leaf_key_def leaf_holds_def Let_def word_le_nat_alt)
  next
    case fresh
    have "subs = [None, None, None, None]"
      using wf fresh(2) by simp
    then have lv: "leaves b = []"
      using fresh b by simp
    then have "unat len \<le> room (h_allocs h)" "len \<noteq> 0"
      using Suc.prems(5) sp b by (auto simp: allocated_def dest: splittable_nonzero)
    then obtain q m1 a1 h1 where st: "obtain_storage ms cfg len address h = (Some (q, m1, a1), h1)" "q \<noteq> 0"
      "storage_ok room len h q h1"
      using obtain_storage_ok[OF ms] by metis
    have "access (Suc n) ms cfg a b h = Inr (SubBlock len address q False m1 a1 subs, SubBlock len address q False m1 a1 subs, h1)"
      using b fresh st by (simp add: Let_def)
    moreover have "access_post cfg room a b h (SubBlock len address q False m1 a1 subs) (SubBlock len address q False m1 a1 subs) h1"
      using Suc.prems wf fresh st lv b by (auto simp: access_post_def leaf_key_def leaf_holds_def)
    ultimately show ?thesis by blast
  next
    case divided
    define q where "q = unat len div 4"
    define i where "i = (unat a - unat address) div q"
    note d = divided_size[OF sp divided(2)]
    have ci: "unat (ucast ((a - address) div drop_bit 2 len) :: u32) = i" "i < 4"
      "unat address + i * q \<le> unat a" "unat a < unat address + i * q + q"
      unfolding i_def by (rule child_index; use Suc.prems b d q_def in simp)+
    let ?c = "child_of (SubBlock len address p u mp al subs) i"
    note c = child_of_ok[OF wf divided(2) ci(2)]
    have lc: "unat (sb_len ?c) = q"
      using c(2) by (simp add: unat_drop_bit2 q_def)
    have "allocated b \<le> allocated ?c + 3 * q"
      using allocated_child[OF wf divided(1) ci(2)] c(5) b by (simp add: allocated_def q_def)
    then have room: "unat (sb_len ?c) \<le> allocated ?c + room (h_allocs h)"
      using Suc.prems(5) d(4) b unfolding lc by (simp add: q_def)
    have "\<exists>leaf b' h'. access n ms cfg a ?c h = Inr (leaf, b', h') \<and> access_post cfg room a ?c h leaf b' h'"
      using ci(3,4) Suc.prems(4) d(4) b lc c by (intro Suc.IH[OF c(1) _ _ _ room]) (simp_all add: q_def)
    then show ?thesis
      using access_divided[OF wf divided ci(1,2)] b by blast
  qed
qed

section \<open>The bytes of the memory\<close>

text \<open>The host address of a byte, and the byte; \<open>None\<close> as long as no storage is allocated for it.\<close>

definition host_of :: "sub_block \<Rightarrow> u64 \<Rightarrow> u64 option" where
  "host_of b a = map_option (\<lambda>x. snd (snd x) + (a - fst x)) (find (leaf_holds a) (leaves b))"

definition mem_byte :: "sub_block \<Rightarrow> host \<Rightarrow> u64 \<Rightarrow> u8 option" where
  "mem_byte b h a = map_option (h_mem h) (host_of b a)"

definition mem_inv :: "((u64 \<times> u64) list \<Rightarrow> nat) \<Rightarrow> mem_cfg \<Rightarrow> sub_block \<Rightarrow> host \<Rightarrow> bool" where
  "mem_inv room cfg b h \<longleftrightarrow>
     block_wf cfg b \<and> sb_address b = 0 \<and>
     (\<forall>x \<in> set (leaves b). (snd (snd x), fst (snd x)) \<in> set (h_allocs h) \<and>
        unat (snd (snd x)) + unat (fst (snd x)) \<le> 2 ^ 64) \<and>
     (\<forall>x \<in> set (leaves b). \<forall>y \<in> set (leaves b). x \<noteq> y \<longrightarrow>
        disjoint_ranges (snd (snd x)) (fst (snd x)) (snd (snd y)) (fst (snd y))) \<and>
     unat (sb_len b) \<le> allocated b + room (h_allocs h)"

lemma leaf_unique:
  assumes "leaves_ok lo hi xs" "x \<in> set xs" "y \<in> set xs" "leaf_holds a x" "leaf_holds a y"
  shows "x = y"
proof (rule ccontr)
  assume ne: "x \<noteq> y"
  obtain i j where ij: "i < length xs" "xs ! i = x" "j < length xs" "xs ! j = y"
    using assms(2,3) by (metis in_set_conv_nth)
  have s: "sorted_wrt before xs"
    using assms(1) by (simp add: leaves_ok_def)
  have "before x y \<or> before y x"
    using ij ne sorted_wrt_nth_less[OF s, of i j] sorted_wrt_nth_less[OF s, of j i]
    by (metis linorder_neqE_nat)
  then show False
    using assms(4,5) by (auto simp: before_def leaf_holds_def)
qed

lemma host_of_leaf:
  assumes "block_wf cfg b" "x \<in> set (leaves b)" "leaf_holds a x"
  shows "host_of b a = Some (snd (snd x) + (a - fst x))"
proof -
  obtain y where y: "find (leaf_holds a) (leaves b) = Some y"
    using assms(2,3) by (cases "find (leaf_holds a) (leaves b)") (auto simp: find_None_ball)
  then have "y = x"
    using leaf_unique[OF leaves_ok_block[OF assms(1)]] find_SomeD[OF y] assms(2,3) by blast
  with y show ?thesis
    by (simp add: host_of_def)
qed

lemma host_of_SomeE:
  assumes "host_of b a = Some q"
  obtains x where "x \<in> set (leaves b)" "leaf_holds a x" "q = snd (snd x) + (a - fst x)"
  using assms by (auto simp: host_of_def dest!: find_SomeD)

lemma host_pos:
  fixes p s a :: u64
  assumes "unat p + n \<le> 2 ^ 64" "unat s \<le> unat a" "unat a < unat s + n"
  shows "unat (p + (a - s)) = unat p + (unat a - unat s)"
proof -
  have "unat (a - s) = unat a - unat s"
    using assms(2) by (simp add: unat_sub word_le_nat_alt)
  moreover have "unat p + (unat a - unat s) < 2 ^ 64"
    using assms by linarith
  ultimately show ?thesis
    by (simp add: unat_word_ariths(1))
qed

lemma host_of_range:
  assumes "mem_inv room cfg b h" "host_of b a = Some q"
  obtains x where "x \<in> set (leaves b)" "leaf_holds a x" "unat q = unat (snd (snd x)) + (unat a - unat (fst x))"
    "unat q < unat (snd (snd x)) + unat (fst (snd x))"
proof -
  obtain x where x: "x \<in> set (leaves b)" "leaf_holds a x" "q = snd (snd x) + (a - fst x)"
    using assms(2) by (rule host_of_SomeE)
  then have "unat q = unat (snd (snd x)) + (unat a - unat (fst x))"
    using assms(1) host_pos[of "snd (snd x)" "unat (fst (snd x))" "fst x" a] by (simp add: mem_inv_def leaf_holds_def)
  moreover from this x(2) have "unat q < unat (snd (snd x)) + unat (fst (snd x))"
    by (auto simp: leaf_holds_def)
  ultimately show thesis
    using x that by blast
qed

text \<open>Different bytes have different host addresses.\<close>

lemma host_of_inj:
  assumes "mem_inv room cfg b h" "host_of b a = Some q" "host_of b a' = Some q"
  shows "a = a'"
proof -
  obtain x where x: "x \<in> set (leaves b)" "leaf_holds a x" "unat q = unat (snd (snd x)) + (unat a - unat (fst x))"
    "unat q < unat (snd (snd x)) + unat (fst (snd x))"
    using assms(1,2) by (rule host_of_range)
  obtain y where y: "y \<in> set (leaves b)" "leaf_holds a' y" "unat q = unat (snd (snd y)) + (unat a' - unat (fst y))"
    "unat q < unat (snd (snd y)) + unat (fst (snd y))"
    using assms(1,3) by (rule host_of_range)
  have "x = y"
  proof (rule ccontr)
    assume "x \<noteq> y"
    then have "disjoint_ranges (snd (snd x)) (fst (snd x)) (snd (snd y)) (fst (snd y))"
      using assms(1) x(1) y(1) unfolding mem_inv_def by blast
    then show False
      using x y unfolding disjoint_ranges_def by linarith
  qed
  then have "unat a = unat a'"
    using x y by (auto simp: leaf_holds_def)
  then show ?thesis
    by (simp add: word_unat_eq_iff)
qed

text \<open>What an access does to the bytes: nothing, except to give storage to some that had none.\<close>

definition keeps_bytes :: "sub_block \<Rightarrow> host \<Rightarrow> sub_block \<Rightarrow> host \<Rightarrow> bool" where
  "keeps_bytes b h b' h' \<longleftrightarrow> (\<forall>a q. host_of b a = Some q \<longrightarrow> host_of b' a = Some q \<and> h_mem h' q = h_mem h q)"

lemma keeps_bytes_refl: "keeps_bytes b h b h"
  by (simp add: keeps_bytes_def)

lemma keeps_bytes_trans: "keeps_bytes b h b1 h1 \<Longrightarrow> keeps_bytes b1 h1 b2 h2 \<Longrightarrow> keeps_bytes b h b2 h2"
  unfolding keeps_bytes_def by metis

lemma keeps_bytes_mem_byte: "keeps_bytes b h b' h' \<Longrightarrow> mem_byte b h a = Some v \<Longrightarrow> mem_byte b' h' a = Some v"
  by (auto simp: keeps_bytes_def mem_byte_def)

lemma access_post_leaf:
  assumes "access_post cfg room a b h leaf b' h'" "leaf_holds c (leaf_key leaf)"
  shows "host_of b' c = Some (sb_ptr leaf + (c - sb_address leaf))"
  using assms host_of_leaf[of cfg b' "leaf_key leaf" c] by (simp add: access_post_def leaf_key_def)

lemma allocated_mset:
  "mset (leaves b') = mset (leaves b) \<Longrightarrow> allocated b' = allocated b"
  "mset (leaves b') = add_mset x (mset (leaves b)) \<Longrightarrow> allocated b' = unat (fst (snd x)) + allocated b"
proof -
  have *: "allocated c = sum_mset (image_mset (\<lambda>x. unat (fst (snd x))) (mset (leaves c)))" for c
    unfolding allocated_def by (simp flip: sum_mset_sum_list)
  show "mset (leaves b') = mset (leaves b) \<Longrightarrow> allocated b' = allocated b"
    "mset (leaves b') = add_mset x (mset (leaves b)) \<Longrightarrow> allocated b' = unat (fst (snd x)) + allocated b"
    unfolding * by simp_all
qed

lemma access_post_inv:
  assumes inv: "mem_inv room cfg b h" and post: "access_post cfg room a b h leaf b' h'"
  shows "mem_inv room cfg b' h'"
proof -
  consider (old) "mset (leaves b') = mset (leaves b)" "h' = h"
    | (new) "mset (leaves b') = add_mset (leaf_key leaf) (mset (leaves b))" "sb_ptr leaf \<noteq> 0"
        "storage_ok room (sb_len leaf) h (sb_ptr leaf) h'"
    using post unfolding access_post_def by blast
  then show ?thesis
  proof cases
    case old
    then have "set (leaves b') = set (leaves b)"
      by (metis set_mset_mset)
    then show ?thesis
      using inv post old allocated_mset(1)[OF old(1)] by (simp add: mem_inv_def access_post_def)
  next
    case new
    have s: "set (leaves b') = insert (leaf_key leaf) (set (leaves b))"
      using new(1) by (metis set_mset_add_mset_insert set_mset_mset)
    have al: "allocated b' = unat (sb_len leaf) + allocated b"
      using allocated_mset(2)[OF new(1)] by (simp add: leaf_key_def)
    have st: "unat (sb_ptr leaf) + unat (sb_len leaf) \<le> 2 ^ 64"
      "\<forall>(q, n) \<in> set (h_allocs h). disjoint_ranges (sb_ptr leaf) (sb_len leaf) q n"
      "h_allocs h' = (sb_ptr leaf, sb_len leaf) # h_allocs h" "room (h_allocs h) \<le> room (h_allocs h') + unat (sb_len leaf)"
      using new(2,3) by (auto simp: storage_ok_def)
    have dj: "disjoint_ranges (sb_ptr leaf) (sb_len leaf) (snd (snd y)) (fst (snd y)) \<and>
        disjoint_ranges (snd (snd y)) (fst (snd y)) (sb_ptr leaf) (sb_len leaf)" if "y \<in> set (leaves b)" for y
      using st(2) inv that unfolding mem_inv_def by (force simp: disjoint_ranges_def)
    have "block_wf cfg b'" "sb_address b' = 0" "sb_len b' = sb_len b"
      using post inv by (simp_all add: access_post_def mem_inv_def)
    then show ?thesis
      using inv dj st(1,3,4) al unfolding mem_inv_def s by (auto simp: leaf_key_def)
  qed
qed

lemma access_post_keeps:
  assumes inv: "mem_inv room cfg b h" and post: "access_post cfg room a b h leaf b' h'"
  shows "keeps_bytes b h b' h'"
  unfolding keeps_bytes_def
proof (intro allI impI)
  fix c q
  assume q: "host_of b c = Some q"
  obtain x where x: "x \<in> set (leaves b)" "leaf_holds c x" "q = snd (snd x) + (c - fst x)"
    using q by (rule host_of_SomeE)
  have wf: "block_wf cfg b'" "block_wf cfg b"
    using post inv by (simp_all add: access_post_def mem_inv_def)
  have sub: "set (leaves b) \<subseteq> set (leaves b')"
    using post unfolding access_post_def by (metis set_mset_add_mset_insert set_mset_mset subset_insertI subset_refl)
  have "host_of b' c = Some q"
    using host_of_leaf[OF wf(1), of x c] sub x by auto
  moreover have "h_mem h' q = h_mem h q"
  proof (cases "h' = h")
    case False
    then have st: "sb_ptr leaf \<noteq> 0" "storage_ok room (sb_len leaf) h (sb_ptr leaf) h'"
      using post unfolding access_post_def by blast+
    obtain y where y: "y \<in> set (leaves b)" "leaf_holds c y" "unat q = unat (snd (snd y)) + (unat c - unat (fst y))"
      "unat q < unat (snd (snd y)) + unat (fst (snd y))"
      using inv q by (rule host_of_range)
    have "(snd (snd y), fst (snd y)) \<in> set (h_allocs h)"
      using inv y(1) unfolding mem_inv_def by blast
    then have "disjoint_ranges (sb_ptr leaf) (sb_len leaf) (snd (snd y)) (fst (snd y))"
      using st by (auto simp: storage_ok_def)
    then have "\<not> (sb_ptr leaf \<le> q \<and> q - sb_ptr leaf < sb_len leaf)"
      using y(3,4) by (auto simp: disjoint_ranges_def word_le_nat_alt word_less_nat_alt unat_sub_if')
    then show ?thesis
      using st by (simp add: storage_ok_def)
  qed simp
  ultimately show "host_of b' c = Some q \<and> h_mem h' q = h_mem h q"
    by blast
qed

lemma access_step:
  assumes "services_ok room ms" "mem_inv room cfg b h" "unat a < unat (sb_len b)"
  obtains leaf b' h' where "access access_fuel ms cfg a b h = Inr (leaf, b', h')" "access_post cfg room a b h leaf b' h'"
    "mem_inv room cfg b' h'" "keeps_bytes b h b' h'" "sb_len b' = sb_len b"
proof -
  have "unat (sb_len b) < 4 ^ access_fuel"
    using u64_less[of "sb_len b"] by (simp add: access_fuel_def)
  then obtain leaf b' h' where "access access_fuel ms cfg a b h = Inr (leaf, b', h')"
    "access_post cfg room a b h leaf b' h'"
    using access_ok[OF assms(1), of cfg b a access_fuel h] assms(2,3) by (auto simp: mem_inv_def)
  then show thesis
    using access_post_inv[OF assms(2)] access_post_keeps[OF assms(2)] that by (simp add: access_post_def)
qed

lemma unat_offset:
  fixes off :: u64
  assumes "unat off + n \<le> unat (L :: u64)" "i < n"
  shows "unat (off + of_nat i) = unat off + i"
proof -
  have l: "unat off + i < 2 ^ 64"
    using assms u64_less[of L] by simp
  then have "unat (of_nat i :: u64) = i"
    by (simp add: unat_of_nat)
  then show ?thesis
    using l by (simp add: unat_word_ariths(1))
qed

lemma remaining_in_block:
  assumes "leaf_holds off (leaf_key leaf)" "len \<noteq> 0"
  defines "r \<equiv> remaining_in_block leaf off len"
  shows "0 < unat r" "r \<le> len"
    "unat r = min (unat len) (unat (sb_address leaf) + unat (sb_len leaf) - unat off)"
    "i < unat r \<Longrightarrow> unat off + unat len \<le> unat (L :: u64) \<Longrightarrow> leaf_holds (off + of_nat i) (leaf_key leaf)"
proof -
  have o: "unat (sb_address leaf) \<le> unat off" "unat off < unat (sb_address leaf) + unat (sb_len leaf)"
    using assms(1) by (simp_all add: leaf_holds_def leaf_key_def)
  have d: "unat (off - sb_address leaf) = unat off - unat (sb_address leaf)"
    using o(1) by (simp add: unat_sub word_le_nat_alt)
  have "unat (sb_len leaf - (off - sb_address leaf)) = unat (sb_address leaf) + unat (sb_len leaf) - unat off"
    using o d by (subst unat_sub) (auto simp: word_le_nat_alt)
  then show r: "unat r = min (unat len) (unat (sb_address leaf) + unat (sb_len leaf) - unat off)"
    by (auto simp: r_def remaining_in_block_def Let_def word_less_nat_alt min_def)
  moreover have "0 < unat len"
    using assms(2) by (simp add: unat_gt_0)
  ultimately show "0 < unat r"
    using o by simp
  show "r \<le> len"
    using r by (simp add: word_le_nat_alt)
  show "leaf_holds (off + of_nat i) (leaf_key leaf)" if "i < unat r" "unat off + unat len \<le> unat L"
    using that r o unat_offset[of off "unat len" L i] by (auto simp: leaf_holds_def leaf_key_def)
qed

lemma loop_advance:
  assumes "leaf_holds off (leaf_key leaf)" "len \<noteq> 0" "unat off + unat len \<le> unat (L :: u64)"
  defines "r \<equiv> remaining_in_block leaf off len"
  shows "unat (len - r) = unat len - unat r" "unat (off + r) + unat (len - r) \<le> unat L" "unat (len - r) < unat len"
    "unat r \<le> unat len" "unat (off + r) = unat off + unat r"
proof -
  note R = remaining_in_block[OF assms(1,2), folded r_def]
  show d: "unat (len - r) = unat len - unat r" and l: "unat r \<le> unat len"
    using R(2) by (simp_all add: unat_sub word_le_nat_alt)
  have "unat off + unat r < 2 ^ 64"
    using l assms(3) u64_less[of L] by linarith
  then show o: "unat (off + r) = unat off + unat r"
    by (simp add: unat_word_ariths(1))
  show "unat (off + r) + unat (len - r) \<le> unat L" "unat (len - r) < unat len"
    using d l o assms(3) R(1) by linarith+
qed

lemma offset_beyond: "unat (r :: u64) \<le> i \<Longrightarrow> off + of_nat i = off + r + of_nat (i - unat r)"
  by (simp add: of_nat_diff)

declare read_loop.simps [simp del] write_loop.simps [simp del]

lemma read_loop_ok:
  assumes ms: "services_ok room ms"
  shows "mem_inv room cfg b h \<Longrightarrow> unat off + unat len \<le> unat (sb_len b) \<Longrightarrow> unat len \<le> n \<Longrightarrow>
    \<exists>xs b' h'. read_loop n ms cfg off len b h = Inr (xs, b', h') \<and> mem_inv room cfg b' h' \<and> sb_len b' = sb_len b \<and>
      keeps_bytes b h b' h' \<and> length xs = unat len \<and> (\<forall>i < unat len. mem_byte b' h' (off + of_nat i) = Some (xs ! i))"
proof (induction n arbitrary: off len b h)
  case 0
  then show ?case
    by (simp add: unat_eq_0 keeps_bytes_refl read_loop.simps)
next
  case (Suc n)
  show ?case
  proof (cases "len = 0")
    case True
    then show ?thesis
      using Suc.prems by (simp add: keeps_bytes_refl read_loop.simps)
  next
    case False
    then have "unat off < unat (sb_len b)"
      using Suc.prems(2) by (metis add.right_neutral less_le_trans nat_add_left_cancel_less unat_gt_0)
    then obtain leaf b1 h1 where a: "access access_fuel ms cfg off b h = Inr (leaf, b1, h1)"
      "access_post cfg room off b h leaf b1 h1" "mem_inv room cfg b1 h1" "keeps_bytes b h b1 h1" "sb_len b1 = sb_len b"
      by (rule access_step[OF ms Suc.prems(1)])
    define r where "r = remaining_in_block leaf off len"
    have lh: "leaf_holds off (leaf_key leaf)"
      using a(2) by (simp add: access_post_def)
    note R = remaining_in_block[OF lh False, folded r_def] and A = loop_advance[OF lh False Suc.prems(2), folded r_def]
    obtain xs b2 h2 where rest: "read_loop n ms cfg (off + r) (len - r) b1 h1 = Inr (xs, b2, h2)" "mem_inv room cfg b2 h2"
      "sb_len b2 = sb_len b1" "keeps_bytes b1 h1 b2 h2" "length xs = unat (len - r)"
      "\<forall>i < unat (len - r). mem_byte b2 h2 (off + r + of_nat i) = Some (xs ! i)"
      using Suc.IH[OF a(3), of "off + r" "len - r"] A(2,3) Suc.prems(3) a(5) by auto
    let ?ys = "read_sub_blocks leaf off len h1"
    have ly: "length ?ys = unat r"
      by (simp add: read_sub_blocks_def host_read_def r_def)
    have yb: "mem_byte b1 h1 (off + of_nat i) = Some (?ys ! i)" if "i < unat r" for i
      using access_post_leaf[OF a(2) R(4)[OF that Suc.prems(2)]] that
      by (simp add: mem_byte_def read_sub_blocks_def host_read_def r_def algebra_simps)
    have "mem_byte b2 h2 (off + of_nat i) = Some ((?ys @ xs) ! i)" if "i < unat len" for i
    proof (cases "i < unat r")
      case True
      then show ?thesis
        using keeps_bytes_mem_byte[OF rest(4) yb] ly by (simp add: nth_append)
    next
      case False
      then have "mem_byte b2 h2 (off + r + of_nat (i - unat r)) = Some (xs ! (i - unat r))"
        by (intro rest(6)[rule_format]) (use that A(1) False in simp)
      then show ?thesis
        unfolding offset_beyond[of r i off, symmetric, OF leI[OF False]] using False ly by (simp add: nth_append)
    qed
    moreover have "read_loop (Suc n) ms cfg off len b h = Inr (?ys @ xs, b2, h2)"
      using False a(1) rest(1) by (subst read_loop.simps) (simp add: Let_def r_def)
    ultimately show ?thesis
      using rest a ly A keeps_bytes_trans[OF a(4) rest(4)] by auto
  qed
qed

lemma host_write_allocs [simp]: "h_allocs (host_write p xs h) = h_allocs h"
  by (induction p xs h rule: host_write.induct) simp_all

lemma host_write_mem:
  "unat p + length xs \<le> 2 ^ 64 \<Longrightarrow>
   h_mem (host_write p xs h) q =
     (if unat p \<le> unat q \<and> unat q < unat p + length xs then xs ! (unat q - unat p) else h_mem h q)"
proof (induction p xs h rule: host_write.induct)
  case (2 p x xs h)
  show ?case
  proof (cases "xs = []")
    case True
    have "unat p = unat q \<longleftrightarrow> p = q"
      by (simp add: word_unat_eq_iff)
    then show ?thesis
      using True by auto
  next
    case False
    then have p1: "unat (p + 1) = unat p + 1"
    proof -
      have "unat p + 1 < 2 ^ 64"
        using 2(2) False by (cases xs) auto
      then show ?thesis
        by (simp add: unat_word_ariths(1))
    qed
    then show ?thesis
      using 2 by (auto simp: nth_Cons' word_unat_eq_iff[of q p])
  qed
qed auto

text \<open>The bytes \<open>xs\<close> are stored at \<open>off\<close>; every other byte that has storage keeps its value.\<close>

definition bytes_written :: "u64 \<Rightarrow> u8 list \<Rightarrow> sub_block \<Rightarrow> host \<Rightarrow> sub_block \<Rightarrow> host \<Rightarrow> bool" where
  "bytes_written off xs b h b' h' \<longleftrightarrow>
     (\<forall>a q. host_of b a = Some q \<longrightarrow> host_of b' a = Some q) \<and>
     (\<forall>a. if unat off \<le> unat a \<and> unat a < unat off + length xs
          then mem_byte b' h' a = Some (xs ! (unat a - unat off))
          else \<forall>v. mem_byte b h a = Some v \<longrightarrow> mem_byte b' h' a = Some v)"

lemma bytes_written_keeps: "keeps_bytes b h b' h' \<Longrightarrow> bytes_written off [] b h b' h'"
  using keeps_bytes_mem_byte by (auto simp: bytes_written_def keeps_bytes_def)

lemma bytes_written_append:
  assumes "bytes_written off xs b h b1 h1" "bytes_written off' ys b1 h1 b2 h2" "unat off' = unat off + length xs"
  shows "bytes_written off (xs @ ys) b h b2 h2"
proof -
  have "if unat off \<le> unat a \<and> unat a < unat off + length (xs @ ys)
      then mem_byte b2 h2 a = Some ((xs @ ys) ! (unat a - unat off))
      else \<forall>v. mem_byte b h a = Some v \<longrightarrow> mem_byte b2 h2 a = Some v" for a
  proof -
    have 1: "if unat off \<le> unat a \<and> unat a < unat off + length xs
          then mem_byte b1 h1 a = Some (xs ! (unat a - unat off))
          else \<forall>v. mem_byte b h a = Some v \<longrightarrow> mem_byte b1 h1 a = Some v"
      using assms(1) unfolding bytes_written_def by blast
    have 2: "if unat off + length xs \<le> unat a \<and> unat a < unat off + length xs + length ys
          then mem_byte b2 h2 a = Some (ys ! (unat a - (unat off + length xs)))
          else \<forall>v. mem_byte b1 h1 a = Some v \<longrightarrow> mem_byte b2 h2 a = Some v"
      using assms(2) unfolding bytes_written_def assms(3) by blast
    show ?thesis
      using 1 2 by (auto simp: nth_append not_less split: if_splits)
  qed
  then show ?thesis
    using assms(1,2) unfolding bytes_written_def by blast
qed

lemma mem_inv_host: "h_allocs h' = h_allocs h \<Longrightarrow> mem_inv room cfg b h' = mem_inv room cfg b h"
  by (simp add: mem_inv_def)

lemma write_sub_blocks_bytes:
  assumes inv: "mem_inv room cfg b h" and leaf: "leaf_key leaf \<in> set (leaves b)" "leaf_holds off (leaf_key leaf)"
    and len: "len \<noteq> 0" "unat off + unat len \<le> unat (L :: u64)" "unat len \<le> length data"
  defines "r \<equiv> remaining_in_block leaf off len"
  shows "bytes_written off (take (unat r) data) b h b (write_sub_blocks leaf data off len h)"
proof -
  let ?p = "sb_ptr leaf + (off - sb_address leaf)" and ?h = "write_sub_blocks leaf data off len h"
  note R = remaining_in_block[OF leaf(2) len(1), folded r_def]
  have wf: "block_wf cfg b" and al: "unat (sb_ptr leaf) + unat (sb_len leaf) \<le> 2 ^ 64"
    using inv leaf(1) by (auto simp: mem_inv_def leaf_key_def)
  have o: "unat (sb_address leaf) \<le> unat off" "unat off < unat (sb_address leaf) + unat (sb_len leaf)"
    using leaf(2) by (simp_all add: leaf_holds_def leaf_key_def)
  have p: "unat ?p = unat (sb_ptr leaf) + (unat off - unat (sb_address leaf))"
    by (rule host_pos[OF al o])
  have rl: "unat r \<le> length data" "unat off + unat r \<le> unat (sb_address leaf) + unat (sb_len leaf)"
    using R(3) len(3) o by auto
  have lt: "length (take (unat r) data) = unat r"
    using rl by simp
  have hm: "h_mem ?h q = (if unat ?p \<le> unat q \<and> unat q < unat ?p + unat r then data ! (unat q - unat ?p) else h_mem h q)" for q
    using host_write_mem[of ?p "take (unat r) data" h q] rl p al o
    by (auto simp: write_sub_blocks_def r_def[symmetric])
  have inside: "host_of b a = Some (sb_ptr leaf + (a - sb_address leaf)) \<and>
      unat (sb_ptr leaf + (a - sb_address leaf)) = unat (sb_ptr leaf) + (unat a - unat (sb_address leaf))"
    if "unat off \<le> unat a" "unat a < unat off + unat r" for a
  proof -
    have "leaf_holds a (leaf_key leaf)"
      using that o rl by (simp add: leaf_holds_def leaf_key_def)
    then show ?thesis
      using host_of_leaf[OF wf leaf(1), of a] host_pos[OF al, of "sb_address leaf" a] by (simp add: leaf_key_def leaf_holds_def)
  qed
  have "mem_byte b ?h a = Some (take (unat r) data ! (unat a - unat off))" if "unat off \<le> unat a" "unat a < unat off + unat r" for a
  proof -
    let ?q = "sb_ptr leaf + (a - sb_address leaf)"
    have "unat ?q = unat ?p + (unat a - unat off)"
      using inside[OF that] p that o by linarith
    moreover have "unat a - unat off < unat r"
      using that by linarith
    ultimately have "h_mem ?h ?q = data ! (unat a - unat off)" "take (unat r) data ! (unat a - unat off) = data ! (unat a - unat off)"
      by (simp_all only: hm nth_take) simp
    then show ?thesis
      using inside[OF that] by (simp add: mem_byte_def)
  qed
  moreover have "mem_byte b ?h a = mem_byte b h a" if out: "\<not> (unat off \<le> unat a \<and> unat a < unat off + unat r)" for a
  proof (cases "host_of b a")
    case (Some q)
    have "\<not> (unat ?p \<le> unat q \<and> unat q < unat ?p + unat r)"
    proof
      assume q: "unat ?p \<le> unat q \<and> unat q < unat ?p + unat r"
      define c where "c = off + of_nat (unat q - unat ?p)"
      have c: "unat c = unat off + (unat q - unat ?p)"
        unfolding c_def by (rule unat_offset[OF len(2)]) (use q R(3) in linarith)
      then have "host_of b c = Some (sb_ptr leaf + (c - sb_address leaf))"
        "unat (sb_ptr leaf + (c - sb_address leaf)) = unat q"
        using inside[of c] q p o by auto
      then have "host_of b c = Some q"
        by (simp add: word_unat_eq_iff)
      then have "a = c"
        using host_of_inj[OF inv] Some by blast
      then have "\<not> (unat off \<le> unat c \<and> unat c < unat off + unat r)"
        using out by simp
      then show False
        using c q by linarith
    qed
    then show ?thesis
      using Some hm[of q] by (auto simp: mem_byte_def)
  qed (simp add: mem_byte_def)
  ultimately show ?thesis
    unfolding bytes_written_def lt by auto
qed

lemma write_loop_ok:
  assumes ms: "services_ok room ms"
  shows "mem_inv room cfg b h \<Longrightarrow> unat off + unat len \<le> unat (sb_len b) \<Longrightarrow> unat len \<le> n \<Longrightarrow> unat len \<le> length data \<Longrightarrow>
    \<exists>b' h'. write_loop n ms cfg data off len b h = Inr (b', h') \<and> mem_inv room cfg b' h' \<and> sb_len b' = sb_len b \<and>
      bytes_written off (take (unat len) data) b h b' h'"
proof (induction n arbitrary: off len b h data)
  case 0
  then show ?case
    by (simp add: unat_eq_0 bytes_written_keeps keeps_bytes_refl write_loop.simps)
next
  case (Suc n)
  show ?case
  proof (cases "len = 0")
    case True
    then show ?thesis
      using Suc.prems by (simp add: bytes_written_keeps keeps_bytes_refl write_loop.simps)
  next
    case False
    then have "unat off < unat (sb_len b)"
      using Suc.prems(2) by (metis add.right_neutral less_le_trans nat_add_left_cancel_less unat_gt_0)
    then obtain leaf b1 h1 where a: "access access_fuel ms cfg off b h = Inr (leaf, b1, h1)"
      "access_post cfg room off b h leaf b1 h1" "mem_inv room cfg b1 h1" "keeps_bytes b h b1 h1" "sb_len b1 = sb_len b"
      by (rule access_step[OF ms Suc.prems(1)])
    define r where "r = remaining_in_block leaf off len"
    let ?h = "write_sub_blocks leaf data off len h1"
    have lh: "leaf_holds off (leaf_key leaf)" "leaf_key leaf \<in> set (leaves b1)"
      using a(2) by (simp_all add: access_post_def)
    note A = loop_advance[OF lh(1) False Suc.prems(2), folded r_def]
    have inv: "mem_inv room cfg b1 ?h"
      using a(3) mem_inv_host[of ?h h1 room cfg b1] unfolding write_sub_blocks_def by simp
    obtain b2 h2 where rest: "write_loop n ms cfg (drop (unat r) data) (off + r) (len - r) b1 ?h = Inr (b2, h2)"
      "mem_inv room cfg b2 h2" "sb_len b2 = sb_len b1" "bytes_written (off + r) (take (unat (len - r)) (drop (unat r) data)) b1 ?h b2 h2"
      using Suc.IH[OF inv, of "off + r" "len - r" "drop (unat r) data"] A Suc.prems(3,4) a(5) diff_le_mono[OF Suc.prems(4), of "unat r"]
      by auto
    have first: "bytes_written off (take (unat r) data) b h b1 ?h"
      using bytes_written_append[OF bytes_written_keeps[OF a(4)] write_sub_blocks_bytes[OF a(3) lh(2,1) False Suc.prems(2,4)]]
      by (simp add: r_def[symmetric])
    have "bytes_written off (take (unat r) data @ take (unat (len - r)) (drop (unat r) data)) b h b2 h2"
      using bytes_written_append[OF first rest(4)] A(4,5) Suc.prems(4) by simp
    moreover have "take (unat r) data @ take (unat (len - r)) (drop (unat r) data) = take (unat len) data"
      using A(1,4) by (simp flip: take_add)
    moreover have "write_loop (Suc n) ms cfg data off len b h = Inr (b2, h2)"
      using False a(1) rest(1) by (subst write_loop.simps) (simp add: Let_def r_def)
    ultimately show ?thesis
      using rest a by auto
  qed
qed

section \<open>The operations of the memory\<close>

text \<open>The bytes \<open>f\<close> gives are stored; every other byte that has storage keeps its value.\<close>

definition bytes_updated :: "(u64 \<Rightarrow> u8 option) \<Rightarrow> sub_block \<Rightarrow> host \<Rightarrow> sub_block \<Rightarrow> host \<Rightarrow> bool" where
  "bytes_updated f b h b' h' \<longleftrightarrow>
     (\<forall>a q. host_of b a = Some q \<longrightarrow> host_of b' a = Some q) \<and>
     (\<forall>a. case f a of
            Some v \<Rightarrow> mem_byte b' h' a = Some v
          | None \<Rightarrow> \<forall>v. mem_byte b h a = Some v \<longrightarrow> mem_byte b' h' a = Some v)"

lemma bytes_updated_trans:
  assumes "bytes_updated f b h b1 h1" "bytes_updated g b1 h1 b2 h2"
  shows "bytes_updated (f ++ g) b h b2 h2"
proof -
  have "case (f ++ g) a of Some v \<Rightarrow> mem_byte b2 h2 a = Some v
      | None \<Rightarrow> \<forall>v. mem_byte b h a = Some v \<longrightarrow> mem_byte b2 h2 a = Some v" for a
    using assms[unfolded bytes_updated_def, THEN conjunct2, THEN spec[where x = a]]
    by (auto simp: map_add_def split: option.splits)
  then show ?thesis
    using assms unfolding bytes_updated_def by blast
qed

lemma offset_in_range:
  fixes x off :: u64
  assumes "unat off + n \<le> 2 ^ 64"
  shows "unat off \<le> unat x \<and> unat x < unat off + n \<longleftrightarrow> unat (x - off) < n"
    "unat off \<le> unat x \<Longrightarrow> unat x - unat off = unat (x - off)"
proof -
  show "unat off \<le> unat x \<Longrightarrow> unat x - unat off = unat (x - off)"
    by (simp add: unat_sub word_le_nat_alt)
  show "unat off \<le> unat x \<and> unat x < unat off + n \<longleftrightarrow> unat (x - off) < n"
    using assms u64_less[of x] by (auto simp: unat_sub_if')
qed

lemma bytes_written_updated:
  assumes "bytes_written off xs b h b' h'" "unat off + length xs \<le> 2 ^ 64"
  shows "bytes_updated (\<lambda>x. if unat (x - off) < length xs then Some (xs ! unat (x - off)) else None) b h b' h'"
proof -
  have "if unat (x - off) < length xs then mem_byte b' h' x = Some (xs ! unat (x - off))
      else \<forall>v. mem_byte b h x = Some v \<longrightarrow> mem_byte b' h' x = Some v" for x
    using assms(1)[unfolded bytes_written_def, THEN conjunct2, THEN spec[where x = x]] offset_in_range[OF assms(2), of x]
    by (auto split: if_splits)
  then show ?thesis
    using assms(1) unfolding bytes_updated_def bytes_written_def by (auto split: option.splits if_splits)
qed

text \<open>The state of an elaborated memory, and the bytes it holds.\<close>

definition mem_ok :: "((u64 \<times> u64) list \<Rightarrow> nat) \<Rightarrow> mem_env \<Rightarrow> gs_memory \<Rightarrow> host \<Rightarrow> bool" where
  "mem_ok room env m h \<longleftrightarrow>
     (case mem_sub_block m of None \<Rightarrow> False | Some b \<Rightarrow> mem_inv room (me_cfg env) b h \<and> sb_len b = mem_size m)"

definition mem_view :: "gs_memory \<Rightarrow> host \<Rightarrow> u64 \<Rightarrow> u8 option" where
  "mem_view m h a = (case mem_sub_block m of None \<Rightarrow> None | Some b \<Rightarrow> mem_byte b h a)"

lemma mem_read_ok:
  assumes ms: "services_ok room (me_services env)" and ok: "mem_ok room env m h" and b: "mem_sub_block m = Some b"
    and r: "unat off + unat len \<le> unat (mem_size m)"
  obtains xs b' h' where "mem_read env off len m h = Inr (Some xs, m\<lparr>mem_sub_block := Some b'\<rparr>, h')"
    "mem_ok room env (m\<lparr>mem_sub_block := Some b'\<rparr>) h'" "keeps_bytes b h b' h'" "length xs = unat len"
    "\<forall>i < unat len. mem_byte b' h' (off + of_nat i) = Some (xs ! i)"
proof -
  have inv: "mem_inv room (me_cfg env) b h" "sb_len b = mem_size m"
    using ok b by (simp_all add: mem_ok_def)
  have nw: "\<not> mem_size m < off + len"
    using r u64_less[of "mem_size m"] by (simp add: word_less_nat_alt unat_word_ariths(1))
  obtain xs b' h' where "read_loop (unat len) (me_services env) (me_cfg env) off len b h = Inr (xs, b', h')"
    "mem_inv room (me_cfg env) b' h'" "sb_len b' = sb_len b" "keeps_bytes b h b' h'" "length xs = unat len"
    "\<forall>i < unat len. mem_byte b' h' (off + of_nat i) = Some (xs ! i)"
    using read_loop_ok[OF ms inv(1), of off len "unat len"] r inv(2) by auto
  then show thesis
    using that b nw inv(2) by (simp add: mem_read_def mem_before_end_of_elaboration_def mem_ok_def)
qed

lemma mem_write_ok:
  assumes ms: "services_ok room (me_services env)" and ok: "mem_ok room env m h" and b: "mem_sub_block m = Some b"
    and r: "unat off + unat len \<le> unat (mem_size m)" "unat len \<le> length data"
  obtains b' h' where "mem_write env data off len m h = Inr (True, m\<lparr>mem_sub_block := Some b'\<rparr>, h')"
    "mem_ok room env (m\<lparr>mem_sub_block := Some b'\<rparr>) h'"
    "bytes_updated (\<lambda>x. if unat (x - off) < unat len then Some (data ! unat (x - off)) else None) b h b' h'"
proof -
  have inv: "mem_inv room (me_cfg env) b h" "sb_len b = mem_size m"
    using ok b by (simp_all add: mem_ok_def)
  have nw: "\<not> mem_size m < off + len" and bd: "unat off + unat len \<le> 2 ^ 64"
    using r u64_less[of "mem_size m"] by (simp_all add: word_less_nat_alt unat_word_ariths(1))
  obtain b' h' where w: "write_loop (unat len) (me_services env) (me_cfg env) data off len b h = Inr (b', h')"
    "mem_inv room (me_cfg env) b' h'" "sb_len b' = sb_len b" "bytes_written off (take (unat len) data) b h b' h'"
    using write_loop_ok[OF ms inv(1), of off len "unat len" data] r inv(2) by auto
  have "bytes_updated (\<lambda>x. if unat (x - off) < unat len then Some (data ! unat (x - off)) else None) b h b' h'"
    using bytes_written_updated[OF w(4)] bd r(2) by (simp cong: if_cong)
  then show thesis
    using that w b nw inv(2) by (simp add: mem_write_def mem_before_end_of_elaboration_def mem_ok_def)
qed

text \<open>The bytes of a request that its byte enables select, and well-formed requests inside the memory.\<close>

definition enabled_at :: "gp \<Rightarrow> nat \<Rightarrow> bool" where
  "enabled_at g i \<longleftrightarrow>
     (case gp_byte_enable g of None \<Rightarrow> True | Some byt \<Rightarrow> byt ! (i mod unat (gp_byte_enable_length g)) = 0xff)"

definition request_fits :: "gp \<Rightarrow> gs_memory \<Rightarrow> u64 \<Rightarrow> bool" where
  "request_fits g m a \<longleftrightarrow>
     mem_local_addr m (gp_address g) = Some a \<and> unat a + unat (gp_length g) \<le> unat (mem_size m) \<and>
     gp_length g \<le> gp_streaming_width g \<and> unat (gp_length g) \<le> length (gp_data g) \<and>
     (case gp_byte_enable g of
        None \<Rightarrow> True
      | Some byt \<Rightarrow> gp_byte_enable_length g \<noteq> 0 \<and> unat (gp_byte_enable_length g) \<le> length byt)"

lemma byte_enabled_ok:
  assumes "request_fits g m a" "gp_byte_enable g = Some byt"
  shows "byte_enabled byt (gp_byte_enable_length g) i = Inr (enabled_at g i)"
proof -
  have "i mod unat (gp_byte_enable_length g) < unat (gp_byte_enable_length g)"
    using assms by (simp add: request_fits_def unat_gt_0)
  then show ?thesis
    using assms by (auto simp: byte_enabled_def enabled_at_def request_fits_def)
qed

lemma offset_eq_iff:
  fixes x a :: u64
  assumes "i < 2 ^ 32"
  shows "unat (x - (a + of_nat i)) < 1 \<longleftrightarrow> unat (x - a) = i"
proof -
  have "unat (x - (a + of_nat i)) < 1 \<longleftrightarrow> x - a = of_nat i"
    by (auto simp: unat_eq_0 algebra_simps)
  also have "\<dots> \<longleftrightarrow> unat (x - a) = i"
    using assms by (auto simp: word_unat_eq_iff[of "x - a"] unat_of_nat)
  finally show ?thesis .
qed

lemma request_index:
  assumes "request_fits g m a" "i < unat (gp_length g)"
  shows "i < length (gp_data g)" "i < 2 ^ 32" "unat (a + of_nat i) + 1 \<le> unat (mem_size m)"
proof -
  show "i < length (gp_data g)"
    using assms by (simp add: request_fits_def)
  show "i < 2 ^ 32"
    using assms(2) unsigned_less[of "gp_length g", where ?'a = nat] by simp
  show "unat (a + of_nat i) + 1 \<le> unat (mem_size m)"
    using assms unat_offset[of a "unat (gp_length g)" "mem_size m" i] by (simp add: request_fits_def)
qed

abbreviation with_block :: "gs_memory \<Rightarrow> sub_block \<Rightarrow> gs_memory" where
  "with_block m b \<equiv> m\<lparr>mem_sub_block := Some b\<rparr>"

text \<open>The bytes a write stores, restricted to some of its indices.\<close>

definition request_map :: "gp \<Rightarrow> u64 \<Rightarrow> nat set \<Rightarrow> u64 \<Rightarrow> u8 option" where
  "request_map g a js x =
     (if unat (x - a) \<in> js \<and> enabled_at g (unat (x - a)) then Some (gp_data g ! unat (x - a)) else None)"

lemma request_map_insert:
  "\<not> enabled_at g i \<Longrightarrow> request_map g a (insert i js) = request_map g a js"
  "enabled_at g i \<Longrightarrow> i < 2 ^ 32 \<Longrightarrow>
     (\<lambda>x. if unat (x - (a + of_nat i)) < 1 then Some ([gp_data g ! i] ! unat (x - (a + of_nat i))) else None) ++ request_map g a js =
     request_map g a (insert i js)"
  by (auto simp: fun_eq_iff request_map_def map_add_def offset_eq_iff[unfolded less_one] split: option.splits)

lemma bytes_updated_refl: "bytes_updated (request_map g a {}) b h b h"
  by (simp add: bytes_updated_def request_map_def)

lemma be_write_loop_ok:
  assumes ms: "services_ok room (me_services env)" and fits: "request_fits g m a" and byt: "gp_byte_enable g = Some byt"
  shows "mem_ok room env (with_block m b) h \<Longrightarrow> set js \<subseteq> {..<unat (gp_length g)} \<Longrightarrow>
    \<exists>b' h'. be_write_loop env byt (gp_byte_enable_length g) a js (gp_data g) (with_block m b) h = Inr (with_block m b', h') \<and>
      mem_ok room env (with_block m b') h' \<and> bytes_updated (request_map g a (set js)) b h b' h'"
proof (induction js arbitrary: b h)
  case Nil
  then show ?case
    using bytes_updated_refl by auto
next
  case (Cons i js)
  note en = byte_enabled_ok[OF fits byt, of i]
  have i: "i < unat (gp_length g)" "set js \<subseteq> {..<unat (gp_length g)}"
    using Cons.prems(2) by simp_all
  note I = request_index[OF fits i(1)]
  show ?case
  proof (cases "enabled_at g i")
    case False
    then show ?thesis
      using Cons.IH[OF Cons.prems(1) i(2)] en by (simp add: request_map_insert(1))
  next
    case True
    have pre: "mem_sub_block (with_block m b) = Some b"
      "unat (a + of_nat i) + unat (1 :: u64) \<le> unat (mem_size (with_block m b))" "unat (1 :: u64) \<le> length [gp_data g ! i]"
      using I(3) by simp_all
    obtain b1 h1 where w: "mem_write env [gp_data g ! i] (a + of_nat i) 1 (with_block m b) h = Inr (True, with_block (with_block m b) b1, h1)"
      "mem_ok room env (with_block (with_block m b) b1) h1"
      "bytes_updated (\<lambda>x. if unat (x - (a + of_nat i)) < unat (1 :: u64) then Some ([gp_data g ! i] ! unat (x - (a + of_nat i))) else None) b h b1 h1"
      by (rule mem_write_ok[OF ms Cons.prems(1) pre])
    have w2: "mem_ok room env (with_block m b1) h1"
      using w(2) by simp
    obtain b2 h2 where r: "be_write_loop env byt (gp_byte_enable_length g) a js (gp_data g) (with_block m b1) h1 = Inr (with_block m b2, h2)"
      "mem_ok room env (with_block m b2) h2" "bytes_updated (request_map g a (set js)) b1 h1 b2 h2"
      using Cons.IH[OF w2 i(2)] by blast
    have "bytes_updated (request_map g a (set (i # js))) b h b2 h2"
      using bytes_updated_trans[OF w(3) r(3)] request_map_insert(2)[OF True I(2)] by simp
    moreover have "be_write_loop env byt (gp_byte_enable_length g) a (i # js) (gp_data g) (with_block m b) h = Inr (with_block m b2, h2)"
      using en True I(1) w(1) r(1) by simp
    ultimately show ?thesis
      using r(2) by blast
  qed
qed

lemma be_read_loop_ok:
  assumes ms: "services_ok room (me_services env)" and fits: "request_fits g m a" and byt: "gp_byte_enable g = Some byt"
  shows "mem_ok room env (with_block m b) h \<Longrightarrow> set js \<subseteq> {..<unat (gp_length g)} \<Longrightarrow> distinct js \<Longrightarrow>
    length data = length (gp_data g) \<Longrightarrow>
    \<exists>data' b' h'. be_read_loop env byt (gp_byte_enable_length g) a js data (with_block m b) h = Inr (data', with_block m b', h') \<and>
      mem_ok room env (with_block m b') h' \<and> keeps_bytes b h b' h' \<and> length data' = length data \<and>
      (\<forall>i. if i \<in> set js \<and> enabled_at g i then mem_byte b' h' (a + of_nat i) = Some (data' ! i) else data' ! i = data ! i)"
proof (induction js arbitrary: b h data)
  case Nil
  then show ?case
    by (intro exI[of _ data] exI[of _ b] exI[of _ h]) (simp add: keeps_bytes_refl)
next
  case (Cons i js)
  note en = byte_enabled_ok[OF fits byt, of i]
  have i: "i < unat (gp_length g)" "set js \<subseteq> {..<unat (gp_length g)}" "distinct js" "i \<notin> set js"
    using Cons.prems(2,3) by simp_all
  note I = request_index[OF fits i(1)]
  show ?case
  proof (cases "enabled_at g i")
    case False
    then have "be_read_loop env byt (gp_byte_enable_length g) a (i # js) data (with_block m b) h =
        be_read_loop env byt (gp_byte_enable_length g) a js data (with_block m b) h"
      using en by simp
    moreover have "k \<in> set (i # js) \<and> enabled_at g k \<longleftrightarrow> k \<in> set js \<and> enabled_at g k" for k
      using False by auto
    ultimately show ?thesis
      using Cons.IH[OF Cons.prems(1) i(2,3) Cons.prems(4)] by (simp only:)
  next
    case True
    have pre: "mem_sub_block (with_block m b) = Some b"
      "unat (a + of_nat i) + unat (1 :: u64) \<le> unat (mem_size (with_block m b))"
      using I(3) by simp_all
    obtain xs b1 h1 where w: "mem_read env (a + of_nat i) 1 (with_block m b) h = Inr (Some xs, with_block (with_block m b) b1, h1)"
      "mem_ok room env (with_block (with_block m b) b1) h1" "keeps_bytes b h b1 h1" "length xs = unat (1 :: u64)"
      "\<forall>k < unat (1 :: u64). mem_byte b1 h1 (a + of_nat i + of_nat k) = Some (xs ! k)"
      by (rule mem_read_ok[OF ms Cons.prems(1) pre])
    have w2: "mem_ok room env (with_block m b1) h1" and xs: "mem_byte b1 h1 (a + of_nat i) = Some (hd xs)"
      using w(2,4,5) by (cases xs; simp)+
    obtain d2 b2 h2 where r: "be_read_loop env byt (gp_byte_enable_length g) a js (data[i := hd xs]) (with_block m b1) h1 = Inr (d2, with_block m b2, h2)"
      "mem_ok room env (with_block m b2) h2" "keeps_bytes b1 h1 b2 h2" "length d2 = length (data[i := hd xs])"
      "\<forall>k. if k \<in> set js \<and> enabled_at g k then mem_byte b2 h2 (a + of_nat k) = Some (d2 ! k) else d2 ! k = data[i := hd xs] ! k"
      using Cons.IH[OF w2 i(2,3), of "data[i := hd xs]"] Cons.prems(4) by (metis length_list_update)
    have "d2 ! i = hd xs"
      using r(5)[THEN spec[where x = i]] i(4) I(1) Cons.prems(4) by simp
    then have "mem_byte b2 h2 (a + of_nat i) = Some (d2 ! i)"
      using keeps_bytes_mem_byte[OF r(3) xs] by simp
    then have "if k \<in> set (i # js) \<and> enabled_at g k then mem_byte b2 h2 (a + of_nat k) = Some (d2 ! k) else d2 ! k = data ! k" for k
      using r(5)[THEN spec[where x = k]] True by (cases "k = i") simp_all
    moreover have "be_read_loop env byt (gp_byte_enable_length g) a (i # js) data (with_block m b) h = Inr (d2, with_block m b2, h2)"
      using en True I(1) Cons.prems(4) w(1) r(1) by simp
    ultimately show ?thesis
      using r(2,4) keeps_bytes_trans[OF w(3) r(3)] by (intro exI[of _ d2] exI[of _ b2] exI[of _ h2]) simp
  qed
qed

lemma mem_do_write_ok:
  assumes ms: "services_ok room (me_services env)" and fits: "request_fits g m a" and ok: "mem_ok room env (with_block m b) h"
  obtains b' h' where "mem_do_write env g a (with_block m b) h = Inr (with_block m b', h')" "mem_ok room env (with_block m b') h'"
    "bytes_updated (request_map g a {..<unat (gp_length g)}) b h b' h'"
proof (cases "gp_byte_enable g")
  case None
  have pre: "mem_sub_block (with_block m b) = Some b" "unat a + unat (ucast (gp_length g) :: u64) \<le> unat (mem_size (with_block m b))"
    "unat (ucast (gp_length g) :: u64) \<le> length (gp_data g)"
    using fits by (simp_all add: request_fits_def unat_ucast_32_64)
  obtain b' h' where w: "mem_write env (gp_data g) a (ucast (gp_length g)) (with_block m b) h = Inr (True, with_block (with_block m b) b', h')"
    "mem_ok room env (with_block (with_block m b) b') h'"
    "bytes_updated (\<lambda>x. if unat (x - a) < unat (ucast (gp_length g) :: u64) then Some (gp_data g ! unat (x - a)) else None) b h b' h'"
    by (rule mem_write_ok[OF ms ok pre])
  have "(\<lambda>x. if unat (x - a) < unat (ucast (gp_length g) :: u64) then Some (gp_data g ! unat (x - a)) else None) =
      request_map g a {..<unat (gp_length g)}"
    using None by (auto simp: fun_eq_iff request_map_def enabled_at_def unat_ucast_32_64)
  then show thesis
    using that w None pre(3) by (simp add: mem_do_write_def Let_def unat_ucast_32_64)
next
  case (Some byt)
  then show thesis
    using be_write_loop_ok[OF ms fits Some ok, of "[0..<unat (gp_length g)]"] that
    by (auto simp: mem_do_write_def Let_def atLeast0LessThan)
qed

lemma mem_do_read_ok:
  assumes ms: "services_ok room (me_services env)" and fits: "request_fits g m a" and ok: "mem_ok room env (with_block m b) h"
  obtains data b' h' where "mem_do_read env g a (with_block m b) h = Inr (data, with_block m b', h')" "mem_ok room env (with_block m b') h'"
    "keeps_bytes b h b' h'" "length data = length (gp_data g)"
    "\<forall>i. if i < unat (gp_length g) \<and> enabled_at g i then mem_byte b' h' (a + of_nat i) = Some (data ! i) else data ! i = gp_data g ! i"
proof (cases "gp_byte_enable g")
  case None
  have pre: "mem_sub_block (with_block m b) = Some b" "unat a + unat (ucast (gp_length g) :: u64) \<le> unat (mem_size (with_block m b))"
    and ln: "unat (gp_length g) \<le> length (gp_data g)"
    using fits by (simp_all add: request_fits_def unat_ucast_32_64)
  obtain xs b' h' where w: "mem_read env a (ucast (gp_length g)) (with_block m b) h = Inr (Some xs, with_block (with_block m b) b', h')"
    "mem_ok room env (with_block (with_block m b) b') h'" "keeps_bytes b h b' h'" "length xs = unat (ucast (gp_length g) :: u64)"
    "\<forall>i < unat (ucast (gp_length g) :: u64). mem_byte b' h' (a + of_nat i) = Some (xs ! i)"
    by (rule mem_read_ok[OF ms ok pre])
  have lx: "length xs = unat (gp_length g)"
    using w(4) by (simp add: unat_ucast_32_64)
  have bytes: "if i < unat (gp_length g) \<and> enabled_at g i then mem_byte b' h' (a + of_nat i) = Some ((xs @ drop (unat (gp_length g)) (gp_data g)) ! i)
      else (xs @ drop (unat (gp_length g)) (gp_data g)) ! i = gp_data g ! i" for i
    using w(5) ln lx None by (auto simp: nth_append enabled_at_def unat_ucast_32_64)
  have "mem_do_read env g a (with_block m b) h = Inr (xs @ drop (unat (gp_length g)) (gp_data g), with_block m b', h')"
    using w(1) None ln by (simp add: mem_do_read_def Let_def)
  moreover have "mem_ok room env (with_block m b') h'" "length (xs @ drop (unat (gp_length g)) (gp_data g)) = length (gp_data g)"
    using w(2) lx ln by simp_all
  ultimately show thesis
    using that w(3) bytes by blast
next
  case (Some byt)
  have "set [0..<unat (gp_length g)] \<subseteq> {..<unat (gp_length g)}" "distinct [0..<unat (gp_length g)]"
    by auto
  then obtain data b' h' where "be_read_loop env byt (gp_byte_enable_length g) a [0..<unat (gp_length g)] (gp_data g) (with_block m b) h =
      Inr (data, with_block m b', h')" "mem_ok room env (with_block m b') h'" "keeps_bytes b h b' h'" "length data = length (gp_data g)"
    "\<forall>i. if i \<in> set [0..<unat (gp_length g)] \<and> enabled_at g i then mem_byte b' h' (a + of_nat i) = Some (data ! i) else data ! i = gp_data g ! i"
    using be_read_loop_ok[OF ms fits Some ok] by blast
  then show thesis
    using that[of data b' h'] Some by (simp add: mem_do_read_def Let_def)
qed

lemma request_fits_accepted:
  assumes "request_fits g m a"
  shows "\<not> mem_size m < a + ucast (gp_length g)"
proof -
  have "unat a + unat (ucast (gp_length g) :: u64) \<le> unat (mem_size m)"
    using assms by (simp add: request_fits_def unat_ucast_32_64)
  then show ?thesis
    using u64_less[of "mem_size m"] by (simp add: word_less_nat_alt unat_word_ariths(1))
qed

lemma mem_okE:
  assumes "mem_ok room env m h"
  obtains b where "mem_sub_block m = Some b" "m = with_block m b" "mem_inv room (me_cfg env) b h" "sb_len b = mem_size m"
  using assms by (cases "mem_sub_block m") (auto simp: mem_ok_def)

section \<open>Properties\<close>

text \<open>
  C4. A write inside the memory stores exactly the bytes its byte enables select and leaves every
  other byte alone, whatever blocks have to be allocated on the way: however the memory is divided
  into blocks, it behaves as one flat array.
\<close>

theorem memory_write_correct:
  assumes "services_ok room (me_services env)" "mem_ok room env m h" "request_fits g m a"
    and "gp_command g = Write_command" "\<not> p_rom (me_cfg env)"
  shows "\<exists>m' h'. mem_b_transport env g delay m h =
      Inr (g\<lparr>gp_response := Ok_response, gp_dmi_allowed := (p_dmi (me_cfg env) \<or> gp_dmi_allowed g)\<rparr>,
           delay + p_latency (me_cfg env), m', h') \<and>
    mem_ok room env m' h' \<and>
    (\<forall>i < unat (gp_length g). enabled_at g i \<longrightarrow> mem_view m' h' (a + of_nat i) = Some (gp_data g ! i)) \<and>
    (\<forall>x v. (\<forall>i < unat (gp_length g). enabled_at g i \<longrightarrow> x \<noteq> a + of_nat i) \<and> mem_view m h x = Some v \<longrightarrow>
       mem_view m' h' x = Some v)"
proof -
  obtain b where b: "mem_sub_block m = Some b" "m = with_block m b"
    using assms(2) by (rule mem_okE)
  have ok: "mem_ok room env (with_block m b) h"
    using assms(2) b(2) by simp
  obtain b' h' where w: "mem_do_write env g a (with_block m b) h = Inr (with_block m b', h')" "mem_ok room env (with_block m b') h'"
    "bytes_updated (request_map g a {..<unat (gp_length g)}) b h b' h'"
    by (rule mem_do_write_ok[OF assms(1,3) ok])
  have la: "mem_local_addr m (gp_address g) = Some a" "\<not> gp_streaming_width g < gp_length g"
    using assms(3) by (simp_all add: request_fits_def not_less)
  have "mem_b_transport env g delay m h =
      Inr (g\<lparr>gp_response := Ok_response, gp_dmi_allowed := (p_dmi (me_cfg env) \<or> gp_dmi_allowed g)\<rparr>,
           delay + p_latency (me_cfg env), with_block m b', h')"
    using w(1)[folded b(2)] la request_fits_accepted[OF assms(3)] assms(4,5)
    by (simp add: mem_b_transport_def mem_complete_def)
  moreover have "mem_view (with_block m b') h' (a + of_nat i) = Some (gp_data g ! i)"
    if "i < unat (gp_length g)" "enabled_at g i" for i
  proof -
    have "request_map g a {..<unat (gp_length g)} (a + of_nat i) = Some (gp_data g ! i)"
      using that request_index(2)[OF assms(3) that(1)] by (simp add: request_map_def unat_of_nat)
    then show ?thesis
      using w(3)[unfolded bytes_updated_def, THEN conjunct2, THEN spec[where x = "a + of_nat i"]] by (simp add: mem_view_def)
  qed
  moreover have "mem_view (with_block m b') h' x = Some v"
    if "\<forall>i < unat (gp_length g). enabled_at g i \<longrightarrow> x \<noteq> a + of_nat i" "mem_view m h x = Some v" for x v
  proof -
    have "x = a + of_nat (unat (x - a))"
      by simp
    then have "request_map g a {..<unat (gp_length g)} x = None"
      using that(1) unfolding request_map_def by (metis lessThan_iff)
    then show ?thesis
      using w(3)[unfolded bytes_updated_def, THEN conjunct2, THEN spec[where x = x]] that(2) b(1) by (simp add: mem_view_def)
  qed
  ultimately show ?thesis
    using w(2) by blast
qed

text \<open>
  C27. A read inside the memory returns, for every byte its byte enables select, the byte the memory
  holds, leaves the rest of the buffer alone, and changes no byte of the memory.
\<close>

theorem memory_read_correct:
  assumes "services_ok room (me_services env)" "mem_ok room env m h" "request_fits g m a"
    and "gp_command g = Read_command"
  shows "\<exists>data m' h'. mem_b_transport env g delay m h =
      Inr (g\<lparr>gp_data := data, gp_response := Ok_response, gp_dmi_allowed := (p_dmi (me_cfg env) \<or> gp_dmi_allowed g)\<rparr>,
           delay + p_latency (me_cfg env), m', h') \<and>
    mem_ok room env m' h' \<and> length data = length (gp_data g) \<and>
    (\<forall>i. if i < unat (gp_length g) \<and> enabled_at g i then mem_view m' h' (a + of_nat i) = Some (data ! i)
         else data ! i = gp_data g ! i) \<and>
    (\<forall>x v. mem_view m h x = Some v \<longrightarrow> mem_view m' h' x = Some v)"
proof -
  obtain b where b: "mem_sub_block m = Some b" "m = with_block m b"
    using assms(2) by (rule mem_okE)
  have ok: "mem_ok room env (with_block m b) h"
    using assms(2) b(2) by simp
  obtain data b' h' where r: "mem_do_read env g a (with_block m b) h = Inr (data, with_block m b', h')" "mem_ok room env (with_block m b') h'"
    "keeps_bytes b h b' h'" "length data = length (gp_data g)"
    "\<forall>i. if i < unat (gp_length g) \<and> enabled_at g i then mem_byte b' h' (a + of_nat i) = Some (data ! i) else data ! i = gp_data g ! i"
    by (rule mem_do_read_ok[OF assms(1,3) ok])
  have la: "mem_local_addr m (gp_address g) = Some a" "\<not> gp_streaming_width g < gp_length g"
    using assms(3) by (simp_all add: request_fits_def not_less)
  have "mem_b_transport env g delay m h =
      Inr (g\<lparr>gp_data := data, gp_response := Ok_response, gp_dmi_allowed := (p_dmi (me_cfg env) \<or> gp_dmi_allowed g)\<rparr>,
           delay + p_latency (me_cfg env), with_block m b', h')"
    using r(1)[folded b(2)] la request_fits_accepted[OF assms(3)] assms(4)
    by (simp add: mem_b_transport_def mem_complete_def)
  moreover have "\<forall>i. if i < unat (gp_length g) \<and> enabled_at g i then mem_view (with_block m b') h' (a + of_nat i) = Some (data ! i)
      else data ! i = gp_data g ! i"
    using r(5) by (simp add: mem_view_def)
  moreover have "\<forall>x v. mem_view m h x = Some v \<longrightarrow> mem_view (with_block m b') h' x = Some v"
    using keeps_bytes_mem_byte[OF r(3)] b(1) by (simp add: mem_view_def)
  ultimately show ?thesis
    using r(2,4) by blast
qed

lemma word_range_iff:
  fixes s n x :: u64
  assumes "unat s + unat n \<le> 2 ^ 64" "n \<noteq> 0"
  shows "s \<le> x \<and> x \<le> (s + n) - 1 \<longleftrightarrow> unat s \<le> unat x \<and> unat x < unat s + unat n"
proof -
  have n: "0 < unat n"
    using assms(2) by (simp add: unat_gt_0)
  then have "unat (n - 1) = unat n - 1"
    by (simp add: unat_sub word_le_nat_alt)
  moreover have "unat s + (unat n - 1) < 2 ^ 64"
    using assms(1) n by linarith
  ultimately have "unat (s + (n - 1)) = unat s + (unat n - 1)"
    by (simp add: unat_word_ariths(1))
  moreover have "s + (n - 1) = (s + n) - 1"
    by simp
  ultimately have "unat ((s + n) - 1) = unat s + (unat n - 1)"
    by (simp only:)
  then show ?thesis
    using n by (auto simp: word_le_nat_alt)
qed

lemma mem_view_poke:
  assumes "mem_inv room cfg b h" "host_of b y = Some q"
  shows "mem_byte b (h\<lparr>h_mem := (h_mem h)(q := v)\<rparr>) = (mem_byte b h)(y \<mapsto> v)"
proof
  fix z
  show "mem_byte b (h\<lparr>h_mem := (h_mem h)(q := v)\<rparr>) z = ((mem_byte b h)(y \<mapsto> v)) z"
    using host_of_inj[OF assms(1), of z q y] assms(2) by (cases "host_of b z") (auto simp: mem_byte_def)
qed

lemma window_local:
  assumes "mem_relative m \<or> unat (mem_address m) + unat (mem_size m) \<le> 2 ^ 64"
    and "leaf_within 0 (unat (mem_size m)) (s, n, p)"
  defines "start \<equiv> (if mem_relative m then s else s + mem_address m)"
  shows "start \<le> x \<and> x \<le> (start + n) - 1 \<longleftrightarrow> (\<exists>y. mem_local_addr m x = Some y \<and> leaf_holds y (s, n, p))"
    "start \<le> x \<and> x \<le> (start + n) - 1 \<Longrightarrow> mem_local_addr m x = Some y \<Longrightarrow> x - start = y - s"
proof -
  have w: "unat s + unat n \<le> unat (mem_size m)" "n \<noteq> 0"
    using assms(2) by (simp_all add: leaf_within_def)
  show iff: "start \<le> x \<and> x \<le> (start + n) - 1 \<longleftrightarrow> (\<exists>y. mem_local_addr m x = Some y \<and> leaf_holds y (s, n, p))"
  proof (cases "mem_relative m")
    case True
    then show ?thesis
      using word_range_iff[of s n x] w u64_less[of "mem_size m"] by (simp add: start_def mem_local_addr_def leaf_holds_def)
  next
    case False
    have bd: "unat s + unat (mem_address m) + unat n \<le> 2 ^ 64" "0 < unat n"
      using assms(1) False w by (auto simp: unat_gt_0)
    then have st: "unat start = unat s + unat (mem_address m)"
      using False by (simp add: start_def unat_word_ariths(1))
    have "start \<le> x \<and> x \<le> (start + n) - 1 \<longleftrightarrow> unat start \<le> unat x \<and> unat x < unat start + unat n"
      by (rule word_range_iff) (use st bd w in simp_all)
    also have "\<dots> \<longleftrightarrow> mem_address m \<le> x \<and> leaf_holds (x - mem_address m) (s, n, p)"
      unfolding st leaf_holds_def by (auto simp: word_le_nat_alt unat_sub)
    finally show ?thesis
      using False by (auto simp: mem_local_addr_def not_less split: if_splits)
  qed
  show "start \<le> x \<and> x \<le> (start + n) - 1 \<Longrightarrow> mem_local_addr m x = Some y \<Longrightarrow> x - start = y - s"
    by (auto simp: mem_local_addr_def start_def algebra_simps split: if_splits)
qed

text \<open>
  C28. Direct memory access and transport see the same bytes. A request for an address of the memory
  is granted; the granted window contains the address, all its addresses lie in the memory, and for
  each of them the host byte the pointer leads to is the byte the memory holds: what transport wrote
  is read through the pointer, and a byte stored through the pointer is the one that transport reads,
  with no other byte affected.
\<close>

theorem memory_dmi_coherent:
  assumes "services_ok room (me_services env)" "mem_ok room env m h" "p_dmi (me_cfg env)"
    and "mem_relative m \<or> unat (mem_address m) + unat (mem_size m) \<le> 2 ^ 64"
    and "mem_local_addr m (gp_address g) = Some a" "a < mem_size m"
  shows "\<exists>d m' h'. mem_get_direct_mem_ptr env g dmi m h = Inr (True, g, d, m', h') \<and> mem_ok room env m' h' \<and>
    dmi_start d \<le> gp_address g \<and> gp_address g \<le> dmi_end d \<and> dmi_read d \<and> (dmi_write d \<longleftrightarrow> \<not> p_rom (me_cfg env)) \<and>
    (\<forall>x v. mem_view m h x = Some v \<longrightarrow> mem_view m' h' x = Some v) \<and>
    (\<forall>x. dmi_start d \<le> x \<and> x \<le> dmi_end d \<longrightarrow>
       (\<exists>y. mem_local_addr m x = Some y \<and> y < mem_size m \<and>
          mem_view m' h' y = Some (h_mem h' (dmi_ptr d + (x - dmi_start d))) \<and>
          (\<forall>v. mem_view m' (h'\<lparr>h_mem := (h_mem h')(dmi_ptr d + (x - dmi_start d) := v)\<rparr>) = (mem_view m' h')(y \<mapsto> v))))"
proof -
  obtain b where b: "mem_sub_block m = Some b" "m = with_block m b" "mem_inv room (me_cfg env) b h" "sb_len b = mem_size m"
    using assms(2) by (rule mem_okE)
  have "unat a < unat (sb_len b)"
    using assms(6) b(4) by (simp add: word_less_nat_alt)
  then obtain leaf b' h' where acc: "access access_fuel (me_services env) (me_cfg env) a b h = Inr (leaf, b', h')"
    "access_post (me_cfg env) room a b h leaf b' h'" "mem_inv room (me_cfg env) b' h'" "keeps_bytes b h b' h'" "sb_len b' = sb_len b"
    by (rule access_step[OF assms(1) b(3)])
  define start where "start = (if mem_relative m then sb_address leaf else sb_address leaf + mem_address m)"
  define d where "d = dmi\<lparr>dmi_read := True, dmi_write := \<not> p_rom (me_cfg env), dmi_ptr := sb_ptr leaf, dmi_start := start,
    dmi_end := (start + sb_len leaf) - 1, dmi_read_latency := p_latency (me_cfg env), dmi_write_latency := p_latency (me_cfg env)\<rparr>"
  have key: "leaf_key leaf \<in> set (leaves b')" "leaf_holds a (leaf_key leaf)" "block_wf (me_cfg env) b'" "sb_address b' = 0"
    using acc(2,3) by (simp_all add: access_post_def mem_inv_def)
  have within: "leaf_within 0 (unat (mem_size m)) (sb_address leaf, sb_len leaf, sb_ptr leaf)"
    using leaves_ok_block[OF key(3)] key(1,4) acc(5) b(4) by (simp add: leaves_ok_def leaf_key_def)
  note win = window_local[OF assms(4) within, folded start_def]
  have "mem_get_direct_mem_ptr env g dmi m h = Inr (True, g, d, with_block m b', h')"
    using acc(1) assms(3,5,6) b(1) by (simp add: mem_get_direct_mem_ptr_def d_def start_def Let_def not_le)
  moreover have "mem_ok room env (with_block m b') h'"
    using acc(3,5) b(4) by (simp add: mem_ok_def)
  moreover have "start \<le> gp_address g \<and> gp_address g \<le> (start + sb_len leaf) - 1"
    using win(1) assms(5) key(2) by (auto simp: leaf_key_def)
  moreover have "\<forall>x v. mem_view m h x = Some v \<longrightarrow> mem_view (with_block m b') h' x = Some v"
    using keeps_bytes_mem_byte[OF acc(4)] b(1) by (simp add: mem_view_def)
  moreover have "\<exists>y. mem_local_addr m x = Some y \<and> y < mem_size m \<and>
      mem_view (with_block m b') h' y = Some (h_mem h' (sb_ptr leaf + (x - start))) \<and>
      (\<forall>v. mem_view (with_block m b') (h'\<lparr>h_mem := (h_mem h')(sb_ptr leaf + (x - start) := v)\<rparr>) = (mem_view (with_block m b') h')(y \<mapsto> v))"
    if x: "start \<le> x \<and> x \<le> (start + sb_len leaf) - 1" for x
  proof -
    obtain y where y: "mem_local_addr m x = Some y" "leaf_holds y (leaf_key leaf)"
      using win(1) x by (auto simp: leaf_key_def)
    have q: "host_of b' y = Some (sb_ptr leaf + (x - start))"
      using access_post_leaf[OF acc(2) y(2)] win(2)[OF x y(1)] by simp
    have "y < mem_size m"
      using y(2) within by (simp add: leaf_holds_def leaf_within_def leaf_key_def word_less_nat_alt)
    moreover have "mem_view (with_block m b') = mem_byte b'"
      by (simp add: mem_view_def fun_eq_iff)
    ultimately show ?thesis
      using y(1) q mem_view_poke[OF acc(3) q] by (simp add: mem_byte_def[of b' h'])
  qed
  ultimately show ?thesis
    by (intro exI[of _ d] exI[of _ "with_block m b'"] exI[of _ h']) (simp add: d_def)
qed

text \<open>An allocator that hands out consecutive ranges: the contract can be met.\<close>

definition bump_end :: "(u64 \<times> u64) list \<Rightarrow> nat" where
  "bump_end xs = foldr (\<lambda>(p, n) e. max e (unat p + unat n)) xs 0x1000"

definition bump_room :: "(u64 \<times> u64) list \<Rightarrow> nat" where
  "bump_room xs = 2 ^ 64 - 1 - bump_end xs"

definition bump_services :: mem_services where
  "bump_services = \<lparr>
     ms_map_file = (\<lambda>f len off h. (0, h)),
     ms_map_mem_create = (\<lambda>len h. (0, h)),
     ms_alloc = (\<lambda>len h.
       if bump_end (h_allocs h) + unat len < 2 ^ 64
       then (of_nat (bump_end (h_allocs h)), False, h\<lparr>h_allocs := (of_nat (bump_end (h_allocs h)), len) # h_allocs h\<rparr>)
       else (0, False, h))\<rparr>"

lemma bump_end_above: "0x1000 \<le> bump_end xs" "(p, n) \<in> set xs \<Longrightarrow> unat p + unat n \<le> bump_end xs"
  by (induction xs) (auto simp: bump_end_def)

lemma bump_services_ok: "services_ok bump_room bump_services"
proof -
  have "storage_ok bump_room len h (of_nat (bump_end (h_allocs h))) (h\<lparr>h_allocs := (of_nat (bump_end (h_allocs h)), len) # h_allocs h\<rparr>) \<and>
      (of_nat (bump_end (h_allocs h)) :: u64) \<noteq> 0" if "bump_end (h_allocs h) + unat len < 2 ^ 64" for len :: u64 and h :: host
  proof -
    let ?p = "of_nat (bump_end (h_allocs h)) :: u64"
    have p: "unat ?p = bump_end (h_allocs h)"
      using that by (simp add: unat_of_nat)
    then have "?p \<noteq> 0"
      using bump_end_above(1)[of "h_allocs h"] by (auto simp: word_unat_eq_iff)
    moreover have "bump_end ((?p, len) # h_allocs h) = bump_end (h_allocs h) + unat len"
      using p by (simp add: bump_end_def)
    ultimately show ?thesis
      using that bump_end_above(2) by (auto simp: storage_ok_def disjoint_ranges_def p bump_room_def)
  qed
  moreover have "\<not> unat len \<le> bump_room xs" if "\<not> bump_end xs + unat len < 2 ^ 64" "len \<noteq> 0" for len :: u64 and xs
  proof -
    have "0 < unat len"
      using that(2) by (simp add: unat_gt_0)
    then show ?thesis
      using that(1) by (simp add: bump_room_def)
  qed
  ultimately show ?thesis
    by (auto simp: services_ok_def bump_services_def storage_ok_def[of _ _ _ 0])
qed

definition example_mem_cfg :: mem_cfg where
  "example_mem_cfg = \<lparr>p_rom = False, p_dmi = True, p_latency = 10, p_mapfile = [], p_max_block_size = 0x1000,
     p_min_block_size = 0x1000, p_shmem = False, p_init_mem = True, p_init_mem_val = 0\<rparr>"

definition example_mem_env :: mem_env where
  "example_mem_env = \<lparr>me_services = bump_services, me_cfg = example_mem_cfg,
     me_broker = \<lparr>br_param = Map.empty, br_preset = Map.empty, br_unconsumed = []\<rparr>, me_name = ''mem''\<rparr>"

definition example_mem :: gs_memory where
  "example_mem = \<lparr>mem_size = 0x4000, mem_address = 0, mem_address_valid = True, mem_relative = True,
     mem_sub_block = Some (mk_sub_block 0 0x4000)\<rparr>"

definition example_host :: host where
  "example_host = \<lparr>h_mem = (\<lambda>_. 0x55), h_allocs = []\<rparr>"

lemma example_mem_ok: "mem_ok bump_room example_mem_env example_mem example_host"
proof -
  have sp: "splittable example_mem_cfg 0x4000"
    by (subst splittable.simps, subst splittable.simps) (simp add: example_mem_cfg_def)
  have "block_wf example_mem_cfg (mk_sub_block 0 0x4000)" "leaves (mk_sub_block 0 0x4000) = []"
    by (rule mk_sub_block_wf[OF sp]; simp)+
  then show ?thesis
    by (simp add: mem_ok_def example_mem_def mem_inv_def example_mem_env_def allocated_def example_host_def bump_room_def
        bump_end_def mk_sub_block_def)
qed

definition example_store :: gp where
  "example_store = gp_init\<lparr>gp_command := Write_command, gp_address := 0xFFE, gp_length := 4, gp_streaming_width := 4,
     gp_data := [1, 2, 3, 4], gp_byte_enable := Some [0xff, 0], gp_byte_enable_length := 2\<rparr>"

lemma example_store_fits: "request_fits example_store example_mem 0xFFE"
  by (simp add: request_fits_def example_store_def example_mem_def mem_local_addr_def gp_init_def)

theorem memory_write_correct_witness:
  "\<exists>m' h'. mem_b_transport example_mem_env example_store 0 example_mem example_host =
      Inr (example_store\<lparr>gp_response := Ok_response, gp_dmi_allowed := True\<rparr>, 10, m', h') \<and>
    mem_view m' h' 0xFFE = Some 1 \<and> mem_view m' h' 0x1000 = Some 3"
proof -
  have "services_ok bump_room (me_services example_mem_env)" "\<not> p_rom (me_cfg example_mem_env)"
    by (simp_all add: example_mem_env_def bump_services_ok example_mem_cfg_def)
  from memory_write_correct[OF this(1) example_mem_ok example_store_fits _ this(2), of 0]
  obtain m' h' where "mem_b_transport example_mem_env example_store 0 example_mem example_host =
      Inr (example_store\<lparr>gp_response := Ok_response, gp_dmi_allowed := True\<rparr>, 10, m', h')"
    "\<forall>i < 4. enabled_at example_store i \<longrightarrow> mem_view m' h' (0xFFE + of_nat i) = Some ([1, 2, 3, 4] ! i)"
    by (auto simp: example_store_def example_mem_env_def example_mem_cfg_def)
  moreover from this(2)[rule_format, of 0] this(2)[rule_format, of 2]
  have "mem_view m' h' 0xFFE = Some 1" "mem_view m' h' 0x1000 = Some 3"
    by (simp_all add: enabled_at_def example_store_def)
  ultimately show ?thesis
    by blast
qed

theorem memory_read_correct_witness:
  "\<exists>g' m' h'. mem_b_transport example_mem_env (example_store\<lparr>gp_command := Read_command\<rparr>) 0 example_mem example_host =
      Inr (g', 10, m', h') \<and> gp_response g' = Ok_response \<and> gp_data g' ! 1 = 2 \<and> mem_view m' h' 0xFFE = Some (gp_data g' ! 0)"
proof -
  have ms: "services_ok bump_room (me_services example_mem_env)"
    by (simp add: example_mem_env_def bump_services_ok)
  have fits: "request_fits (example_store\<lparr>gp_command := Read_command\<rparr>) example_mem 0xFFE"
    by (simp add: request_fits_def example_store_def example_mem_def mem_local_addr_def gp_init_def)
  from memory_read_correct[OF ms example_mem_ok fits _, of 0]
  obtain data m' h' where "mem_b_transport example_mem_env (example_store\<lparr>gp_command := Read_command\<rparr>) 0 example_mem example_host =
      Inr (example_store\<lparr>gp_command := Read_command, gp_data := data, gp_response := Ok_response, gp_dmi_allowed := True\<rparr>, 10, m', h')"
    and "\<forall>i. if i < 4 \<and> enabled_at (example_store\<lparr>gp_command := Read_command\<rparr>) i then mem_view m' h' (0xFFE + of_nat i) = Some (data ! i)
         else data ! i = [1, 2, 3, 4] ! i"
    by (auto simp: example_store_def example_mem_env_def example_mem_cfg_def)
  moreover from this(2)[rule_format, of 0] this(2)[rule_format, of 1]
  have "mem_view m' h' 0xFFE = Some (data ! 0)" "data ! 1 = 2"
    by (simp_all add: enabled_at_def example_store_def)
  ultimately show ?thesis
    by simp
qed

theorem memory_dmi_coherent_witness:
  "\<exists>d m' h'. mem_get_direct_mem_ptr example_mem_env example_store dmi_init example_mem example_host = Inr (True, example_store, d, m', h') \<and>
    dmi_start d \<le> 0xFFE \<and> 0xFFE \<le> dmi_end d \<and>
    mem_view m' h' 0xFFE = Some (h_mem h' (dmi_ptr d + (0xFFE - dmi_start d)))"
proof -
  have "services_ok bump_room (me_services example_mem_env)" "p_dmi (me_cfg example_mem_env)"
    "mem_local_addr example_mem (gp_address example_store) = Some 0xFFE" "0xFFE < mem_size example_mem" "mem_relative example_mem"
    by (simp_all add: example_mem_env_def bump_services_ok example_mem_cfg_def example_mem_def mem_local_addr_def example_store_def)
  from memory_dmi_coherent[OF this(1) example_mem_ok this(2) _ this(3,4), of dmi_init] this(5)
  obtain d m' h' where "mem_get_direct_mem_ptr example_mem_env example_store dmi_init example_mem example_host = Inr (True, example_store, d, m', h')"
    "dmi_start d \<le> gp_address example_store" "gp_address example_store \<le> dmi_end d"
    "\<forall>x. dmi_start d \<le> x \<and> x \<le> dmi_end d \<longrightarrow> (\<exists>y. mem_local_addr example_mem x = Some y \<and>
      mem_view m' h' y = Some (h_mem h' (dmi_ptr d + (x - dmi_start d))))"
    by blast
  moreover have "gp_address example_store = 0xFFE"
    by (simp add: example_store_def)
  moreover from calculation have "mem_view m' h' 0xFFE = Some (h_mem h' (dmi_ptr d + (0xFFE - dmi_start d)))"
    by (auto simp: mem_local_addr_def example_mem_def dest: spec[where x = "0xFFE"])
  ultimately show ?thesis
    by auto
qed

text \<open>
  C29. The range check of \<^verbatim>\<open>b_transport\<close> adds address and length without looking for a carry, so that a
  request just below the top of the 64-bit address space passes it. The copy then starts in front of
  the block: a read of eight bytes at \<open>0xFFFFFFFFFFFFFFFC\<close> of a memory of \<open>0x1000\<close> bytes returns, with
  an OK response, four bytes of host memory that precede the allocation and the first four bytes of
  the memory.
\<close>

definition allocated_mem :: gs_memory where
  "allocated_mem = \<lparr>mem_size = 0x1000, mem_address = 0, mem_address_valid = True, mem_relative = True,
     mem_sub_block = Some (SubBlock 0x1000 0 0x10000 False False False [None, None, None, None])\<rparr>"

definition wrapping_read :: gp where
  "wrapping_read = gp_init\<lparr>gp_command := Read_command, gp_address := 0xFFFFFFFFFFFFFFFC, gp_length := 8, gp_streaming_width := 8,
     gp_data := replicate 8 0\<rparr>"


text \<open>
  A reset does not reach all of a divided memory. The loop of \<^verbatim>\<open>doreset\<close> runs over N entries, two, of an
  array of 1 << N, four: with the memory divided into four blocks, a reset initializes the first two
  and leaves every byte of the last two as it was.
\<close>

definition block_at :: "nat \<Rightarrow> sub_block option" where
  "block_at i = Some (SubBlock 0x1000 (of_nat i * 0x1000) (0x10000 + of_nat i * 0x1000) False False False [None, None, None, None])"

definition divided_block :: sub_block where
  "divided_block = SubBlock 0x4000 0 0 True False False [block_at 0, block_at 1, block_at 2, block_at 3]"

lemma reset_skips_blocks:
  "block_wf example_mem_cfg divided_block \<and>
   mem_byte divided_block (sb_doreset example_mem_cfg divided_block h) 0x0 = Some 0 \<and>
   mem_byte divided_block (sb_doreset example_mem_cfg divided_block h) 0x1FFF = Some 0 \<and>
   mem_byte divided_block (sb_doreset example_mem_cfg divided_block h) 0x2000 = Some (h_mem h 0x12000) \<and>
   mem_byte divided_block (sb_doreset example_mem_cfg divided_block h) 0x3FFF = Some (h_mem h 0x13FFF)"
proof -
  have "splittable example_mem_cfg 0x1000" "splittable example_mem_cfg 0x4000"
    by (subst splittable.simps; simp add: example_mem_cfg_def)+
  moreover have "(\<forall>i < 4. P i) \<longleftrightarrow> P 0 \<and> P 1 \<and> P 2 \<and> P (3 :: nat)" for P
    by (auto simp: numeral_eq_Suc less_Suc_eq)
  ultimately show ?thesis
    by (simp add: divided_block_def block_at_def example_mem_cfg_def mem_byte_def host_of_def leaf_holds_def host_memset_def)
qed

text \<open>An elaborated memory starts well-formed, without storage.\<close>

lemma mem_elaborated:
  assumes "mem_before_end_of_elaboration (me_broker env) (me_name env) m = Inr m1" "mem_sub_block m = None"
    and "splittable (me_cfg env) (mem_size m1)" "unat (mem_size m1) \<le> room (h_allocs h)"
  shows "mem_ok room env m1 h" "mem_view m1 h a = None"
proof -
  have sb: "mem_sub_block m1 = Some (mk_sub_block 0 (mem_size m1))"
    using assms(1,2) by (auto simp: mem_before_end_of_elaboration_def)
  have "block_wf (me_cfg env) (mk_sub_block 0 (mem_size m1))" "leaves (mk_sub_block 0 (mem_size m1)) = []"
    using mk_sub_block_wf[OF assms(3), of 0] less_imp_le[OF u64_less[of "mem_size m1"]] by simp_all
  then show "mem_ok room env m1 h" "mem_view m1 h a = None"
    using sb assms(4)
    by (simp_all add: mem_ok_def mem_inv_def allocated_def mem_view_def mem_byte_def host_of_def mk_sub_block_def)
qed

end
