(* ===== verification/RegMemory.thy ===== *)
theory RegMemory
  imports RegSystem GsMemory
begin

text \<open>
  Registers in a \<^verbatim>\<open>gs_memory\<close>, the memory \<^verbatim>\<open>reg_model_maker.h\<close> creates for them: a memory with
  relative addresses whose single block has storage meets the contract \<open>reg_store\<close>.
\<close>

section \<open>Registers in a memory\<close>

text \<open>The socket of a memory as a register sees it.\<close>

definition mem_port :: "mem_env \<Rightarrow> (gs_memory \<times> host) reg_port" where
  "mem_port env = \<lparr>
     rp_b_transport = (\<lambda>g d x. bind_res (mem_b_transport env g d (fst x) (snd x)) (\<lambda>(g1, d1, m1, h1).
       Inr (g1, d1, [], (m1, h1)))),
     rp_dmi = (\<lambda>g dmi x. bind_res (mem_get_direct_mem_ptr env g dmi (fst x) (snd x)) (\<lambda>(ok, g1, dmi1, m1, h1).
       Inr (ok, g1, dmi1, [], (m1, h1)))),
     rp_peek = (\<lambda>p n x. host_read p n (snd x)),
     rp_poke = (\<lambda>p bs x. (fst x, host_write p bs (snd x)))\<rparr>"

text \<open>A writable memory of \<open>n\<close> bytes with relative addresses whose single block has storage.\<close>

definition flat_block :: "u64 \<Rightarrow> sub_block \<Rightarrow> bool" where
  "flat_block n b \<longleftrightarrow> sb_len b = n \<and> sb_address b = 0 \<and> sb_ptr b \<noteq> 0 \<and> \<not> sb_use_sub_blocks b
     \<and> unat (sb_ptr b) + unat n \<le> 2 ^ 64"

definition flat_mem :: "mem_env \<Rightarrow> u64 \<Rightarrow> gs_memory \<times> host \<Rightarrow> bool" where
  "flat_mem env n x \<longleftrightarrow> \<not> p_rom (me_cfg env) \<and> mem_relative (fst x) \<and> mem_size (fst x) = n
     \<and> (case mem_sub_block (fst x) of None \<Rightarrow> False | Some b \<Rightarrow> flat_block n b)"

definition mem_base :: "gs_memory \<times> host \<Rightarrow> u64" where
  "mem_base x = (case mem_sub_block (fst x) of None \<Rightarrow> 0 | Some b \<Rightarrow> sb_ptr b)"

definition mem_bytes :: "gs_memory \<times> host \<Rightarrow> nat \<Rightarrow> u8" where
  "mem_bytes x a = (if a < unat (mem_size (fst x)) then h_mem (snd x) (mem_base x + of_nat a) else 0)"

lemma access_flat: "flat_block n b \<Longrightarrow> access access_fuel ms cfg a b h = Inr (b, b, h)"
proof -
  obtain k where f: "access_fuel = Suc k" by (cases access_fuel) (auto simp: access_fuel_def)
  assume "flat_block n b"
  then show ?thesis unfolding f by (cases b) (simp add: flat_block_def Let_def)
qed

lemma remaining_flat:
  assumes "flat_block n b" "unat a + unat len \<le> unat n"
  shows "remaining_in_block b a len = len"
proof -
  have "unat (n - a) = unat n - unat a" using assms(2) by (simp add: unat_sub_if')
  then have "len \<le> n - a" using assms(2) by (simp add: word_le_nat_alt)
  then show ?thesis using assms(1) by (auto simp: remaining_in_block_def flat_block_def Let_def)
qed

lemma read_flat:
  assumes "flat_block n b" "unat a + unat len \<le> unat n"
  shows "read_loop (unat len) ms cfg a len b h = Inr (host_read (sb_ptr b + a) (unat len) h, b, h)"
proof -
  have z: "read_loop k ms cfg a' 0 b h = Inr ([], b, h)" for k a' by (subst read_loop.simps) simp
  show ?thesis
  proof (cases "unat len")
    case 0
    then have "len = 0" by (simp add: unat_eq_0)
    then show ?thesis by (simp add: z host_read_def)
  next
    case (Suc k)
    then have "len \<noteq> 0" by auto
    then show ?thesis
      unfolding Suc using access_flat[OF assms(1)] remaining_flat[OF assms] assms(1) Suc
      by (subst read_loop.simps) (simp add: read_sub_blocks_def flat_block_def z)
  qed
qed

lemma write_flat:
  assumes "flat_block n b" "unat a + unat len \<le> unat n"
  shows "write_loop (unat len) ms cfg data a len b h = Inr (b, host_write (sb_ptr b + a) (take (unat len) data) h)"
proof -
  have z: "write_loop k ms cfg d a' 0 b h' = Inr (b, h')" for k d a' h' by (subst write_loop.simps) simp
  show ?thesis
  proof (cases "unat len")
    case 0
    then have "len = 0" by (simp add: unat_eq_0)
    then show ?thesis by (simp add: z)
  next
    case (Suc k)
    then have "len \<noteq> 0" by auto
    then show ?thesis
      unfolding Suc using access_flat[OF assms(1)] remaining_flat[OF assms] assms(1) Suc
      by (subst write_loop.simps) (simp add: write_sub_blocks_def flat_block_def z)
  qed
qed

lemma host_read_flat:
  "a + k \<le> unat (mem_size m) \<Longrightarrow> host_read (mem_base (m, h) + of_nat a) k h = bytes_at (mem_bytes (m, h)) a k"
  by (rule nth_equalityI) (simp_all add: host_read_def bytes_at_def mem_bytes_def add.assoc)

lemma host_write_flat:
  assumes "mem_base (m, h) = p" "unat p + unat (mem_size m) \<le> 2 ^ 64" "a + length bs \<le> unat (mem_size m)"
  shows "mem_bytes (m, host_write (p + of_nat a) bs h) = put_bytes a bs (mem_bytes (m, h))"
proof (cases "bs = []")
  case False
  have u: "unat (p + of_nat y) = unat p + y" if "y < unat (mem_size m)" for y
    using that assms(2) by (simp add: unat_word_ariths(1) unat_of_nat)
  have a: "unat (p + of_nat a) = unat p + a" using u[of a] assms(3) False by (cases bs) auto
  then have "unat (p + of_nat a) + length bs \<le> 2 ^ 64" using assms(2,3) by simp
  note w = host_write_mem[OF this, of h]
  have "mem_base (m, host_write (p + of_nat a) bs h) = p" using assms(1) by (simp add: mem_base_def)
  then have "mem_bytes (m, host_write (p + of_nat a) bs h) x = put_bytes a bs (mem_bytes (m, h)) x" for x
    using w[of "p + of_nat x"] u[of x] a assms(1,3) by (auto simp: mem_bytes_def put_bytes_def)
  then show ?thesis by blast
qed (simp add: assms(1))

lemma flat_memE:
  assumes "flat_mem env n (m, h)"
  obtains b where "mem_sub_block m = Some b" "flat_block n b" "mem_relative m" "mem_size m = n"
    "\<not> p_rom (me_cfg env)" "mem_base (m, h') = sb_ptr b" "m\<lparr>mem_sub_block := Some b\<rparr> = m"
proof -
  obtain b where b: "mem_sub_block m = Some b" "flat_block n b"
    using assms by (auto simp: flat_mem_def split: option.splits)
  moreover have "m\<lparr>mem_sub_block := Some b\<rparr> = m" using b(1) by simp
  ultimately show thesis using that assms by (simp add: flat_mem_def mem_base_def)
qed

lemma flat_mem_host: "flat_mem env n (m, h') = flat_mem env n (m, h)"
  by (simp add: flat_mem_def)

lemma flat_range:
  fixes a n :: u64 and len :: u32
  assumes "unat a + unat len \<le> unat n"
  shows "unat a + unat (ucast len :: u64) \<le> unat n" "\<not> n < a + ucast len"
proof -
  show l: "unat a + unat (ucast len :: u64) \<le> unat n" using assms by (simp add: unat_ucast_32_64)
  then show "\<not> n < a + ucast len" using u64_less[of n] by (simp add: word_less_nat_alt unat_word_ariths(1))
qed

lemma flat_transport:
  assumes "flat_mem env n (m, h)" "gp_byte_enable g = None" "gp_length g \<le> gp_streaming_width g"
    and "unat (gp_length g) = length (gp_data g)" "unat (gp_address g) + length (gp_data g) \<le> unat n"
  shows "gp_command g = Read_command \<Longrightarrow> mem_b_transport env g d m h =
      Inr (g\<lparr>gp_data := bytes_at (mem_bytes (m, h)) (unat (gp_address g)) (length (gp_data g)),
             gp_response := Ok_response, gp_dmi_allowed := (p_dmi (me_cfg env) \<or> gp_dmi_allowed g)\<rparr>,
           d + p_latency (me_cfg env), m, h)"
    and "gp_command g = Write_command \<Longrightarrow> mem_b_transport env g d m h =
      Inr (g\<lparr>gp_response := Ok_response, gp_dmi_allowed := (p_dmi (me_cfg env) \<or> gp_dmi_allowed g)\<rparr>,
           d + p_latency (me_cfg env), m, host_write (mem_base (m, h) + gp_address g) (gp_data g) h)"
proof -
  obtain b where b: "mem_sub_block m = Some b" "flat_block n b" "mem_relative m" "mem_size m = n"
    "\<not> p_rom (me_cfg env)" "mem_base (m, h) = sb_ptr b" "m\<lparr>mem_sub_block := Some b\<rparr> = m"
    using flat_memE[OF assms(1)] by metis
  have len: "unat (gp_address g) + unat (gp_length g) \<le> unat n" using assms(4,5) by simp
  note rg = flat_range[OF len]
  note evals = mem_b_transport_def mem_local_addr_def mem_do_read_def mem_do_write_def mem_read_def mem_write_def
    mem_before_end_of_elaboration_def mem_complete_def Let_def
  have r: "read_loop (unat (ucast (gp_length g) :: u64)) (me_services env) (me_cfg env) (gp_address g) (ucast (gp_length g)) b h
      = Inr (bytes_at (mem_bytes (m, h)) (unat (gp_address g)) (length (gp_data g)), b, h)"
    using read_flat[OF b(2) rg(1), of "me_services env" "me_cfg env" h] assms(4,5) b
      host_read_flat[of "unat (gp_address g)" "length (gp_data g)" m h] by (simp add: unat_ucast_32_64)
  show "gp_command g = Read_command \<Longrightarrow> mem_b_transport env g d m h =
      Inr (g\<lparr>gp_data := bytes_at (mem_bytes (m, h)) (unat (gp_address g)) (length (gp_data g)),
             gp_response := Ok_response, gp_dmi_allowed := (p_dmi (me_cfg env) \<or> gp_dmi_allowed g)\<rparr>,
           d + p_latency (me_cfg env), m, h)"
    using assms(2-4) b rg(2) r by (simp add: evals not_less[symmetric])
  have w: "write_loop (unat (ucast (gp_length g) :: u64)) (me_services env) (me_cfg env) (gp_data g) (gp_address g)
      (ucast (gp_length g)) b h = Inr (b, host_write (mem_base (m, h) + gp_address g) (gp_data g) h)"
    using write_flat[OF b(2) rg(1), of "me_services env" "me_cfg env" "gp_data g" h] assms(4) b by (simp add: unat_ucast_32_64)
  show "gp_command g = Write_command \<Longrightarrow> mem_b_transport env g d m h =
      Inr (g\<lparr>gp_response := Ok_response, gp_dmi_allowed := (p_dmi (me_cfg env) \<or> gp_dmi_allowed g)\<rparr>,
           d + p_latency (me_cfg env), m, host_write (mem_base (m, h) + gp_address g) (gp_data g) h)"
    using assms(2-4) b rg(2) w by (simp add: evals not_less[symmetric])
qed

lemma flat_dmi:
  assumes "flat_mem env n (m, h)" "unat (gp_address g) < unat n"
  shows "mem_get_direct_mem_ptr env g dmi m h =
      (if p_dmi (me_cfg env)
       then Inr (True, g, dmi\<lparr>dmi_read := True, dmi_write := True, dmi_ptr := mem_base (m, h), dmi_start := 0,
              dmi_end := n - 1, dmi_read_latency := p_latency (me_cfg env),
              dmi_write_latency := p_latency (me_cfg env)\<rparr>, m, h)
       else Inr (False, g, dmi, m, h))"
proof -
  obtain b where b: "mem_sub_block m = Some b" "flat_block n b" "mem_relative m" "mem_size m = n"
    "\<not> p_rom (me_cfg env)" "mem_base (m, h) = sb_ptr b" "m\<lparr>mem_sub_block := Some b\<rparr> = m"
    using flat_memE[OF assms(1)] by metis
  then show ?thesis
    using access_flat[OF b(2)] assms(2)
    by (simp add: mem_get_direct_mem_ptr_def mem_local_addr_def word_le_nat_alt flat_block_def Let_def)
qed

lemma flat_poke:
  assumes "flat_mem env n (m, h)" "a + length bs \<le> unat n" "h' = host_write (mem_base (m, h) + of_nat a) bs h"
  shows "flat_mem env n (m, h') \<and> mem_bytes (m, h') = put_bytes a bs (mem_bytes (m, h)) \<and> mem_base (m, h') = mem_base (m, h)"
proof -
  obtain b where b: "flat_block n b" "mem_size m = n" "mem_base (m, h) = sb_ptr b"
    using flat_memE[OF assms(1)] by metis
  then show ?thesis
    using assms host_write_flat[OF refl, of m h a bs] flat_mem_host[of env n m h' h]
    by (simp add: flat_block_def mem_base_def)
qed

lemma unat_word_id: "of_nat (unat (a :: u64)) = a"
  by simp

lemma mem_port_calls:
  "rp_b_transport (mem_port env) g d (m, h) = bind_res (mem_b_transport env g d m h) (\<lambda>(g1, d1, m1, h1). Inr (g1, d1, [], (m1, h1)))"
  "rp_dmi (mem_port env) g dmi (m, h) = bind_res (mem_get_direct_mem_ptr env g dmi m h) (\<lambda>(ok, g1, dmi1, m1, h1). Inr (ok, g1, dmi1, [], (m1, h1)))"
  "rp_peek (mem_port env) p k (m, h) = host_read p k h"
  "rp_poke (mem_port env) p bs (m, h) = (m, host_write p bs h)"
  by (simp_all add: mem_port_def)

interpretation mem_store: reg_store "mem_port env" "flat_mem env n" mem_bytes mem_base "unat n"
  for env :: mem_env and n :: u64
proof (unfold_locales, goal_cases)
  case 1
  show ?case using u64_less[of n] by simp
next
  case (2 s g d)
  obtain m h where s: "s = (m, h)" by (cases s)
  note t = flat_transport(1)[OF 2(1)[unfolded s] 2(3-6) 2(2), of d]
  show ?case unfolding s mem_port_calls t bind_res_simps prod.case using 2(1) s by blast
next
  case (3 s g d)
  obtain m h where s: "s = (m, h)" by (cases s)
  note t = flat_transport(2)[OF 3(1)[unfolded s] 3(3-6) 3(2), of d]
  note p = flat_poke[OF 3(1)[unfolded s] 3(6) refl, unfolded unat_word_id]
  show ?case unfolding s mem_port_calls t bind_res_simps prod.case using p by blast
next
  case (4 s g dmi)
  obtain m h where s: "s = (m, h)" by (cases s)
  note t = flat_dmi[OF 4(1)[unfolded s] 4(2), of dmi]
  have "n \<noteq> 0" using 4(2) by auto
  then have "unat (n - 1) = unat n - 1" by (rule unat_minus_one)
  then show ?case using 4(1) unfolding s mem_port_calls t by (cases "p_dmi (me_cfg env)") auto
next
  case (5 s a k)
  obtain m h where s: "s = (m, h)" by (cases s)
  have "mem_size m = n" using 5(1) by (simp add: s flat_mem_def)
  then show ?case unfolding s mem_port_calls using host_read_flat[of a k m h] 5(2) by simp
next
  case (6 s a bs s')
  obtain m h where s: "s = (m, h)" by (cases s)
  show ?case using flat_poke[OF 6(1)[unfolded s] 6(2) refl] 6(3) unfolding s mem_port_calls by blast
qed

end
