(* ===== verification/DmiConverter.thy ===== *)
theory DmiConverter
  imports RegMemory
begin

text \<open>
  \<^verbatim>\<open>dmi_converter/include/dmi_converter.h\<close>: a component that turns transactions into direct memory
  accesses. It keeps the windows it was granted in a map from their start; an access is served
  block by block from the windows that hold its bytes, and what no window serves is sent on. The
  socket behind it, with the host memory its pointers lead to, is a \<open>reg_port\<close>.

  The loop of \<^verbatim>\<open>b_transport\<close> need not end; \<open>conv_b_transport\<close> is \<open>None\<close> when it does not. Over the
  contract \<open>dmi_target\<close> of a memory it ends, and the converter cannot be told from the memory. The
  contract \<open>reg_store\<close> implies it, so that it holds for the memory of the program.
\<close>

section \<open>The cache\<close>

record dmi_converter =
  m_dmi_cache :: "(u64, tlm_dmi) smap"
  p_tlm_ports_num :: u32

definition in_cache :: "u64 \<Rightarrow> (u64, tlm_dmi) smap \<Rightarrow> tlm_dmi option" where
  "in_cache address m =
     (case smap_pred address m of
        Some (_, d) \<Rightarrow> if address \<ge> dmi_start d \<and> address \<le> dmi_end d then Some d else None
      | None \<Rightarrow> None)"

definition cache_clean :: "u64 \<Rightarrow> u64 \<Rightarrow> (u64, tlm_dmi) smap \<Rightarrow> (u64, tlm_dmi) smap" where
  "cache_clean s e m = fst (smap_invalidate dmi_start dmi_end s e m)"

text \<open>An invalidation cleans the cache and goes on to every target port.\<close>

definition conv_invalidate_direct_mem_ptr :: "u64 \<Rightarrow> u64 \<Rightarrow> dmi_converter \<Rightarrow>
    (nat \<times> inval) list \<times> dmi_converter" where
  "conv_invalidate_direct_mem_ptr s e c =
     (map (\<lambda>i. (i, s, e)) [0..<unat (p_tlm_ports_num c)], c\<lparr>m_dmi_cache := cache_clean s e (m_dmi_cache c)\<rparr>)"

fun conv_invals :: "inval list \<Rightarrow> dmi_converter \<Rightarrow> (nat \<times> inval) list \<times> dmi_converter" where
  "conv_invals [] c = ([], c)"
| "conv_invals ((s, e) # is) c =
     (let (ns, c1) = conv_invalidate_direct_mem_ptr s e c; (ns1, c2) = conv_invals is c1 in (ns @ ns1, c2))"

section \<open>Byte enables and access types\<close>

definition is_dmi_access_type_granted :: "tlm_dmi \<Rightarrow> tlm_command \<Rightarrow> bool" where
  "is_dmi_access_type_granted d cmd =
     (case cmd of Write_command \<Rightarrow> dmi_write d | Read_command \<Rightarrow> dmi_read d | Ignore_command \<Rightarrow> False)"

text \<open>The first component is how far the pointer that was passed in is moved.\<close>

definition update_byte_enable :: "gp \<Rightarrow> u8 list \<Rightarrow> u32 \<Rightarrow> u64 \<Rightarrow> nat \<times> u8 list \<times> u32" where
  "update_byte_enable txn byt bel_remaining_len iter_len =
     (let trans_dl = gp_length txn; trans_bel = gp_byte_enable_length txn;
          k = unat iter_len mod unat trans_bel
      in if trans_bel \<ge> trans_dl then (unat iter_len, byt, trans_bel - ucast iter_len)
         else if k = 0 then (0, byt, bel_remaining_len)
         else (0, rotate k byt, trans_bel))"

section \<open>Transport\<close>

text \<open>The variables of the loop. \<open>cv_pos\<close> is how far \<^verbatim>\<open>trans_data_ptr\<close> has moved.\<close>

record 's conv =
  cv_addr :: u64
  cv_remaining :: u64
  cv_pos :: nat
  cv_byt :: "u8 list option"
  cv_bel :: u32
  cv_used :: bool
  cv_txn :: gp
  cv_delay :: u64
  cv_notices :: "(nat \<times> inval) list"
  cv_conv :: dmi_converter
  cv_env :: 's

definition enabled_byte :: "u8 list option \<Rightarrow> u32 \<Rightarrow> nat \<Rightarrow> bool" where
  "enabled_byte byt bel i = (case byt of None \<Rightarrow> True | Some bs \<Rightarrow> bs ! (i mod unat bel) = 0xff)"

fun poke_enabled :: "'s reg_port \<Rightarrow> (nat \<Rightarrow> bool) \<Rightarrow> u64 \<Rightarrow> nat \<Rightarrow> u8 list \<Rightarrow> 's \<Rightarrow> 's" where
  "poke_enabled port en q i [] s = s"
| "poke_enabled port en q i (b # bs) s =
     poke_enabled port en q (Suc i) bs (if en i then rp_poke port (q + of_nat i) [b] s else s)"

definition peek_enabled :: "'s reg_port \<Rightarrow> (nat \<Rightarrow> bool) \<Rightarrow> u64 \<Rightarrow> u8 list \<Rightarrow> 's \<Rightarrow> u8 list" where
  "peek_enabled port en q bs s =
     map (\<lambda>i. if en i then hd (rp_peek port (q + of_nat i) 1 s) else bs ! i) [0..<length bs]"

text \<open>One block of the access through the pointer of a cached window. The pointer into the byte enables
  that \<^verbatim>\<open>update_byte_enable\<close> moves is a copy; only its changes to the buffer remain.\<close>

definition block_len :: "tlm_dmi \<Rightarrow> 's conv \<Rightarrow> u64" where
  "block_len d v =
     (let current_block_len = (dmi_end d - cv_addr v) + 1
      in if cv_remaining v > current_block_len then current_block_len else cv_remaining v)"

definition after_block :: "u64 \<Rightarrow> gp \<Rightarrow> 's \<Rightarrow> 's conv \<Rightarrow> 's conv" where
  "after_block iter_len txn s v =
     (let remaining_len = cv_remaining v - iter_len;
          (byt, bel) =
            (case cv_byt v of
               None \<Rightarrow> (None, cv_bel v)
             | Some byt \<Rightarrow> (case update_byte_enable txn byt (cv_bel v) iter_len of (_, byt1, bel1) \<Rightarrow> (Some byt1, bel1)))
      in v\<lparr>cv_addr := cv_addr v + iter_len, cv_remaining := remaining_len, cv_pos := cv_pos v + unat iter_len,
           cv_byt := byt, cv_bel := bel, cv_used := True, cv_env := s,
           cv_txn := (if remaining_len = 0 then txn\<lparr>gp_dmi_allowed := True, gp_response := Ok_response\<rparr> else txn)\<rparr>)"

definition cached_block :: "'s reg_port \<Rightarrow> tlm_command \<Rightarrow> u32 \<Rightarrow> tlm_dmi \<Rightarrow> 's conv \<Rightarrow> (bool \<times> 's conv) res" where
  "cached_block port cmd bel d v =
     (let txn = cv_txn v; pos = cv_pos v; s = cv_env v;
          iter_len = block_len d v; n = unat iter_len;
          q = dmi_ptr d + (cv_addr v - dmi_start d);
          en = enabled_byte (cv_byt v) bel;
          bs = take n (drop pos (gp_data txn))
      in if cmd = Ignore_command then Inr (True, v)
         else if length (gp_data txn) < pos + n then Inl Out_of_bounds
         else if cmd = Write_command then
           Inr (False, after_block iter_len txn
             (if cv_byt v = None then rp_poke port q bs s else poke_enabled port en q 0 bs s) v)
         else
           Inr (False, after_block iter_len
             (txn\<lparr>gp_data := take pos (gp_data txn)
                   @ (if cv_byt v = None then rp_peek port q n s else peek_enabled port en q bs s)
                   @ drop (pos + n) (gp_data txn)\<rparr>) s v))"

text \<open>What is sent on when the window is missing: the transaction, or the rest of it once a block has
  been served. The rest shares the data buffer of the transaction.\<close>

definition rest_txn :: "'s conv \<Rightarrow> gp" where
  "rest_txn v =
     (if cv_used v
      then (cv_txn v)\<lparr>gp_address := cv_addr v, gp_length := ucast (cv_remaining v),
             gp_data := drop (cv_pos v) (gp_data (cv_txn v)),
             gp_byte_enable_length := cv_bel v, gp_byte_enable := cv_byt v\<rparr>
      else cv_txn v)"

definition merge_txn :: "'s conv \<Rightarrow> gp \<Rightarrow> gp" where
  "merge_txn v t =
     (if cv_used v then (cv_txn v)\<lparr>gp_data := take (cv_pos v) (gp_data (cv_txn v)) @ gp_data t\<rparr> else t)"

definition note_invals :: "inval list \<Rightarrow> 's conv \<Rightarrow> 's conv" where
  "note_invals is v =
     (case conv_invals is (cv_conv v) of (ns, c) \<Rightarrow> v\<lparr>cv_notices := cv_notices v @ ns, cv_conv := c\<rparr>)"

definition missing_block :: "'s reg_port \<Rightarrow> tlm_command \<Rightarrow> 's conv \<Rightarrow> (bool \<times> 's conv) res" where
  "missing_block port cmd v =
     bind_res (rp_dmi port (rest_txn v) dmi_init (cv_env v)) (\<lambda>(ok, t, d, is, s1).
       let v1 = note_invals is (v\<lparr>cv_txn := merge_txn v t, cv_env := s1\<rparr>)
       in if ok \<and> is_dmi_access_type_granted d cmd
          then Inr (False, v1\<lparr>cv_conv := (cv_conv v1)\<lparr>m_dmi_cache :=
                 smap_assign (dmi_start d) d (m_dmi_cache (cv_conv v1))\<rparr>\<rparr>)
          else bind_res (rp_b_transport port t (cv_delay v) s1) (\<lambda>(t1, delay1, is1, s2).
            let txn1 = (merge_txn v t1)\<lparr>gp_dmi_allowed := False\<rparr>
            in Inr (True, note_invals is1 (v1\<lparr>cv_delay := delay1, cv_env := s2,
                 cv_txn := (if cv_used v then txn1\<lparr>gp_response := gp_response t1\<rparr> else txn1)\<rparr>))))"

definition conv_step :: "'s reg_port \<Rightarrow> tlm_command \<Rightarrow> u32 \<Rightarrow> 's conv \<Rightarrow> (bool \<times> 's conv) res" where
  "conv_step port cmd bel v =
     (case in_cache (cv_addr v) (m_dmi_cache (cv_conv v)) of
        Some d \<Rightarrow> if is_dmi_access_type_granted d cmd then cached_block port cmd bel d v else missing_block port cmd v
      | None \<Rightarrow> missing_block port cmd v)"

partial_function (option) conv_loop :: "'s reg_port \<Rightarrow> tlm_command \<Rightarrow> u32 \<Rightarrow> 's conv \<Rightarrow> 's conv res option" where
  "conv_loop port cmd bel v =
     (if cv_remaining v = 0 then Some (Inr v)
      else case conv_step port cmd bel v of
             Inl e \<Rightarrow> Some (Inl e)
           | Inr (stop, v1) \<Rightarrow> if stop then Some (Inr v1) else conv_loop port cmd bel v1)"

text \<open>\<open>None\<close> is a call that does not return.\<close>

definition conv_b_transport :: "'s reg_port \<Rightarrow> gp \<Rightarrow> u64 \<Rightarrow> dmi_converter \<Rightarrow> 's \<Rightarrow>
    (gp \<times> u64 \<times> (nat \<times> inval) list \<times> dmi_converter \<times> 's) res option" where
  "conv_b_transport port txn delay c s =
     (let bel = gp_byte_enable_length txn
      in if gp_byte_enable txn \<noteq> None \<and> bel = 0 then Some (Inl Fatal)
         else if (case gp_byte_enable txn of None \<Rightarrow> False | Some bs \<Rightarrow> length bs < unat bel) then Some (Inl Out_of_bounds)
         else map_option (\<lambda>x. bind_res x (\<lambda>v. Inr (cv_txn v, cv_delay v, cv_notices v, cv_conv v, cv_env v)))
           (conv_loop port (gp_command txn) bel
             \<lparr>cv_addr = gp_address txn, cv_remaining = ucast (gp_length txn), cv_pos = 0,
              cv_byt = map_option (take (unat bel)) (gp_byte_enable txn), cv_bel = bel, cv_used = False,
              cv_txn = txn, cv_delay = delay, cv_notices = [], cv_conv = c, cv_env = s\<rparr>))"

definition conv_transport_dbg :: "(gp \<Rightarrow> 's \<Rightarrow> (u32 \<times> gp \<times> 's) res) \<Rightarrow> gp \<Rightarrow> 's \<Rightarrow> (u32 \<times> gp \<times> 's) res" where
  "conv_transport_dbg socket txn s = socket txn s"

definition conv_get_direct_mem_ptr :: "'s reg_port \<Rightarrow> gp \<Rightarrow> tlm_dmi \<Rightarrow> dmi_converter \<Rightarrow> 's \<Rightarrow>
    (bool \<times> gp \<times> tlm_dmi \<times> (nat \<times> inval) list \<times> dmi_converter \<times> 's) res" where
  "conv_get_direct_mem_ptr port txn dmi c s =
     (case in_cache (gp_address txn) (m_dmi_cache c) of
        Some d \<Rightarrow> Inr (dmi_read d \<or> dmi_write d, txn, d, [], c, s)
      | None \<Rightarrow>
          bind_res (rp_dmi port txn dmi s) (\<lambda>(ok, txn1, dmi1, is, s1).
            case conv_invals is c of (ns, c1) \<Rightarrow>
              Inr (ok, txn1, dmi1, ns,
                   if ok then c1\<lparr>m_dmi_cache := smap_assign (dmi_start dmi1) dmi1 (m_dmi_cache c1)\<rparr> else c1, s1)))"

section \<open>The contract of a memory with windows\<close>

text \<open>
  A memory of \<open>bytes\<close> bytes that hands out direct windows. \<open>window\<close> says which descriptors are good; a
  good one stays good, lies in the memory, leads to the bytes the memory holds, and two of them
  are the same range or do not meet.
\<close>

locale dmi_target =
  fixes port :: "'s reg_port" and inv :: "'s \<Rightarrow> bool" and view :: "'s \<Rightarrow> nat \<Rightarrow> u8"
    and window :: "'s \<Rightarrow> tlm_dmi \<Rightarrow> bool" and bytes :: nat
  assumes size_law: "bytes < 2 ^ 64"
    and b_read_law: "\<lbrakk>inv s; gp_command g = Read_command; gp_byte_enable g = None;
        gp_length g \<le> gp_streaming_width g; unat (gp_length g) = length (gp_data g);
        unat (gp_address g) + length (gp_data g) \<le> bytes\<rbrakk> \<Longrightarrow>
      \<exists>d' da s'. rp_b_transport port g d s =
          Inr (g\<lparr>gp_data := bytes_at (view s) (unat (gp_address g)) (length (gp_data g)),
                 gp_response := Ok_response, gp_dmi_allowed := da\<rparr>, d', [], s')
        \<and> inv s' \<and> view s' = view s \<and> window s \<le> window s'"
    and b_write_law: "\<lbrakk>inv s; gp_command g = Write_command; gp_byte_enable g = None;
        gp_length g \<le> gp_streaming_width g; unat (gp_length g) = length (gp_data g);
        unat (gp_address g) + length (gp_data g) \<le> bytes\<rbrakk> \<Longrightarrow>
      \<exists>d' da s'. rp_b_transport port g d s =
          Inr (g\<lparr>gp_response := Ok_response, gp_dmi_allowed := da\<rparr>, d', [], s')
        \<and> inv s' \<and> view s' = put_bytes (unat (gp_address g)) (gp_data g) (view s) \<and> window s \<le> window s'"
    and grant_law: "\<lbrakk>inv s; unat (gp_address g) < bytes\<rbrakk> \<Longrightarrow>
      \<exists>ok dmi' s'. rp_dmi port g dmi s = Inr (ok, g, dmi', [], s')
        \<and> inv s' \<and> view s' = view s \<and> window s \<le> window s'
        \<and> (ok \<longrightarrow> window s' dmi' \<and> dmi_start dmi' \<le> gp_address g \<and> gp_address g \<le> dmi_end dmi')"
    and window_range: "\<lbrakk>inv s; window s w\<rbrakk> \<Longrightarrow> dmi_start w \<le> dmi_end w \<and> unat (dmi_end w) < bytes"
    and window_apart: "\<lbrakk>inv s; window s v; window s w; dmi_start v \<le> dmi_start w\<rbrakk> \<Longrightarrow>
      dmi_end v < dmi_start w \<or> dmi_start v = dmi_start w \<and> dmi_end v = dmi_end w"
    and window_peek: "\<lbrakk>inv s; window s w; unat (dmi_start w) \<le> a; a + n \<le> unat (dmi_end w) + 1\<rbrakk> \<Longrightarrow>
      rp_peek port (dmi_ptr w + of_nat (a - unat (dmi_start w))) n s = bytes_at (view s) a n"
    and window_poke: "\<lbrakk>inv s; window s w; unat (dmi_start w) \<le> a; a + length bs \<le> unat (dmi_end w) + 1;
        s' = rp_poke port (dmi_ptr w + of_nat (a - unat (dmi_start w))) bs s\<rbrakk> \<Longrightarrow>
      inv s' \<and> view s' = put_bytes a bs (view s) \<and> window s \<le> window s'"
begin

definition cache_ok :: "'s \<Rightarrow> (u64, tlm_dmi) smap \<Rightarrow> bool" where
  "cache_ok s m \<longleftrightarrow> interval_map_ok dmi_start dmi_end m \<and> (\<forall>p \<in> set m. window s (snd p))"

lemma cache_ok_mono: "cache_ok s m \<Longrightarrow> window s \<le> window s' \<Longrightarrow> cache_ok s' m"
  by (auto simp: cache_ok_def le_fun_def)

lemma in_cacheD:
  assumes "cache_ok s m" "in_cache a m = Some d"
  shows "window s d" "dmi_start d \<le> a" "a \<le> dmi_end d"
proof -
  obtain k where "smap_pred a m = Some (k, d)" "dmi_start d \<le> a \<and> a \<le> dmi_end d"
    using assms(2) by (auto simp: in_cache_def split: option.splits if_splits)
  then show "window s d" "dmi_start d \<le> a" "a \<le> dmi_end d"
    using smap_pred_SomeD(1)[of m a "(k, d)"] assms(1) interval_map_ok_smap[of dmi_start dmi_end m]
    by (force simp: cache_ok_def)+
qed

lemma cache_ok_assign:
  assumes "inv s" "cache_ok s m" "window s d"
  shows "cache_ok s (smap_assign (dmi_start d) d m)"
proof -
  have ok: "interval_map_ok dmi_start dmi_end m" "smap_ok m" using assms(2) by (auto simp: cache_ok_def)
  let ?m = "smap_assign (dmi_start d) d m"
  have set: "set ?m = insert (dmi_start d, d) {p \<in> set m. fst p \<noteq> dmi_start d}"
    by (rule set_smap_assign[OF ok(2)])
  have w: "window s (snd p)" "fst p = dmi_start (snd p)" if "p \<in> set ?m" for p
    using that assms(2,3) interval_map_okD(1)[OF ok(1)] by (auto simp: set cache_ok_def)
  have "dmi_end (snd p) < fst q" if "p \<in> set ?m" "q \<in> set ?m" "fst p < fst q" for p q
    using window_apart[OF assms(1) w(1)[OF that(1)] w(1)[OF that(2)]] w(2)[OF that(1)] w(2)[OF that(2)] that(3)
    by (simp add: less_imp_le) auto
  then show ?thesis
    using w window_range[OF assms(1) w(1)] smap_ok_assign[OF ok(2), of "dmi_start d" d]
    by (auto simp: cache_ok_def interval_map_ok_def)
qed

lemma in_cache_assign:
  assumes "inv s" "cache_ok s m" "window s d" "dmi_start d \<le> a" "a \<le> dmi_end d"
  shows "in_cache a (smap_assign (dmi_start d) d m) = Some d"
proof -
  have ok: "interval_map_ok dmi_start dmi_end (smap_assign (dmi_start d) d m)"
    using cache_ok_assign[OF assms(1-3)] by (simp add: cache_ok_def)
  have "smap_ok m" using assms(2) by (auto simp: cache_ok_def)
  then have "(dmi_start d, d) \<in> set (smap_assign (dmi_start d) d m)" by (simp add: set_smap_assign)
  from smap_pred_containing[OF ok this] show ?thesis using assms(4,5) by (simp add: in_cache_def)
qed

end

section \<open>Progress of an access\<close>

text \<open>The data and the memory after \<open>k\<close> of the bytes of an access without byte enables.\<close>

definition data_after :: "gp \<Rightarrow> (nat \<Rightarrow> u8) \<Rightarrow> nat \<Rightarrow> u8 list" where
  "data_after g f k =
     (if gp_command g = Read_command
      then bytes_at f (unat (gp_address g)) k @ drop k (gp_data g) else gp_data g)"

definition view_after :: "gp \<Rightarrow> (nat \<Rightarrow> u8) \<Rightarrow> nat \<Rightarrow> nat \<Rightarrow> u8" where
  "view_after g f k =
     (if gp_command g = Write_command then put_bytes (unat (gp_address g)) (take k (gp_data g)) f else f)"

definition plain_access :: "nat \<Rightarrow> gp \<Rightarrow> bool" where
  "plain_access n g \<longleftrightarrow> gp_command g \<in> {Read_command, Write_command} \<and> gp_byte_enable g = None
     \<and> gp_length g \<le> gp_streaming_width g \<and> unat (gp_length g) = length (gp_data g) \<and> gp_length g \<noteq> 0
     \<and> unat (gp_address g) + length (gp_data g) \<le> n"

lemma after_0 [simp]: "data_after g f 0 = gp_data g" "view_after g f 0 = f"
  by (simp_all add: data_after_def view_after_def bytes_at_def)

lemma length_data_after [simp]: "k \<le> length (gp_data g) \<Longrightarrow> length (data_after g f k) = length (gp_data g)"
  by (simp add: data_after_def)

lemma data_after_add:
  assumes "gp_command g = Read_command" "k + n \<le> length (gp_data g)"
  shows "take k (data_after g f k) @ bytes_at f (unat (gp_address g) + k) n @ drop (k + n) (data_after g f k)
    = data_after g f (k + n)"
  using assms by (simp add: data_after_def bytes_at_add add.commute)

lemma view_after_add:
  assumes "gp_command g = Write_command" "k + n \<le> length (gp_data g)"
  shows "put_bytes (unat (gp_address g) + k) (take n (drop k (gp_data g))) (view_after g f k) = view_after g f (k + n)"
  using assms by (simp add: view_after_def take_add put_bytes_append min_absorb2)

lemma view_after_read: "gp_command g = Read_command \<Longrightarrow> view_after g f k = f"
  by (simp add: view_after_def)

lemma data_after_write: "gp_command g = Write_command \<Longrightarrow> data_after g f k = gp_data g"
  by (simp add: data_after_def)

lemma of_nat_eq_0_u64: "n < 2 ^ 64 \<Longrightarrow> (of_nat n :: u64) = 0 \<longleftrightarrow> n = 0"
  by (simp add: word_unat_eq_iff unat_of_nat)

text \<open>A block through the cache, without byte enables.\<close>

lemma after_block_plain:
  "cv_byt v = None \<Longrightarrow> after_block iter txn s v =
     v\<lparr>cv_addr := cv_addr v + iter, cv_remaining := cv_remaining v - iter, cv_pos := cv_pos v + unat iter,
       cv_byt := None, cv_bel := cv_bel v, cv_used := True, cv_env := s,
       cv_txn := if cv_remaining v - iter = 0 then txn\<lparr>gp_dmi_allowed := True, gp_response := Ok_response\<rparr> else txn\<rparr>"
  by (simp add: after_block_def Let_def)

lemma cached_block_plain:
  assumes "cv_byt v = None" "cv_pos v + unat (block_len d v) \<le> length (gp_data (cv_txn v))"
  shows "cached_block port Read_command bel d v = Inr (False, after_block (block_len d v)
      ((cv_txn v)\<lparr>gp_data := take (cv_pos v) (gp_data (cv_txn v)) @
         rp_peek port (dmi_ptr d + (cv_addr v - dmi_start d)) (unat (block_len d v)) (cv_env v) @
         drop (cv_pos v + unat (block_len d v)) (gp_data (cv_txn v))\<rparr>) (cv_env v) v)"
    and "cached_block port Write_command bel d v = Inr (False, after_block (block_len d v) (cv_txn v)
      (rp_poke port (dmi_ptr d + (cv_addr v - dmi_start d))
        (take (unat (block_len d v)) (drop (cv_pos v) (gp_data (cv_txn v)))) (cv_env v)) v)"
  using assms by (simp_all add: cached_block_def Let_def)

context dmi_target
begin

text \<open>The state of the loop after \<open>k\<close> bytes of the access \<open>g\<close> started in a memory that held \<open>f\<close>.\<close>

definition progress :: "gp \<Rightarrow> (nat \<Rightarrow> u8) \<Rightarrow> nat \<Rightarrow> 's conv \<Rightarrow> bool" where
  "progress g f k v \<longleftrightarrow> inv (cv_env v) \<and> cache_ok (cv_env v) (m_dmi_cache (cv_conv v))
     \<and> view (cv_env v) = view_after g f k \<and> k \<le> length (gp_data g)
     \<and> cv_addr v = gp_address g + of_nat k \<and> cv_remaining v = of_nat (length (gp_data g) - k)
     \<and> cv_pos v = k \<and> cv_byt v = None \<and> cv_notices v = [] \<and> (\<not> cv_used v \<longrightarrow> k = 0)
     \<and> (\<exists>da. cv_txn v = g\<lparr>gp_data := data_after g f k,
           gp_response := if k = length (gp_data g) then Ok_response else gp_response g, gp_dmi_allowed := da\<rparr>)"

lemma progressI:
  "\<lbrakk>cv_txn v = g\<lparr>gp_data := data_after g f k,
       gp_response := if k = length (gp_data g) then Ok_response else gp_response g, gp_dmi_allowed := da\<rparr>;
    inv (cv_env v); cache_ok (cv_env v) (m_dmi_cache (cv_conv v)); view (cv_env v) = view_after g f k;
    k \<le> length (gp_data g); cv_addr v = gp_address g + of_nat k; cv_remaining v = of_nat (length (gp_data g) - k);
    cv_pos v = k; cv_byt v = None; cv_notices v = []; \<not> cv_used v \<longrightarrow> k = 0\<rbrakk> \<Longrightarrow> progress g f k v"
  unfolding progress_def by blast

lemma progress_words:
  assumes "plain_access bytes g" "progress g f k v"
  shows "unat (cv_addr v) = unat (gp_address g) + k" "unat (cv_remaining v) = length (gp_data g) - k"
    "length (gp_data g) < 2 ^ 32" "cv_remaining v = 0 \<longleftrightarrow> k = length (gp_data g)"
proof -
  have n: "unat (gp_address g) + length (gp_data g) \<le> bytes" "unat (gp_length g) = length (gp_data g)"
    using assms(1) by (simp_all add: plain_access_def)
  show l: "length (gp_data g) < 2 ^ 32" using n(2) unsigned_less[of "gp_length g", where ?'a = nat] by simp
  have k: "k \<le> length (gp_data g)" "cv_addr v = gp_address g + of_nat k" "cv_remaining v = of_nat (length (gp_data g) - k)"
    using assms(2) by (auto simp: progress_def)
  then show "unat (cv_addr v) = unat (gp_address g) + k"
    using n(1) size_law l by (simp add: unat_word_ariths unat_of_nat)
  show r: "unat (cv_remaining v) = length (gp_data g) - k" using k(3) l by (simp add: unat_of_nat)
  show "cv_remaining v = 0 \<longleftrightarrow> k = length (gp_data g)" using r k(1) by (metis diff_is_0_eq le_antisym order_refl unat_eq_0)
qed

lemma block_length:
  assumes "plain_access bytes g" "progress g f k v" "k < length (gp_data g)"
    and "window (cv_env v) d" "dmi_start d \<le> cv_addr v" "cv_addr v \<le> dmi_end d"
  defines "iter \<equiv> block_len d v"
  shows "0 < unat iter" "k + unat iter \<le> length (gp_data g)"
    "unat (gp_address g) + k + unat iter \<le> unat (dmi_end d) + 1" "iter = of_nat (unat iter)"
    "cv_remaining v - iter = of_nat (length (gp_data g) - (k + unat iter))"
    "dmi_ptr d + (cv_addr v - dmi_start d) = dmi_ptr d + of_nat (unat (gp_address g) + k - unat (dmi_start d))"
proof -
  note w = progress_words[OF assms(1,2)]
  have i: "inv (cv_env v)" using assms(2) by (simp add: progress_def)
  have e: "unat (dmi_end d) < bytes" using window_range[OF i assms(4)] by simp
  have le: "unat (cv_addr v) \<le> unat (dmi_end d)" "unat (dmi_start d) \<le> unat (cv_addr v)"
    using assms(5,6) by (simp_all add: word_le_nat_alt)
  have b: "unat ((dmi_end d - cv_addr v) + 1) = unat (dmi_end d) - unat (cv_addr v) + 1"
    using le(1) e size_law by (simp add: unat_word_ariths unat_sub_if')
  have n: "unat iter = min (unat (dmi_end d) - (unat (gp_address g) + k) + 1) (length (gp_data g) - k)"
    unfolding iter_def using b w by (auto simp: block_len_def word_less_nat_alt min_def Let_def)
  then show "0 < unat iter" "k + unat iter \<le> length (gp_data g)"
    "unat (gp_address g) + k + unat iter \<le> unat (dmi_end d) + 1"
    using assms(3) le(1) w(1) by auto
  show "iter = of_nat (unat iter)" by simp
  have "unat iter \<le> length (gp_data g) - k" using n by simp
  then show "cv_remaining v - iter = of_nat (length (gp_data g) - (k + unat iter))"
    using assms(2,3) by (simp add: progress_def of_nat_diff)
  have "cv_addr v - dmi_start d = of_nat (unat (cv_addr v) - unat (dmi_start d))"
    using le(2) by (simp add: of_nat_diff)
  then show "dmi_ptr d + (cv_addr v - dmi_start d) = dmi_ptr d + of_nat (unat (gp_address g) + k - unat (dmi_start d))"
    using w(1) by simp
qed

lemma cached_progress:
  assumes p: "plain_access bytes g" "progress g f k v" "k < length (gp_data g)"
    and d: "in_cache (cv_addr v) (m_dmi_cache (cv_conv v)) = Some d" "is_dmi_access_type_granted d (gp_command g)"
  shows "\<exists>k' v'. conv_step port (gp_command g) bel v = Inr (False, v') \<and> k < k' \<and> progress g f k' v'"
proof -
  have i: "inv (cv_env v)" "cache_ok (cv_env v) (m_dmi_cache (cv_conv v))" "view (cv_env v) = view_after g f k"
    using p(2) by (simp_all add: progress_def)
  note c = in_cacheD[OF i(2) d(1)]
  define iter where "iter = block_len d v"
  note b = block_length[OF p c, folded iter_def]
  define n a where "n = unat iter" and "a = unat (gp_address g) + k"
  have s: "unat (dmi_start d) \<le> a" using c(2) progress_words(1)[OF p(1,2)] by (simp add: word_le_nat_alt a_def)
  obtain da where t: "cv_txn v = g\<lparr>gp_data := data_after g f k, gp_response := gp_response g, gp_dmi_allowed := da\<rparr>"
    and pos: "cv_pos v = k" "cv_byt v = None" "cv_notices v = []" "cv_addr v = gp_address g + of_nat k"
    using p(2,3) by (auto simp: progress_def)
  have rem: "cv_remaining v - iter = 0 \<longleftrightarrow> k + n = length (gp_data g)"
    unfolding b(5) using b(2) progress_words(3)[OF p(1,2)] by (subst of_nat_eq_0_u64) (auto simp: n_def)
  have q: "dmi_ptr d + (cv_addr v - dmi_start d) = dmi_ptr d + of_nat (a - unat (dmi_start d))" using b(6) by (simp add: a_def)
  note pk = window_peek[OF i(1) c(1) s b(3)[folded a_def n_def], folded q]
  let ?bs = "take n (drop k (gp_data g))"
  have "a + length ?bs \<le> unat (dmi_end d) + 1" using b(3) by (simp add: a_def n_def)
  note po = window_poke[OF i(1) c(1) s this refl, folded q]
  let ?txn = "g\<lparr>gp_data := data_after g f (k + n), gp_response := gp_response g, gp_dmi_allowed := da\<rparr>"
  have fin: "progress g f (k + n) (after_block iter ?txn s1 v)"
    if "inv s1" "view s1 = view_after g f (k + n)" "window (cv_env v) \<le> window s1" for s1
  proof -
    have txn: "cv_txn (after_block iter ?txn s1 v) = g\<lparr>gp_data := data_after g f (k + n),
        gp_response := if k + n = length (gp_data g) then Ok_response else gp_response g,
        gp_dmi_allowed := if k + n = length (gp_data g) then True else da\<rparr>"
      using rem by (simp add: after_block_plain[OF pos(2)])
    have "cv_addr v + iter = gp_address g + of_nat (k + n)" using b(4) pos(4) by (simp add: n_def add.assoc)
    then show ?thesis
      using that b(2,5) pos cache_ok_mono[OF i(2) that(3)]
      by (intro progressI[OF txn]) (simp_all add: after_block_plain[OF pos(2)] n_def)
  qed
  have step: "conv_step port (gp_command g) bel v = cached_block port (gp_command g) bel d v"
    using d by (simp add: conv_step_def)
  have le: "cv_pos v + unat iter \<le> length (gp_data (cv_txn v))" using b(2) p(3) pos t by simp
  note blk = cached_block_plain[OF pos(2) le[unfolded iter_def], of port bel, folded iter_def]
  have "\<exists>s1. conv_step port (gp_command g) bel v = Inr (False, after_block iter ?txn s1 v)
      \<and> inv s1 \<and> view s1 = view_after g f (k + n) \<and> window (cv_env v) \<le> window s1"
  proof (cases "gp_command g = Read_command")
    case True
    have "(cv_txn v)\<lparr>gp_data := take k (gp_data (cv_txn v)) @ bytes_at (view (cv_env v)) a n @ drop (k + n) (gp_data (cv_txn v))\<rparr> = ?txn"
      using data_after_add[OF True, of k n f] b(2) by (simp add: t a_def n_def i(3) view_after_read[OF True])
    then show ?thesis
      unfolding step unfolding True blk(1) pos(1) pk n_def[symmetric] using i view_after_read[OF True] by auto
  next
    case False
    then have w: "gp_command g = Write_command" using p(1) by (auto simp: plain_access_def)
    have "cv_txn v = ?txn" "take (unat iter) (drop (cv_pos v) (gp_data (cv_txn v))) = ?bs"
      using t by (simp_all add: data_after_write[OF w] n_def pos)
    then show ?thesis
      unfolding step unfolding w blk(2) using po view_after_add[OF w, of k n f] b(2) i(3) by (auto simp: a_def n_def)
  qed
  then show ?thesis using fin b(1) by (metis less_add_same_cancel1 n_def)
qed


end

lemma note_invals_Nil [simp]: "note_invals [] v = v"
  by (simp add: note_invals_def)

context dmi_target
begin

definition finished :: "gp \<Rightarrow> (nat \<Rightarrow> u8) \<Rightarrow> 's conv \<Rightarrow> bool" where
  "finished g f v \<longleftrightarrow> inv (cv_env v) \<and> cache_ok (cv_env v) (m_dmi_cache (cv_conv v))
     \<and> view (cv_env v) = view_after g f (length (gp_data g)) \<and> cv_notices v = []
     \<and> (\<exists>da. cv_txn v = g\<lparr>gp_data := data_after g f (length (gp_data g)), gp_response := Ok_response, gp_dmi_allowed := da\<rparr>)"

lemma progress_finished: "progress g f (length (gp_data g)) v \<Longrightarrow> finished g f v"
  by (auto simp: progress_def finished_def)

lemma rest_txn_plain:
  assumes "plain_access bytes g" "progress g f k v" "k < length (gp_data g)"
  shows "gp_command (rest_txn v) = gp_command g" "gp_byte_enable (rest_txn v) = None"
    "gp_address (rest_txn v) = cv_addr v" "gp_data (rest_txn v) = drop k (data_after g f k)"
    "unat (gp_length (rest_txn v)) = length (gp_data (rest_txn v))"
    "gp_length (rest_txn v) \<le> gp_streaming_width (rest_txn v)"
    "unat (gp_address (rest_txn v)) + length (gp_data (rest_txn v)) \<le> bytes"
proof -
  note w = progress_words[OF assms(1,2)]
  obtain da where t: "cv_txn v = g\<lparr>gp_data := data_after g f k, gp_response := gp_response g, gp_dmi_allowed := da\<rparr>"
    and v: "cv_pos v = k" "cv_byt v = None" "cv_addr v = gp_address g + of_nat k" "\<not> cv_used v \<longrightarrow> k = 0"
    using assms(2,3) by (auto simp: progress_def)
  have g: "gp_byte_enable g = None" "gp_length g \<le> gp_streaming_width g" "unat (gp_length g) = length (gp_data g)"
    "unat (gp_address g) + length (gp_data g) \<le> bytes"
    using assms(1) by (simp_all add: plain_access_def)
  show "gp_command (rest_txn v) = gp_command g" "gp_byte_enable (rest_txn v) = None" "gp_address (rest_txn v) = cv_addr v"
    and d: "gp_data (rest_txn v) = drop k (data_after g f k)"
    using v t g(1) by (auto simp: rest_txn_def)
  have u: "unat (ucast (cv_remaining v) :: u32) = length (gp_data g) - k"
    using w(2,3) by (simp add: unsigned_ucast_eq take_bit_nat_eq_self)
  show l: "unat (gp_length (rest_txn v)) = length (gp_data (rest_txn v))"
    using u v t g(3) assms(3) unfolding d by (auto simp: rest_txn_def)
  have "unat (gp_length (rest_txn v)) \<le> unat (gp_length g)" using l d g(3) assms(3) by simp
  moreover have "gp_streaming_width (rest_txn v) = gp_streaming_width g" using t by (simp add: rest_txn_def)
  ultimately show "gp_length (rest_txn v) \<le> gp_streaming_width (rest_txn v)"
    using g(2) by (simp add: word_le_nat_alt)
  show "unat (gp_address (rest_txn v)) + length (gp_data (rest_txn v)) \<le> bytes"
    using w(1) d g(4) assms(3) \<open>gp_address (rest_txn v) = cv_addr v\<close> by simp
qed

lemma merge_rest:
  assumes "progress g f k v" "k < length (gp_data g)"
  shows "merge_txn v (rest_txn v) = cv_txn v"
    "\<exists>da'. (let t = merge_txn v ((rest_txn v)\<lparr>gp_data := X, gp_response := Ok_response, gp_dmi_allowed := da\<rparr>)\<lparr>gp_dmi_allowed := False\<rparr>
       in if cv_used v then t\<lparr>gp_response := Ok_response\<rparr> else t)
     = g\<lparr>gp_data := take k (data_after g f k) @ X, gp_response := Ok_response, gp_dmi_allowed := da'\<rparr>"
proof -
  obtain da where t: "cv_txn v = g\<lparr>gp_data := data_after g f k, gp_response := gp_response g, gp_dmi_allowed := da\<rparr>"
    and v: "cv_pos v = k" "cv_byt v = None" "\<not> cv_used v \<longrightarrow> k = 0"
    using assms by (auto simp: progress_def)
  show "merge_txn v (rest_txn v) = cv_txn v" by (simp add: merge_txn_def rest_txn_def)
  show "\<exists>da'. (let t = merge_txn v ((rest_txn v)\<lparr>gp_data := X, gp_response := Ok_response, gp_dmi_allowed := da\<rparr>)\<lparr>gp_dmi_allowed := False\<rparr>
       in if cv_used v then t\<lparr>gp_response := Ok_response\<rparr> else t)
     = g\<lparr>gp_data := take k (data_after g f k) @ X, gp_response := Ok_response, gp_dmi_allowed := da'\<rparr>" for da
    using v by (cases "cv_used v") (auto simp: merge_txn_def rest_txn_def t intro!: exI[of _ False])
qed

lemma missing_progress:
  assumes p: "plain_access bytes g" "progress g f k v" "k < length (gp_data g)"
  shows "(\<exists>v' d. missing_block port (gp_command g) v = Inr (False, v') \<and> progress g f k v'
        \<and> in_cache (cv_addr v') (m_dmi_cache (cv_conv v')) = Some d \<and> is_dmi_access_type_granted d (gp_command g))
    \<or> (\<exists>v'. missing_block port (gp_command g) v = Inr (True, v') \<and> finished g f v')"
proof -
  let ?t = "rest_txn v" and ?s = "cv_env v" and ?N = "length (gp_data g)"
  note r = rest_txn_plain[OF p] and w = progress_words[OF p(1,2)] and mr = merge_rest[OF p(2,3)]
  have v: "inv ?s" "cache_ok ?s (m_dmi_cache (cv_conv v))" "view ?s = view_after g f k" "cv_notices v = []"
    using p(2) by (simp_all add: progress_def)
  have "unat (gp_address ?t) < bytes" using r(4,7) p(3) by simp
  from grant_law[OF v(1) this] obtain ok d s1 where
    g: "rp_dmi port ?t dmi_init ?s = Inr (ok, ?t, d, [], s1)" "inv s1" "view s1 = view ?s" "window ?s \<le> window s1"
    "ok \<longrightarrow> window s1 d \<and> dmi_start d \<le> gp_address ?t \<and> gp_address ?t \<le> dmi_end d" by blast
  let ?v = "v\<lparr>cv_txn := cv_txn v, cv_env := s1\<rparr>"
  have c1: "cache_ok s1 (m_dmi_cache (cv_conv v))" using cache_ok_mono[OF v(2) g(4)] .
  show ?thesis
  proof (cases "ok \<and> is_dmi_access_type_granted d (gp_command g)")
    case True
    let ?m = "smap_assign (dmi_start d) d (m_dmi_cache (cv_conv v))"
    let ?v' = "?v\<lparr>cv_conv := (cv_conv v)\<lparr>m_dmi_cache := ?m\<rparr>\<rparr>"
    have d: "window s1 d" "dmi_start d \<le> cv_addr v" "cv_addr v \<le> dmi_end d" using True g(5) r(3) by auto
    have "missing_block port (gp_command g) v = Inr (False, ?v')"
      using True g(1) mr(1) by (simp add: missing_block_def Let_def)
    moreover have "progress g f k ?v'"
      using p(2) g(2,3) cache_ok_assign[OF g(2) c1 d(1)] by (simp add: progress_def)
    moreover have "in_cache (cv_addr v) ?m = Some d" by (rule in_cache_assign[OF g(2) c1 d])
    ultimately show ?thesis using True by (intro disjI1 exI[of _ ?v'] exI[of _ d]) simp
  next
    case False
    obtain X da d1 s2 where b: "rp_b_transport port ?t (cv_delay v) s1 =
        Inr (?t\<lparr>gp_data := X, gp_response := Ok_response, gp_dmi_allowed := da\<rparr>, d1, [], s2)"
      "inv s2" "view s2 = view_after g f ?N" "window s1 \<le> window s2" "take k (data_after g f k) @ X = data_after g f ?N"
    proof (cases "gp_command g = Read_command")
      case True
      have "bytes_at (view s1) (unat (cv_addr v)) (?N - k) = bytes_at f (unat (gp_address g) + k) (?N - k)"
        using v(3) g(3) w(1) view_after_read[OF True] by simp
      moreover have "take k (data_after g f k) @ bytes_at f (unat (gp_address g) + k) (?N - k) = data_after g f ?N"
        using data_after_add[OF True, of k "?N - k" f] p(3) by simp
      ultimately show ?thesis
        using b_read_law[OF g(2) r(1)[unfolded True] r(2,6,5,7), of "cv_delay v"] that v(3) g(3) p(3) r(3,4)
          view_after_read[OF True] by auto
    next
      case False
      then have wr: "gp_command g = Write_command" using p(1) by (auto simp: plain_access_def)
      have "put_bytes (unat (cv_addr v)) (drop k (gp_data g)) (view_after g f k) = view_after g f ?N"
        using view_after_add[OF wr, of k "?N - k" f] p(3) w(1) by simp
      moreover have "?t = ?t\<lparr>gp_data := drop k (gp_data g)\<rparr>" using r(4) by (simp add: data_after_write[OF wr])
      moreover obtain da d1 s2 where "rp_b_transport port ?t (cv_delay v) s1 =
          Inr (?t\<lparr>gp_response := Ok_response, gp_dmi_allowed := da\<rparr>, d1, [], s2)" "inv s2"
          "view s2 = put_bytes (unat (cv_addr v)) (drop k (gp_data g)) (view_after g f k)" "window s1 \<le> window s2"
        using b_write_law[OF g(2) r(1)[unfolded wr] r(2,6,5,7), of "cv_delay v"] v(3) g(3) r(3,4)
        by (auto simp: data_after_write[OF wr])
      ultimately show ?thesis
        using that[where X = "drop k (gp_data g)" and da = da] by (simp add: data_after_write[OF wr])
    qed
    obtain da' where t: "(let t = merge_txn v (?t\<lparr>gp_data := X, gp_response := Ok_response, gp_dmi_allowed := da\<rparr>)\<lparr>gp_dmi_allowed := False\<rparr>
         in if cv_used v then t\<lparr>gp_response := Ok_response\<rparr> else t)
       = g\<lparr>gp_data := data_after g f ?N, gp_response := Ok_response, gp_dmi_allowed := da'\<rparr>"
      using mr(2)[where X = X and da = da] b(5) by auto
    let ?v' = "?v\<lparr>cv_delay := d1, cv_env := s2,
        cv_txn := g\<lparr>gp_data := data_after g f ?N, gp_response := Ok_response, gp_dmi_allowed := da'\<rparr>\<rparr>"
    have "missing_block port (gp_command g) v = Inr (True, ?v')"
      using False g(1) b(1) mr(1) t by (cases "cv_used v") (simp_all add: missing_block_def Let_def)
    moreover have "finished g f ?v'"
      using b(2,3) v(4) cache_ok_mono[OF c1 b(4)] by (auto simp: finished_def)
    ultimately show ?thesis by blast
  qed
qed

lemma conv_loop_finishes:
  assumes "plain_access bytes g" "progress g f k v"
  shows "\<exists>v'. conv_loop port (gp_command g) bel v = Some (Inr v') \<and> finished g f v'"
  using assms(2)
proof (induction "length (gp_data g) - k" arbitrary: k v rule: less_induct)
  case less
  note w = progress_words[OF assms(1) less.prems]
  have hit: "\<exists>v'. conv_loop port (gp_command g) bel u = Some (Inr v') \<and> finished g f v'"
    if u: "progress g f k u" "k < length (gp_data g)" "in_cache (cv_addr u) (m_dmi_cache (cv_conv u)) = Some d"
      "is_dmi_access_type_granted d (gp_command g)" for u d
  proof -
    obtain k' u' where "conv_step port (gp_command g) bel u = Inr (False, u')" "k < k'" "progress g f k' u'"
      using cached_progress[OF assms(1) u, of bel] by blast
    moreover have "cv_remaining u \<noteq> 0" using progress_words(4)[OF assms(1) u(1)] u(2) by simp
    ultimately show ?thesis using less.hyps[of k' u'] u(2) by (subst conv_loop.simps) simp
  qed
  show ?case
  proof (cases "k < length (gp_data g)")
    case False
    then have "k = length (gp_data g)" using less.prems by (simp add: progress_def)
    then show ?thesis using w(4) less.prems progress_finished by (subst conv_loop.simps) simp
  next
    case True
    then have nz: "cv_remaining v \<noteq> 0" using w(4) by simp
    show ?thesis
    proof (cases "conv_step port (gp_command g) bel v = missing_block port (gp_command g) v")
      case True
      from missing_progress[OF assms(1) less.prems \<open>k < length (gp_data g)\<close>] show ?thesis
        using True nz hit \<open>k < length (gp_data g)\<close> by (subst conv_loop.simps) auto
    next
      case False
      then show ?thesis using hit[OF less.prems \<open>k < length (gp_data g)\<close>]
        by (auto simp: conv_step_def split: option.splits if_splits)
    qed
  qed
qed

lemma conv_access:
  assumes "plain_access bytes g" "inv s" "cache_ok s (m_dmi_cache c)"
  shows "\<exists>da d' c' s'. conv_b_transport port g d c s =
      Some (Inr (g\<lparr>gp_data := data_after g (view s) (length (gp_data g)), gp_response := Ok_response, gp_dmi_allowed := da\<rparr>,
        d', [], c', s'))
    \<and> inv s' \<and> view s' = view_after g (view s) (length (gp_data g)) \<and> cache_ok s' (m_dmi_cache c')"
proof -
  let ?v = "\<lparr>cv_addr = gp_address g, cv_remaining = ucast (gp_length g), cv_pos = 0, cv_byt = None,
      cv_bel = gp_byte_enable_length g, cv_used = False, cv_txn = g, cv_delay = d, cv_notices = [], cv_conv = c, cv_env = s\<rparr>"
  have g: "gp_byte_enable g = None" "unat (gp_length g) = length (gp_data g)" "gp_length g \<noteq> 0"
    using assms(1) by (simp_all add: plain_access_def)
  have "gp_data g \<noteq> []" using g(2,3) by (auto simp: unat_eq_0)
  moreover have "ucast (gp_length g) = (of_nat (length (gp_data g)) :: u64)" using g(2) by (simp flip: g(2))
  ultimately have "progress g (view s) 0 ?v"
    using assms g by (intro progressI[where da = "gp_dmi_allowed g"]) auto
  from conv_loop_finishes[OF assms(1) this] obtain v' where
    "conv_loop port (gp_command g) (gp_byte_enable_length g) ?v = Some (Inr v')" "finished g (view s) v'" by blast
  then show ?thesis using g(1) by (auto simp: conv_b_transport_def finished_def Let_def)
qed

end

section \<open>The memory as a target\<close>

text \<open>A memory that grants one window over all its bytes keeps the contract.\<close>

definition whole_window :: "u64 \<Rightarrow> nat \<Rightarrow> tlm_dmi \<Rightarrow> bool" where
  "whole_window base bytes w \<longleftrightarrow> 0 < bytes \<and> dmi_ptr w = base \<and> dmi_start w = 0 \<and> unat (dmi_end w) = bytes - 1"

sublocale reg_store \<subseteq> dmi: dmi_target port inv view "\<lambda>s. whole_window (base s) bytes" bytes
proof (unfold_locales, goal_cases)
  case 1
  show ?case by (rule bytes_lt)
next
  case (2 s g d)
  then show ?case using read_law[OF 2, of d] by (auto 0 4 simp: le_fun_def)
next
  case (3 s g d)
  then show ?case using write_law[OF 3, of d] by (auto 0 4 simp: le_fun_def)
next
  case (4 s g dmi)
  obtain ok dmi' s' where d: "rp_dmi port g dmi s = Inr (ok, g, dmi', [], s')" "inv s'" "view s' = view s" "base s' = base s"
    "ok \<longrightarrow> dmi_ptr dmi' = base s \<and> dmi_start dmi' = 0 \<and> unat (dmi_end dmi') = bytes - 1"
    using dmi_law[OF 4, of dmi] by blast
  then have "ok \<longrightarrow> whole_window (base s') bytes dmi' \<and> dmi_start dmi' \<le> gp_address g \<and> gp_address g \<le> dmi_end dmi'"
    using 4(2) by (auto simp: whole_window_def word_le_nat_alt)
  then show ?case using d by (auto simp: le_fun_def)
next
  case (5 s w)
  then show ?case by (auto simp: whole_window_def word_le_nat_alt)
next
  case (6 s v w)
  then show ?case by (auto simp: whole_window_def word_unat_eq_iff)
next
  case (7 s w a n)
  then show ?case using peek_law[OF 7(1), of a n] by (auto simp: whole_window_def)
next
  case (8 s w a bs s')
  then show ?case using poke_law[OF 8(1), of a bs s'] by (auto simp: whole_window_def le_fun_def)
qed

text \<open>The windows the converter holds are good ones for the memory.\<close>

definition conv_ok :: "u64 \<Rightarrow> gs_memory \<times> host \<Rightarrow> dmi_converter \<Rightarrow> bool" where
  "conv_ok n x c \<longleftrightarrow> interval_map_ok dmi_start dmi_end (m_dmi_cache c)
     \<and> (\<forall>p \<in> set (m_dmi_cache c). whole_window (mem_base x) (unat n) (snd p))"

lemma conv_ok_cache: "mem_store.dmi.cache_ok n x (m_dmi_cache c) \<longleftrightarrow> conv_ok n x c"
  by (simp add: mem_store.dmi.cache_ok_def conv_ok_def)

lemma flat_direct:
  assumes "flat_mem env n x" "plain_access (unat n) g"
  shows "\<exists>da d' m h. mem_b_transport env g d (fst x) (snd x) =
      Inr (g\<lparr>gp_data := data_after g (mem_bytes x) (length (gp_data g)), gp_response := Ok_response, gp_dmi_allowed := da\<rparr>, d', m, h)
    \<and> mem_bytes (m, h) = view_after g (mem_bytes x) (length (gp_data g))"
proof -
  obtain m h where x: "x = (m, h)" by (cases x)
  have g: "gp_command g \<in> {Read_command, Write_command}" "gp_byte_enable g = None" "gp_length g \<le> gp_streaming_width g"
    "unat (gp_length g) = length (gp_data g)" "unat (gp_address g) + length (gp_data g) \<le> unat n"
    using assms(2) by (simp_all add: plain_access_def)
  note t = flat_transport[OF assms(1)[unfolded x] g(2-5), of d]
  show ?thesis
  proof (cases "gp_command g = Read_command")
    case True
    then show ?thesis using t(1) by (auto simp: x data_after_def view_after_def)
  next
    case False
    then have w: "gp_command g = Write_command" using g(1) by simp
    then show ?thesis
      using t(2) flat_poke[OF assms(1)[unfolded x] g(5) refl, unfolded unat_word_id]
      by (auto simp: x data_after_def view_after_def)
  qed
qed


section \<open>Invalidation\<close>

lemma in_cache_iff:
  assumes "interval_map_ok dmi_start dmi_end m"
  shows "in_cache a m = Some d \<longleftrightarrow> (dmi_start d, d) \<in> set m \<and> dmi_start d \<le> a \<and> a \<le> dmi_end d"
proof
  assume "in_cache a m = Some d"
  then obtain k where k: "smap_pred a m = Some (k, d)" "dmi_start d \<le> a \<and> a \<le> dmi_end d"
    by (auto simp: in_cache_def split: option.splits if_splits)
  then have "(k, d) \<in> set m" using smap_pred_SomeD(1)[OF interval_map_ok_smap[OF assms] k(1)] by simp
  then show "(dmi_start d, d) \<in> set m \<and> dmi_start d \<le> a \<and> a \<le> dmi_end d"
    using k(2) interval_map_okD(1)[OF assms, of "(k, d)"] by simp
next
  assume "(dmi_start d, d) \<in> set m \<and> dmi_start d \<le> a \<and> a \<le> dmi_end d"
  then show "in_cache a m = Some d"
    using smap_pred_containing[OF assms, of "(dmi_start d, d)" a] by (simp add: in_cache_def)
qed


definition example_window :: "u64 \<Rightarrow> u64 \<Rightarrow> u64 \<Rightarrow> tlm_dmi" where
  "example_window p s e = dmi_init\<lparr>dmi_ptr := p, dmi_start := s, dmi_end := e, dmi_read := True, dmi_write := True\<rparr>"

definition example_flat_store :: "gs_memory \<times> host" where
  "example_flat_store =
     (\<lparr>mem_size = 0x100, mem_address = 0, mem_address_valid = True, mem_relative = True,
       mem_sub_block = Some (SubBlock 0x100 0 0x1000 False False False [None, None, None, None])\<rparr>,
      \<lparr>h_mem = (\<lambda>_. 0xAA), h_allocs = [(0x1000, 0x100)]\<rparr>)"

definition example_plain_read :: gp where
  "example_plain_read = gp_init\<lparr>gp_command := Read_command, gp_address := 0x20, gp_data := [0, 0], gp_length := 2,
     gp_streaming_width := 2\<rparr>"



section \<open>Where the code departs from its contract\<close>

text \<open>A step that changes nothing is repeated forever.\<close>

lemma conv_loop_stuck:
  assumes "conv_step port cmd bel v = Inr (False, v)" "cv_remaining v \<noteq> 0"
  shows "conv_loop port cmd bel v = None"
proof -
  have "conv_loop port cmd bel v = Some y \<Longrightarrow> \<not> (conv_step port cmd bel v = Inr (False, v) \<and> cv_remaining v \<noteq> 0)"
    for port :: "'a reg_port" and cmd bel v y
    by (rule conv_loop.raw_induct[where P = "\<lambda>port cmd bel v y.
          \<not> (conv_step port cmd bel v = Inr (False, v) \<and> cv_remaining v \<noteq> 0)"]) (auto split: if_splits)
  then show ?thesis using assms by (metis not_None_eq)
qed

text \<open>With a window over the whole address space, the default of a DMI descriptor, the length of the block
  at address 0 wraps to 0: the call does not return.\<close>

lemma full_window_never_returns:
  assumes "in_cache 0 (m_dmi_cache c) = Some d" "dmi_start d = 0" "dmi_end d = - 1" "dmi_write d"
    and "\<And>q s. rp_poke port q [] s = s"
    and "gp_command g = Write_command" "gp_address g = 0" "gp_length g \<noteq> 0" "gp_byte_enable g = None"
  shows "conv_b_transport port g delay c s = None"
proof -
  let ?v = "\<lparr>cv_addr = gp_address g, cv_remaining = ucast (gp_length g), cv_pos = 0, cv_byt = None,
      cv_bel = gp_byte_enable_length g, cv_used = False, cv_txn = g, cv_delay = delay, cv_notices = [], cv_conv = c, cv_env = s\<rparr>"
  have nz: "(ucast (gp_length g) :: u64) \<noteq> 0" using assms(8) by (simp add: word_unat_eq_iff unat_ucast_32_64)
  have step: "conv_step port Write_command bel (?v\<lparr>cv_used := u\<rparr>) = Inr (False, ?v\<lparr>cv_used := True\<rparr>)" for u bel
    using assms nz by (simp add: conv_step_def is_dmi_access_type_granted_def cached_block_def block_len_def
        after_block_def word_neq_0_conv Let_def)
  have "conv_loop port Write_command (gp_byte_enable_length g) (?v\<lparr>cv_used := True\<rparr>) = None"
    by (rule conv_loop_stuck[OF step]) (simp add: nz)
  then have "conv_loop port Write_command (gp_byte_enable_length g) ?v = None"
    using step[of _ False] nz by (subst conv_loop.simps) simp
  then show ?thesis using assms(6,9) by (simp add: conv_b_transport_def Let_def)
qed

text \<open>Byte enables that reach over a block boundary: the second block is written with the enables of the
  first. Windows of two bytes, and a write of four bytes whose last two are enabled.\<close>

definition two_byte_port :: "(u64 \<Rightarrow> u8) reg_port" where
  "two_byte_port = \<lparr>
     rp_b_transport = (\<lambda>g d s. Inl Fatal),
     rp_dmi = (\<lambda>g dmi s. let a = gp_address g AND NOT 1 in Inr (True, g, example_window a a (a + 1), [], s)),
     rp_peek = (\<lambda>q n s. map (\<lambda>i. s (q + of_nat i)) [0..<n]),
     rp_poke = (\<lambda>q bs s a. if q \<le> a \<and> a - q < of_nat (length bs) then bs ! unat (a - q) else s a)\<rparr>"

definition example_tail_write :: gp where
  "example_tail_write = gp_init\<lparr>gp_command := Write_command, gp_address := 0, gp_data := [1, 2, 3, 4], gp_length := 4,
     gp_streaming_width := 4, gp_byte_enable := Some [0, 0, 0xff, 0xff], gp_byte_enable_length := 4\<rparr>"

lemma later_enables_lost:
  "\<exists>g' d' c' s'. conv_b_transport two_byte_port example_tail_write 0 \<lparr>m_dmi_cache = [], p_tlm_ports_num = 1\<rparr> (\<lambda>_. 0)
      = Some (Inr (g', d', [], c', s')) \<and> gp_response g' = Ok_response \<and> s' 2 = 0 \<and> s' 3 = 0"
proof -
  note evals = conv_step_def in_cache_def smap_pred_def smap_upto_def is_dmi_access_type_granted_def missing_block_def
    rest_txn_def merge_txn_def cached_block_def block_len_def after_block_def update_byte_enable_def enabled_byte_def
    two_byte_port_def example_window_def example_tail_write_def gp_init_def dmi_init_def Let_def
  have [simp]: "\<not> (2 :: u64) \<le> 1" by (simp add: word_le_nat_alt)
  show ?thesis
    by (simp add: conv_b_transport_def evals, subst conv_loop.simps, simp add: evals, subst conv_loop.simps, simp add: evals,
        subst conv_loop.simps, simp add: evals, subst conv_loop.simps, simp add: evals, subst conv_loop.simps, simp add: evals)
qed

end
