(* ===== verification/Biflow.thy ===== *)
theory Biflow
  imports Tlm
begin

text \<open>
  \<^verbatim>\<open>common/include/ports/biflow-socket.h\<close>: a socket that sends characters in both directions under the
  control of credits. A receiver tells its peer how many items it can take (a number, a difference,
  or any number); the peer queues items and sends as many as it has credits for. The router
  \<^verbatim>\<open>biflow_router_socket\<close> passes the data of a remote on to the others, or to a fixed one.

  What a socket sends to its peer is a parameter: \<open>output\<close> for data, \<open>send_ctrl\<close> for credits. An item
  is a byte, as in all the uses of the class. The class \<^verbatim>\<open>biflow_socket_multi\<close>
  delegates to these operations. The lemmas at the end state what the router does with data that has a
  default transaction, and with data that nobody receives.
\<close>

section \<open>One socket\<close>

datatype ctrl = Delta_change u32 | Absolute_value u32 | Infinite_value

text \<open>\<open>bf_event\<close>: a notification of \<^verbatim>\<open>m_send_event\<close> is outstanding. \<open>bf_attached\<close>: the event keeps SystemC from
  ending.\<close>

record biflow =
  m_can_send :: u32
  m_infinite :: bool
  m_queue :: "u8 list"
  m_txn :: "gp option"
  m_bound :: bool
  bf_event :: bool
  bf_attached :: bool

definition biflow_init :: biflow where
  "biflow_init = \<lparr>m_can_send = 0, m_infinite = False, m_queue = [], m_txn = None, m_bound = False,
     bf_event = False, bf_attached = False\<rparr>"

text \<open>How many items may go out.\<close>

definition sending :: "biflow \<Rightarrow> nat" where
  "sending b =
     (if m_infinite b \<or> unat (m_can_send b) > length (m_queue b) then length (m_queue b) else unat (m_can_send b))"

text \<open>The payload of a transmission. Its data pointer is the front of the queue: a receiver that reads
  more than \<open>n\<close> items reads queued items that are not sent yet.\<close>

definition send_txn :: "biflow \<Rightarrow> nat \<Rightarrow> gp" where
  "send_txn b n =
     (let txn = (case m_txn b of Some t \<Rightarrow> t | None \<Rightarrow> gp_init\<lparr>gp_length := of_nat n\<rparr>)
      in txn\<lparr>gp_streaming_width := of_nat n, gp_data := m_queue b\<rparr>)"

text \<open>The method the event triggers. The receiver does not call back into the socket: its mutex is held.\<close>

definition sendall :: "(gp \<Rightarrow> u64 \<Rightarrow> 's \<Rightarrow> (gp \<times> u64 \<times> 's) res) \<Rightarrow> biflow \<Rightarrow> 's \<Rightarrow> (biflow \<times> 's) res" where
  "sendall output b s =
     (let n = sending b; b0 = b\<lparr>bf_event := False\<rparr>
      in if n > 0
         then bind_res (output (send_txn b n) 0 s) (\<lambda>(_, _, s1).
           Inr (b0\<lparr>m_queue := drop n (m_queue b), m_can_send := m_can_send b - of_nat n\<rparr>, s1))
         else Inr (b0, s))"

definition initiator_ctrl :: "ctrl \<Rightarrow> biflow \<Rightarrow> biflow res" where
  "initiator_ctrl c b =
     bind_res
       (case c of
          Absolute_value n \<Rightarrow> Inr (b\<lparr>m_can_send := n, m_infinite := False, bf_attached := n \<noteq> 0\<rparr>)
        | Delta_change n \<Rightarrow>
            assert_res (\<not> m_infinite b) (Inr (b\<lparr>m_can_send := m_can_send b + n, m_infinite := False\<rparr>))
        | Infinite_value \<Rightarrow> Inr (b\<lparr>m_infinite := True\<rparr>))
       (\<lambda>b1. Inr (b1\<lparr>bf_event := True\<rparr>))"

text \<open>What a receiver sends back over its control socket.\<close>

definition can_receive_more :: "(ctrl \<Rightarrow> 's \<Rightarrow> 's res) \<Rightarrow> u32 \<Rightarrow> 's \<Rightarrow> 's res" where
  "can_receive_more send_ctrl i s = send_ctrl (Delta_change i) s"

definition can_receive_set :: "(ctrl \<Rightarrow> 's \<Rightarrow> 's res) \<Rightarrow> u32 \<Rightarrow> 's \<Rightarrow> 's res" where
  "can_receive_set send_ctrl i s = send_ctrl (Absolute_value i) s"

definition can_receive_any :: "(ctrl \<Rightarrow> 's \<Rightarrow> 's res) \<Rightarrow> 's \<Rightarrow> 's res" where
  "can_receive_any send_ctrl s = send_ctrl Infinite_value s"

definition enqueue :: "u8 \<Rightarrow> biflow \<Rightarrow> biflow" where
  "enqueue data b = b\<lparr>m_queue := m_queue b @ [data], bf_event := True\<rparr>"

text \<open>A deep copy into a payload without buffers copies no data.\<close>

definition set_default_txn :: "gp \<Rightarrow> biflow \<Rightarrow> biflow" where
  "set_default_txn txn b = b\<lparr>m_txn := Some (txn\<lparr>gp_data := [], gp_byte_enable := None\<rparr>)\<rparr>"

definition force_send :: "(gp \<Rightarrow> u64 \<Rightarrow> 's \<Rightarrow> (gp \<times> u64 \<times> 's) res) \<Rightarrow> gp \<Rightarrow> 's \<Rightarrow> (gp \<times> 's) res" where
  "force_send output txn s = bind_res (output txn 0 s) (\<lambda>(txn1, _, s1). Inr (txn1, s1))"

definition bf_reset :: "biflow \<Rightarrow> biflow" where
  "bf_reset b = b\<lparr>m_queue := []\<rparr>"

text \<open>Binding a second time is reported (\<open>True\<close>).\<close>

definition bf_new_bind :: "biflow \<Rightarrow> bool" where
  "bf_new_bind b = m_bound b"

definition bf_bind_done :: "biflow \<Rightarrow> bool \<times> biflow" where
  "bf_bind_done b = (m_bound b, b\<lparr>m_bound := True\<rparr>)"

text \<open>The operations of the other side are parameters: being told of the binding, and of its end. At its
  end the other side may already give credits to this socket.\<close>

definition bf_bind :: "('s \<Rightarrow> 's res) \<Rightarrow> (biflow \<Rightarrow> 's \<Rightarrow> (biflow \<times> 's) res) \<Rightarrow> biflow \<Rightarrow> 's \<Rightarrow> (biflow \<times> 's) res" where
  "bf_bind other_new_bind other_bind_done b s =
     bind_res (other_new_bind s) (other_bind_done (b\<lparr>m_bound := True\<rparr>))"

section \<open>The router\<close>

record remote =
  r_socket :: biflow
  r_sendto :: "nat option"

record biflow_router =
  br_remotes :: "remote list"
  br_binding :: "nat option"
  br_p_sendto :: string
  br_sendto :: "nat option"

definition biflow_router_init :: "string \<Rightarrow> biflow_router" where
  "biflow_router_init sendto = \<lparr>br_remotes = [], br_binding = None, br_p_sendto = sendto, br_sendto = None\<rparr>"

fun enqueue_all :: "u8 list \<Rightarrow> biflow \<Rightarrow> biflow" where
  "enqueue_all [] b = b"
| "enqueue_all (x # xs) b = enqueue_all xs (enqueue x b)"

definition routed :: "nat \<Rightarrow> nat option \<Rightarrow> nat \<Rightarrow> bool" where
  "routed i sendto j \<longleftrightarrow> j \<noteq> i \<and> (case sendto of None \<Rightarrow> True | Some k \<Rightarrow> k = j)"

text \<open>Data that remote \<open>i\<close> receives. The warning for data that nobody gets prints the name of the
  remote it should have gone to, through a null pointer when there is none.\<close>

definition route_data :: "nat \<Rightarrow> gp \<Rightarrow> biflow_router \<Rightarrow> biflow_router res" where
  "route_data i txn r =
     (let rs = br_remotes r; sendto = r_sendto (rs ! i); n = unat (gp_length txn);
          data = take n (gp_data txn)
      in if i \<ge> length rs then Inl Out_of_bounds
         else if list_ex (routed i sendto) [0..<length rs] then
           if length (gp_data txn) < n then Inl Out_of_bounds
           else Inr (r\<lparr>br_remotes := map (\<lambda>j.
             if routed i sendto j
             then (rs ! j)\<lparr>r_socket := enqueue_all data (set_default_txn txn (r_socket (rs ! j)))\<rparr>
             else rs ! j) [0..<length rs]\<rparr>)
         else if sendto = None then Inl Null_pointer
         else Inr r)"

definition is_prefix :: "string \<Rightarrow> string \<Rightarrow> bool" where
  "is_prefix p s \<longleftrightarrow> take (length p) s = p"

definition sendto_setup :: "string \<Rightarrow> nat \<Rightarrow> biflow_router \<Rightarrow> biflow_router" where
  "sendto_setup other k r =
     (if br_p_sendto r = [] then r
      else case br_sendto r of
        Some t \<Rightarrow> r\<lparr>br_remotes := (br_remotes r)[k := (br_remotes r ! k)\<lparr>r_sendto := Some t\<rparr>]\<rparr>
      | None \<Rightarrow>
          if is_prefix (br_p_sendto r) other
          then r\<lparr>br_sendto := Some k,
                 br_remotes := map (\<lambda>j. if j \<noteq> k then (br_remotes r ! j)\<lparr>r_sendto := Some k\<rparr> else br_remotes r ! j)
                   [0..<length (br_remotes r)]\<rparr>
          else r)"

definition add_remote :: "biflow_router \<Rightarrow> biflow_router" where
  "add_remote r = r\<lparr>br_remotes := br_remotes r @ [\<lparr>r_socket = biflow_init, r_sendto = None\<rparr>],
     br_binding := Some (length (br_remotes r))\<rparr>"

definition router_new_bind :: "string \<Rightarrow> biflow_router \<Rightarrow> biflow_router" where
  "router_new_bind other r = sendto_setup other (length (br_remotes r)) (add_remote r)"

definition set_socket :: "nat \<Rightarrow> biflow \<Rightarrow> biflow_router \<Rightarrow> biflow_router" where
  "set_socket k b r = r\<lparr>br_remotes := (br_remotes r)[k := (br_remotes r ! k)\<lparr>r_socket := b\<rparr>]\<rparr>"

text \<open>The peer of the new remote is told that everything may be sent.\<close>

definition router_bind_done :: "(ctrl \<Rightarrow> 's \<Rightarrow> 's res) \<Rightarrow> biflow_router \<Rightarrow> 's \<Rightarrow> (biflow_router \<times> 's) res" where
  "router_bind_done send_ctrl r s =
     (case br_binding r of
        None \<Rightarrow> Inl Assert_failed
      | Some k \<Rightarrow>
          let (_, b) = bf_bind_done (r_socket (br_remotes r ! k))
          in bind_res (can_receive_any send_ctrl s) (\<lambda>s1. Inr ((set_socket k b r)\<lparr>br_binding := None\<rparr>, s1)))"

definition router_bind :: "('s \<Rightarrow> 's res) \<Rightarrow> (biflow \<Rightarrow> 's \<Rightarrow> (biflow \<times> 's) res) \<Rightarrow> (ctrl \<Rightarrow> 's \<Rightarrow> 's res) \<Rightarrow>
    string \<Rightarrow> biflow_router \<Rightarrow> 's \<Rightarrow> (biflow_router \<times> 's) res" where
  "router_bind other_new_bind other_bind_done send_ctrl other r s =
     (let k = length (br_remotes r); r1 = add_remote r
      in bind_res (bf_bind other_new_bind other_bind_done (r_socket (br_remotes r1 ! k)) s) (\<lambda>(b, s1).
         bind_res (can_receive_any send_ctrl s1) (\<lambda>s2.
           Inr (sendto_setup other k ((set_socket k b r1)\<lparr>br_binding := None\<rparr>), s2))))"

section \<open>What the router does\<close>

lemma enqueue_all_eq:
  "m_queue (enqueue_all xs b) = m_queue b @ xs" "m_can_send (enqueue_all xs b) = m_can_send b"
  "m_infinite (enqueue_all xs b) = m_infinite b" "m_txn (enqueue_all xs b) = m_txn b"
  by (induction xs arbitrary: b) (simp_all add: enqueue_def)

text \<open>Data goes to the end of the queue of every receiver and of no other remote.\<close>

lemma route_data_queues:
  assumes "route_data i txn r = Inr r'" "j < length (br_remotes r)"
  shows "m_queue (r_socket (br_remotes r' ! j)) = m_queue (r_socket (br_remotes r ! j))
    @ (if routed i (r_sendto (br_remotes r ! i)) j then take (unat (gp_length txn)) (gp_data txn) else [])"
  using assms by (auto simp: route_data_def Let_def list_ex_iff enqueue_all_eq set_default_txn_def split: if_splits)

text \<open>Remotes are added at the end; once a fixed receiver is found, every other remote sends to it alone.\<close>

definition sendto_ok :: "biflow_router \<Rightarrow> bool" where
  "sendto_ok r \<longleftrightarrow> (\<forall>j < length (br_remotes r). r_sendto (br_remotes r ! j) = (if br_sendto r = Some j then None else br_sendto r))
     \<and> (\<forall>k. br_sendto r = Some k \<longrightarrow> k < length (br_remotes r) \<and> br_p_sendto r \<noteq> [])"

lemma sendto_ok_init: "sendto_ok (biflow_router_init p)"
  by (simp add: sendto_ok_def biflow_router_init_def)

lemma sendto_setup_ok:
  assumes "sendto_ok r" "br_remotes r1 = br_remotes r @ [x]" "r_sendto x = None" "br_sendto r1 = br_sendto r"
    "br_p_sendto r1 = br_p_sendto r"
  shows "sendto_ok (sendto_setup other (length (br_remotes r)) r1)"
  using assms by (auto simp: sendto_ok_def sendto_setup_def nth_append less_Suc_eq split: option.splits)

lemma router_new_bind_ok: "sendto_ok r \<Longrightarrow> sendto_ok (router_new_bind other r)"
  unfolding router_new_bind_def
  by (rule sendto_setup_ok[where x = "\<lparr>r_socket = biflow_init, r_sendto = None\<rparr>"]) (simp_all add: add_remote_def)

lemma router_bind_ok:
  assumes "sendto_ok r" "router_bind nb bd ctl other r s = Inr (r', s')"
  shows "sendto_ok r'"
proof -
  have "\<exists>b. r' = sendto_setup other (length (br_remotes r)) ((set_socket (length (br_remotes r)) b (add_remote r))\<lparr>br_binding := None\<rparr>)"
    using assms(2) by (auto simp: router_bind_def Let_def bind_res_def split: sum.splits)
  then show ?thesis
    using sendto_setup_ok[OF assms(1)] by (auto simp: set_socket_def add_remote_def)
qed

section \<open>Where the code departs from its contract\<close>

text \<open>A socket with a default transaction announces the length of that transaction, whatever it sends;
  a router behind it passes on that many items. Two characters become one.\<close>

lemma default_length_announced: "m_txn b = Some t \<Longrightarrow> gp_length (send_txn b n) = gp_length t"
  by (simp add: send_txn_def Let_def)

lemma router_drops_items:
  assumes "m_txn b = Some t" "gp_length t = 1" "m_queue b = [x, y]" "m_infinite b"
    and "br_remotes r = [r0, r1]" "r_sendto r0 = None" "m_queue (r_socket r1) = []"
  shows "\<exists>r' r1'. route_data 0 (send_txn b (sending b)) r = Inr r' \<and> br_remotes r' = [r0, r1'] \<and> m_queue (r_socket r1') = [x]"
  using assms by (simp add: route_data_def send_txn_def routed_def set_default_txn_def enqueue_def sending_def Let_def)

text \<open>Data for a router with a single remote and no fixed receiver ends in a null pointer.\<close>

lemma lone_remote_null: "br_remotes r = [r0] \<Longrightarrow> r_sendto r0 = None \<Longrightarrow> route_data 0 txn r = Inl Null_pointer"
  by (simp add: route_data_def routed_def Let_def)

end
