(* ===== verification/Pl011.thy ===== *)
theory Pl011
  imports Biflow Registers
begin

text \<open>
  \<^verbatim>\<open>uart/uart-pl011/include/uart-pl011.h\<close>: the PL011 UART. The guest reads and writes its registers,
  the backend is bound to its bidirectional socket; \<open>ctl\<close> is the control path to that backend.
  Positions and counts of the receive FIFO are never negative and are natural numbers here; the
  field \<^verbatim>\<open>readbuff\<close> is not used by the code and is left out.

  The second half is the UART together with its backend, as a transition system over the operations
  of both. The invariant is that the backend never holds more credits than the FIFO has free slots.
  From it: no character is lost, duplicated or reordered and the FIFO does not overflow, in any
  interleaving; and a waiting character gets to the guest.
\<close>

section \<open>State\<close>

abbreviation (input) "INT_OE \<equiv> push_bit 10 1 :: u32"
abbreviation (input) "INT_BE \<equiv> push_bit 9 1 :: u32"
abbreviation (input) "INT_PE \<equiv> push_bit 8 1 :: u32"
abbreviation (input) "INT_FE \<equiv> push_bit 7 1 :: u32"
abbreviation (input) "INT_RT \<equiv> push_bit 6 1 :: u32"
abbreviation (input) "INT_TX \<equiv> push_bit 5 1 :: u32"
abbreviation (input) "INT_RX \<equiv> push_bit 4 1 :: u32"
abbreviation (input) "INT_DSR \<equiv> push_bit 3 1 :: u32"
abbreviation (input) "INT_DCD \<equiv> push_bit 2 1 :: u32"
abbreviation (input) "INT_CTS \<equiv> push_bit 1 1 :: u32"
abbreviation (input) "INT_RI \<equiv> push_bit 0 1 :: u32"
abbreviation (input) "INT_E \<equiv> INT_OE OR INT_BE OR INT_PE OR INT_FE"
abbreviation (input) "INT_MS \<equiv> INT_RI OR INT_DSR OR INT_DCD OR INT_CTS"

abbreviation (input) "PL011_INT_TX \<equiv> 0x20 :: u32"
abbreviation (input) "PL011_INT_RX \<equiv> 0x10 :: u32"
abbreviation (input) "PL011_FLAG_RXFF \<equiv> 0x40 :: u32"
abbreviation (input) "PL011_FLAG_RXFE \<equiv> 0x10 :: u32"

text \<open>\<^verbatim>\<open>PL011State\<close>, the backend socket, the interrupt line, and whether \<^verbatim>\<open>update_event\<close> is notified.\<close>

record pl011 =
  flags :: u32
  lcr :: u32
  rsr :: u32
  cr :: u32
  dmacr :: u32
  int_enabled :: u32
  int_level :: u32
  read_fifo :: "u32 list"
  ilpr :: u32
  ibrd :: u32
  fbrd :: u32
  ifl :: u32
  read_pos :: nat
  read_count :: nat
  read_trigger :: nat
  backend_socket :: biflow
  irq_line :: bool
  update_event :: bool

definition pl011_id_arm :: "u8 list" where
  "pl011_id_arm = [0x11, 0x10, 0x14, 0x00, 0x0d, 0xf0, 0x05, 0xb1]"

definition irqmask :: "u32 list" where
  "irqmask = [INT_E OR INT_MS OR INT_RT OR INT_TX OR INT_RX, INT_RX, INT_TX, INT_RT, INT_MS, INT_E]"

definition pl011_new :: pl011 where
  "pl011_new = \<lparr>flags = 0x90, lcr = 0, rsr = 0, cr = 0x300, dmacr = 0, int_enabled = 0, int_level = 0,
     read_fifo = replicate 16 0, ilpr = 0, ibrd = 0, fbrd = 0, ifl = 0x12, read_pos = 0, read_count = 0,
     read_trigger = 1, backend_socket = biflow_init, irq_line = False, update_event = True\<rparr>"

section \<open>Operations\<close>

definition pl011_update :: "pl011 \<Rightarrow> pl011" where
  "pl011_update u = u\<lparr>update_event := True\<rparr>"

text \<open>The method behind the event drives the line, if any interrupt is enabled.\<close>

definition pl011_update_sysc :: "pl011 \<Rightarrow> pl011" where
  "pl011_update_sysc u =
     (let fl = int_level u AND int_enabled u; u0 = u\<lparr>update_event := False\<rparr>
      in if irqmask ! 0 AND int_enabled u \<noteq> 0 then u0\<lparr>irq_line := (fl AND irqmask ! 0 \<noteq> 0)\<rparr> else u0)"

definition read_dr :: "(ctrl \<Rightarrow> 's \<Rightarrow> 's res) \<Rightarrow> pl011 \<Rightarrow> 's \<Rightarrow> (u32 \<times> pl011 \<times> 's) res" where
  "read_dr ctl u s =
     (if read_pos u \<ge> length (read_fifo u) then Inl Out_of_bounds
      else
        let c = read_fifo u ! read_pos u;
            u1 = u\<lparr>flags := flags u AND NOT PL011_FLAG_RXFF\<rparr>
        in bind_res
          (if read_count u1 > 0 then
             bind_res (can_receive_more ctl 1 s) (\<lambda>s1.
               let p = Suc (read_pos u1)
               in Inr (u1\<lparr>read_count := read_count u1 - 1, read_pos := if p = 16 then 0 else p\<rparr>, s1))
           else Inr (u1, s))
          (\<lambda>(u2, s2).
             let u3 = (if read_count u2 = 0 then u2\<lparr>flags := flags u2 OR PL011_FLAG_RXFE\<rparr> else u2);
                 u4 = (if int (read_count u3) = int (read_trigger u3) - 1
                       then u3\<lparr>int_level := int_level u3 AND NOT PL011_INT_RX\<rparr> else u3)
             in Inr (c, pl011_update (u4\<lparr>rsr := drop_bit 8 c\<rparr>), s2)))"

definition pl011_read :: "(ctrl \<Rightarrow> 's \<Rightarrow> 's res) \<Rightarrow> u64 \<Rightarrow> pl011 \<Rightarrow> 's \<Rightarrow> (u32 \<times> pl011 \<times> 's) res" where
  "pl011_read ctl offset u s =
     (let r = drop_bit 2 offset
      in if r = 0 then read_dr ctl u s
         else if r \<ge> 0x3f8 \<and> r \<le> 0x400 then
           let i = unat (drop_bit 2 (offset - 0xfe0))
           in if i < length pl011_id_arm then Inr (ucast (pl011_id_arm ! i), u, s) else Inl Out_of_bounds
         else Inr (if r = 1 then rsr u else if r = 6 then flags u else if r = 8 then ilpr u
                   else if r = 9 then ibrd u else if r = 10 then fbrd u else if r = 11 then lcr u
                   else if r = 12 then cr u else if r = 13 then ifl u else if r = 14 then int_enabled u
                   else if r = 15 then int_level u else if r = 16 then int_level u AND int_enabled u
                   else if r = 18 then dmacr u else 0, u, s))"

definition pl011_set_read_trigger :: "(ctrl \<Rightarrow> 's \<Rightarrow> 's res) \<Rightarrow> pl011 \<Rightarrow> 's \<Rightarrow> (pl011 \<times> 's) res" where
  "pl011_set_read_trigger ctl u s =
     bind_res (can_receive_set ctl 16 s) (\<lambda>s1. Inr (u\<lparr>read_trigger := 1, read_count := 0\<rparr>, s1))"

definition pl011_write :: "(ctrl \<Rightarrow> 's \<Rightarrow> 's res) \<Rightarrow> u64 \<Rightarrow> u32 \<Rightarrow> pl011 \<Rightarrow> 's \<Rightarrow> (pl011 \<times> 's) res" where
  "pl011_write ctl offset v u s =
     (let r = drop_bit 2 offset
      in if r = 0 then
           Inr (pl011_update (u\<lparr>backend_socket := enqueue (ucast (v AND 0xff)) (backend_socket u),
                                int_level := int_level u OR PL011_INT_TX\<rparr>), s)
         else if r = 1 then Inr (u\<lparr>rsr := 0\<rparr>, s)
         else if r = 8 then Inr (u\<lparr>ilpr := v\<rparr>, s)
         else if r = 9 then Inr (u\<lparr>ibrd := v\<rparr>, s)
         else if r = 10 then Inr (u\<lparr>fbrd := v\<rparr>, s)
         else if r = 11 then
           let u1 = (if (lcr u XOR v) AND 0x10 \<noteq> 0 then u\<lparr>read_count := 0, read_pos := 0\<rparr> else u)
           in pl011_set_read_trigger ctl (u1\<lparr>lcr := v\<rparr>) s
         else if r = 12 then Inr (u\<lparr>cr := v\<rparr>, s)
         else if r = 13 then pl011_set_read_trigger ctl (u\<lparr>ifl := v\<rparr>) s
         else if r = 14 then Inr (pl011_update (u\<lparr>int_enabled := v\<rparr>), s)
         else if r = 17 then Inr (pl011_update (u\<lparr>int_level := int_level u AND NOT v\<rparr>), s)
         else if r = 18 then Inr (u\<lparr>dmacr := v\<rparr>, s)
         else Inr (u, s))"

definition pl011_put_fifo :: "u32 \<Rightarrow> pl011 \<Rightarrow> pl011 res" where
  "pl011_put_fifo v u =
     (let slot0 = read_pos u + read_count u; slot = (if slot0 \<ge> 16 then slot0 - 16 else slot0)
      in if slot \<ge> length (read_fifo u) then Inl Out_of_bounds
         else
           let u1 = u\<lparr>read_fifo := (read_fifo u)[slot := v], read_count := Suc (read_count u),
                     flags := flags u AND NOT PL011_FLAG_RXFE\<rparr>;
               u2 = (if lcr u1 AND 0x10 = 0 \<or> read_count u1 = 16
                     then u1\<lparr>flags := flags u1 OR PL011_FLAG_RXFF\<rparr> else u1)
           in Inr (if read_count u2 = read_trigger u2
                   then pl011_update (u2\<lparr>int_level := int_level u2 OR PL011_INT_RX\<rparr>) else u2))"

fun put_all :: "u8 list \<Rightarrow> pl011 \<Rightarrow> pl011 res" where
  "put_all [] u = Inr u"
| "put_all (c # cs) u = bind_res (pl011_put_fifo (ucast c) u) (put_all cs)"

definition pl011_receive :: "gp \<Rightarrow> pl011 \<Rightarrow> pl011 res" where
  "pl011_receive txn u =
     (let n = unat (gp_streaming_width txn)
      in if length (gp_data txn) < n then Inl Out_of_bounds else put_all (take n (gp_data txn)) u)"

text \<open>A read of two bytes stores one: the pointer is to bytes.\<close>

definition pl011_b_transport :: "(ctrl \<Rightarrow> 's \<Rightarrow> 's res) \<Rightarrow> gp \<Rightarrow> u64 \<Rightarrow> pl011 \<Rightarrow> 's \<Rightarrow> (gp \<times> u64 \<times> pl011 \<times> 's) res" where
  "pl011_b_transport ctl txn delay u s =
     (let n = unat (gp_length txn); txn1 = txn\<lparr>gp_dmi_allowed := False, gp_response := Ok_response\<rparr>
      in case gp_command txn of
           Ignore_command \<Rightarrow> Inr (txn1, delay, u, s)
         | Write_command \<Rightarrow>
             if n \<notin> {1, 2, 4} then Inl Fatal
             else if length (gp_data txn) < n then Inl Out_of_bounds
             else bind_res (pl011_write ctl (gp_address txn) (of_bytes (take n (gp_data txn))) u s) (\<lambda>(u1, s1).
               Inr (txn1, delay, u1, s1))
         | Read_command \<Rightarrow>
             if n \<notin> {1, 2, 4} then Inl Fatal
             else if length (gp_data txn) < n then Inl Out_of_bounds
             else bind_res (pl011_read ctl (gp_address txn) u s) (\<lambda>(c, u1, s1).
               let bs = (if n = 4 then to_bytes c else [ucast c])
               in Inr (txn1\<lparr>gp_data := bs @ drop (length bs) (gp_data txn)\<rparr>, delay, u1, s1)))"

section \<open>The receive queue\<close>

text \<open>The FIFO as the list of characters it holds.\<close>

definition rx_chars :: "pl011 \<Rightarrow> u32 list" where
  "rx_chars u = map (\<lambda>i. read_fifo u ! ((read_pos u + i) mod 16)) [0..<read_count u]"

definition fifo_ok :: "pl011 \<Rightarrow> bool" where
  "fifo_ok u \<longleftrightarrow> length (read_fifo u) = 16 \<and> read_pos u < 16 \<and> read_count u \<le> 16"

lemma length_rx_chars [simp]: "length (rx_chars u) = read_count u"
  by (simp add: rx_chars_def)

lemma rx_chars_Nil: "rx_chars u = [] \<longleftrightarrow> read_count u = 0"
  by (simp add: rx_chars_def)

lemma rx_chars_0 [simp]: "read_count u = 0 \<Longrightarrow> rx_chars u = []"
  by (simp add: rx_chars_def)

lemma rx_chars_cong:
  "read_fifo u = read_fifo v \<Longrightarrow> read_pos u = read_pos v \<Longrightarrow> read_count u = read_count v \<Longrightarrow> rx_chars u = rx_chars v"
  by (simp add: rx_chars_def)

lemma put_fifo_ok:
  assumes "fifo_ok u" "read_count u < 16"
  shows "\<exists>u'. pl011_put_fifo v u = Inr u' \<and> fifo_ok u' \<and> rx_chars u' = rx_chars u @ [v]
    \<and> read_count u' = Suc (read_count u) \<and> backend_socket u' = backend_socket u \<and> lcr u' = lcr u"
proof -
  let ?slot = "(read_pos u + read_count u) mod 16"
  let ?s = "if read_pos u + read_count u \<ge> 16 then read_pos u + read_count u - 16 else read_pos u + read_count u"
  have s: "?s = ?slot" using assms by (auto simp: fifo_ok_def mod_if)
  have "\<exists>u'. pl011_put_fifo v u = Inr u' \<and> read_fifo u' = (read_fifo u)[?slot := v] \<and> read_pos u' = read_pos u
      \<and> read_count u' = Suc (read_count u) \<and> backend_socket u' = backend_socket u \<and> lcr u' = lcr u"
    using assms(1) unfolding pl011_put_fifo_def Let_def s by (simp add: fifo_ok_def pl011_update_def not_le)
  then obtain u' where p: "pl011_put_fifo v u = Inr u'" "read_fifo u' = (read_fifo u)[?slot := v]" "read_pos u' = read_pos u"
    "read_count u' = Suc (read_count u)" "backend_socket u' = backend_socket u" "lcr u' = lcr u" by blast
  have ne: "(read_pos u + i) mod 16 \<noteq> ?slot" if "i < read_count u" for i
  proof
    assume "(read_pos u + i) mod 16 = ?slot"
    then have "i mod 16 = read_count u mod 16" by (simp add: nat_mod_eq_iff mod_add_left_eq)
    then show False using that assms(2) by simp
  qed
  have "map (\<lambda>i. read_fifo u' ! ((read_pos u + i) mod 16)) [0..<read_count u] = rx_chars u"
    unfolding rx_chars_def p(2) using ne by (intro map_cong refl) (metis atLeastLessThan_iff nth_list_update_neq set_upt)
  moreover have "read_fifo u' ! ?slot = v" using assms(1) p(2) by (simp add: fifo_ok_def)
  ultimately have "rx_chars u' = rx_chars u @ [v]" using p(3,4) by (simp add: rx_chars_def)
  moreover have "fifo_ok u'" using p assms by (simp add: fifo_ok_def)
  ultimately show ?thesis using p by blast
qed

lemma put_all_ok:
  assumes "fifo_ok u" "read_count u + length cs \<le> 16"
  shows "\<exists>u'. put_all cs u = Inr u' \<and> fifo_ok u' \<and> rx_chars u' = rx_chars u @ map ucast cs
    \<and> read_count u' = read_count u + length cs \<and> backend_socket u' = backend_socket u"
  using assms
proof (induction cs arbitrary: u)
  case (Cons c cs)
  from Cons.prems obtain u1 where "pl011_put_fifo (ucast c) u = Inr u1" "fifo_ok u1" "rx_chars u1 = rx_chars u @ [ucast c]"
    "read_count u1 = Suc (read_count u)" "backend_socket u1 = backend_socket u"
    using put_fifo_ok[of u "ucast c"] by auto
  then show ?case using Cons.IH[of u1] Cons.prems(2) by auto
qed simp

lemma read_dr_ok:
  assumes "fifo_ok u"
  shows "read_count u = 0 \<Longrightarrow> \<exists>c u'. read_dr ctl u s = Inr (c, u', s) \<and> fifo_ok u' \<and> rx_chars u' = []
      \<and> backend_socket u' = backend_socket u"
    and "read_count u > 0 \<Longrightarrow> ctl (Delta_change 1) s = Inr s1 \<Longrightarrow>
      \<exists>u'. read_dr ctl u s = Inr (hd (rx_chars u), u', s1) \<and> fifo_ok u' \<and> rx_chars u' = tl (rx_chars u)
      \<and> read_count u' = read_count u - 1 \<and> backend_socket u' = backend_socket u"
proof -
  assume "read_count u = 0"
  then show "\<exists>c u'. read_dr ctl u s = Inr (c, u', s) \<and> fifo_ok u' \<and> rx_chars u' = [] \<and> backend_socket u' = backend_socket u"
    using assms by (auto simp: read_dr_def pl011_update_def fifo_ok_def rx_chars_def Let_def)
next
  assume c: "read_count u > 0" "ctl (Delta_change 1) s = Inr s1"
  obtain n where n: "read_count u = Suc n" using c(1) by (cases "read_count u") auto
  let ?p = "if Suc (read_pos u) = 16 then 0 else Suc (read_pos u)"
  have p: "?p = Suc (read_pos u) mod 16" using assms by (auto simp: fifo_ok_def mod_if)
  obtain u' where u: "read_dr ctl u s = Inr (read_fifo u ! read_pos u, u', s1)" "read_fifo u' = read_fifo u"
    "read_pos u' = Suc (read_pos u) mod 16" "read_count u' = n" "backend_socket u' = backend_socket u"
    using assms c n p by (auto simp: read_dr_def can_receive_more_def pl011_update_def fifo_ok_def Let_def)
  have "rx_chars u = read_fifo u ! read_pos u # rx_chars u'"
    using assms u(2,3,4) n
    by (simp add: rx_chars_def fifo_ok_def upt_conv_Cons map_Suc_upt[symmetric] mod_add_left_eq comp_def del: upt_Suc map_Suc_upt)
  moreover have "fifo_ok u'" using assms u n by (simp add: fifo_ok_def)
  ultimately show "\<exists>u'. read_dr ctl u s = Inr (hd (rx_chars u), u', s1) \<and> fifo_ok u' \<and> rx_chars u' = tl (rx_chars u)
      \<and> read_count u' = read_count u - 1 \<and> backend_socket u' = backend_socket u"
    using u n by auto
qed

section \<open>A UART and the backend it is bound to\<close>

text \<open>
  The two sockets are bound to each other: what the backend enqueues goes to \<^verbatim>\<open>pl011_receive\<close>, the credits
  of the UART go to the socket of the backend. \<open>lk_sent\<close> and \<open>lk_got\<close> record what the backend enqueued and
  the characters that left the FIFO, by a read of the data register or by a reset of the FIFO;
  \<open>lk_typed\<close> and \<open>lk_host\<close> are the characters the guest wrote and the host received.
\<close>

record link =
  lk_uart :: pl011
  lk_peer :: biflow
  lk_sent :: "u8 list"
  lk_got :: "u32 list"
  lk_typed :: "u8 list"
  lk_host :: "u8 list"

definition peer_output :: "gp \<Rightarrow> u64 \<Rightarrow> pl011 \<Rightarrow> (gp \<times> u64 \<times> pl011) res" where
  "peer_output txn delay u = bind_res (pl011_receive txn u) (\<lambda>u1. Inr (txn, delay, u1))"

definition host_output :: "gp \<Rightarrow> u64 \<Rightarrow> u8 list \<Rightarrow> (gp \<times> u64 \<times> u8 list) res" where
  "host_output txn delay out = Inr (txn, delay, out @ take (unat (gp_streaming_width txn)) (gp_data txn))"

definition link_init :: link where
  "link_init = \<lparr>lk_uart = pl011_new, lk_peer = biflow_init, lk_sent = [], lk_got = [], lk_typed = [], lk_host = []\<rparr>"

inductive link_step :: "link \<Rightarrow> link \<Rightarrow> bool" where
  Backend_enqueue: "link_step l (l\<lparr>lk_peer := enqueue c (lk_peer l), lk_sent := lk_sent l @ [c]\<rparr>)"
| Backend_send: "sendall peer_output (lk_peer l) (lk_uart l) = Inr (b, u) \<Longrightarrow>
    link_step l (l\<lparr>lk_peer := b, lk_uart := u\<rparr>)"
| Guest_read: "pl011_read initiator_ctrl a (lk_uart l) (lk_peer l) = Inr (c, u, b) \<Longrightarrow>
    link_step l (l\<lparr>lk_uart := u, lk_peer := b,
      lk_got := lk_got l @ take (read_count (lk_uart l) - read_count u) (rx_chars (lk_uart l))\<rparr>)"
| Guest_write: "pl011_write initiator_ctrl a v (lk_uart l) (lk_peer l) = Inr (u, b) \<Longrightarrow>
    link_step l (l\<lparr>lk_uart := u, lk_peer := b,
      lk_got := lk_got l @ take (read_count (lk_uart l) - read_count u) (rx_chars (lk_uart l)),
      lk_typed := lk_typed l @ (if drop_bit 2 a = 0 then [ucast (v AND 0xff)] else [])\<rparr>)"
| Host_credit: "initiator_ctrl k (backend_socket (lk_uart l)) = Inr b \<Longrightarrow>
    link_step l (l\<lparr>lk_uart := (lk_uart l)\<lparr>backend_socket := b\<rparr>\<rparr>)"
| Uart_send: "sendall host_output (backend_socket (lk_uart l)) (lk_host l) = Inr (b, out) \<Longrightarrow>
    link_step l (l\<lparr>lk_uart := (lk_uart l)\<lparr>backend_socket := b\<rparr>, lk_host := out\<rparr>)"
| Uart_update: "link_step l (l\<lparr>lk_uart := pl011_update_sysc (lk_uart l)\<rparr>)"

inductive link_reach :: "link \<Rightarrow> bool" where
  Start: "link_reach link_init"
| Step: "link_reach l \<Longrightarrow> link_step l l' \<Longrightarrow> link_reach l'"

text \<open>The credits the backend holds never exceed the free slots of the FIFO.\<close>

definition link_ok :: "link \<Rightarrow> bool" where
  "link_ok l \<longleftrightarrow> fifo_ok (lk_uart l) \<and> \<not> m_infinite (lk_peer l) \<and> m_txn (lk_peer l) = None
     \<and> m_txn (backend_socket (lk_uart l)) = None
     \<and> read_count (lk_uart l) + unat (m_can_send (lk_peer l)) \<le> 16
     \<and> lk_got l @ rx_chars (lk_uart l) @ map ucast (m_queue (lk_peer l)) = map ucast (lk_sent l)
     \<and> (length (lk_typed l) < 2 ^ 32 \<longrightarrow> lk_host l @ m_queue (backend_socket (lk_uart l)) = lk_typed l)"

subsection \<open>Sending\<close>

lemma sending_le: "sending b \<le> length (m_queue b)"
  by (simp add: sending_def)

lemma send_txn_fields:
  assumes "m_txn b = None" "n < 2 ^ 32"
  shows "unat (gp_streaming_width (send_txn b n)) = n" "gp_data (send_txn b n) = m_queue b"
  using assms by (simp_all add: send_txn_def unat_of_nat Let_def)

lemma peer_send_ok:
  assumes "fifo_ok u" "\<not> m_infinite b" "m_txn b = None" "read_count u + unat (m_can_send b) \<le> 16"
  shows "\<exists>b' u'. sendall peer_output b u = Inr (b', u') \<and> fifo_ok u' \<and> \<not> m_infinite b' \<and> m_txn b' = None
    \<and> read_count u' + unat (m_can_send b') = read_count u + unat (m_can_send b)
    \<and> rx_chars u' @ map ucast (m_queue b') = rx_chars u @ map ucast (m_queue b)
    \<and> backend_socket u' = backend_socket u \<and> (read_count u > 0 \<or> m_queue b \<noteq> [] \<and> m_can_send b \<noteq> 0 \<longrightarrow> read_count u' > 0)"
proof (cases "sending b = 0")
  case True
  then show ?thesis using assms by (auto simp: sendall_def sending_def unat_eq_0 split: if_splits)
next
  case False
  let ?n = "sending b"
  have le: "?n \<le> unat (m_can_send b)" "?n \<le> length (m_queue b)" using assms(2) by (auto simp: sending_def)
  then have n: "?n < 2 ^ 32" "read_count u + length (take ?n (m_queue b)) \<le> 16" using assms(4) by auto
  obtain u' where u: "put_all (take ?n (m_queue b)) u = Inr u'" "fifo_ok u'"
    "rx_chars u' = rx_chars u @ map ucast (take ?n (m_queue b))" "read_count u' = read_count u + ?n"
    "backend_socket u' = backend_socket u"
    using put_all_ok[OF assms(1) n(2)] le(2) by auto
  let ?b = "b\<lparr>bf_event := False, m_queue := drop ?n (m_queue b), m_can_send := m_can_send b - of_nat ?n\<rparr>"
  have "sendall peer_output b u = Inr (?b, u')"
    using False u(1) le(2) send_txn_fields[OF assms(3) n(1)]
    by (simp add: sendall_def peer_output_def pl011_receive_def Let_def)
  moreover have "unat (m_can_send b - of_nat ?n) = unat (m_can_send b) - ?n"
    using le(1) n(1) by (simp add: unat_sub_if' unat_of_nat)
  moreover have "map ucast (take ?n (m_queue b)) @ map ucast (drop ?n (m_queue b)) = (map ucast (m_queue b) :: u32 list)"
    by (simp flip: map_append)
  ultimately show ?thesis using u le assms(2,3) False by auto
qed

lemma host_send_ok:
  assumes "m_txn b = None" "sendall host_output b out = Inr (b', out')" "length (m_queue b) < 2 ^ 32"
  shows "out' @ m_queue b' = out @ m_queue b \<and> m_txn b' = None"
proof -
  have "sending b < 2 ^ 32" using sending_le[of b] assms(3) by simp
  from send_txn_fields[OF assms(1) this] show ?thesis
    using assms(1,2) by (auto simp: sendall_def host_output_def Let_def split: if_splits)
qed

lemma ctrl_simps:
  "\<not> m_infinite b \<Longrightarrow> initiator_ctrl (Delta_change n) b = Inr (b\<lparr>m_can_send := m_can_send b + n, m_infinite := False, bf_event := True\<rparr>)"
  "initiator_ctrl (Absolute_value n) b = Inr (b\<lparr>m_can_send := n, m_infinite := False, bf_attached := n \<noteq> 0, bf_event := True\<rparr>)"
  "initiator_ctrl Infinite_value b = Inr (b\<lparr>m_infinite := True, bf_event := True\<rparr>)"
  by (simp_all add: initiator_ctrl_def assert_res_def)

lemma ctrl_keeps: "initiator_ctrl k b = Inr b' \<Longrightarrow> m_queue b' = m_queue b \<and> m_txn b' = m_txn b"
  by (auto simp: initiator_ctrl_def assert_res_def split: ctrl.splits if_splits)

text \<open>What an access of the guest does to the two ends of the receive path.\<close>

definition rx_kept :: "pl011 \<Rightarrow> biflow \<Rightarrow> pl011 \<Rightarrow> biflow \<Rightarrow> bool" where
  "rx_kept u b u' b' \<longleftrightarrow> fifo_ok u' \<and> \<not> m_infinite b' \<and> m_txn b' = m_txn b \<and> m_queue b' = m_queue b
     \<and> read_count u' + unat (m_can_send b') \<le> 16
     \<and> take (read_count u - read_count u') (rx_chars u) @ rx_chars u' = rx_chars u"

lemma rx_kept_same:
  assumes "fifo_ok u" "\<not> m_infinite b" "read_count u + unat (m_can_send b) \<le> 16"
    and "read_fifo u' = read_fifo u" "read_pos u' = read_pos u" "read_count u' = read_count u"
  shows "rx_kept u b u' b"
  using assms rx_chars_cong[OF assms(4-6)] by (simp add: rx_kept_def fifo_ok_def)

lemma dr_kept:
  assumes "fifo_ok u" "\<not> m_infinite b" "read_count u + unat (m_can_send b) \<le> 16"
  shows "\<exists>c u' b'. read_dr initiator_ctrl u b = Inr (c, u', b') \<and> rx_kept u b u' b' \<and> backend_socket u' = backend_socket u
    \<and> (read_count u > 0 \<longrightarrow> c = hd (rx_chars u) \<and> read_count u' = read_count u - 1)"
proof (cases "read_count u = 0")
  case True
  then obtain c u' where r: "read_dr initiator_ctrl u b = Inr (c, u', b)" "fifo_ok u'" "rx_chars u' = []"
      "backend_socket u' = backend_socket u"
    using read_dr_ok(1)[OF assms(1) True, of initiator_ctrl b] by blast
  then have "read_count u' = 0" "rx_chars u = []" using True by (simp_all add: rx_chars_Nil)
  then show ?thesis using r assms True by (intro exI[of _ c] exI[of _ u'] exI[of _ b]) (simp add: rx_kept_def)
next
  case False
  let ?b = "b\<lparr>m_can_send := m_can_send b + 1, m_infinite := False, bf_event := True\<rparr>"
  obtain u' where r: "read_dr initiator_ctrl u b = Inr (hd (rx_chars u), u', ?b)" "fifo_ok u'" "rx_chars u' = tl (rx_chars u)"
      "read_count u' = read_count u - 1" "backend_socket u' = backend_socket u"
    using read_dr_ok(2)[OF assms(1), of initiator_ctrl b ?b] False ctrl_simps(1)[OF assms(2)] by auto
  have "unat (m_can_send b + 1) = unat (m_can_send b) + 1" using assms(3) by (simp add: unat_word_ariths)
  moreover have "rx_chars u \<noteq> []" using False by (simp add: rx_chars_Nil)
  then have "take 1 (rx_chars u) @ tl (rx_chars u) = rx_chars u" by (cases "rx_chars u") auto
  moreover have "read_count u - read_count u' = 1" using r(4) False by simp
  ultimately have "rx_kept u b u' ?b" using r assms False unfolding rx_kept_def by simp
  then show ?thesis using r by blast
qed

lemma read_kept:
  assumes "fifo_ok u" "\<not> m_infinite b" "read_count u + unat (m_can_send b) \<le> 16"
    and "pl011_read initiator_ctrl a u b = Inr (c, u', b')"
  shows "rx_kept u b u' b' \<and> backend_socket u' = backend_socket u"
proof (cases "drop_bit 2 a = 0")
  case True
  then show ?thesis using dr_kept[OF assms(1-3)] assms(4) by (auto simp: pl011_read_def)
next
  case False
  then have "u' = u" "b' = b" using assms(4) by (auto simp: pl011_read_def Let_def split: if_splits)
  then show ?thesis using rx_kept_same[OF assms(1-3)] by simp
qed

lemma flush_kept:
  assumes "fifo_ok u" "read_fifo u1 = read_fifo u" "read_pos u1 = 0 \<or> read_pos u1 = read_pos u" "backend_socket u1 = backend_socket u"
  shows "\<exists>u' b'. pl011_set_read_trigger initiator_ctrl u1 b = Inr (u', b') \<and> rx_kept u b u' b'
    \<and> backend_socket u' = backend_socket u \<and> read_count u' = 0 \<and> m_can_send b' = 16"
  using assms by (auto simp: pl011_set_read_trigger_def can_receive_set_def ctrl_simps(2) rx_kept_def fifo_ok_def rx_chars_def)

lemma write_kept:
  assumes "fifo_ok u" "\<not> m_infinite b" "read_count u + unat (m_can_send b) \<le> 16"
    and "pl011_write initiator_ctrl a v u b = Inr (u', b')"
  shows "rx_kept u b u' b' \<and> backend_socket u' =
    (if drop_bit 2 a = 0 then enqueue (ucast (v AND 0xff)) (backend_socket u) else backend_socket u)"
proof (cases "drop_bit 2 a \<in> {11, 13}")
  case True
  let ?u1 = "(if (lcr u XOR v) AND 0x10 \<noteq> 0 then u\<lparr>read_count := 0, read_pos := 0\<rparr> else u)\<lparr>lcr := v\<rparr>"
  have e: "pl011_write initiator_ctrl a v u b = pl011_set_read_trigger initiator_ctrl
      (if drop_bit 2 a = 11 then ?u1 else u\<lparr>ifl := v\<rparr>) b"
    using True by (auto simp: pl011_write_def Let_def)
  show ?thesis
    using flush_kept[OF assms(1), of ?u1 b] flush_kept[OF assms(1), of "u\<lparr>ifl := v\<rparr>" b] assms(4) True
    unfolding e by (auto split: if_splits)
next
  case False
  then have "b' = b" "read_fifo u' = read_fifo u" "read_pos u' = read_pos u" "read_count u' = read_count u"
    "backend_socket u' = (if drop_bit 2 a = 0 then enqueue (ucast (v AND 0xff)) (backend_socket u) else backend_socket u)"
    using assms(4) by (auto simp: pl011_write_def pl011_update_def Let_def split: if_splits)
  then show ?thesis using rx_kept_same[OF assms(1-3)] by simp
qed

lemma link_ok_init: "link_ok link_init"
  by (simp add: link_ok_def link_init_def pl011_new_def biflow_init_def fifo_ok_def rx_chars_def)

lemma rx_kept_link:
  assumes "link_ok l" "rx_kept (lk_uart l) (lk_peer l) u b" "m_txn (backend_socket u) = None"
    and "length typed < 2 ^ 32 \<longrightarrow> lk_host l @ m_queue (backend_socket u) = typed"
  shows "link_ok (l\<lparr>lk_uart := u, lk_peer := b,
      lk_got := lk_got l @ take (read_count (lk_uart l) - read_count u) (rx_chars (lk_uart l)), lk_typed := typed\<rparr>)"
proof -
  have "(lk_got l @ take (read_count (lk_uart l) - read_count u) (rx_chars (lk_uart l))) @ rx_chars u @ map ucast (m_queue b)
      = lk_got l @ (take (read_count (lk_uart l) - read_count u) (rx_chars (lk_uart l)) @ rx_chars u) @ map ucast (m_queue b)"
    by simp
  also have "\<dots> = map ucast (lk_sent l)" using assms(1,2) by (simp add: link_ok_def rx_kept_def)
  finally show ?thesis using assms by (simp add: link_ok_def rx_kept_def)
qed

lemma link_ok_step: "link_ok l \<Longrightarrow> link_step l l' \<Longrightarrow> link_ok l'"
proof -
  assume ok: "link_ok l" and step: "link_step l l'"
  note [simp] = link_ok_def
  have rx: "fifo_ok (lk_uart l)" "\<not> m_infinite (lk_peer l)" "read_count (lk_uart l) + unat (m_can_send (lk_peer l)) \<le> 16"
    and txn: "m_txn (lk_peer l) = None" "m_txn (backend_socket (lk_uart l)) = None"
    and tx: "length (lk_typed l) < 2 ^ 32 \<longrightarrow> lk_host l @ m_queue (backend_socket (lk_uart l)) = lk_typed l"
    using ok by simp_all
  from step show "link_ok l'"
  proof cases
    case (Backend_enqueue c)
    then show ?thesis using ok by (simp add: enqueue_def)
  next
    case (Backend_send b u)
    obtain b' u' where s: "sendall peer_output (lk_peer l) (lk_uart l) = Inr (b', u')" "fifo_ok u'" "\<not> m_infinite b'" "m_txn b' = None"
      "read_count u' + unat (m_can_send b') = read_count (lk_uart l) + unat (m_can_send (lk_peer l))"
      "rx_chars u' @ map ucast (m_queue b') = rx_chars (lk_uart l) @ map ucast (m_queue (lk_peer l))"
      "backend_socket u' = backend_socket (lk_uart l)"
      using peer_send_ok[OF rx(1,2) txn(1) rx(3)] by blast
    then show ?thesis using ok Backend_send by simp
  next
    case (Guest_read a c u b)
    note k = read_kept[OF rx Guest_read(2)]
    show ?thesis using rx_kept_link[OF ok conjunct1[OF k], of "lk_typed l"] k txn tx Guest_read(1) by simp
  next
    case (Guest_write a v u b)
    note k = write_kept[OF rx Guest_write(2)]
    show ?thesis unfolding Guest_write(1)
      by (rule rx_kept_link[OF ok conjunct1[OF k]]) (use k txn tx in \<open>auto simp: enqueue_def\<close>)
  next
    case (Host_credit k b)
    then show ?thesis using ok ctrl_keeps[OF Host_credit(2)] rx_chars_cong[of "(lk_uart l)\<lparr>backend_socket := b\<rparr>" "lk_uart l"]
      by (simp add: fifo_ok_def)
  next
    case (Uart_send b out)
    have "length (m_queue (backend_socket (lk_uart l))) < 2 ^ 32" if "length (lk_typed l) < 2 ^ 32"
      using that tx by (metis le_add2 length_append order.strict_trans1)
    then have "length (lk_typed l) < 2 ^ 32 \<longrightarrow> out @ m_queue b = lk_typed l"
      using host_send_ok[OF txn(2) Uart_send(2)] tx by metis
    moreover have "m_txn b = None"
      using Uart_send(2) txn(2) by (auto simp: sendall_def host_output_def Let_def split: if_splits)
    ultimately show ?thesis using ok Uart_send(1) rx_chars_cong[of "(lk_uart l)\<lparr>backend_socket := b\<rparr>" "lk_uart l"]
      by (simp add: fifo_ok_def)
  next
    case Uart_update
    then show ?thesis using ok rx_chars_cong[of "pl011_update_sysc (lk_uart l)" "lk_uart l"]
      by (simp add: pl011_update_sysc_def fifo_ok_def Let_def)
  qed
qed

lemma link_reach_ok: "link_reach l \<Longrightarrow> link_ok l"
  by (induction rule: link_reach.induct) (auto intro: link_ok_init link_ok_step)

text \<open>C11. In every state a UART and its backend can reach, by any interleaving of characters from the
  backend, transmissions, accesses of the guest, credits of the host and interrupt updates: the
  characters that left the receive FIFO, those in it and those the backend still holds are, in
  this order, the characters the backend was given; the FIFO never holds more than 16 and the next
  transmission never runs over it; and what the host received and what is still queued for it are
  the characters the guest wrote.\<close>

theorem uart_no_character_lost:
  assumes "link_reach l"
  shows "lk_got l @ rx_chars (lk_uart l) @ map ucast (m_queue (lk_peer l)) = map ucast (lk_sent l)
    \<and> read_count (lk_uart l) \<le> 16
    \<and> (\<exists>b u. sendall peer_output (lk_peer l) (lk_uart l) = Inr (b, u) \<and> read_count u \<le> 16)
    \<and> (length (lk_typed l) < 2 ^ 32 \<longrightarrow> lk_host l @ m_queue (backend_socket (lk_uart l)) = lk_typed l)"
proof -
  have ok: "link_ok l" using link_reach_ok[OF assms] .
  then obtain b u where "sendall peer_output (lk_peer l) (lk_uart l) = Inr (b, u)" "fifo_ok u"
    using peer_send_ok[of "lk_uart l" "lk_peer l"] by (auto simp: link_ok_def)
  then show ?thesis using ok by (auto simp: link_ok_def fifo_ok_def)
qed

text \<open>C40. A character that is waiting gets through: in every reachable state in which the guest has
  set up the FIFO, so that the backend holds a credit for every free slot, one transmission and one
  read of the data register give the guest the oldest character that has not left the FIFO.\<close>

theorem uart_delivers:
  assumes "link_reach l" "read_count (lk_uart l) + unat (m_can_send (lk_peer l)) = 16"
    and "map ucast (lk_sent l) = lk_got l @ c # cs"
  shows "\<exists>l1 l2 u b. link_step l l1 \<and> pl011_read initiator_ctrl 0 (lk_uart l1) (lk_peer l1) = Inr (c, u, b)
    \<and> link_step l1 l2 \<and> lk_got l2 = lk_got l @ [c]"
proof -
  have ok: "link_ok l" using link_reach_ok[OF assms(1)] .
  then have rx: "fifo_ok (lk_uart l)" "\<not> m_infinite (lk_peer l)" "m_txn (lk_peer l) = None"
      "read_count (lk_uart l) + unat (m_can_send (lk_peer l)) \<le> 16"
    and cs: "rx_chars (lk_uart l) @ map ucast (m_queue (lk_peer l)) = c # cs"
    using assms(3) by (simp_all add: link_ok_def)
  obtain b u where s: "sendall peer_output (lk_peer l) (lk_uart l) = Inr (b, u)" "fifo_ok u" "\<not> m_infinite b"
    "read_count u + unat (m_can_send b) \<le> 16" "rx_chars u @ map ucast (m_queue b) = c # cs"
    "read_count (lk_uart l) > 0 \<or> m_queue (lk_peer l) \<noteq> [] \<and> m_can_send (lk_peer l) \<noteq> 0 \<longrightarrow> read_count u > 0"
    using peer_send_ok[OF rx] assms(2) cs by auto
  let ?l1 = "l\<lparr>lk_peer := b, lk_uart := u\<rparr>"
  have st: "link_step l ?l1" by (rule Backend_send[OF s(1)])
  have "read_count (lk_uart l) > 0 \<or> m_queue (lk_peer l) \<noteq> [] \<and> m_can_send (lk_peer l) \<noteq> 0"
    using cs assms(2) by (cases "read_count (lk_uart l)") auto
  then have pos: "read_count u > 0" using s(6) by blast
  from pos obtain u' b' where r: "read_dr initiator_ctrl u b = Inr (hd (rx_chars u), u', b')" "read_count u' = read_count u - 1"
    using dr_kept[OF s(2-4)] by blast
  have ne: "rx_chars u \<noteq> []" using pos by (simp add: rx_chars_Nil)
  then have c: "hd (rx_chars u) = c" "take 1 (rx_chars u) = [c]" using s(5) by (cases "rx_chars u"; auto)+
  have rd: "pl011_read initiator_ctrl 0 (lk_uart ?l1) (lk_peer ?l1) = Inr (c, u', b')" using r c by (simp add: pl011_read_def)
  from Guest_read[OF rd] have "link_step ?l1 (?l1\<lparr>lk_uart := u', lk_peer := b', lk_got := lk_got l @ [c]\<rparr>)"
    using r(2) pos c(2) by simp
  then show ?thesis using st rd by force
qed

text \<open>The guest writes \<^verbatim>\<open>UARTLCR_H\<close>, which gives the backend its 16 credits, and the backend is given a character.\<close>

lemma example_link:
  "\<exists>l. link_reach l \<and> lk_sent l = [65] \<and> lk_got l = [] \<and> read_count (lk_uart l) = 0 \<and> m_can_send (lk_peer l) = 16"
proof -
  obtain u b where w: "pl011_write initiator_ctrl 0x2C 0 (lk_uart link_init) (lk_peer link_init) = Inr (u, b)"
    "read_count u = 0" "m_can_send b = 16"
    by (auto simp: pl011_write_def pl011_set_read_trigger_def can_receive_set_def ctrl_simps(2) link_init_def)
  define l1 where "l1 = link_init\<lparr>lk_uart := u, lk_peer := b\<rparr>"
  have "link_step link_init (link_init\<lparr>lk_uart := u, lk_peer := b,
      lk_got := lk_got link_init @ take (read_count (lk_uart link_init) - read_count u) (rx_chars (lk_uart link_init)),
      lk_typed := lk_typed link_init @ (if drop_bit 2 (0x2C :: u64) = 0 then [ucast (0 AND 0xff :: u32)] else [])\<rparr>)"
    by (rule Guest_write[OF w(1)])
  then have "link_reach l1"
    using Step[OF Start] by (simp add: l1_def link_init_def pl011_new_def)
  from Step[OF this Backend_enqueue[of l1 65]] show ?thesis
    using w(2,3) by (intro exI conjI) (auto simp: l1_def link_init_def enqueue_def)
qed

theorem uart_no_character_lost_witness:
  "\<exists>l. link_reach l \<and> lk_got l @ rx_chars (lk_uart l) @ map ucast (m_queue (lk_peer l)) = [65]"
proof -
  obtain l where l: "link_reach l" "lk_sent l = [65]" using example_link by blast
  from uart_no_character_lost[OF l(1)] show ?thesis using l by auto
qed

theorem uart_delivers_witness:
  "\<exists>l l1 l2. link_reach l \<and> link_step l l1 \<and> link_step l1 l2 \<and> lk_got l2 = [65]"
proof -
  obtain l where l: "link_reach l" "lk_sent l = [65]" "lk_got l = []" "read_count (lk_uart l) = 0" "m_can_send (lk_peer l) = 16"
    using example_link by blast
  have "read_count (lk_uart l) + unat (m_can_send (lk_peer l)) = 16" "map ucast (lk_sent l) = lk_got l @ 65 # []"
    using l by simp_all
  from uart_delivers[OF l(1) this] show ?thesis using l by auto
qed

section \<open>Where the code departs from its contract\<close>

text \<open>The last word of the identification range is read behind the array.\<close>

lemma id_read_out_of_bounds: "pl011_read ctl 0x1000 u s = Inl Out_of_bounds"
  by (simp add: pl011_read_def pl011_id_arm_def word_le_nat_alt)

text \<open>A 16-bit read of the control register of a new UART gives \<open>0x00\<close> and one byte of the old buffer,
  not \<open>0x0300\<close>.\<close>

lemma halfword_read_short:
  "pl011_b_transport ctl (gp_init\<lparr>gp_command := Read_command, gp_address := 0x30, gp_data := [0xEE, 0xEE], gp_length := 2\<rparr>)
     d pl011_new s
   = Inr (gp_init\<lparr>gp_command := Read_command, gp_address := 0x30, gp_data := [0, 0xEE], gp_length := 2,
       gp_response := Ok_response\<rparr>, d, pl011_new, s)"
  by (simp add: pl011_b_transport_def pl011_read_def pl011_new_def gp_init_def Let_def)

text \<open>Disabling all interrupts leaves a raised line as it is.\<close>

lemma disabled_irq_stays:
  "\<exists>u'. pl011_write ctl 0x38 0 u s = Inr (u', s) \<and> irq_line (pl011_update_sysc u') = irq_line u"
  by (simp add: pl011_write_def pl011_update_def pl011_update_sysc_def Let_def)

text \<open>A write of the FIFO level empties the FIFO but neither sets the flag for that nor takes back the
  interrupt; the next read still returns the character that was dropped.\<close>

lemma dropped_character_read:
  assumes "fifo_ok u" "\<And>s. ctl (Absolute_value 16) s = Inr s" "read_count u > 0"
  shows "\<exists>u' u''. pl011_write ctl 0x34 v u s = Inr (u', s) \<and> flags u' = flags u \<and> int_level u' = int_level u
    \<and> rx_chars u' = [] \<and> read_dr ctl u' s = Inr (hd (rx_chars u), u'', s)"
proof -
  have "hd (rx_chars u) = read_fifo u ! read_pos u"
    using assms(1,3) by (simp add: rx_chars_def fifo_ok_def hd_map)
  then show ?thesis
    using assms(1,2) by (simp add: pl011_write_def pl011_set_read_trigger_def can_receive_set_def read_dr_def fifo_ok_def Let_def)
qed

end
