(* ===== verification/Spec2Isabelle.thy ===== *)
theory Spec2Isabelle
  imports Router ExclusiveMonitor Addrtr SmmuAccess SmmuCmdq RegBind DmiConverter Pl011
begin

text \<open>
  \<^bold>\<open>The program.\<close> qbox is a library of SystemC/TLM-2.0 components for virtual platforms. Initiators
  send transactions (\<^verbatim>\<open>b_transport\<close>, \<^verbatim>\<open>transport_dbg\<close>) or ask for direct memory pointers
  (\<^verbatim>\<open>get_direct_mem_ptr\<close>) through sockets; routers pass them to targets by address; targets take
  pointers back with \<^verbatim>\<open>invalidate_direct_mem_ptr\<close>. Everything is configured by name through a CCI
  broker. This development models the components under \<^verbatim>\<open>src/systemc-components\<close> that decide which
  byte an access reaches and who may reach it; paths below are relative to that directory.

  \<^bold>\<open>Conventions.\<close> Machine integers are words of their width, so sums and shifts wrap as in the code.
  An operation that can end the simulation (\<^verbatim>\<open>SCP_FATAL\<close>, \<^verbatim>\<open>sc_assert\<close>, a C++ exception, a division by
  zero, an access outside an array) returns \<open>sim_error + _\<close>, with one constructor of \<open>sim_error\<close> per
  kind. State is passed explicitly. What a component calls through a socket is a parameter: a function
  on the payload and an arbitrary state \<open>'s\<close>, which also yields the invalidations that arrive during
  the call. Simulated time is the delay argument in whole units. Trace messages are left out; warnings
  whose condition is worth a statement are returned as lists.

  \<^bold>\<open>Theories, in the order of the components.\<close>

  \<^item> \<open>Prelude\<close>: words, results, list facts and the collections \<open>smap_simps\<close> and \<open>inv_intros\<close>.
    \<open>StdMap\<close>: \<^verbatim>\<open>std::map\<close> as a sorted association list with \<^verbatim>\<open>lower_bound\<close>, \<^verbatim>\<open>upper_bound\<close> and erasure.
    \<open>Tlm\<close>: payload, DMI descriptor and the extensions of \<^verbatim>\<open>common/include/tlm-extensions\<close>.
  \<^item> \<open>RouterIf\<close>: \<^verbatim>\<open>router_if.h\<close>, the description of a bound target and the addresses it claims.
    \<open>AddressMap\<close>: the class \<^verbatim>\<open>addressMap\<close> of \<^verbatim>\<open>router/include/router.h\<close> (\<^verbatim>\<open>add\<close>, \<^verbatim>\<open>find\<close>,
    \<^verbatim>\<open>find_region\<close>, \<^verbatim>\<open>split_and_resolve\<close>). Shown: any sequence of additions resolves every address to
    the covering target of strongest priority, the latest among equals; a reported range resolves
    uniformly; the shadowing warnings are exact.
  \<^item> \<open>AddrMapCache\<close>: the four lookup caches of \<^verbatim>\<open>addrmap_cache_examples.h\<close> and \<^verbatim>\<open>router.h\<close>, against
    the contract \<open>addr_map_cache\<close> that each of them interprets. Shown: a cached lookup answers as the map
    does (for the caches of whole ranges, where ranges are not shadowed); the bound of the LRU cache.
  \<^item> \<open>CciUtils\<close>: \<^verbatim>\<open>cciutils.h\<close> and \<^verbatim>\<open>cciutils.cc\<close>, reading values and hierarchical names.
    \<open>Router\<close>: the class \<^verbatim>\<open>router\<close>: configuration, aliases, transport, direct memory and its
    record of pointers. Shown: transport reaches the resolved target at its own offset and restores
    the payload; a granted window lies in the served range; an invalidation reaches every initiator
    that holds a pointer, where recorded windows do not overlap; initialisation serves the configured
    targets.
  \<^item> \<open>ExclusiveMonitor\<close>: \<^verbatim>\<open>exclusive-monitor.h\<close>. Shown: no assertion fails, by an invariant over all
    runs; an exclusive store that passes pairs with an exclusive load of the same bytes untouched
    since; direct memory avoids locked regions.
  \<^item> \<open>Addrtr\<close>: \<^verbatim>\<open>addrtr.h\<close>, a window moved to another address; exactness in both directions.
  \<^item> \<open>GsMemory\<close>: \<^verbatim>\<open>gs_memory.h\<close>, lazily allocated blocks over an explicit host memory; the allocator is
    a parameter. Shown: reads and writes are those of a flat array whatever the block structure; a
    pointer granted leads to the same bytes; a request that wraps around escapes the range check.
  \<^item> \<open>SmmuRegs\<close>, \<open>SmmuDev\<close>, \<open>SmmuWalk\<close>, \<open>SmmuQueue\<close>, \<open>Smmu\<close>, \<open>SmmuTbu\<close>: \<^verbatim>\<open>smmuv3/include\<close>, in turn the
    generated register file, the device state with table reads and interrupts, the lookup of stream and
    context descriptors with the page-table walk, the queues written by the device, translation with
    its cache, commands and register callbacks, and the front end of a device. \<open>SmmuInv\<close>, \<open>SmmuCmdq\<close>,
    \<open>SmmuAccess\<close> hold the proofs over all of it: the cache invariant of every reachable state, the
    command queue against a one-by-one specification, and an access on a translation miss.
  \<^item> \<open>Registers\<close> and \<open>RegBank\<close>: \<^verbatim>\<open>common/include/registers.h\<close>. A register keeps its value in a memory
    behind a socket; \<open>RegStore\<close> states the contract \<open>reg_store\<close> of such a memory and proves the accesses
    of a register over it. Shown for banks: indices, flat index and byte offset agree.
  \<^item> \<open>RegRouter\<close>: \<^verbatim>\<open>reg_router.h\<close>, callbacks around a register memory; the order of the calls of an
    access, and what an error of a callback stops. \<open>RegBind\<close>: \<^verbatim>\<open>bind_reg\<close> of \<^verbatim>\<open>reg_model_maker.h\<close>; the
    router claims exactly the elements of a bank bound to it.
  \<^item> \<open>RegSystem\<close> and \<open>RegMemory\<close>: a register, the register router and a memory together.
    \<open>RegMemory\<close> interprets \<open>reg_store\<close> on the model of \<open>GsMemory\<close>; the theorem below follows a bus
    write through all three.
  \<^item> \<open>DmiConverter\<close>: \<^verbatim>\<open>dmi_converter.h\<close>, over the contract \<open>dmi_target\<close> of a memory with windows, which
    \<open>reg_store\<close> implies. Shown: its loop ends and an access through it is the access to the memory;
    an invalidation removes exactly the windows that meet the range.
  \<^item> \<open>Biflow\<close>: \<^verbatim>\<open>biflow-socket.h\<close>, sockets for characters with flow control by credits, and their router.
    \<open>Pl011\<close>: \<^verbatim>\<open>uart-pl011.h\<close>, and the transition system of a UART and its backend. Shown, for every
    interleaving: no character is lost or reordered, the FIFO does not overflow, and a waiting character
    can be delivered.

  \<^bold>\<open>Bounds and fuel.\<close> \<open>access_fuel\<close> is 33: a block of memory is divided into four at each level and
  a 64-bit length is below \<open>4 ^ 33\<close>, so the recursion of \<^verbatim>\<open>SubBlock::access\<close> always answers. The calls
  \<^verbatim>\<open>update_irq_levels\<close>, \<^verbatim>\<open>emit_msi\<close>, \<^verbatim>\<open>set_gerror\<close> are mutually recursive; the model unrolls them four
  times, and \<open>update_irq_levels_fuel\<close> shows that more calls change nothing. The page-table walk
  descends at most the levels of the granule, and its nested stage-2 walk does not nest again. The
  command loop, the parser of dimensions and the comparison of banks terminate by a measure; the other
  recursions are structural.

  \<^bold>\<open>Departures from the intent of the code\<close> are stated as lemmas next to the component they concern,
  among them \<open>region_cache_ignores_priority\<close>, \<open>dmi_invalidation_misses_overlap\<close>,
  \<open>memory_wrapping_read_escapes\<close>, \<open>reset_skips_blocks\<close>, \<open>failed_msi_drops_gerror_line\<close>,
  \<open>nested_read_unlocks_write\<close>, \<open>iotlb_hit_keeps_first_offset\<close>, \<open>constructor_drops_mask\<close>,
  \<open>mask_needs_callback\<close>, \<open>copy_ignores_source\<close>, \<open>later_enables_lost\<close>, \<open>router_drops_items\<close> and
  \<open>dropped_character_read\<close>.

  \<^bold>\<open>Not modelled.\<close> Locks and host threads: an operation under a mutex is one step, and the waits of a
  stalled access split it into two. Preset values of register parameters and the locking of presets.
  Memory services, loaders, backends, the monitor and the remote pass are calls into the operating
  system or into libraries that are not part of the sources; quantum keepers and events are the
  scheduling of the SystemC kernel; the module factory, the argument parser and the Python and Lua
  models drive interpreters and constructors by name; the QEMU components set properties of devices of
  the QEMU library. The construction of register modules from a JSON archive needs the archive
  library; only \<^verbatim>\<open>bind_reg\<close> of it is modelled. Generated registers of other devices, platforms, examples and
  tests are outside the model.
\<close>

text \<open>C3. A bus write to a masked register, through the register router, the callbacks of the register
  and the memory behind it: every addressed element gets the new value in the bits its mask lets
  through and keeps its old value in all others, no other byte of the memory changes, and the
  payload comes back with the values stored, its own address and no direct access.\<close>

theorem masked_register_write:
  fixes r :: "'a::len word gs_reg"
  assumes "flat_mem env n x" "reg_ok (unat n) (mem_base x) r"
    and "bus_elems_write r idx k txn" "routes_to rr (gp_address txn) (p_offset r)"
    and "has_fncts f" "\<not> m_in_callback r" "observers (m_pre_write_fncts f)" "observers (m_post_write_fncts f)"
  shows "\<exists>txn' d' x' r'. rr_b_transport b None (reg_sockets (mem_port env) f) txn d rr (x, r) = Inr (txn', d', rr, x', r')
    \<and> gp_response txn' = Ok_response \<and> gp_address txn' = gp_address txn \<and> \<not> gp_dmi_allowed txn'
    \<and> gp_data txn' = bytes_of (elem_vals r (mem_bytes x') (unat idx) k)
    \<and> (\<forall>i < k. elem_val r (mem_bytes x') (unat idx + i) =
         words_of k (gp_data txn) ! i AND p_mask r OR elem_val r (mem_bytes x) (unat idx + i) AND NOT (p_mask r))
    \<and> (\<forall>a. (\<forall>i < k. a < elem_addr r (unat idx + i) \<or> elem_addr r (unat idx + i) + sizeof TYPE('a) \<le> a) \<longrightarrow>
         mem_bytes x' a = mem_bytes x a)"
proof -
  let ?ws = "write_with_mask (p_mask r) (words_of k (gp_data txn)) (elem_vals r (mem_bytes x) (unat idx) k)"
  have "mem_store.at_store env n r x" using assms(1,2) by (simp add: mem_store.at_store_def)
  from mem_store.routed_write[OF this assms(3-8), of b d] obtain d' x' r' where
    w: "rr_b_transport b None (reg_sockets (mem_port env) f) txn d rr (x, r)
      = Inr (txn\<lparr>gp_data := bytes_of ?ws, gp_response := Ok_response, gp_dmi_allowed := False\<rparr>, d', rr, x', r')"
    "mem_bytes x' = put_elems r (unat idx) ?ws (mem_bytes x)" by blast
  have v: "elem_val r (mem_bytes x') (unat idx + i) = ?ws ! i" if "i < k" for i
    using elem_val_put_elems[OF assms(2), of i ?ws "unat idx"] that w(2) by simp
  then have "elem_vals r (mem_bytes x') (unat idx) k = ?ws" by (intro nth_equalityI) simp_all
  moreover have "?ws ! i = words_of k (gp_data txn) ! i AND p_mask r OR elem_val r (mem_bytes x) (unat idx + i) AND NOT (p_mask r)"
    if "i < k" for i
    using that by (simp add: write_with_mask_def)
  moreover have "mem_bytes x' a = mem_bytes x a"
    if "\<forall>i < k. a < elem_addr r (unat idx + i) \<or> elem_addr r (unat idx + i) + sizeof TYPE('a) \<le> a" for a
    using put_elems_outside[of ?ws a r "unat idx"] that w(2) by simp
  ultimately show ?thesis using w(1) v by auto
qed

text \<open>A register of two elements whose low byte alone is writable, in a memory of 256 bytes.\<close>

definition example_register :: "u32 gs_reg" where
  "example_register = set_mask 0xFF (gs_register_new 0x10 2 (- 1))"

definition example_reg_write :: gp where
  "example_reg_write = gp_init\<lparr>gp_command := Write_command, gp_address := 0x14, gp_data := [1, 2, 3, 4],
     gp_length := 4, gp_streaming_width := 4\<rparr>"

definition example_one_reg_router :: reg_router where
  "example_one_reg_router = (reg_router_init ''r'' [])\<lparr>rr_initialized := True,
     rr_mem_targets := [plain_target 0 0 0x100 0], rr_cb_targets := [(0x10, reg_window 1 0x10 8)]\<rparr>"

definition look_only :: "('r, 's) tlm_fnct" where
  "look_only txn d r s = Inr (txn, d, r, s)"

lemma example_register_eq:
  "example_register = \<lparr>pd_dmi = None, p_number = 2, p_offset = 0x10, p_size = 8, p_stride = 4, p_elem_size = 4,
     p_mask = 0xFF, p_relative_addresses = True, m_in_callback = False, captured_txn_data = []\<rparr>"
  by (simp add: example_register_def set_mask_def gs_register_new_def proxy_data_new_def gs_reg_init_def
      proxy.defs proxy_init_def sizeof_def Let_def)

theorem masked_register_write_witness:
  "\<exists>txn' d' x' r'. rr_b_transport (me_broker example_mem_env) None
      (reg_sockets (mem_port example_mem_env) \<lparr>m_pre_read_fncts = [], m_pre_write_fncts = [look_only],
         m_post_read_fncts = [], m_post_write_fncts = []\<rparr>)
      example_reg_write 0 example_one_reg_router (example_flat_store, example_register)
    = Inr (txn', d', example_one_reg_router, x', r')
    \<and> elem_val example_register (mem_bytes x') 1 = 0xAAAAAA01"
proof -
  let ?f = "\<lparr>m_pre_read_fncts = [], m_pre_write_fncts = [look_only], m_post_read_fncts = [], m_post_write_fncts = []\<rparr>"
  have e: "flat_mem example_mem_env 0x100 example_flat_store"
    by (simp add: flat_mem_def flat_block_def example_flat_store_def example_mem_env_def example_mem_cfg_def)
  have r: "reg_ok (unat (0x100 :: u64)) (mem_base example_flat_store) example_register"
    by (simp add: reg_ok_def example_register_eq sizeof_def Let_def)
  have w: "bus_elems_write example_register 1 1 example_reg_write"
    by (simp add: bus_elems_write_def example_register_eq sizeof_def example_reg_write_def gp_init_def Let_def)
  have t: "routes_to example_one_reg_router (gp_address example_reg_write) (p_offset example_register)"
    by (simp add: routes_to_def example_one_reg_router_def reg_router_init_def example_reg_write_def claims_def
        plain_target_def reg_window_def example_register_eq Let_def)
  have f: "has_fncts ?f" "\<not> m_in_callback example_register" "observers (m_pre_write_fncts ?f)" "observers (m_post_write_fncts ?f)"
    by (simp_all add: has_fncts_def observers_def look_only_def example_register_eq)
  have old: "elem_val example_register (mem_bytes example_flat_store) 1 = 0xAAAAAAAA"
    "words_of 1 (gp_data example_reg_write) = [0x04030201 :: u32]" "p_mask example_register = 0xFF"
    by (simp_all add: elem_val_def elem_addr_def bytes_at_def mem_bytes_def example_flat_store_def
        example_register_eq sizeof_def words_of_def example_reg_write_def Let_def upt_rec)
  from masked_register_write[OF e r w t f, of "me_broker example_mem_env" 0] show ?thesis
    by (auto simp: old[unfolded One_nat_def])
qed

end
